(* ===== verification/Prelude.thy ===== *)
theory Prelude
  imports
    Complex_Main
    "HOL-Library.AList"
    "HOL-Library.Multiset"
    "HOL-Library.List_Lexorder"
    "HOL-Library.Product_Lexorder"
    "HOL-Library.Char_ord"
begin

text \<open>
  Shared vocabulary of the development. Python values are read as follows: an unbounded
  \<open>int\<close> is \<open>int\<close>, a \<open>str\<close> is \<open>string\<close>, a \<open>float\<close> clock or ratio is \<open>real\<close> (exact:
  rounding is not modelled), a tuple of integers that is compared lexicographically is an
  \<open>int list\<close> under the order of \<open>List_Lexorder\<close>, an SQL table with a primary key is an
  association list whose keys are distinct, and a \<open>raise\<close> is the left injection of a sum.
  \<open>sorted(xs, key=f)\<close> is \<open>sort_key f xs\<close> (both are stable).
\<close>

named_theorems conserve \<open>a successful operation keeps the total of money or chips\<close>
named_theorems keeps_wf \<open>a successful operation keeps the well-formedness invariant\<close>

section \<open>Results\<close>

type_synonym uid = string

definition bindR :: "'e + 'a \<Rightarrow> ('a \<Rightarrow> 'e + 'b) \<Rightarrow> 'e + 'b" where
  "bindR x f = (case x of Inl e \<Rightarrow> Inl e | Inr a \<Rightarrow> f a)"

definition check :: "bool \<Rightarrow> 'e \<Rightarrow> 'e + unit" where
  "check ok e = (if ok then Inr () else Inl e)"

lemma bindR_simps [simp]: "bindR (Inl e) f = Inl e" "bindR (Inr a) f = f a"
  by (simp_all add: bindR_def)

lemma bindR_Inr [simp]: "bindR x f = Inr b \<longleftrightarrow> (\<exists>a. x = Inr a \<and> f a = Inr b)"
  by (cases x) auto

lemma bindR_InrE: "bindR x f = Inr b \<Longrightarrow> (\<And>a. x = Inr a \<Longrightarrow> f a = Inr b \<Longrightarrow> P) \<Longrightarrow> P"
  by auto

lemma check_Inr [simp]: "check ok e = Inr u \<longleftrightarrow> ok"
  by (simp add: check_def)

lemma check_True [simp]: "check True e = Inr ()"
  by (simp add: check_def)

lemma check_False [simp]: "check False e = Inl e"
  by (simp add: check_def)

lemma Inr_if [simp]:
  "(if c then Inl e else x) = Inr b \<longleftrightarrow> \<not> c \<and> x = Inr b"
  by auto

text \<open>The prefix of a list of fallible steps: the first error stops the run.\<close>

fun runR :: "('s \<Rightarrow> 'o \<Rightarrow> 'e + 's) \<Rightarrow> 's \<Rightarrow> 'o list \<Rightarrow> 'e + 's" where
  "runR f s [] = Inr s"
| "runR f s (x # xs) = bindR (f s x) (\<lambda>t. runR f t xs)"

lemma runR_invariant:
  assumes "runR f s xs = Inr t" and "P s"
    and "\<And>s x t. P s \<Longrightarrow> f s x = Inr t \<Longrightarrow> P t"
  shows "P t"
  using assms(1,2)
proof (induction xs arbitrary: s)
  case Nil
  then show ?case by simp
next
  case (Cons x xs)
  then show ?case using assms(3) by (auto split: sum.splits)
qed

text \<open>
  The contract of a component that moves money or chips: an accepted operation keeps its invariant and the total.
  Every game and every account book of the library is an interpretation.
\<close>

locale accounting =
  fixes step :: "'s \<Rightarrow> 'o \<Rightarrow> 'e + 's" and ok :: "'s \<Rightarrow> bool" and worth :: "'s \<Rightarrow> int"
  assumes step_ok: "ok s \<Longrightarrow> step s x = Inr t \<Longrightarrow> ok t"
    and step_worth: "ok s \<Longrightarrow> step s x = Inr t \<Longrightarrow> worth t = worth s"
begin

lemma run_ok: "runR step s xs = Inr t \<Longrightarrow> ok s \<Longrightarrow> ok t"
  by (erule runR_invariant) (auto intro: step_ok)

lemma run_worth:
  assumes "runR step s xs = Inr t" "ok s"
  shows "worth t = worth s"
  using runR_invariant [where P = "\<lambda>u. ok u \<and> worth u = worth s", OF assms(1)] assms(2) step_ok step_worth
  by metis

text \<open>Nothing is won that somebody else does not lose: two states reached from the same start are worth the same.\<close>

lemma runs_agree:
  "runR step s xs = Inr t \<Longrightarrow> runR step s ys = Inr u \<Longrightarrow> ok s \<Longrightarrow> worth t = worth u"
  by (metis run_worth)

end

section \<open>Tables with a primary key\<close>

declare map_of_eq_Some_iff [simp del]

abbreviation put :: "'k \<Rightarrow> 'v \<Rightarrow> ('k \<times> 'v) list \<Rightarrow> ('k \<times> 'v) list" where
  "put \<equiv> AList.update"

abbreviation keyed :: "('k \<times> 'v) list \<Rightarrow> bool" where
  "keyed al \<equiv> distinct (map fst al)"

definition asum :: "('v \<Rightarrow> int) \<Rightarrow> ('k \<times> 'v) list \<Rightarrow> int" where
  "asum f al = sum_list (map (\<lambda>p. f (snd p)) al)"

lemma asum_simps [simp]: "asum f [] = 0" "asum f (p # al) = f (snd p) + asum f al"
  by (simp_all add: asum_def)

lemma asum_put:
  "keyed al \<Longrightarrow>
   asum f (put k v al) = asum f al + f v - (case map_of al k of None \<Rightarrow> 0 | Some w \<Rightarrow> f w)"
  by (induction al) (auto split: option.splits)

lemma keyed_put [simp]: "keyed al \<Longrightarrow> keyed (put k v al)"
  by (simp add: distinct_update)

lemma map_of_put [simp]: "map_of (put k v al) l = (if l = k then Some v else map_of al l)"
  by (simp add: update_conv')

lemma put_members: "p \<in> set (put k v al) \<Longrightarrow> p = (k, v) \<or> p \<in> set al"
  by (induction al) (auto split: if_splits)

lemma put_keys: "fst ` set (put k v al) = insert k (fst ` set al)"
  using dom_map_of_conv_image_fst [of "put k v al"] dom_map_of_conv_image_fst [of al] by (auto simp: update_conv')

lemma map_of_key: "map_of al k = Some v \<Longrightarrow> k \<in> fst ` set al"
  by (force dest: map_of_SomeD)

section \<open>Sums over lists\<close>

lemma sum_list_filter_split:
  "sum_list (map f xs) =
   sum_list (map f (filter P xs)) + sum_list (map f (filter (\<lambda>x. \<not> P x) xs))"
  for f :: "'a \<Rightarrow> int"
  by (induction xs) auto

lemma sum_list_map_if_filter:
  "sum_list (map (\<lambda>x. if P x then f x else 0) xs) = sum_list (map f (filter P xs))"
  for f :: "'a \<Rightarrow> int"
  by (induction xs) auto

lemma sum_list_const [simp]: "sum_list (map (\<lambda>_. c) xs) = int (length xs) * c"
  for c :: int
  by (induction xs) (auto simp: algebra_simps)

lemma sum_list_int_nonneg: "\<forall>x\<in>set xs. 0 \<le> f x \<Longrightarrow> 0 \<le> sum_list (map f xs)"
  for f :: "'a \<Rightarrow> int"
  by (induction xs) auto

lemma sum_list_elem_le:
  "x \<in> set xs \<Longrightarrow> \<forall>y\<in>set xs. 0 \<le> f y \<Longrightarrow> f x \<le> sum_list (map f xs)"
  for f :: "'a \<Rightarrow> int"
  by (induction xs) (auto dest: sum_list_int_nonneg)

text \<open>Handing one extra unit to the first \<open>r\<close> of \<open>n\<close> shares: the odd chips of a split pot.\<close>

lemma sum_list_first_ones:
  "0 \<le> r \<Longrightarrow> r \<le> int n \<Longrightarrow> sum_list (map (\<lambda>i. if int i < r then 1 else 0) [0..<n]) = r"
proof (induction n arbitrary: r)
  case 0
  then show ?case by simp
next
  case (Suc n)
  show ?case
  proof (cases "r \<le> int n")
    case True
    with Suc show ?thesis by simp
  next
    case False
    with Suc.prems have r: "r = int n + 1" by simp
    have "sum_list (map (\<lambda>i. if int i < r then 1 else 0) [0..<n]) = sum_list (map (\<lambda>_. 1 :: int) [0..<n])"
      by (rule arg_cong [where f = sum_list], rule map_cong) (auto simp: r)
    then show ?thesis by (simp add: r)
  qed
qed

lemma sum_list_shares:
  assumes "0 < n"
  shows "sum_list (map (\<lambda>i. t div int n + (if int i < t mod int n then 1 else 0)) [0..<n]) = t"
proof -
  have "0 \<le> t mod int n" "t mod int n \<le> int n"
    using assms by (simp_all add: less_imp_le)
  then have "sum_list (map (\<lambda>i. if int i < t mod int n then 1 else 0) [0..<n]) = t mod int n"
    by (rule sum_list_first_ones)
  then have "sum_list (map (\<lambda>i. t div int n + (if int i < t mod int n then 1 else 0)) [0..<n])
      = int n * (t div int n) + t mod int n"
    by (simp add: sum_list_addf)
  then show ?thesis by simp
qed

section \<open>Sorted and enumerated lists\<close>

lemma sort_key_Nil_iff [simp]: "sort_key f xs = [] \<longleftrightarrow> xs = []"
  by (metis length_0_conv length_sort)

lemma map_enumerate_fst: "map (\<lambda>x. g (fst x)) (List.enumerate 0 xs) = map g [0..<length xs]"
proof -
  have "map g (map fst (List.enumerate 0 xs)) = map g [0..<length xs]"
    by (simp del: map_map)
  then show ?thesis unfolding map_map comp_def .
qed

lemma find_SomeD: "find P xs = Some x \<Longrightarrow> x \<in> set xs \<and> P x"
  by (auto simp: find_Some_iff)

lemma find_NoneD: "find P xs = None \<Longrightarrow> x \<in> set xs \<Longrightarrow> \<not> P x"
  by (auto simp: find_None_iff)

lemma ex_maximal:
  fixes v :: "'a \<Rightarrow> 'b::linorder"
  shows "xs \<noteq> [] \<Longrightarrow> \<exists>p \<in> set xs. \<forall>q \<in> set xs. v q \<le> v p"
proof -
  assume "xs \<noteq> []"
  then have "Max (v ` set xs) \<in> v ` set xs" by (intro Max_in) auto
  then obtain p where "p \<in> set xs" "v p = Max (v ` set xs)" by auto
  then show ?thesis by (auto intro!: bexI [of _ p])
qed

section \<open>Python text helpers\<close>

definition py_space :: "char \<Rightarrow> bool" where
  "py_space c \<longleftrightarrow> (let n = of_char c :: nat in (9 \<le> n \<and> n \<le> 13) \<or> (28 \<le> n \<and> n \<le> 32))"

definition py_strip :: "string \<Rightarrow> string" where
  "py_strip s = rev (dropWhile py_space (rev (dropWhile py_space s)))"

definition clamp :: "int \<Rightarrow> int \<Rightarrow> int \<Rightarrow> int" where
  "clamp lo hi x = max lo (min x hi)"

end
