(* ===== verification/HoldemCards.thy ===== *)
theory HoldemCards
  imports Prelude
begin

text \<open>
  Card ranking of \<^verbatim>\<open>backend/app/modules/holdem_engine.py\<close>. A card is
  \<open>suit * 13 + rank - 2\<close>; a strength is the tuple the code compares, an \<open>int list\<close> under the
  lexicographic order. The Chinese names are constructors. The \<open>type(x) is int\<close> checks of the code
  hold by typing.
\<close>

datatype engine_error =
    BadCards | CardClash | PlayerCount | BadSeat | BadName | BadStack | BadButton | BadBlinds
  | OffTurn | UnsupportedAction | BadAmount | BetOrRaise | RaiseNotOpen | RaiseSize | AmountForbidden
  | CannotCheck | NothingToCall | CannotAllIn | NotFinished | NoWinner

datatype hand_name = HighCard | OnePair | TwoPair | Trips | Straight | Flush | FullHouse | Quads
  | StraightFlush | RoyalFlush

definition card_rank :: "int \<Rightarrow> int" where
  "card_rank c = c mod 13 + 2"

definition card_suit :: "int \<Rightarrow> int" where
  "card_suit c = c div 13"

definition valid_cards :: "int list \<Rightarrow> nat set \<Rightarrow> bool" where
  "valid_cards cards sizes \<longleftrightarrow>
     length cards \<in> sizes \<and> (\<forall>c \<in> set cards. 0 \<le> c \<and> c \<le> 51) \<and> distinct cards"

definition straight_top :: "int list \<Rightarrow> int" where
  "straight_top ranks =
     (if ranks ! 0 = ranks ! 1 + 1 \<and> ranks ! 1 + 1 = ranks ! 2 + 2 \<and> ranks ! 2 + 2 = ranks ! 3 + 3
         \<and> ranks ! 3 + 3 = ranks ! 4 + 4 then ranks ! 0
      else if ranks = [14, 5, 4, 3, 2] then 5 else 0)"

text \<open>The dictionary of counts, sorted by (count, rank) downwards.\<close>

definition rank_groups :: "int list \<Rightarrow> (nat \<times> int) list" where
  "rank_groups ranks = rev (sort (map (\<lambda>r. (count_list ranks r, r)) (remdups ranks)))"

definition is_flush :: "int list \<Rightarrow> bool" where
  "is_flush cards \<longleftrightarrow> (\<forall>c \<in> set (tl cards). card_suit c = card_suit (hd cards))"

definition five_rank :: "int list \<Rightarrow> int list" where
  "five_rank cards =
     (let ranks = rev (sort (map card_rank cards));
          flush = is_flush cards;
          straight = straight_top ranks in
      if flush \<and> straight \<noteq> 0 then [8, straight]
      else if flush then 5 # ranks
      else if straight \<noteq> 0 then [4, straight]
      else if length (remdups ranks) = 5 then 0 # ranks
      else
        let groups = rank_groups ranks; shape = map fst groups; ordered = map snd groups in
        if shape = [4, 1] then 7 # ordered
        else if shape = [3, 2] then 6 # ordered
        else if shape = [3, 1, 1] then 3 # ordered
        else if shape = [2, 2, 1] then 2 # ordered
        else 1 # ordered)"

definition hand_name :: "int list \<Rightarrow> hand_name" where
  "hand_name rank =
     (if rank = [8, 14] then RoyalFlush
      else [HighCard, OnePair, TwoPair, Trips, Straight, Flush, FullHouse, Quads, StraightFlush]
             ! nat (hd rank))"

text \<open>\<open>itertools.combinations\<close>: position subsets in lexicographic order.\<close>

fun combinations :: "nat \<Rightarrow> 'a list \<Rightarrow> 'a list list" where
  "combinations 0 xs = [[]]"
| "combinations (Suc k) [] = []"
| "combinations (Suc k) (x # xs) = map ((#) x) (combinations k xs) @ combinations (Suc k) xs"

text \<open>The scan that keeps the first strictly stronger subset.\<close>

fun best_scan :: "(int list \<times> int list) \<Rightarrow> int list list \<Rightarrow> int list \<times> int list" where
  "best_scan best [] = best"
| "best_scan (best_rank, best_cards) (five # rest) =
     (let rank = five_rank five in
      best_scan (if best_rank < rank then (rank, five) else (best_rank, best_cards)) rest)"

definition best_hand :: "int list \<Rightarrow> engine_error + int list \<times> hand_name \<times> int list" where
  "best_hand cards =
     (if \<not> valid_cards cards {5, 6, 7} then Inl BadCards
      else let ordered = sort cards in
        if length ordered = 5 then
          (let rank = five_rank ordered in Inr (rank, hand_name rank, ordered))
        else
          (let (rank, five) = best_scan ([-1], []) (combinations 5 ordered)
           in Inr (rank, hand_name rank, five)))"

text \<open>The label of a rank: J, Q, K, A or the number itself.\<close>

datatype rank_label = J | Q | K | A | Num int

definition rank_label :: "int \<Rightarrow> rank_label" where
  "rank_label v = (if v = 11 then J else if v = 12 then Q else if v = 13 then K
                   else if v = 14 then A else Num v)"

datatype hint = Plain hand_name | AndHint hand_name rank_label rank_label
  | WithHint hand_name rank_label rank_label | HighHint hand_name rank_label | OneHint hand_name rank_label

definition hand_hint :: "int list \<Rightarrow> int list \<Rightarrow> engine_error + hint" where
  "hand_hint hole board =
     (if \<not> valid_cards hole {2} then Inl BadCards
      else if \<not> valid_cards board {0, 3, 4, 5} then Inl BadCards
      else if \<not> distinct (hole @ board) then Inl CardClash
      else
        bindR (if board \<noteq> [] then bindR (best_hand (hole @ board)) (\<lambda>(r, n, _). Inr (r, n))
               else let ranks = rev (sort (map card_rank hole));
                        rank = (if ranks ! 0 = ranks ! 1 then [1, ranks ! 0] else 0 # ranks)
                    in Inr (rank, hand_name rank)) (\<lambda>(rank, name).
        let labels = map rank_label (tl rank) in
        Inr (if rank = [8, 14] then Plain name
             else if hd rank = 2 then AndHint name (labels ! 0) (labels ! 1)
             else if hd rank = 6 then WithHint name (labels ! 0) (labels ! 1)
             else if hd rank \<in> {4, 5, 8} then HighHint name (labels ! 0)
             else OneHint name (labels ! 0))))"

section \<open>Combinations and the scan\<close>

lemma combinations_length: "c \<in> set (combinations k xs) \<Longrightarrow> length c = k"
  by (induction k xs arbitrary: c rule: combinations.induct) auto

lemma combinations_subset: "c \<in> set (combinations k xs) \<Longrightarrow> set c \<subseteq> set xs"
  by (induction k xs arbitrary: c rule: combinations.induct) (auto, blast+)

lemma combinations_distinct: "c \<in> set (combinations k xs) \<Longrightarrow> distinct xs \<Longrightarrow> distinct c"
  by (induction k xs arbitrary: c rule: combinations.induct)
    (auto dest: subsetD [OF combinations_subset])

lemma combinations_sorted: "c \<in> set (combinations k xs) \<Longrightarrow> sorted xs \<Longrightarrow> sorted c"
  for xs :: "int list"
  by (induction k xs arbitrary: c rule: combinations.induct)
    (auto, meson combinations_subset subsetD)

lemma combinations_complete: "k \<le> length xs \<Longrightarrow> combinations k xs \<noteq> []"
proof (induction k xs rule: combinations.induct)
  case (3 k x xs)
  then show ?case by (cases "k \<le> length xs") auto
qed auto

text \<open>Every subset of a sorted duplicate-free list, listed upwards, is one of its combinations.\<close>

lemma combinations_all:
  "sorted xs \<Longrightarrow> distinct xs \<Longrightarrow> sorted c \<Longrightarrow> distinct c \<Longrightarrow> set c \<subseteq> set xs \<Longrightarrow> length c = k \<Longrightarrow>
   c \<in> set (combinations k xs)"
  for xs :: "int list"
proof (induction k xs arbitrary: c rule: combinations.induct)
  case (3 k x xs)
  from 3(8) obtain y ys where c: "c = y # ys" by (cases c) auto
  show ?case
  proof (cases "y = x")
    case True
    with 3 c have "ys \<in> set (combinations k xs)" by auto
    with True c show ?thesis by simp
  next
    case False
    have "x \<notin> set c"
    proof
      assume "x \<in> set c"
      with False c 3 have "y < x" by (auto simp: less_le)
      with 3 c False show False by fastforce
    qed
    with 3 have "c \<in> set (combinations (Suc k) xs)" by auto
    then show ?thesis by simp
  qed
qed auto

lemma best_scan_fst: "fst (best_scan (r, c) fs) = fold (\<lambda>f r. max r (five_rank f)) fs r"
  by (induction fs arbitrary: r c) (auto simp: Let_def max_def)

lemma best_scan_upper: "f \<in> set fs \<Longrightarrow> five_rank f \<le> fst (best_scan b fs)"
  and best_scan_lower: "fst b \<le> fst (best_scan b fs)"
proof -
  have low: "r \<le> fold (\<lambda>f r. max r (five_rank f)) fs r" for r fs
  proof (induction fs arbitrary: r)
    case (Cons a fs)
    have "r \<le> max r (five_rank a)" by simp
    also have "\<dots> \<le> fold (\<lambda>f r. max r (five_rank f)) fs (max r (five_rank a))" by (rule Cons)
    finally show ?case by simp
  qed simp
  have up: "f \<in> set fs \<Longrightarrow> five_rank f \<le> fold (\<lambda>f r. max r (five_rank f)) fs r" for r
  proof (induction fs arbitrary: r)
    case (Cons a fs)
    then show ?case
    proof (cases "f = a")
      case True
      have "five_rank a \<le> max r (five_rank a)" by simp
      also have "\<dots> \<le> fold (\<lambda>f r. max r (five_rank f)) fs (max r (five_rank a))" by (rule low)
      finally show ?thesis using True by simp
    qed auto
  qed simp
  show "f \<in> set fs \<Longrightarrow> five_rank f \<le> fst (best_scan b fs)"
    using up by (cases b) (simp add: best_scan_fst)
  show "fst b \<le> fst (best_scan b fs)" using low by (cases b) (simp add: best_scan_fst)
qed

lemma best_scan_in:
  "best_scan (r0, c0) fs = (r, c) \<Longrightarrow>
   (r, c) = (r0, c0) \<or> (c \<in> set fs \<and> r = five_rank c \<and> r0 < r)"
proof (induction fs arbitrary: r0 c0)
  case (Cons a fs)
  then show ?case by (fastforce simp: Let_def split: if_splits)
qed simp

text \<open>Of equally strong subsets the first of the scan is kept.\<close>

lemma best_scan_first:
  "best_scan (r0, c0) fs = (r, c) \<Longrightarrow> r0 < r \<Longrightarrow>
   \<exists>us vs. fs = us @ c # vs \<and> (\<forall>u \<in> set us. five_rank u < r)"
proof (induction fs arbitrary: r0 c0)
  case (Cons a fs)
  show ?case
  proof (cases "r0 < five_rank a")
    case True
    then have s: "best_scan (five_rank a, a) fs = (r, c)" using Cons.prems by simp
    show ?thesis
    proof (cases "five_rank a < r")
      case True
      then obtain us vs where "fs = us @ c # vs" "\<forall>u \<in> set us. five_rank u < r"
        using Cons.IH [OF s] by blast
      then have "a # fs = (a # us) @ c # vs \<and> (\<forall>u \<in> set (a # us). five_rank u < r)"
        using True by simp
      then show ?thesis by blast
    next
      case False
      then have "c = a" using best_scan_in [OF s] by auto
      then show ?thesis by (metis append_Nil empty_iff empty_set)
    qed
  next
    case False
    then have "best_scan (r0, c0) fs = (r, c)" using Cons.prems(1) by simp
    from Cons.IH [OF this Cons.prems(2)]
    obtain us vs where "fs = us @ c # vs" "\<forall>u \<in> set us. five_rank u < r" by blast
    then have "a # fs = (a # us) @ c # vs \<and> (\<forall>u \<in> set (a # us). five_rank u < r)"
      using False Cons.prems(2) by (auto simp: not_less)
    then show ?thesis by blast
  qed
qed simp

lemma five_rank_pos: "[-1] < five_rank f"
  by (auto simp: five_rank_def Let_def)

lemma five_rank_head: "hd (five_rank f) \<in> {0..8} \<and> five_rank f \<noteq> []"
  by (simp add: five_rank_def Let_def)

section \<open>Properties\<close>

text \<open>C7. The best hand of five to seven distinct cards is the strongest of all its five-card subsets: the
  reported strength is that of the returned five, which are ascending distinct cards of the input, no
  five cards of the input are stronger, and the answer does not depend on the input order.\<close>

theorem best_hand_strongest:
  assumes "valid_cards cards {5, 6, 7}"
  shows "\<exists>rank five. best_hand cards = Inr (rank, hand_name rank, five) \<and> rank = five_rank five \<and>
    length five = 5 \<and> sorted five \<and> distinct five \<and> set five \<subseteq> set cards \<and>
    (\<forall>other. length other = 5 \<longrightarrow> sorted other \<longrightarrow> distinct other \<longrightarrow> set other \<subseteq> set cards \<longrightarrow>
       five_rank other \<le> rank) \<and>
    (\<forall>cards'. mset cards' = mset cards \<longrightarrow> best_hand cards' = best_hand cards)"
proof -
  have d: "distinct cards" using assms by (simp add: valid_cards_def)
  have perm: "best_hand cards' = best_hand cards" if "mset cards' = mset cards" for cards'
  proof -
    have "sort cards' = sort cards" using that by (metis mset_sort properties_for_sort sorted_sort)
    moreover have "valid_cards cards' {5, 6, 7} \<longleftrightarrow> valid_cards cards {5, 6, 7}"
      using that by (metis mset_eq_imp_distinct_iff mset_eq_length mset_eq_setD valid_cards_def)
    ultimately show ?thesis by (simp add: best_hand_def)
  qed
  show ?thesis
  proof (cases "length cards = 5")
    case True
    have "other = sort cards" if "length other = 5" "sorted other" "distinct other" "set other \<subseteq> set cards" for other
    proof -
      have "card (set other) = card (set cards)" using that d True by (simp add: distinct_card)
      then have "set other = set (sort cards)" using that(4) by (simp add: card_subset_eq)
      then show ?thesis using that d by (metis distinct_sort sorted_distinct_set_unique sorted_sort)
    qed
    then have "\<forall>other. length other = 5 \<longrightarrow> sorted other \<longrightarrow> distinct other \<longrightarrow> set other \<subseteq> set cards \<longrightarrow>
        five_rank other \<le> five_rank (sort cards)" by blast
    moreover have "best_hand cards = Inr (five_rank (sort cards), hand_name (five_rank (sort cards)), sort cards)"
      using assms True by (simp add: best_hand_def Let_def)
    moreover have "length (sort cards) = 5" "sorted (sort cards)" "distinct (sort cards)" "set (sort cards) \<subseteq> set cards"
      using True d by simp_all
    ultimately show ?thesis using perm by blast
  next
    case False
    let ?cs = "combinations 5 (sort cards)"
    obtain rank five where bs: "best_scan ([-1], []) ?cs = (rank, five)"
      by (cases "best_scan ([-1], []) ?cs")
    have "5 \<le> length (sort cards)" using assms by (auto simp: valid_cards_def)
    then obtain c where c: "c \<in> set ?cs" using combinations_complete by (metis list.set_sel(1))
    have up: "\<forall>f \<in> set ?cs. five_rank f \<le> rank" using best_scan_upper [of _ ?cs "([-1], [])"] bs by simp
    have "rank \<noteq> [-1]" using up c five_rank_pos [of c] by fastforce
    then have f: "five \<in> set ?cs" "rank = five_rank five" using best_scan_in [OF bs] by auto
    have all: "five_rank other \<le> rank"
      if "length other = 5" "sorted other" "distinct other" "set other \<subseteq> set cards" for other
      using up combinations_all [of "sort cards" other 5] that d by simp
    have "best_hand cards = Inr (rank, hand_name rank, five)"
      using assms False bs by (simp add: best_hand_def Let_def)
    moreover have "length five = 5" "sorted five" "distinct five" "set five \<subseteq> set cards"
      using d combinations_length [OF f(1)] combinations_subset [OF f(1)]
        combinations_distinct [OF f(1)] combinations_sorted [OF f(1)] by simp_all
    ultimately show ?thesis using f(2) all perm by blast
  qed
qed

theorem best_hand_strongest_witness:
  "valid_cards [12, 25, 0, 1, 2, 3, 38] {5, 6, 7} \<and>
   (\<exists>rank five. best_hand [12, 25, 0, 1, 2, 3, 38] = Inr (rank, hand_name rank, five) \<and> rank = five_rank five)"
proof -
  have v: "valid_cards [12, 25, 0, 1, 2, 3, 38] {5, 6, 7}" by (simp add: valid_cards_def)
  from best_hand_strongest [OF v] v show ?thesis by blast
qed

text \<open>Suits never break ties: renaming the four suits by any injective map leaves the strength of five
  cards unchanged.\<close>

theorem five_rank_suit_blind:
  assumes "cards \<noteq> []" and "inj_on f (card_suit ` set cards)"
  shows "five_rank (map (\<lambda>c. f (card_suit c) * 13 + c mod 13) cards) = five_rank cards"
proof -
  let ?g = "\<lambda>c. f (card_suit c) * 13 + c mod 13"
  have r: "card_rank (?g c) = card_rank c" for c by (simp add: card_rank_def)
  have s: "card_suit (?g c) = f (card_suit c)" for c by (simp add: card_suit_def)
  have ranks: "map card_rank (map ?g cards) = map card_rank cards" using r by simp
  have flush: "is_flush (map ?g cards) \<longleftrightarrow> is_flush cards"
  proof -
    obtain x xs where c: "cards = x # xs" using assms(1) by (cases cards) auto
    have "f (card_suit y) = f (card_suit x) \<longleftrightarrow> card_suit y = card_suit x" if "y \<in> set xs" for y
      using inj_on_eq_iff [OF assms(2), of "card_suit y" "card_suit x"] that by (simp add: c)
    then show ?thesis by (simp add: is_flush_def c s)
  qed
  show ?thesis unfolding five_rank_def ranks flush ..
qed

theorem five_rank_suit_blind_witness:
  "five_rank (map (\<lambda>c. (3 - card_suit c) * 13 + c mod 13) [0, 13, 5, 18, 7]) = five_rank [0, 13, 5, 18, 7]"
  using five_rank_suit_blind [of "[0, 13, 5, 18, 7]" "\<lambda>s. 3 - s"] by (simp add: inj_on_def)

end
