(* ===== verification/PotSplit.thy ===== *)
theory PotSplit
  imports Prelude
begin

text \<open>
  \<open>fair_split\<close> of \<^verbatim>\<open>backend/app/modules/play_rounds.py\<close>: an equal split whose odd
  units go to the winners in the order of an HMAC of their ids. The digest
  (\<open>hmac.new(secret, uid, sha256)\<close>) is a parameter: nothing here depends on its values. The locale
  \<open>pot_split\<close> is what the games rely on when they hand a pot to its winners.
\<close>

locale pot_split =
  fixes split :: "int \<Rightarrow> 'w list \<Rightarrow> 'e + ('w \<times> int) list"
  assumes split_ok: "ws \<noteq> [] \<Longrightarrow> \<exists>aw. split t ws = Inr aw"
    and split_sum: "split t ws = Inr aw \<Longrightarrow> sum_list (map snd aw) = t"
    and split_keys: "split t ws = Inr aw \<Longrightarrow> mset (map fst aw) = mset ws"
    and split_nonneg: "split t ws = Inr aw \<Longrightarrow> 0 \<le> t \<Longrightarrow> p \<in> set aw \<Longrightarrow> 0 \<le> snd p"
begin

lemma split_set: "split t ws = Inr aw \<Longrightarrow> fst ` set aw = set ws"
  by (metis list.set_map mset_eq_setD split_keys)

lemma split_distinct: "split t ws = Inr aw \<Longrightarrow> distinct ws \<Longrightarrow> distinct (map fst aw)"
  by (metis mset_eq_imp_distinct_iff split_keys)

text \<open>Paid out of a table of players that lists every winner once, the awards add up to the pot.\<close>

lemma awards_total:
  assumes s: "split t ws = Inr aw" and ws: "distinct ws" "distinct ps" "set ws \<subseteq> set ps"
  shows "sum_list (map (\<lambda>p. case map_of aw p of None \<Rightarrow> 0 | Some a \<Rightarrow> a) ps) = t"
proof -
  let ?g = "\<lambda>p. case map_of aw p of None \<Rightarrow> 0 | Some a \<Rightarrow> a"
  have d: "distinct (map fst aw)" using split_distinct [OF s ws(1)] .
  have eq: "?g (fst x) = snd x" if "x \<in> set aw" for x
    using map_of_is_SomeI [OF d, of "fst x" "snd x"] that by simp
  have "sum_list (map ?g ps) = (\<Sum>p\<in>set ps. ?g p)"
    using ws(2) by (simp add: sum_list_distinct_conv_sum_set)
  also have "\<dots> = (\<Sum>p\<in>set ws. ?g p)"
  proof (rule sum.mono_neutral_right)
    show "\<forall>i\<in>set ps - set ws. ?g i = 0"
    proof
      fix i assume "i \<in> set ps - set ws"
      then have "i \<notin> fst ` set aw" using split_set [OF s] by auto
      then have "map_of aw i = None" by (simp add: map_of_eq_None_iff)
      then show "?g i = 0" by simp
    qed
  qed (use ws(3) in auto)
  also have "\<dots> = (\<Sum>p\<in>set (map fst aw). ?g p)" using split_set [OF s] by simp
  also have "\<dots> = sum_list (map ?g (map fst aw))"
    using sum_list_distinct_conv_sum_set [OF d, of ?g] by simp
  also have "map ?g (map fst aw) = map snd aw" using eq by simp
  finally show ?thesis using split_sum [OF s] by simp
qed

end

datatype split_error = ZeroDivision

definition fair_split ::
    "('w \<Rightarrow> 'd::linorder) \<Rightarrow> int \<Rightarrow> 'w list \<Rightarrow> split_error + ('w \<times> int) list" where
  "fair_split mac pot winners =
     (let ordered = sort_key mac winners; n = int (length ordered) in
      if n = 0 then Inl ZeroDivision
      else Inr (map (\<lambda>(i, w). (w, pot div n + (if int i < pot mod n then 1 else 0)))
                  (List.enumerate 0 ordered)))"

lemma fair_split_Inr:
  "fair_split mac t ws = Inr aw \<longleftrightarrow> ws \<noteq> [] \<and>
   aw = map (\<lambda>(i, w). (w, t div int (length ws) + (if int i < t mod int (length ws) then 1 else 0)))
          (List.enumerate 0 (sort_key mac ws))"
  by (auto simp: fair_split_def Let_def)

lemma fst_fair_split: "fair_split mac t ws = Inr aw \<Longrightarrow> map fst aw = sort_key mac ws"
  by (auto simp: fair_split_Inr comp_def case_prod_beta)

lemma snd_fair_split:
  "fair_split mac t ws = Inr aw \<Longrightarrow>
   map snd aw = map (\<lambda>i. t div int (length ws) + (if int i < t mod int (length ws) then 1 else 0)) [0..<length ws]"
proof -
  assume "fair_split mac t ws = Inr aw"
  then have "map snd aw = map (\<lambda>x. t div int (length ws) + (if int (fst x) < t mod int (length ws) then 1 else 0))
      (List.enumerate 0 (sort_key mac ws))"
    by (auto simp: fair_split_Inr comp_def case_prod_beta)
  then show ?thesis
    by (simp only: map_enumerate_fst
      [where g = "\<lambda>i. t div int (length ws) + (if int i < t mod int (length ws) then 1 else 0)"] length_sort)
qed

interpretation fair: pot_split "fair_split mac" for mac :: "'w \<Rightarrow> 'd::linorder"
proof unfold_locales
  fix ws :: "'w list" and t
  assume "ws \<noteq> []"
  then show "\<exists>aw. fair_split mac t ws = Inr aw" by (simp add: fair_split_Inr)
next
  fix ws :: "'w list" and t aw
  assume s: "fair_split mac t ws = Inr aw"
  then have "0 < length ws" by (simp add: fair_split_Inr)
  then show "sum_list (map snd aw) = t"
    unfolding snd_fair_split [OF s] by (rule sum_list_shares)
next
  fix ws :: "'w list" and t aw
  assume s: "fair_split mac t ws = Inr aw"
  then show "mset (map fst aw) = mset ws" using fst_fair_split [OF s] by simp
next
  fix ws :: "'w list" and t aw p
  assume s: "fair_split mac t ws = Inr aw" and t: "0 \<le> t" "p \<in> set aw"
  then have "snd p \<in> set (map snd aw)" by auto
  moreover have "0 \<le> t div int (length ws)"
    using t(1) by (cases "ws = []") (auto simp: pos_imp_zdiv_nonneg_iff)
  ultimately show "0 \<le> snd p"
    unfolding snd_fair_split [OF s] by auto
qed

text \<open>Splitting a pot fails only when there is no winner. Otherwise every winner gets a share, the shares
  add up to the pot exactly, and any two of them differ by at most one unit.\<close>

theorem fair_split_exact:
  "(\<exists>e. fair_split mac t ws = Inl e) = (ws = []) \<and>
   (\<forall>aw. fair_split mac t ws = Inr aw \<longrightarrow>
      sum_list (map snd aw) = t \<and> mset (map fst aw) = mset ws \<and>
      (\<forall>p \<in> set aw. \<forall>q \<in> set aw. snd p \<le> snd q + 1))"
proof (intro conjI allI impI ballI, goal_cases)
  case 1
  then show ?case by (auto simp: fair_split_def Let_def)
next
  case (2 aw)
  then show ?case by (rule fair.split_sum)
next
  case (3 aw)
  then show ?case by (rule fair.split_keys)
next
  case (4 aw p q)
  then have "snd p \<in> set (map snd aw)" "snd q \<in> set (map snd aw)" by auto
  then show ?case unfolding snd_fair_split [OF 4(1)] by auto
qed

theorem fair_split_exact_witness:
  "\<exists>aw. fair_split (\<lambda>w. w) 100 [''cat'', ''ann'', ''bob''] = Inr aw \<and> sum_list (map snd aw) = 100"
  using fair_split_exact [of "\<lambda>w. w" 100 "[''cat'', ''ann'', ''bob'']"] fair.split_ok by blast

end
