(* ===== verification/Holdem.thy ===== *)
theory Holdem
  imports HoldemCards PotSplit
begin

text \<open>
  The betting engine of \<^verbatim>\<open>backend/app/modules/holdem_engine.py\<close>: two to six seats, blinds,
  side pots and settlement. The JSON state is the record \<open>hand\<close>; a seat is looked up by its number, and a
  mutation of a seat object updates that seat of the list. Exceptions of the settlement that the code does
  not name (an empty \<open>max()\<close>, a division by zero) are the error \<open>NoWinner\<close>.
\<close>

section \<open>State\<close>

datatype street = Preflop | Flop | Turn | River

fun street_index :: "street \<Rightarrow> nat" where
  "street_index Preflop = 0"
| "street_index Flop = 1"
| "street_index Turn = 2"
| "street_index River = 3"

instantiation street :: linorder
begin

definition less_eq_street :: "street \<Rightarrow> street \<Rightarrow> bool" where
  "less_eq_street a b \<longleftrightarrow> street_index a \<le> street_index b"

definition less_street :: "street \<Rightarrow> street \<Rightarrow> bool" where
  "less_street a b \<longleftrightarrow> street_index a < street_index b"

instance
proof
  fix a b :: street
  assume "a \<le> b" "b \<le> a"
  then show "a = b" by (cases a; cases b) (simp_all add: less_eq_street_def)
qed (auto simp: less_eq_street_def less_street_def)

end

fun street_after :: "street \<Rightarrow> street" where
  "street_after Preflop = Flop"
| "street_after Flop = Turn"
| "street_after Turn = River"
| "street_after River = River"

record seat =
  seat_no :: int
  player :: string
  initial_stack :: int
  stack :: int
  bet :: int
  committed :: int
  hole :: "int list"
  folded :: bool
  acted_bet :: "int option"

record pot =
  pot_amount :: int
  eligible :: "string list"
  winners :: "string list"

record player_result =
  res_stack :: int
  res_net :: int
  res_won :: int
  res_hand :: "hand_name option"
  res_best5 :: "int list option"
  res_shown :: bool

record outcome =
  out_players :: "(string \<times> player_result) list"
  out_pots :: "pot list"
  out_uncalled :: "(string \<times> int) list"

record hand =
  button :: int
  small_blind :: int
  big_blind :: int
  small_blind_seat :: int
  big_blind_seat :: int
  seats :: "seat list"
  deck :: "int list"
  cursor :: nat
  burned :: "int list"
  board :: "int list"
  street :: street
  current_bet :: int
  min_raise :: int
  pending :: "int list"
  uncalled :: "(string \<times> int) list"
  finished :: bool
  result :: "outcome option"

section \<open>Seats\<close>

definition clockwise :: "hand \<Rightarrow> int \<Rightarrow> seat list" where
  "clockwise s after = sort_key (\<lambda>p. (seat_no p - after - 1) mod 6) (seats s)"

definition find_seat :: "hand \<Rightarrow> int \<Rightarrow> seat option" where
  "find_seat s n = find (\<lambda>p. seat_no p = n) (seats s)"

definition upd_seat :: "int \<Rightarrow> (seat \<Rightarrow> seat) \<Rightarrow> hand \<Rightarrow> hand" where
  "upd_seat n f s = s\<lparr>seats := map (\<lambda>p. if seat_no p = n then f p else p) (seats s)\<rparr>"

definition capable :: "seat \<Rightarrow> bool" where
  "capable p \<longleftrightarrow> \<not> folded p \<and> 0 < stack p"

definition pay :: "int \<Rightarrow> seat \<Rightarrow> seat" where
  "pay amount p = p\<lparr>stack := stack p - amount, bet := bet p + amount, committed := committed p + amount\<rparr>"

definition take_cards :: "hand \<Rightarrow> nat \<Rightarrow> int list \<times> hand" where
  "take_cards s n = (take n (drop (cursor s) (deck s)), s\<lparr>cursor := cursor s + n\<rparr>)"

definition max_bet :: "hand \<Rightarrow> int" where
  "max_bet s = (case map bet (seats s) of [] \<Rightarrow> 0 | b # bs \<Rightarrow> fold max bs b)"

section \<open>Pots\<close>

definition give_back :: "seat \<Rightarrow> int \<Rightarrow> hand \<Rightarrow> hand" where
  "give_back leader amount s =
     (upd_seat (seat_no leader) (\<lambda>p. p\<lparr>bet := bet p - amount,
        committed := committed p - amount, stack := stack p + amount\<rparr>) s)
     \<lparr>uncalled := put (player leader)
        ((case map_of (uncalled s) (player leader) of None \<Rightarrow> 0 | Some u \<Rightarrow> u) + amount) (uncalled s)\<rparr>"

definition refund_uncalled :: "hand \<Rightarrow> hand" where
  "refund_uncalled s =
     (case sort_key (\<lambda>p. - bet p) (seats s) of
        leader # second # _ \<Rightarrow>
          (let amount = bet leader - bet second;
               s1 = (if amount \<noteq> 0 then give_back leader amount s else s)
           in s1\<lparr>current_bet := max_bet s1\<rparr>)
      | _ \<Rightarrow> s)"

text \<open>The distinct positive contributions, ascending, and the layer of chips up to each.\<close>

definition levels :: "seat list \<Rightarrow> int list" where
  "levels ps = sort (remdups (filter (\<lambda>c. c \<noteq> 0) (map committed ps)))"

fun build_pots :: "seat list \<Rightarrow> int \<Rightarrow> int list \<Rightarrow> pot list \<Rightarrow> pot list" where
  "build_pots ps previous [] acc = acc"
| "build_pots ps previous (level # rest) acc =
     (let contributors = filter (\<lambda>p. level \<le> committed p) ps;
          amount = (level - previous) * int (length contributors);
          elig = map player (filter (\<lambda>p. \<not> folded p) contributors);
          acc' = (if acc \<noteq> [] \<and> eligible (last acc) = elig
                  then butlast acc @ [(last acc)\<lparr>pot_amount := pot_amount (last acc) + amount\<rparr>]
                  else acc @ [\<lparr>pot_amount = amount, eligible = elig, winners = []\<rparr>])
      in build_pots ps level rest acc')"

definition pots :: "hand \<Rightarrow> pot list" where
  "pots s = build_pots (seats s) 0 (levels (seats s)) []"

section \<open>Settlement\<close>

type_synonym evaluation = "(string \<times> (int list \<times> hand_name \<times> int list)) list"

fun evaluate :: "int list \<Rightarrow> seat list \<Rightarrow> engine_error + evaluation" where
  "evaluate brd [] = Inr []"
| "evaluate brd (p # ps) =
     (if folded p then evaluate brd ps
      else bindR (best_hand (hole p @ brd)) (\<lambda>h.
           bindR (evaluate brd ps) (\<lambda>rest. Inr ((player p, h) # rest))))"

text \<open>The winners of one pot in payout order; \<open>strength\<close> is \<open>max\<close> over the eligible hands.\<close>

definition strength_of :: "evaluation \<Rightarrow> string \<Rightarrow> int list" where
  "strength_of ev name = (case map_of ev name of None \<Rightarrow> [] | Some (r, _, _) \<Rightarrow> r)"

definition pot_winners :: "bool \<Rightarrow> evaluation \<Rightarrow> seat list \<Rightarrow> pot \<Rightarrow> seat list" where
  "pot_winners showdown ev order pt =
     (let names = (if showdown
                   then filter (\<lambda>n. \<forall>m \<in> set (eligible pt). strength_of ev m \<le> strength_of ev n) (eligible pt)
                   else eligible pt)
      in filter (\<lambda>p. player p \<in> set names) order)"

text \<open>Pay one pot: the share, plus one odd chip to the first winners clockwise from the button.\<close>

definition award :: "int \<Rightarrow> string list \<Rightarrow> engine_error + (string \<times> int) list" where
  "award amount names =
     (let n = int (length names) in
      if n = 0 then Inl NoWinner
      else Inr (map (\<lambda>(i, w). (w, amount div n + (if int i < amount mod n then 1 else 0)))
                  (List.enumerate 0 names)))"

definition share_of :: "(string \<times> int) list \<Rightarrow> string \<Rightarrow> int" where
  "share_of pays name = (case map_of pays name of None \<Rightarrow> 0 | Some a \<Rightarrow> a)"

definition collect :: "(string \<times> int) list \<Rightarrow> seat list \<Rightarrow> seat list" where
  "collect pays ps = map (\<lambda>p. p\<lparr>stack := stack p + share_of pays (player p)\<rparr>) ps"

fun pay_pots :: "bool \<Rightarrow> evaluation \<Rightarrow> seat list \<Rightarrow> pot list \<Rightarrow>
    seat list \<Rightarrow> (string \<times> int) list \<Rightarrow> engine_error + seat list \<times> (string \<times> int) list \<times> pot list" where
  "pay_pots showdown ev order [] ps won = Inr (ps, won, [])"
| "pay_pots showdown ev order (pt # rest) ps won =
     (let ordered = map player (pot_winners showdown ev order pt) in
      bindR (award (pot_amount pt) ordered) (\<lambda>pays.
      bindR (pay_pots showdown ev order rest (collect pays ps)
               (map (\<lambda>(n, w). (n, w + share_of pays n)) won)) (\<lambda>(qs, w, pts).
        Inr (qs, w, pt\<lparr>winners := ordered\<rparr> # pts))))"

definition finish :: "hand \<Rightarrow> bool \<Rightarrow> engine_error + hand" where
  "finish s showdown =
     bindR (if showdown then evaluate (board s) (seats s) else Inr []) (\<lambda>ev.
     bindR (pay_pots showdown ev (clockwise s (button s)) (pots s) (seats s)
              (map (\<lambda>p. (player p, 0)) (seats s))) (\<lambda>(ps, won, pts).
     Inr (s\<lparr>seats := ps,
            result := Some
              \<lparr>out_players = map (\<lambda>p. (player p,
                  \<lparr>res_stack = stack p, res_net = stack p - initial_stack p,
                   res_won = share_of won (player p),
                   res_hand = map_option (\<lambda>(_, n, _). n) (map_of ev (player p)),
                   res_best5 = map_option (\<lambda>(_, _, f). f) (map_of ev (player p)),
                   res_shown = (map_of ev (player p) \<noteq> None)\<rparr>)) ps,
               out_pots = pts, out_uncalled = uncalled s\<rparr>,
            finished := True, pending := []\<rparr>)))"

section \<open>Streets and forced events\<close>

definition next_street :: "hand \<Rightarrow> hand" where
  "next_street s =
     (let st = street_after (street s);
          s0 = s\<lparr>street := st\<rparr>;
          (burn, s1) = take_cards s0 1;
          s2 = s1\<lparr>burned := burned s1 @ burn\<rparr>;
          (cards, s3) = take_cards s2 (if st = Flop then 3 else 1);
          s4 = s3\<lparr>board := board s3 @ cards, current_bet := 0, min_raise := big_blind s3,
                  seats := map (\<lambda>p. p\<lparr>bet := 0, acted_bet := None\<rparr>) (seats s3)\<rparr>
      in s4\<lparr>pending := map seat_no (filter capable (clockwise s4 (button s4)))\<rparr>)"

lemma street_next_street [simp]: "street (next_street s) = street_after (street s)"
  by (simp add: next_street_def take_cards_def Let_def)

text \<open>With at most one player able to act, only an outstanding wager keeps that player pending.\<close>

definition settle_pending :: "hand \<Rightarrow> hand" where
  "settle_pending s =
     (let able = filter capable (seats s) in
      if length able \<le> 1
      then s\<lparr>current_bet := max_bet s,
             pending := map seat_no (filter (\<lambda>p. bet p < max_bet s) able)\<rparr>
      else s)"

definition live :: "hand \<Rightarrow> seat list" where
  "live s = filter (\<lambda>p. \<not> folded p) (seats s)"

lemma street_settle_pending [simp]: "street (settle_pending s) = street s"
  by (simp add: settle_pending_def Let_def)

lemma street_refund [simp]: "street (refund_uncalled s) = street s"
  by (simp add: refund_uncalled_def give_back_def upd_seat_def Let_def split: list.splits)

function progress :: "hand \<Rightarrow> engine_error + hand" where
  "progress s =
     (if length (live s) = 1 then finish (refund_uncalled s) False
      else
        let s1 = settle_pending s in
        if pending s1 \<noteq> [] then Inr s1
        else
          let s2 = refund_uncalled s1 in
          if street s2 = River then finish s2 True else progress (next_street s2))"
  by pat_completeness auto
termination
proof (relation "measure (\<lambda>s. 3 - street_index (street s))", goal_cases)
  case (2 s x xa)
  then show ?case by (cases "street s") auto
qed simp

declare progress.simps [simp del]

section \<open>A new hand\<close>

record entry =
  en_seat :: int
  en_player :: string
  en_stack :: int

fun add_players :: "entry list \<Rightarrow> seat list \<Rightarrow> engine_error + seat list" where
  "add_players [] acc = Inr acc"
| "add_players (e # es) acc =
     (if \<not> (0 \<le> en_seat e \<and> en_seat e \<le> 5) \<or> en_seat e \<in> seat_no ` set acc then Inl BadSeat
      else if en_player e = [] \<or> en_player e \<in> player ` set acc then Inl BadName
      else if en_stack e < 1 then Inl BadStack
      else add_players es (acc @ [\<lparr>seat_no = en_seat e, player = en_player e, initial_stack = en_stack e,
             stack = en_stack e, bet = 0, committed = 0, hole = [], folded = False, acted_bet = None\<rparr>]))"

fun deal :: "int list \<Rightarrow> hand \<Rightarrow> hand" where
  "deal [] s = s"
| "deal (n # ns) s =
     (let (cards, s') = take_cards s 1
      in deal ns (upd_seat n (\<lambda>p. p\<lparr>hole := hole p @ cards\<rparr>) s'))"

definition post_blinds :: "hand \<Rightarrow> seat \<Rightarrow> seat \<Rightarrow> hand" where
  "post_blinds s small big =
     upd_seat (seat_no big) (\<lambda>p. pay (min (big_blind s) (stack p)) p)
       (upd_seat (seat_no small) (\<lambda>p. pay (min (small_blind s) (stack p)) p)
         (s\<lparr>small_blind_seat := seat_no small, big_blind_seat := seat_no big\<rparr>))"

definition initial_hand :: "seat list \<Rightarrow> int \<Rightarrow> int \<Rightarrow> int \<Rightarrow> int list \<Rightarrow> hand" where
  "initial_hand players btn sb bb cards =
     \<lparr>button = btn, small_blind = sb, big_blind = bb, small_blind_seat = 0, big_blind_seat = 0,
      seats = sort_key seat_no players, deck = cards, cursor = 0, burned = [], board = [],
      street = Preflop, current_bet = bb, min_raise = bb, pending = [], uncalled = [],
      finished = False, result = None\<rparr>"

text \<open>Heads-up the button posts the small blind; otherwise the two seats to its left post.\<close>

definition blind_seats :: "hand \<Rightarrow> int \<Rightarrow> seat \<times> seat" where
  "blind_seats s btn =
     (let order = clockwise s btn in
      if length (seats s) = 2
      then ((case find_seat s btn of Some p \<Rightarrow> p | None \<Rightarrow> order ! 0), order ! 0)
      else (order ! 0, order ! 1))"

definition open_hand :: "hand \<Rightarrow> int \<Rightarrow> hand" where
  "open_hand s btn =
     (let order = clockwise s btn;
          (small, big) = blind_seats s btn;
          s1 = post_blinds s small big;
          s2 = deal (map seat_no order @ map seat_no order) s1
      in s2\<lparr>pending := map seat_no (filter capable (clockwise s2 (seat_no big)))\<rparr>)"

definition new_hand :: "entry list \<Rightarrow> int \<Rightarrow> int \<Rightarrow> int \<Rightarrow> int list \<Rightarrow> engine_error + hand" where
  "new_hand entries btn sb bb cards =
     (if \<not> (2 \<le> length entries \<and> length entries \<le> 6) then Inl PlayerCount
      else bindR (add_players entries []) (\<lambda>players.
      if \<not> (0 \<le> btn \<and> btn \<le> 5) \<or> btn \<notin> seat_no ` set players then Inl BadButton
      else if sb < 1 \<or> bb < sb then Inl BadBlinds
      else if \<not> valid_cards cards {52} then Inl BadCards
      else progress (open_hand (initial_hand players btn sb bb cards) btn)))"

section \<open>Actions\<close>

definition actor :: "hand \<Rightarrow> seat option" where
  "actor s = (case pending s of [] \<Rightarrow> None | n # _ \<Rightarrow> find_seat s n)"

definition current_player :: "hand \<Rightarrow> string option" where
  "current_player s = (if finished s then None else map_option player (actor s))"

definition raise_allowed :: "hand \<Rightarrow> seat \<Rightarrow> bool" where
  "raise_allowed s p =
     (if \<not> (\<exists>other \<in> set (seats s). seat_no other \<noteq> seat_no p \<and> capable other) then False
      else (case acted_bet p of
              None \<Rightarrow> True
            | Some prev \<Rightarrow> prev = 0 \<or> min_raise s \<le> current_bet s - prev))"

record options =
  can_check :: bool
  call_amount :: int
  min_raise_to :: "int option"
  max_raise_to :: "int option"
  all_in_total :: int

definition options_for :: "hand \<Rightarrow> seat \<Rightarrow> options" where
  "options_for s p =
     (let due = max 0 (current_bet s - bet p);
          total = bet p + stack p;
          can_raise = (current_bet s < total \<and> raise_allowed s p)
      in \<lparr>can_check = (due = 0), call_amount = min due (stack p),
           min_raise_to = (if can_raise then Some (min total (current_bet s + min_raise s)) else None),
           max_raise_to = (if can_raise then Some total else None),
           all_in_total = (if total \<le> current_bet s \<or> can_raise then total else 0)\<rparr>)"

definition legal_actions :: "hand \<Rightarrow> string \<Rightarrow> options option" where
  "legal_actions s name =
     (if current_player s \<noteq> Some name then None else map_option (options_for s) (actor s))"

datatype action = Fold | Check | Call | Bet | Raise | AllIn | Other string

text \<open>The refusals, in the order the code makes them.\<close>

definition check_action :: "hand \<Rightarrow> options option \<Rightarrow> action \<Rightarrow> int option \<Rightarrow> engine_error + options" where
  "check_action s options act amount =
     (case options of None \<Rightarrow> Inl OffTurn
      | Some opts \<Rightarrow>
        (case act of Other _ \<Rightarrow> Inl UnsupportedAction
         | _ \<Rightarrow>
           bindR (if act \<in> {Bet, Raise} then
                    (case amount of None \<Rightarrow> Inl BadAmount
                     | Some a \<Rightarrow>
                         if a < 1 then Inl BadAmount
                         else if (act = Bet) \<noteq> (current_bet s = 0) then Inl BetOrRaise
                         else (case (min_raise_to opts, max_raise_to opts) of
                                 (Some lo, Some hi) \<Rightarrow> if lo \<le> a \<and> a \<le> hi then Inr () else Inl RaiseSize
                               | _ \<Rightarrow> Inl RaiseNotOpen))
                  else check (amount = None) AmountForbidden) (\<lambda>_.
           if act = Check \<and> \<not> can_check opts then Inl CannotCheck
           else if act = Call \<and> call_amount opts = 0 then Inl NothingToCall
           else if act = AllIn \<and> all_in_total opts = 0 then Inl CannotAllIn
           else Inr opts)))"

definition action_target :: "options \<Rightarrow> seat \<Rightarrow> action \<Rightarrow> int option \<Rightarrow> int" where
  "action_target opts p act amount =
     (case act of Call \<Rightarrow> bet p + call_amount opts
      | AllIn \<Rightarrow> all_in_total opts
      | Bet \<Rightarrow> (case amount of None \<Rightarrow> bet p | Some a \<Rightarrow> a)
      | Raise \<Rightarrow> (case amount of None \<Rightarrow> bet p | Some a \<Rightarrow> a)
      | _ \<Rightarrow> bet p)"

text \<open>The chips of the action and the new price, on the acting seat number \<open>n\<close>.\<close>

definition put_chips :: "hand \<Rightarrow> seat \<Rightarrow> int \<Rightarrow> hand" where
  "put_chips s p target =
     (let s1 = upd_seat (seat_no p) (pay (target - bet p)) s in
      if current_bet s < target
      then s1\<lparr>min_raise := max (target - current_bet s) (min_raise s), current_bet := target\<rparr>
      else s1)"

definition renew_pending :: "hand \<Rightarrow> int \<Rightarrow> int list \<Rightarrow> hand" where
  "renew_pending s n rest =
     s\<lparr>pending := map seat_no (filter (\<lambda>q. seat_no q \<noteq> n \<and> capable q \<and>
          (seat_no q \<in> set rest \<or> bet q < current_bet s)) (clockwise s n))\<rparr>"

definition perform :: "hand \<Rightarrow> options \<Rightarrow> seat \<Rightarrow> action \<Rightarrow> int option \<Rightarrow> hand" where
  "perform s opts p act amount =
     (let rest = tl (pending s);
          s1 = (if act = Fold then upd_seat (seat_no p) (\<lambda>q. q\<lparr>folded := True\<rparr>) s
                else put_chips s p (action_target opts p act amount));
          s2 = upd_seat (seat_no p) (\<lambda>q. q\<lparr>acted_bet := Some (current_bet s1)\<rparr>) s1
      in renew_pending s2 (seat_no p) rest)"

definition apply_action :: "hand \<Rightarrow> string \<Rightarrow> action \<Rightarrow> int option \<Rightarrow> engine_error + hand" where
  "apply_action s name act amount =
     bindR (check_action s (legal_actions s name) act amount) (\<lambda>opts.
     case actor s of
       None \<Rightarrow> Inl OffTurn
     | Some p \<Rightarrow> progress (perform s opts p act amount))"

definition results :: "hand \<Rightarrow> engine_error + outcome option" where
  "results s = (if \<not> finished s then Inl NotFinished else Inr (result s))"

text \<open>The conservative policy of an absent player.\<close>

definition auto_action :: "hand \<Rightarrow> string \<Rightarrow> engine_error + action" where
  "auto_action s name =
     (case (legal_actions s name, actor s) of
        (Some opts, Some p) \<Rightarrow>
          if can_check opts then Inr Check
          else
            let call = call_amount opts; pot = sum_list (map committed (seats s)) in
            if pot < 2 * call then Inr Fold
            else
              let calls_all_in = (call = stack p) in
              bindR (if board s = []
                     then let ranks = map card_rank (hole p);
                              made = (ranks ! 0 = ranks ! 1 \<or> (\<forall>r \<in> set ranks. 12 \<le> r))
                          in Inr (made \<and> \<not> calls_all_in)
                     else bindR (best_hand (hole p @ board s)) (\<lambda>(rank, _, _).
                          Inr ((if calls_all_in then 2 else 1) \<le> hd rank)))
                (\<lambda>follow. Inr (if follow then Call else Fold))
      | _ \<Rightarrow> Inl OffTurn)"

section \<open>The public view\<close>

datatype seat_status = SFolded | SAllIn | SActive

record public_seat =
  pub_seat :: int
  pub_player :: string
  pub_stack :: int
  pub_bet :: int
  pub_committed :: int
  pub_shown :: bool
  pub_status :: seat_status
  pub_hole :: "int list option"

record view =
  v_button :: int
  v_small_blind :: int
  v_big_blind :: int
  v_small_blind_seat :: int
  v_big_blind_seat :: int
  v_street :: street
  v_board :: "int list"
  v_seats :: "public_seat list"
  v_pots :: "pot list"
  v_pot :: int
  v_current_bet :: int
  v_min_raise :: int
  v_current_player :: "string option"
  v_legal :: "options option"
  v_finished :: bool
  v_uncalled :: "(string \<times> int) list"
  v_results :: "outcome option"

definition was_shown :: "hand \<Rightarrow> string \<Rightarrow> bool" where
  "was_shown s name =
     (finished s \<and> (case result s of None \<Rightarrow> False
        | Some o' \<Rightarrow> (case map_of (out_players o') name of None \<Rightarrow> False | Some r \<Rightarrow> res_shown r)))"

definition public_of :: "hand \<Rightarrow> string option \<Rightarrow> seat \<Rightarrow> public_seat" where
  "public_of s viewer p =
     \<lparr>pub_seat = seat_no p, pub_player = player p, pub_stack = stack p, pub_bet = bet p,
      pub_committed = committed p, pub_shown = was_shown s (player p),
      pub_status = (if folded p then SFolded else if stack p = 0 then SAllIn else SActive),
      pub_hole = (if Some (player p) = viewer \<or> was_shown s (player p) then Some (hole p) else None)\<rparr>"

definition view_hand :: "hand \<Rightarrow> string option \<Rightarrow> view" where
  "view_hand s viewer =
     (let pts = (if finished s then (case result s of None \<Rightarrow> [] | Some o' \<Rightarrow> out_pots o') else pots s)
      in \<lparr>v_button = button s, v_small_blind = small_blind s, v_big_blind = big_blind s,
          v_small_blind_seat = small_blind_seat s, v_big_blind_seat = big_blind_seat s,
          v_street = street s, v_board = board s, v_seats = map (public_of s viewer) (seats s),
          v_pots = pts, v_pot = sum_list (map pot_amount pts), v_current_bet = current_bet s,
          v_min_raise = min_raise s, v_current_player = current_player s,
          v_legal = (case viewer of None \<Rightarrow> None | Some n \<Rightarrow> legal_actions s n),
          v_finished = finished s, v_uncalled = uncalled s,
          v_results = (if finished s then result s else None)\<rparr>)"

end
