(* ===== verification/HoldemChips.thy ===== *)
theory HoldemChips
  imports Holdem
begin

text \<open>
  Chip accounting of the betting engine: the side pots hold exactly what the seats put in, a pot is paid out
  to the last chip, and a hand moves chips between players without creating or losing any.
\<close>

section \<open>Awards\<close>

lemma award_fair:
  "award t ws = (case fair_split (\<lambda>_. 0 :: nat) t ws of Inl _ \<Rightarrow> Inl NoWinner | Inr aw \<Rightarrow> Inr aw)"
proof -
  have "sort_key (\<lambda>_. 0 :: nat) ws = ws" by (rule sort_key_const)
  then show ?thesis by (simp add: award_def fair_split_def Let_def)
qed

lemma award_Inr: "award t ws = Inr aw \<longleftrightarrow> fair_split (\<lambda>_. 0 :: nat) t ws = Inr aw"
  by (simp add: award_fair split: sum.splits)

interpretation table: pot_split award
proof unfold_locales
  fix ws :: "string list" and t
  assume "ws \<noteq> []"
  then show "\<exists>aw. award t ws = Inr aw" using fair.split_ok by (auto simp: award_Inr)
qed (auto simp: award_Inr dest: fair.split_sum fair.split_keys fair.split_nonneg)

lemma map_collect [simp]:
  "map player (collect pays ps) = map player ps" "map seat_no (collect pays ps) = map seat_no ps"
  "map initial_stack (collect pays ps) = map initial_stack ps" "map bet (collect pays ps) = map bet ps"
  "map committed (collect pays ps) = map committed ps" "map hole (collect pays ps) = map hole ps"
  by (simp_all add: collect_def)

lemma collect_total:
  assumes "award t ws = Inr pays" "distinct ws" "distinct (map player ps)" "set ws \<subseteq> player ` set ps"
  shows "sum_list (map stack (collect pays ps)) = sum_list (map stack ps) + t"
proof -
  have "sum_list (map (share_of pays) (map player ps)) = t"
    unfolding share_of_def using assms by (intro table.awards_total) auto
  then show ?thesis by (simp add: collect_def comp_def sum_list_addf)
qed

lemma share_nonneg: "award t ws = Inr pays \<Longrightarrow> 0 \<le> t \<Longrightarrow> 0 \<le> share_of pays n"
  by (auto simp: share_of_def split: option.split dest: table.split_nonneg map_of_SomeD)

lemma stack_collect:
  "award t ws = Inr pays \<Longrightarrow> 0 \<le> t \<Longrightarrow> \<forall>p \<in> set ps. 0 \<le> stack p \<Longrightarrow> \<forall>p \<in> set (collect pays ps). 0 \<le> stack p"
  by (auto simp: collect_def share_nonneg)

section \<open>Paying every pot\<close>

lemma pot_winners_names:
  "distinct (map player order) \<Longrightarrow> distinct (map player (pot_winners sd ev order pt))"
  "set (map player (pot_winners sd ev order pt)) \<subseteq> player ` set order"
  by (auto simp: pot_winners_def Let_def distinct_map inj_on_def)

lemma pay_pots_sound:
  assumes "pay_pots sd ev order pts ps won = Inr (qs, w, out)"
    and "distinct (map player order)" "distinct (map player ps)" "player ` set order \<subseteq> player ` set ps"
    and "\<forall>pt \<in> set pts. 0 \<le> pot_amount pt" "\<forall>p \<in> set ps. 0 \<le> stack p"
  shows "map player qs = map player ps \<and> map initial_stack qs = map initial_stack ps
    \<and> map seat_no qs = map seat_no ps \<and> map bet qs = map bet ps \<and> map committed qs = map committed ps
    \<and> map hole qs = map hole ps
    \<and> (\<forall>p \<in> set qs. 0 \<le> stack p)
    \<and> sum_list (map stack qs) = sum_list (map stack ps) + sum_list (map pot_amount pts)
    \<and> map pot_amount out = map pot_amount pts"
  using assms
proof (induction pts arbitrary: ps won qs w out)
  case Nil
  then show ?case by simp
next
  case (Cons pt pts)
  let ?ws = "map player (pot_winners sd ev order pt)"
  obtain pays qs' w' out' where a: "award (pot_amount pt) ?ws = Inr pays"
    and r: "pay_pots sd ev order pts (collect pays ps)
      (map (\<lambda>(n, w). (n, w + share_of pays n)) won) = Inr (qs', w', out')"
    and e: "qs = qs'" "out = pt\<lparr>winners := ?ws\<rparr> # out'"
    using Cons.prems(1) by (auto simp: Let_def)
  have ps: "player ` set (collect pays ps) = player ` set ps"
    by (metis list.set_map map_collect(1))
  have nn: "\<forall>p \<in> set (collect pays ps). 0 \<le> stack p"
    using stack_collect [OF a] Cons.prems(5,6) by simp
  have "sum_list (map stack (collect pays ps)) = sum_list (map stack ps) + pot_amount pt"
    using Cons.prems pot_winners_names [where order = order and sd = sd and ev = ev and pt = pt] by (intro collect_total [OF a]) auto
  then show ?case
    using Cons.IH [OF r] Cons.prems(2-5) nn ps e by simp
qed

section \<open>The pots hold the contributions\<close>

text \<open>The layers between consecutive contribution levels add up to the contributions.\<close>

fun layer_sum :: "int list \<Rightarrow> int \<Rightarrow> int list \<Rightarrow> int" where
  "layer_sum cs previous [] = 0"
| "layer_sum cs previous (level # rest) =
     (level - previous) * int (length (filter (\<lambda>c. level \<le> c) cs)) + layer_sum cs level rest"

lemma layer_sum_total:
  assumes "sorted_wrt (<) (previous # ls)" "\<forall>c \<in> set cs. previous < c \<longrightarrow> c \<in> set ls" "set ls \<subseteq> set cs"
  shows "layer_sum cs previous ls = sum_list (map (\<lambda>c. max 0 (c - previous)) cs)"
  using assms
proof (induction ls arbitrary: previous)
  case Nil
  then have "sum_list (map (\<lambda>c. max 0 (c - previous)) cs) = sum_list (map (\<lambda>_. 0 :: int) cs)"
    by (intro arg_cong [where f = sum_list] map_cong) auto
  also have "\<dots> = 0" by simp
  finally show ?case by simp
next
  case (Cons l ls)
  have "layer_sum cs l ls = sum_list (map (\<lambda>c. max 0 (c - l)) cs)"
    using Cons.prems by (intro Cons.IH) force+
  moreover have "sum_list (map (\<lambda>c. max 0 (c - previous)) cs)
      = sum_list (map (\<lambda>c. (if l \<le> c then l - previous else 0) + max 0 (c - l)) cs)"
  proof (intro arg_cong [where f = sum_list] map_cong refl)
    fix c assume "c \<in> set cs"
    then show "max 0 (c - previous) = (if l \<le> c then l - previous else 0) + max 0 (c - l)"
      using Cons.prems by force
  qed
  moreover have "sum_list (map (\<lambda>c. if l \<le> c then l - previous else 0) cs)
      = int (length (filter (\<lambda>c. l \<le> c) cs)) * (l - previous)"
    by (simp add: sum_list_map_if_filter)
  ultimately show ?case by (simp add: sum_list_addf mult.commute)
qed

lemma build_pots_total:
  "sum_list (map pot_amount (build_pots ps previous ls acc))
   = sum_list (map pot_amount acc) + layer_sum (map committed ps) previous ls"
proof (induction ls arbitrary: previous acc)
  case Nil
  then show ?case by simp
next
  case (Cons l ls)
  show ?case by (cases acc rule: rev_cases) (simp_all add: Cons.IH Let_def filter_map comp_def)
qed

lemma levels_props:
  "sorted_wrt (<) (levels ps)" "set (levels ps) = {c \<in> committed ` set ps. c \<noteq> 0}"
  by (auto simp: levels_def strict_sorted_iff)

lemma pots_total:
  assumes "\<forall>p \<in> set (seats s). 0 \<le> committed p"
  shows "sum_list (map pot_amount (pots s)) = sum_list (map committed (seats s))"
proof -
  have "layer_sum (map committed (seats s)) 0 (levels (seats s))
      = sum_list (map (\<lambda>c. max 0 (c - 0)) (map committed (seats s)))"
  proof (rule layer_sum_total)
    show "sorted_wrt (<) (0 # levels (seats s))"
      using levels_props [of "seats s"] assms by (auto simp: less_le)
  qed (use levels_props [of "seats s"] in auto)
  also have "\<dots> = sum_list (map committed (seats s))"
    using assms by (auto intro!: arg_cong [where f = sum_list] map_cong)
  finally show ?thesis by (simp add: pots_def build_pots_total)
qed

lemma build_pots_nonneg:
  "\<forall>pt \<in> set acc. 0 \<le> pot_amount pt \<Longrightarrow> sorted_wrt (<) (previous # ls)
   \<Longrightarrow> \<forall>pt \<in> set (build_pots ps previous ls acc). 0 \<le> pot_amount pt"
proof (induction ls arbitrary: previous acc)
  case Nil
  then show ?case by simp
next
  case (Cons l ls)
  have a: "0 \<le> (l - previous) * int (length (filter (\<lambda>p. l \<le> committed p) ps))"
    using Cons.prems(2) by (intro mult_nonneg_nonneg) auto
  have ih: "\<forall>pt \<in> set acc'. 0 \<le> pot_amount pt \<Longrightarrow>
      \<forall>pt \<in> set (build_pots ps l ls acc'). 0 \<le> pot_amount pt" for acc'
    using Cons.prems(2) by (intro Cons.IH) auto
  show ?case
    unfolding build_pots.simps Let_def
    using Cons.prems(1) a by (cases acc rule: rev_cases; intro ih) auto
qed

lemma pots_nonneg:
  assumes "\<forall>p \<in> set (seats s). 0 \<le> committed p" "pt \<in> set (pots s)"
  shows "0 \<le> pot_amount pt"
proof -
  have "sorted_wrt (<) (0 # levels (seats s))"
    using levels_props [of "seats s"] assms(1) by (auto simp: less_le)
  from build_pots_nonneg [of "[]", OF _ this] assms(2) show ?thesis by (auto simp: pots_def)
qed

section \<open>The invariant of a running hand\<close>

text \<open>\<open>seat_ok\<close>: what a seat has on the table and in front of it is what it brought.\<close>

definition seat_core :: "seat \<Rightarrow> bool" where
  "seat_core p \<longleftrightarrow> 0 \<le> stack p \<and> 0 \<le> bet p \<and> bet p \<le> committed p
     \<and> stack p + committed p = initial_stack p"

definition seat_ok :: "int \<Rightarrow> seat \<Rightarrow> bool" where
  "seat_ok price p \<longleftrightarrow> seat_core p \<and> bet p \<le> price"

definition hand_ok :: "hand \<Rightarrow> bool" where
  "hand_ok s \<longleftrightarrow> \<not> finished s \<and> distinct (map player (seats s)) \<and> distinct (map seat_no (seats s))
     \<and> 2 \<le> length (seats s) \<and> 0 \<le> current_bet s \<and> 0 < min_raise s \<and> 0 < big_blind s
     \<and> (\<forall>p \<in> set (seats s). seat_ok (current_bet s) p)"

text \<open>A finished hand: every chip is back on some stack.\<close>

definition hand_done :: "hand \<Rightarrow> bool" where
  "hand_done s \<longleftrightarrow> finished s \<and> pending s = [] \<and> distinct (map player (seats s)) \<and> (\<forall>p \<in> set (seats s). 0 \<le> stack p)
     \<and> sum_list (map stack (seats s)) = sum_list (map initial_stack (seats s))
     \<and> (\<exists>out. result s = Some out \<and> map fst (out_players out) = map player (seats s)
          \<and> map (res_stack \<circ> snd) (out_players out) = map stack (seats s)
          \<and> map (res_net \<circ> snd) (out_players out) = map (\<lambda>p. stack p - initial_stack p) (seats s))"

text \<open>What a hand never changes: who sits where, what each player brought and, once dealt, holds.\<close>

definition roster :: "hand \<Rightarrow> (int \<times> string \<times> int) list" where
  "roster s = map (\<lambda>p. (seat_no p, player p, initial_stack p)) (seats s)"

lemma map_roster:
  "map player (seats s) = map (fst \<circ> snd) (roster s)" "map seat_no (seats s) = map fst (roster s)"
  "map initial_stack (seats s) = map (snd \<circ> snd) (roster s)"
  by (simp_all add: roster_def comp_def)

lemma seats_upd_seat: "seats (upd_seat n f s) = map (\<lambda>p. if seat_no p = n then f p else p) (seats s)"
  by (simp add: upd_seat_def)

lemma roster_zip:
  "roster s = zip (map seat_no (seats s)) (zip (map player (seats s)) (map initial_stack (seats s)))"
proof -
  have "map (\<lambda>p. (seat_no p, player p, initial_stack p)) ps
      = zip (map seat_no ps) (zip (map player ps) (map initial_stack ps))" for ps
    by (induction ps) simp_all
  then show ?thesis by (simp add: roster_def)
qed

lemma upd_seat_frame [simp]:
  "finished (upd_seat n f s) = finished s" "current_bet (upd_seat n f s) = current_bet s"
  "min_raise (upd_seat n f s) = min_raise s" "big_blind (upd_seat n f s) = big_blind s"
  "length (seats (upd_seat n f s)) = length (seats s)" "pending (upd_seat n f s) = pending s"
  "street (upd_seat n f s) = street s" "result (upd_seat n f s) = result s"
  by (simp_all add: upd_seat_def)

lemma roster_upd_seat [simp]:
  "(\<And>p. seat_no (f p) = seat_no p \<and> player (f p) = player p \<and> initial_stack (f p) = initial_stack p)
   \<Longrightarrow> roster (upd_seat n f s) = roster s"
  by (simp add: roster_def upd_seat_def)

lemma upd_seat_all:
  "\<forall>p \<in> set (seats s). R p \<Longrightarrow> (\<And>p. p \<in> set (seats s) \<Longrightarrow> seat_no p = n \<Longrightarrow> R p \<Longrightarrow> R (f p))
   \<Longrightarrow> \<forall>p \<in> set (seats (upd_seat n f s)). R p"
  by (auto simp: upd_seat_def)

lemma in_clockwise [simp]: "set (clockwise s n) = set (seats s)"
  by (simp add: clockwise_def)

lemma find_seat_Some: "find_seat s n = Some p \<Longrightarrow> p \<in> set (seats s) \<and> seat_no p = n"
  by (auto simp: find_seat_def find_Some_iff)

lemma max_bet_ge: "p \<in> set (seats s) \<Longrightarrow> bet p \<le> max_bet s"
proof -
  have "b \<le> fold max bs b \<and> (\<forall>x \<in> set bs. x \<le> fold max bs b)" for b :: int and bs
    by (induction bs arbitrary: b) (auto, (meson max.boundedE)+)
  moreover assume "p \<in> set (seats s)"
  ultimately show ?thesis
    by (cases "seats s") (auto simp: max_bet_def)
qed

lemma max_bet_in: "seats s \<noteq> [] \<Longrightarrow> \<exists>p \<in> set (seats s). max_bet s = bet p"
proof -
  have "fold max bs b \<in> set (b # bs)" for b :: int and bs
  proof (induction bs arbitrary: b)
    case (Cons x xs)
    from Cons [of "max x b"] show ?case by (auto simp: max_def split: if_splits)
  qed simp
  then have "map bet (seats s) \<noteq> [] \<Longrightarrow> max_bet s \<in> set (map bet (seats s))"
    by (auto simp: max_bet_def simp del: set_map split: list.splits)
  moreover assume "seats s \<noteq> []"
  ultimately show ?thesis by auto
qed

section \<open>Every event keeps the invariant\<close>

lemma hand_ok_roster: "hand_ok s \<Longrightarrow> distinct (map (fst \<circ> snd) (roster s)) \<and> distinct (map fst (roster s))
    \<and> 2 \<le> length (roster s)"
  by (simp add: hand_ok_def map_roster [symmetric]) (simp add: roster_def)

text \<open>To re-establish the invariant after a step that keeps the roster, look at the seats alone.\<close>

lemma hand_okI:
  assumes "hand_ok s" "roster t = roster s" "finished t = finished s"
    and "\<forall>p \<in> set (seats t). seat_core p" "\<forall>p \<in> set (seats t). bet p \<le> current_bet t"
    and "0 < min_raise t" "0 < big_blind t"
  shows "hand_ok t"
proof -
  have l: "length (seats t) = length (seats s)"
    using assms(2) by (metis length_map roster_def)
  then have "seats t \<noteq> []" using assms(1) by (auto simp: hand_ok_def)
  then obtain p where "p \<in> set (seats t)" by (meson list.set_sel(1))
  then have "0 \<le> current_bet t" using assms(4,5) by (force simp: seat_core_def)
  then show ?thesis
    using assms l by (simp add: hand_ok_def seat_ok_def map_roster)
qed

lemma hand_ok_seats: "hand_ok s \<Longrightarrow> \<forall>p \<in> set (seats s). seat_core p"
  "hand_ok s \<Longrightarrow> \<forall>p \<in> set (seats s). bet p \<le> current_bet s"
  by (auto simp: hand_ok_def seat_ok_def)

lemma hand_ok_simps:
  assumes "hand_ok s"
  shows "\<not> finished s" "0 < min_raise s" "0 < big_blind s" "seats s \<noteq> []"
  using assms by (auto simp: hand_ok_def)

lemma refund_cases:
  assumes "2 \<le> length (seats s)" "\<forall>p \<in> set (seats s). 0 \<le> bet p"
  obtains "refund_uncalled s = s\<lparr>current_bet := max_bet s\<rparr>"
  | leader amount where "leader \<in> set (seats s)" "0 < amount" "amount \<le> bet leader"
      "refund_uncalled s = (give_back leader amount s)\<lparr>current_bet := max_bet (give_back leader amount s)\<rparr>"
proof -
  let ?o = "sort_key (\<lambda>p. - bet p) (seats s)"
  have "2 \<le> length ?o" using assms by simp
  then obtain l m r where o: "?o = l # m # r" by (metis Suc_le_length_iff numeral_2_eq_2)
  have "set ?o = set (seats s)" by simp
  then have l: "l \<in> set (seats s)" "m \<in> set (seats s)" unfolding o by auto
  have "sorted (map (\<lambda>p. - bet p) ?o)" by simp
  then have le: "bet m \<le> bet l" unfolding o by simp
  have r: "refund_uncalled s = (let s1 = (if bet l - bet m \<noteq> 0 then give_back l (bet l - bet m) s else s)
      in s1\<lparr>current_bet := max_bet s1\<rparr>)"
    unfolding refund_uncalled_def o by (simp add: Let_def)
  show ?thesis
  proof (cases "bet l = bet m")
    case True
    with r show ?thesis by (intro that(1)) simp
  next
    case False
    with r l le assms(2) show ?thesis by (intro that(2) [of l "bet l - bet m"]) (simp_all add: Let_def)
  qed
qed

lemma seat_core_pay: "seat_core p \<Longrightarrow> 0 \<le> a \<Longrightarrow> a \<le> stack p \<Longrightarrow> seat_core (pay a p)"
  by (simp add: seat_core_def pay_def)

lemma give_back_frame [simp]:
  "finished (give_back l a s) = finished s" "roster (give_back l a s) = roster s"
  "min_raise (give_back l a s) = min_raise s" "big_blind (give_back l a s) = big_blind s"
  "pending (give_back l a s) = pending s"
  by (simp_all add: give_back_def roster_def upd_seat_def)

lemma max_bet_cong [simp]: "max_bet (s\<lparr>current_bet := c\<rparr>) = max_bet s"
  by (simp add: max_bet_def)

lemma roster_more [simp]:
  "roster (s\<lparr>current_bet := c\<rparr>) = roster s" "roster (s\<lparr>pending := q\<rparr>) = roster s"
  "roster (s\<lparr>min_raise := c\<rparr>) = roster s"
  by (simp_all add: roster_def)

lemma same_seat: "distinct (map seat_no ps) \<Longrightarrow> p \<in> set ps \<Longrightarrow> q \<in> set ps \<Longrightarrow> seat_no p = seat_no q \<Longrightarrow> p = q"
  by (auto simp: distinct_map dest: inj_onD)

lemma refund_keeps:
  assumes "hand_ok s"
  shows "hand_ok (refund_uncalled s) \<and> roster (refund_uncalled s) = roster s"
proof -
  have b: "2 \<le> length (seats s)" "\<forall>p \<in> set (seats s). 0 \<le> bet p" "distinct (map seat_no (seats s))"
    using assms by (auto simp: hand_ok_def seat_ok_def seat_core_def)
  from b(1,2) show ?thesis
  proof (cases rule: refund_cases)
    case 1
    then show ?thesis
      using hand_ok_simps [OF assms] hand_ok_seats [OF assms]
      by (auto intro!: hand_okI [OF assms] simp: max_bet_ge)
  next
    case (2 l a)
    have u: "p = l" if "p \<in> set (seats s)" "seat_no p = seat_no l" for p
      using same_seat [OF b(3) that(1) 2(1) that(2)] .
    have "seat_core l" using hand_ok_seats(1) [OF assms] 2(1) by simp
    then have "seat_core (l\<lparr>bet := bet l - a, committed := committed l - a, stack := stack l + a\<rparr>)"
      using 2(2,3) by (simp add: seat_core_def)
    then have "\<forall>p \<in> set (seats (upd_seat (seat_no l) (\<lambda>p. p\<lparr>bet := bet p - a,
        committed := committed p - a, stack := stack p + a\<rparr>) s)). seat_core p"
      by (intro upd_seat_all [OF hand_ok_seats(1) [OF assms]]) (drule (1) u, simp)
    then have "\<forall>p \<in> set (seats (give_back l a s)). seat_core p"
      by (simp add: give_back_def)
    then show ?thesis
      using hand_ok_simps [OF assms] max_bet_ge
      by (auto intro!: hand_okI [OF assms] simp: 2(4))
  qed
qed

lemma settle_keeps:
  assumes "hand_ok s"
  shows "hand_ok (settle_pending s) \<and> roster (settle_pending s) = roster s"
  using hand_ok_simps [OF assms] hand_ok_seats [OF assms] assms max_bet_ge [of _ s]
  by (auto intro!: hand_okI [OF assms] simp: settle_pending_def Let_def)

lemma seat_core_clear: "seat_core p \<Longrightarrow> seat_core (p\<lparr>bet := 0, acted_bet := None\<rparr>)"
  by (simp add: seat_core_def)

lemma next_street_keeps:
  assumes "hand_ok s"
  shows "hand_ok (next_street s) \<and> roster (next_street s) = roster s"
  using hand_ok_simps [OF assms] hand_ok_seats [OF assms]
  by (auto intro!: hand_okI [OF assms] seat_core_clear simp: next_street_def Let_def take_cards_def roster_def)

lemma finish_done:
  assumes ok: "hand_ok s" and f: "finish s sd = Inr t"
  shows "hand_done t \<and> roster t = roster s"
proof -
  obtain ev ps won pts where
    p: "pay_pots sd ev (clockwise s (button s)) (pots s) (seats s) (map (\<lambda>p. (player p, 0)) (seats s)) = Inr (ps, won, pts)"
    and t: "seats t = ps" "finished t" "pending t = []"
    and out: "\<exists>out. result t = Some out \<and> map fst (out_players out) = map player ps
          \<and> map (res_stack \<circ> snd) (out_players out) = map stack ps
          \<and> map (res_net \<circ> snd) (out_players out) = map (\<lambda>p. stack p - initial_stack p) ps"
    using f by (auto simp: finish_def comp_def)
  have core: "\<forall>p \<in> set (seats s). seat_core p" using hand_ok_seats [OF ok] by simp
  then have nn: "\<forall>p \<in> set (seats s). 0 \<le> committed p" "\<forall>p \<in> set (seats s). 0 \<le> stack p"
    by (auto simp: seat_core_def)
  have d: "distinct (map player (seats s))" using ok by (simp add: hand_ok_def)
  then have dc: "distinct (map player (clockwise s (button s)))"
    unfolding clockwise_def by (metis distinct_map distinct_sort set_sort)
  have sound: "map player ps = map player (seats s) \<and> map initial_stack ps = map initial_stack (seats s)
      \<and> map seat_no ps = map seat_no (seats s) \<and> (\<forall>p \<in> set ps. 0 \<le> stack p)
      \<and> sum_list (map stack ps) = sum_list (map stack (seats s)) + sum_list (map pot_amount (pots s))"
    using pay_pots_sound [OF p dc d] pots_nonneg [OF nn(1)] nn(2) by simp
  have "sum_list (map (\<lambda>p. stack p + committed p) (seats s)) = sum_list (map initial_stack (seats s))"
    using core by (intro arg_cong [where f = sum_list] map_cong) (auto simp: seat_core_def)
  then have "sum_list (map stack ps) = sum_list (map initial_stack (seats s))"
    using sound pots_total [OF nn(1)] by (simp add: sum_list_addf)
  moreover have "roster t = roster s"
    using sound by (simp add: roster_zip t(1))
  ultimately show ?thesis using sound t d out by (simp add: hand_done_def)
qed

lemma progress_Inr:
  "progress s = Inr t \<longleftrightarrow>
   (if length (live s) = 1 then finish (refund_uncalled s) False = Inr t
    else if pending (settle_pending s) \<noteq> [] then t = settle_pending s
    else if street (refund_uncalled (settle_pending s)) = River
    then finish (refund_uncalled (settle_pending s)) True = Inr t
    else progress (next_street (refund_uncalled (settle_pending s))) = Inr t)"
  by (subst progress.simps) (simp add: Let_def eq_commute [of t])

lemma progress_keeps:
  assumes "progress s = Inr t" "hand_ok s"
  shows "roster t = roster s \<and> (hand_ok t \<or> hand_done t)"
  using assms
proof (induction s rule: progress.induct)
  case prems: (1 s)
  note sk = settle_keeps [OF prems(3)]
  note rk = refund_keeps [OF sk [THEN conjunct1]]
  consider "finish (refund_uncalled s) False = Inr t" | "t = settle_pending s"
    | "finish (refund_uncalled (settle_pending s)) True = Inr t"
    | "length (live s) \<noteq> 1" "\<not> pending (settle_pending s) \<noteq> []"
      "street (refund_uncalled (settle_pending s)) \<noteq> River"
      "progress (next_street (refund_uncalled (settle_pending s))) = Inr t"
    using iffD1 [OF progress_Inr prems(2)] by (simp only: if_splits) meson
  then show ?case
  proof cases
    case 1
    then show ?thesis using finish_done refund_keeps [OF prems(3)] by metis
  next
    case 2
    with sk show ?thesis by simp
  next
    case 3
    with sk rk finish_done show ?thesis by metis
  next
    case 4
    then show ?thesis
      using prems(1) [OF 4(1) refl 4(2) refl 4(3,4)] next_street_keeps [OF rk [THEN conjunct1]] sk rk by simp
  qed
qed

section \<open>Actions keep the invariant\<close>

lemma bindR_unit: "bindR x (\<lambda>_::unit. y) = Inr b \<longleftrightarrow> x = Inr () \<and> y = Inr b"
  by auto

lemma legal_actions_Some:
  assumes "legal_actions s name = Some opts"
  obtains p where "actor s = Some p" "p \<in> set (seats s)" "player p = name" "\<not> finished s" "pending s \<noteq> []"
    "opts = options_for s p"
proof -
  have c: "current_player s = Some name" using assms by (simp add: legal_actions_def split: if_splits)
  then obtain p where p: "actor s = Some p" "player p = name" "\<not> finished s"
    by (auto simp: current_player_def split: if_splits)
  moreover have "p \<in> set (seats s)" "pending s \<noteq> []"
    using p(1) by (auto simp: actor_def dest: find_seat_Some split: list.splits)
  ultimately show ?thesis using that [of p] assms c by (simp add: legal_actions_def)
qed

text \<open>An accepted action moves a sum between nothing and the whole stack.\<close>

lemma action_target_bounds:
  assumes ok: "hand_ok s" and c: "check_action s (legal_actions s name) act amount = Inr opts"
    and p: "actor s = Some p"
  shows "bet p \<le> action_target opts p act amount \<and> action_target opts p act amount \<le> bet p + stack p"
proof -
  have l: "legal_actions s name = Some opts"
    using c by (auto simp: check_action_def split: option.splits action.splits if_splits)
  from l p obtain
    o: "p \<in> set (seats s)" "opts = options_for s p"
    by (auto elim: legal_actions_Some)
  have b: "0 \<le> stack p" "0 \<le> bet p" "bet p \<le> current_bet s" "0 < min_raise s"
    using ok o(1) by (auto simp: hand_ok_def seat_ok_def seat_core_def)
  show ?thesis
  proof (cases "act \<in> {Bet, Raise}")
    case True
    then obtain a lo hi where a: "amount = Some a" "min_raise_to opts = Some lo" "max_raise_to opts = Some hi" "lo \<le> a" "a \<le> hi"
      using c l by (auto simp: check_action_def split: option.splits if_splits)
    moreover have "bet p \<le> lo" "hi = bet p + stack p"
      using a(2,3) b unfolding o(2) by (auto simp: options_for_def Let_def split: if_splits)
    moreover have "action_target opts p act amount = a"
      using True a(1) by (auto simp: action_target_def)
    ultimately show ?thesis by simp
  next
    case False
    have "all_in_total opts = bet p + stack p" if "act = AllIn"
      using c l that unfolding check_action_def by (auto simp: o(2) options_for_def Let_def split: if_splits)
    moreover have "0 \<le> call_amount opts" "call_amount opts \<le> stack p" using b by (auto simp: o(2) options_for_def Let_def)
    ultimately show ?thesis using False b by (cases act) (auto simp: action_target_def)
  qed
qed

lemma put_chips_keeps:
  assumes ok: "hand_ok s" and p: "p \<in> set (seats s)" and t: "bet p \<le> t" "t \<le> bet p + stack p"
  shows "hand_ok (put_chips s p t) \<and> roster (put_chips s p t) = roster s"
proof -
  let ?s = "upd_seat (seat_no p) (pay (t - bet p)) s"
  have d: "distinct (map seat_no (seats s))" using ok by (simp add: hand_ok_def)
  have r: "roster ?s = roster s" by (simp add: pay_def)
  have "seat_core (pay (t - bet p) p)" using hand_ok_seats [OF ok] p t by (intro seat_core_pay) auto
  then have c: "\<forall>q \<in> set (seats ?s). seat_core q"
    by (intro upd_seat_all [OF hand_ok_seats(1) [OF ok]]) (drule (1) same_seat [OF d _ p], simp)
  have "\<forall>q \<in> set (seats s). bet q \<le> max t (current_bet s)" using hand_ok_seats [OF ok] by force
  then have b: "\<forall>q \<in> set (seats ?s). bet q \<le> max t (current_bet s)"
    by (intro upd_seat_all) (assumption, drule (1) same_seat [OF d _ p], simp add: pay_def)
  show ?thesis
    using c b r hand_ok_simps [OF ok]
    by (auto intro!: hand_okI [OF ok] simp: put_chips_def Let_def max_def split: if_splits)
qed

lemma upd_seat_keeps:
  assumes ok: "hand_ok s"
    and f: "\<And>q. seat_no (f q) = seat_no q \<and> player (f q) = player q \<and> initial_stack (f q) = initial_stack q
      \<and> stack (f q) = stack q \<and> bet (f q) = bet q \<and> committed (f q) = committed q"
  shows "hand_ok (upd_seat n f s) \<and> roster (upd_seat n f s) = roster s"
proof
  show r: "roster (upd_seat n f s) = roster s" using f by simp
  have "seat_core (f q) = seat_core q" for q using f [of q] by (simp add: seat_core_def)
  then show "hand_ok (upd_seat n f s)"
    using hand_ok_simps [OF ok] hand_ok_seats [OF ok] f r
    by (auto intro!: hand_okI [OF ok] simp: upd_seat_def)
qed

lemma hand_ok_pending [simp]: "hand_ok (s\<lparr>pending := q\<rparr>) = hand_ok s"
  by (simp add: hand_ok_def)

lemma perform_keeps:
  assumes "hand_ok s" "check_action s (legal_actions s name) act amount = Inr opts" "actor s = Some p"
  shows "hand_ok (perform s opts p act amount) \<and> roster (perform s opts p act amount) = roster s"
proof -
  have p: "p \<in> set (seats s)"
    using assms(3) by (auto simp: actor_def dest: find_seat_Some split: list.splits)
  let ?s = "if act = Fold then upd_seat (seat_no p) (\<lambda>q. q\<lparr>folded := True\<rparr>) s
    else put_chips s p (action_target opts p act amount)"
  have "hand_ok ?s \<and> roster ?s = roster s"
    using upd_seat_keeps [OF assms(1), of "\<lambda>q. q\<lparr>folded := True\<rparr>"]
      put_chips_keeps [OF assms(1) p] action_target_bounds [OF assms] by simp
  then have "hand_ok (upd_seat (seat_no p) (\<lambda>q. q\<lparr>acted_bet := Some (current_bet ?s)\<rparr>) ?s) \<and>
     roster (upd_seat (seat_no p) (\<lambda>q. q\<lparr>acted_bet := Some (current_bet ?s)\<rparr>) ?s) = roster s"
    using upd_seat_keeps [of ?s "\<lambda>q. q\<lparr>acted_bet := Some (current_bet ?s)\<rparr>"] by simp
  then show ?thesis by (simp add: perform_def Let_def renew_pending_def)
qed

lemma apply_action_keeps [keeps_wf]:
  assumes "hand_ok s" "apply_action s name act amount = Inr t"
  shows "roster t = roster s \<and> (hand_ok t \<or> hand_done t)"
proof -
  obtain opts p where "check_action s (legal_actions s name) act amount = Inr opts" "actor s = Some p"
    "progress (perform s opts p act amount) = Inr t"
    using assms(2) by (auto simp: apply_action_def split: option.splits)
  with perform_keeps [OF assms(1)] progress_keeps show ?thesis by metis
qed

lemma apply_action_finished: "finished s \<Longrightarrow> apply_action s name act amount = Inl OffTurn"
  by (simp add: apply_action_def legal_actions_def current_player_def check_action_def)

section \<open>Dealing a hand\<close>

definition fresh :: "seat \<Rightarrow> bool" where
  "fresh p \<longleftrightarrow> bet p = 0 \<and> committed p = 0 \<and> 0 < stack p \<and> stack p = initial_stack p
     \<and> seat_no p \<in> {0..5} \<and> \<not> folded p"

lemma add_players_fresh:
  assumes "add_players es acc = Inr ps" "distinct (map seat_no acc)" "distinct (map player acc)" "\<forall>p \<in> set acc. fresh p"
  shows "distinct (map seat_no ps) \<and> distinct (map player ps) \<and> (\<forall>p \<in> set ps. fresh p)
    \<and> map (\<lambda>p. (seat_no p, player p, initial_stack p)) ps
      = map (\<lambda>p. (seat_no p, player p, initial_stack p)) acc @ map (\<lambda>e. (en_seat e, en_player e, en_stack e)) es"
  using assms
proof (induction es arbitrary: acc)
  case Nil
  then show ?case by simp
next
  case (Cons e es)
  note c = Cons.prems(1) [unfolded add_players.simps Inr_if]
  let ?p = "\<lparr>seat_no = en_seat e, player = en_player e, initial_stack = en_stack e,
             stack = en_stack e, bet = 0, committed = 0, hole = [], folded = False, acted_bet = None\<rparr>"
  have "fresh ?p" using c by (auto simp: fresh_def)
  then show ?case
    using Cons.IH [of "acc @ [?p]"] c Cons.prems(2-4) by simp
qed

lemma deal_frame:
  "finished (deal ns s) = finished s \<and> roster (deal ns s) = roster s \<and> current_bet (deal ns s) = current_bet s
   \<and> min_raise (deal ns s) = min_raise s \<and> big_blind (deal ns s) = big_blind s
   \<and> map (\<lambda>p. (stack p, bet p, committed p, initial_stack p, folded p)) (seats (deal ns s))
     = map (\<lambda>p. (stack p, bet p, committed p, initial_stack p, folded p)) (seats s)"
proof (induction ns arbitrary: s)
  case Nil
  then show ?case by simp
next
  case (Cons n ns)
  show ?case using Cons.IH by (simp add: take_cards_def upd_seat_def roster_def)
qed

lemma deal_keeps: "hand_ok s \<Longrightarrow> hand_ok (deal ns s) \<and> roster (deal ns s) = roster s"
proof -
  assume ok: "hand_ok s"
  define key where "key = (\<lambda>p :: seat. (stack p, bet p, committed p, initial_stack p, folded p))"
  have "map key (seats (deal ns s)) = map key (seats s)"
    unfolding key_def using deal_frame [of ns s] by blast
  then have k: "key ` set (seats (deal ns s)) = key ` set (seats s)"
    by (metis list.set_map)
  have "seat_core p \<and> bet p \<le> current_bet s" if "p \<in> set (seats (deal ns s))" for p
  proof -
    have "key p \<in> key ` set (seats s)" using k that by blast
    then obtain q where "q \<in> set (seats s)" "key p = key q" by blast
    then show ?thesis using hand_ok_seats [OF ok] by (auto simp: key_def seat_core_def)
  qed
  then show ?thesis using deal_frame [of ns s] hand_ok_simps [OF ok] by (auto intro!: hand_okI [OF ok])
qed

text \<open>The two blinds are different seats: heads-up the button is last in its own clockwise order.\<close>

lemma blinds_differ:
  assumes "distinct (map seat_no (seats s))" "\<forall>p \<in> set (seats s). seat_no p \<in> {0..5}" "btn \<in> {0..5}"
    and "find_seat s btn = Some d" "length (seats s) = 2"
  shows "clockwise s btn ! 0 \<noteq> d \<and> clockwise s btn ! 0 \<in> set (seats s)"
proof -
  let ?o = "clockwise s btn"
  have "length ?o = 2" using assms by (simp add: clockwise_def)
  then obtain x y where o: "?o = [x, y]" by (auto simp: numeral_2_eq_2 length_Suc_conv)
  have "set ?o = set (seats s)" by simp
  then have xy: "x \<in> set (seats s)" "y \<in> set (seats s)" unfolding o by auto
  have "sorted (map (\<lambda>p. (seat_no p - btn - 1) mod 6) ?o)" by (simp add: clockwise_def)
  then have le: "(seat_no x - btn - 1) mod 6 \<le> (seat_no y - btn - 1) mod 6" unfolding o by simp
  have "distinct (map seat_no ?o)"
    using assms(1) unfolding clockwise_def by (metis distinct_map distinct_sort set_sort)
  then have ne: "seat_no x \<noteq> seat_no y" unfolding o by simp
  have "x \<noteq> d"
  proof
    assume "x = d"
    then have "seat_no x = btn" using find_seat_Some [OF assms(4)] by simp
    moreover have "seat_no y \<in> {0..5}" using assms(2) xy by simp
    ultimately show False using le ne assms(3) by (auto simp: mod_if) presburger
  qed
  with xy show ?thesis unfolding o by simp
qed

text \<open>The waiting seats can act: they have not folded and still have chips.\<close>

definition pending_ok :: "hand \<Rightarrow> bool" where
  "pending_ok s \<longleftrightarrow> (\<forall>n \<in> set (pending s). \<exists>p \<in> set (seats s). seat_no p = n \<and> capable p)"

lemma pending_ok_next_street: "pending_ok (next_street s)"
  by (auto simp: pending_ok_def next_street_def Let_def take_cards_def clockwise_def)

lemma progress_pending:
  assumes "progress s = Inr t" "hand_ok s" "pending_ok s"
  shows "pending_ok t"
  using assms
proof (induction s rule: progress.induct)
  case prems: (1 s)
  have fin: "finish r sd = Inr t \<Longrightarrow> pending_ok t" for r sd
    by (auto simp: finish_def pending_ok_def)
  have sp: "pending_ok (settle_pending s)"
    using prems(4) by (auto simp: pending_ok_def settle_pending_def Let_def)
  note sk = settle_keeps [OF prems(3)]
  note rk = refund_keeps [OF sk [THEN conjunct1]]
  consider "\<exists>r sd. finish r sd = Inr t" | "t = settle_pending s"
    | "length (live s) \<noteq> 1" "\<not> pending (settle_pending s) \<noteq> []"
      "street (refund_uncalled (settle_pending s)) \<noteq> River"
      "progress (next_street (refund_uncalled (settle_pending s))) = Inr t"
    using iffD1 [OF progress_Inr prems(2)] by (simp only: if_splits) meson
  then show ?case
  proof cases
    case 1
    then show ?thesis using fin by blast
  next
    case 2
    with sp show ?thesis by simp
  next
    case 3
    then show ?thesis
      using prems(1) [OF 3(1) refl 3(2) refl 3(3,4)] next_street_keeps [OF rk [THEN conjunct1]]
        pending_ok_next_street by simp
  qed
qed

lemma renew_pending_ok: "pending_ok (renew_pending s n rest)"
  by (auto simp: pending_ok_def renew_pending_def clockwise_def)

lemma apply_action_pending:
  assumes "hand_ok s" "apply_action s name act amount = Inr t"
  shows "pending_ok t"
proof -
  obtain opts p where c: "check_action s (legal_actions s name) act amount = Inr opts" "actor s = Some p"
    and pr: "progress (perform s opts p act amount) = Inr t"
    using assms(2) by (auto simp: apply_action_def split: option.splits)
  have "pending_ok (perform s opts p act amount)"
    by (simp add: perform_def Let_def renew_pending_ok)
  with progress_pending [OF pr] perform_keeps [OF assms(1) c] show ?thesis by simp
qed

lemma post_blinds_keeps:
  assumes ok: "hand_ok s" and z: "\<forall>p \<in> set (seats s). bet p = 0"
    and b: "small_blind s \<le> current_bet s" "big_blind s \<le> current_bet s" "0 < small_blind s"
    and p: "sm \<in> set (seats s)" "bg \<in> set (seats s)" "sm \<noteq> bg"
  shows "hand_ok (post_blinds s sm bg) \<and> roster (post_blinds s sm bg) = roster s"
proof -
  let ?s = "s\<lparr>small_blind_seat := seat_no sm, big_blind_seat := seat_no bg\<rparr>"
  let ?u = "upd_seat (seat_no sm) (\<lambda>p. pay (min (small_blind s) (stack p)) p) ?s"
  let ?v = "upd_seat (seat_no bg) (\<lambda>p. pay (min (big_blind s) (stack p)) p) ?u"
  have d: "distinct (map seat_no (seats s))" using ok by (simp add: hand_ok_def)
  have ne: "seat_no sm \<noteq> seat_no bg" using same_seat [OF d p(1,2)] p(3) by blast
  have core: "seat_core q \<Longrightarrow> 0 < c \<Longrightarrow> seat_core (pay (min c (stack q)) q)" for q c
    by (rule seat_core_pay) (auto simp: seat_core_def)
  have c1: "\<forall>p \<in> set (seats ?s). seat_core p \<and> bet p = 0" using hand_ok_seats(1) [OF ok] z by simp
  have "\<forall>p \<in> set (seats ?u). seat_core p" using c1 b(3) core by (rule_tac upd_seat_all) auto
  then have c3: "\<forall>p \<in> set (seats ?v). seat_core p"
    using hand_ok_simps(3) [OF ok] core by (rule_tac upd_seat_all) auto
  have "\<forall>p \<in> set (seats ?u). bet p \<le> current_bet s \<and> (seat_no p = seat_no bg \<longrightarrow> bet p = 0)"
    using ok b ne c1 by (rule_tac upd_seat_all) (auto simp: hand_ok_def pay_def)
  then have "\<forall>p \<in> set (seats ?v). bet p \<le> current_bet s \<and> (seat_no p = seat_no bg \<longrightarrow> bet p \<le> current_bet s)"
    using b by (auto simp: upd_seat_def [of "seat_no bg"] pay_def)
  then show ?thesis
    using c3 hand_ok_simps [OF ok]
    by (auto intro!: hand_okI [OF ok] simp: post_blinds_def pay_def) (auto simp: roster_def)
qed

lemma distinct_sort_map: "distinct (map f (sort_key g xs)) = distinct (map f xs)"
  by (simp add: distinct_map)

lemma initial_hand_ok:
  assumes "add_players es [] = Inr ps" "2 \<le> length es" "0 < sb" "sb \<le> bb"
  shows "hand_ok (initial_hand ps btn sb bb cards)"
    "\<forall>p \<in> set (seats (initial_hand ps btn sb bb cards)). fresh p"
    "mset (roster (initial_hand ps btn sb bb cards)) = mset (map (\<lambda>e. (en_seat e, en_player e, en_stack e)) es)"
    "length ps = length es"
proof -
  have f: "distinct (map seat_no ps)" "distinct (map player ps)" "\<forall>p \<in> set ps. fresh p"
    and m: "map (\<lambda>p. (seat_no p, player p, initial_stack p)) ps = map (\<lambda>e. (en_seat e, en_player e, en_stack e)) es"
    using add_players_fresh [OF assms(1)] by auto
  show l: "length ps = length es" using arg_cong [OF m, of length] by simp
  show "hand_ok (initial_hand ps btn sb bb cards)"
    using f assms l by (auto simp: hand_ok_def initial_hand_def seat_ok_def seat_core_def fresh_def distinct_sort_map)
  show "\<forall>p \<in> set (seats (initial_hand ps btn sb bb cards)). fresh p"
    using f by (simp add: initial_hand_def)
  show "mset (roster (initial_hand ps btn sb bb cards)) = mset (map (\<lambda>e. (en_seat e, en_player e, en_stack e)) es)"
    unfolding m [symmetric] by (simp add: roster_def initial_hand_def)
qed

lemma blind_seats_differ:
  assumes ok: "hand_ok s" and f: "\<forall>p \<in> set (seats s). fresh p" and g: "btn \<in> {0..5}" "btn \<in> seat_no ` set (seats s)"
    and bs: "blind_seats s btn = (sm, bg)"
  shows "sm \<in> set (seats s)" "bg \<in> set (seats s)" "sm \<noteq> bg"
proof -
  let ?o = "clockwise s btn"
  have d: "distinct (map seat_no (seats s))" and l2: "2 \<le> length (seats s)" using ok by (auto simp: hand_ok_def)
  have lo: "length ?o = length (seats s)" by (simp add: clockwise_def)
  have do: "distinct ?o" using d unfolding clockwise_def by (metis distinct_map distinct_sort)
  have in_o: "k < length (seats s) \<Longrightarrow> ?o ! k \<in> set (seats s)" for k
    using lo nth_mem [of k ?o] by simp
  have "sm \<in> set (seats s) \<and> bg \<in> set (seats s) \<and> sm \<noteq> bg"
  proof (cases "length (seats s) = 2")
    case True
    have "find_seat s btn \<noteq> None" using g(2) by (auto simp: find_seat_def find_None_iff)
    then obtain q where q: "find_seat s btn = Some q" by blast
    have "?o ! 0 \<noteq> q \<and> ?o ! 0 \<in> set (seats s)"
      using blinds_differ [OF d _ g(1) q True] f by (auto simp: fresh_def)
    then show ?thesis using True q find_seat_Some [OF q] bs by (auto simp: blind_seats_def Let_def)
  next
    case False
    then have gt: "2 < length (seats s)" using l2 by simp
    have "seats s \<noteq> []" using gt by auto
    then have "?o ! 0 \<noteq> ?o ! 1" using nth_eq_iff_index_eq [OF do, of 0 1] lo gt by simp
    then show ?thesis using \<open>seats s \<noteq> []\<close> in_o [of 0] in_o [of 1] gt bs False by (auto simp: blind_seats_def Let_def)
  qed
  then show "sm \<in> set (seats s)" "bg \<in> set (seats s)" "sm \<noteq> bg" by auto
qed

lemma open_hand_keeps:
  assumes ok: "hand_ok s" and f: "\<forall>p \<in> set (seats s). fresh p" and g: "btn \<in> {0..5}" "btn \<in> seat_no ` set (seats s)"
    and b: "small_blind s \<le> current_bet s" "big_blind s \<le> current_bet s" "0 < small_blind s"
  shows "hand_ok (open_hand s btn) \<and> roster (open_hand s btn) = roster s \<and> pending_ok (open_hand s btn)"
proof -
  obtain sm bg where bs: "blind_seats s btn = (sm, bg)" by (cases "blind_seats s btn")
  have z: "\<forall>p \<in> set (seats s). bet p = 0" using f by (simp add: fresh_def)
  note pb = post_blinds_keeps [OF ok z b blind_seats_differ [OF ok f g bs]]
  show ?thesis
    using deal_keeps [OF pb [THEN conjunct1]] pb
    by (simp add: open_hand_def bs Let_def) (auto simp: pending_ok_def clockwise_def)
qed

definition brought :: "entry list \<Rightarrow> (int \<times> string \<times> int) list" where
  "brought es = map (\<lambda>e. (en_seat e, en_player e, en_stack e)) es"

text \<open>What every hand in play, or played, satisfies.\<close>

definition hand_inv :: "entry list \<Rightarrow> hand \<Rightarrow> bool" where
  "hand_inv es s \<longleftrightarrow> mset (roster s) = mset (brought es) \<and> (hand_ok s \<or> hand_done s) \<and> pending_ok s"

lemma new_hand_inv:
  assumes "new_hand es btn sb bb cards = Inr s"
  shows "hand_inv es s"
proof -
  obtain ps where ps: "add_players es [] = Inr ps" and g: "2 \<le> length es" "btn \<in> {0..5}" "btn \<in> seat_no ` set ps"
    "0 < sb" "sb \<le> bb" and s: "progress (open_hand (initial_hand ps btn sb bb cards) btn) = Inr s"
    using assms by (fastforce simp: new_hand_def)
  let ?i = "initial_hand ps btn sb bb cards"
  note ok = initial_hand_ok [OF ps g(1,4,5)]
  have "hand_ok (open_hand ?i btn) \<and> roster (open_hand ?i btn) = roster ?i \<and> pending_ok (open_hand ?i btn)"
    using ok g by (intro open_hand_keeps) (simp_all add: initial_hand_def)
  then show ?thesis
    using progress_keeps [OF s] progress_pending [OF s] ok(3) by (simp add: hand_inv_def brought_def)
qed

text \<open>Any run of accepted actions from a fresh hand.\<close>

fun act_step :: "hand \<Rightarrow> string \<times> action \<times> int option \<Rightarrow> engine_error + hand" where
  "act_step s (name, act, amount) = apply_action s name act amount"

lemma hand_run_inv:
  assumes "new_hand es btn sb bb cards = Inr s" "runR act_step s acts = Inr t"
  shows "hand_inv es t"
proof (rule runR_invariant [where P = "hand_inv es", OF assms(2) new_hand_inv [OF assms(1)]])
  fix h x h'
  assume h: "hand_inv es h" and st: "act_step h x = Inr h'"
  obtain name act amount where x: "x = (name, act, amount)" by (cases x)
  have "\<not> finished h" using st by (auto simp: x apply_action_finished)
  then have "hand_ok h" using h by (auto simp: hand_done_def hand_inv_def)
  then show "hand_inv es h'"
    using apply_action_keeps [of h name act amount h'] apply_action_pending [of h name act amount h'] st h
    by (auto simp: x hand_inv_def)
qed

section \<open>Properties\<close>

lemma roster_stacks: "sum_list (map initial_stack (seats s)) = sum_list (map (snd \<circ> snd) (roster s))"
  by (simp add: map_roster)

lemma hand_inv_brought:
  assumes "hand_inv es s"
  shows "sum_list (map initial_stack (seats s)) = sum_list (map en_stack es)"
proof -
  have "mset (map (snd \<circ> snd) (roster s)) = mset (map (snd \<circ> snd) (brought es))"
    using assms by (simp add: hand_inv_def)
  then have "sum_list (map (snd \<circ> snd) (roster s)) = sum_list (map (snd \<circ> snd) (brought es))"
    by (metis sum_mset_sum_list)
  then show ?thesis by (simp add: roster_stacks brought_def comp_def)
qed

text \<open>C1. No chip is created or lost: in every hand that was dealt and played by accepted actions, no stack is
  negative, and stacks plus wagers (stacks alone once the hand is over) add up to what the players brought.\<close>

theorem hand_conserves_chips:
  assumes "new_hand es btn sb bb cards = Inr s" "runR act_step s acts = Inr t"
  shows "(\<forall>p \<in> set (seats t). 0 \<le> stack p) \<and>
    sum_list (map stack (seats t)) + (if finished t then 0 else sum_list (map committed (seats t)))
      = sum_list (map en_stack es)"
proof -
  have inv: "hand_inv es t" by (rule hand_run_inv [OF assms])
  then consider "hand_ok t" | "hand_done t" by (auto simp: hand_inv_def)
  then show ?thesis
  proof cases
    case 1
    have "sum_list (map (\<lambda>p. stack p + committed p) (seats t)) = sum_list (map initial_stack (seats t))"
      using hand_ok_seats(1) [OF 1]
      by (intro arg_cong [where f = sum_list] map_cong) (auto simp: seat_core_def)
    then show ?thesis
      using 1 hand_ok_seats(1) [OF 1] hand_inv_brought [OF inv]
      by (simp add: hand_ok_def sum_list_addf seat_core_def)
  next
    case 2
    then show ?thesis using hand_inv_brought [OF inv] by (simp add: hand_done_def)
  qed
qed

definition demo_entries :: "entry list" where
  "demo_entries = [\<lparr>en_seat = 0, en_player = ''ann'', en_stack = 100\<rparr>, \<lparr>en_seat = 2, en_player = ''bob'', en_stack = 40\<rparr>]"

definition demo_seats :: "seat list" where
  "demo_seats = [\<lparr>seat_no = 0, player = ''ann'', initial_stack = 100, stack = 100, bet = 0, committed = 0,
       hole = [], folded = False, acted_bet = None\<rparr>,
     \<lparr>seat_no = 2, player = ''bob'', initial_stack = 40, stack = 40, bet = 0, committed = 0,
       hole = [], folded = False, acted_bet = None\<rparr>]"

definition demo_hand :: hand where
  "demo_hand = \<lparr>button = 0, small_blind = 5, big_blind = 10, small_blind_seat = 0, big_blind_seat = 2,
     seats = [\<lparr>seat_no = 0, player = ''ann'', initial_stack = 100, stack = 95, bet = 5, committed = 5,
                 hole = [1, 3], folded = False, acted_bet = None\<rparr>,
              \<lparr>seat_no = 2, player = ''bob'', initial_stack = 40, stack = 30, bet = 10, committed = 10,
                 hole = [0, 2], folded = False, acted_bet = None\<rparr>],
     deck = [0..51], cursor = 4, burned = [], board = [], street = Preflop, current_bet = 10, min_raise = 10,
     pending = [0, 2], uncalled = [], finished = False, result = None\<rparr>"

definition demo_raised :: hand where
  "demo_raised = demo_hand\<lparr>
     seats := [\<lparr>seat_no = 0, player = ''ann'', initial_stack = 100, stack = 70, bet = 30, committed = 30,
                 hole = [1, 3], folded = False, acted_bet = Some 30\<rparr>,
              \<lparr>seat_no = 2, player = ''bob'', initial_stack = 40, stack = 30, bet = 10, committed = 10,
                 hole = [0, 2], folded = False, acted_bet = None\<rparr>],
     current_bet := 30, min_raise := 20, pending := [2]\<rparr>"

definition demo_out :: outcome where
  "demo_out = \<lparr>out_players =
       [(''ann'', \<lparr>res_stack = 110, res_net = 10, res_won = 20, res_hand = None, res_best5 = None, res_shown = False\<rparr>),
        (''bob'', \<lparr>res_stack = 30, res_net = - 10, res_won = 0, res_hand = None, res_best5 = None, res_shown = False\<rparr>)],
     out_pots = [\<lparr>pot_amount = 20, eligible = [''ann''], winners = [''ann'']\<rparr>], out_uncalled = [(''ann'', 20)]\<rparr>"

definition demo_over :: hand where
  "demo_over = demo_raised\<lparr>
     seats := [\<lparr>seat_no = 0, player = ''ann'', initial_stack = 100, stack = 110, bet = 10, committed = 10,
                 hole = [1, 3], folded = False, acted_bet = Some 30\<rparr>,
              \<lparr>seat_no = 2, player = ''bob'', initial_stack = 40, stack = 30, bet = 10, committed = 10,
                 hole = [0, 2], folded = True, acted_bet = Some 30\<rparr>],
     current_bet := 10, pending := [], uncalled := [(''ann'', 20)], finished := True, result := Some demo_out\<rparr>"

lemma new_hand_intro:
  assumes "2 \<le> length es" "length es \<le> 6" "add_players es [] = Inr ps" "btn \<in> {0..5}" "btn \<in> seat_no ` set ps"
    "1 \<le> sb" "sb \<le> bb" "valid_cards cards {52}" "progress (open_hand (initial_hand ps btn sb bb cards) btn) = Inr s"
  shows "new_hand es btn sb bb cards = Inr s"
  using assms by (auto simp: new_hand_def)

lemma apply_action_intro:
  assumes "check_action s (legal_actions s name) act amount = Inr opts" "actor s = Some p"
    "progress (perform s opts p act amount) = Inr t"
  shows "apply_action s name act amount = Inr t"
  using assms by (simp add: apply_action_def)

lemma demo_dealt: "new_hand demo_entries 0 5 10 [0..51] = Inr demo_hand"
  by (rule new_hand_intro [where ps = demo_seats]; code_simp)

lemma demo_raise: "apply_action demo_hand ''ann'' Raise (Some 30) = Inr demo_raised"
  by (rule apply_action_intro [where opts = "options_for demo_hand (hd (seats demo_hand))"
        and p = "hd (seats demo_hand)"]; code_simp)

lemma demo_fold: "apply_action demo_raised ''bob'' Fold None = Inr demo_over"
  by (rule apply_action_intro [where opts = "options_for demo_raised (seats demo_raised ! 1)"
        and p = "seats demo_raised ! 1"]; code_simp)

definition demo_acts :: "(string \<times> action \<times> int option) list" where
  "demo_acts = [(''ann'', Raise, Some 30), (''bob'', Fold, None)]"

lemma hand_demo_run: "runR act_step demo_hand demo_acts = Inr demo_over"
  by (simp add: demo_acts_def demo_raise demo_fold)

theorem hand_conserves_chips_witness:
  "finished demo_over \<and> sum_list (map stack (seats demo_over)) = 140"
  using hand_conserves_chips [OF demo_dealt hand_demo_run] by (simp add: demo_over_def demo_entries_def)

text \<open>C14. The result of a finished hand is a zero-sum settlement of the players that were dealt in: the reported
  stacks are the stacks of the table and the reported nets add up to zero.\<close>

theorem hand_result_zero_sum:
  assumes "new_hand es btn sb bb cards = Inr s" "runR act_step s acts = Inr t" "finished t"
  shows "\<exists>out. results t = Inr (Some out) \<and> map fst (out_players out) = map player (seats t)
    \<and> map (res_stack \<circ> snd) (out_players out) = map stack (seats t)
    \<and> sum_list (map (res_net \<circ> snd) (out_players out)) = 0"
proof -
  have "hand_inv es t" by (rule hand_run_inv [OF assms(1,2)])
  then have d: "hand_done t" using assms(3) by (auto simp: hand_inv_def hand_ok_def)
  then obtain out where o: "result t = Some out" "map fst (out_players out) = map player (seats t)"
    "map (res_stack \<circ> snd) (out_players out) = map stack (seats t)"
    "map (res_net \<circ> snd) (out_players out) = map (\<lambda>p. stack p - initial_stack p) (seats t)"
    by (auto simp: hand_done_def)
  have "sum_list (map (res_net \<circ> snd) (out_players out)) = 0"
    unfolding o(4) using d by (simp add: sum_list_subtractf hand_done_def)
  then show ?thesis using o(1-3) assms(3) by (simp add: results_def)
qed

theorem hand_result_zero_sum_witness: "\<exists>out. results demo_over = Inr (Some out) \<and> length (out_players out) = 2"
proof -
  have "finished demo_over" by (simp add: demo_over_def)
  from hand_result_zero_sum [OF demo_dealt hand_demo_run this]
  obtain out where "results demo_over = Inr (Some out)" "map fst (out_players out) = map player (seats demo_over)"
    by blast
  moreover from this(2) have "length (out_players out) = 2"
    using map_eq_imp_length_eq [of fst "out_players out" player "seats demo_over"] by (simp add: demo_over_def)
  ultimately show ?thesis by blast
qed

end
