(* ===== verification/HoldemTable.thy ===== *)
theory HoldemTable
  imports HoldemChips
begin

text \<open>
  What the table shows and what it plays for an absent player: the public view of a hand carries no hidden card,
  and the automatic policy only ever produces an action that the engine accepts.
\<close>

section \<open>The public view\<close>

definition visible :: "hand \<Rightarrow> string option \<Rightarrow> seat \<Rightarrow> bool" where
  "visible s viewer p \<longleftrightarrow> Some (player p) = viewer \<or> was_shown s (player p)"

definition redact_seat :: "hand \<Rightarrow> string option \<Rightarrow> seat \<Rightarrow> seat" where
  "redact_seat s viewer p = (if visible s viewer p then p else p\<lparr>hole := []\<rparr>)"

text \<open>The hand with every card removed that the viewer may not know.\<close>

definition redact :: "string option \<Rightarrow> hand \<Rightarrow> hand" where
  "redact viewer s = s\<lparr>deck := [], burned := [], seats := map (redact_seat s viewer) (seats s)\<rparr>"

lemma redact_seat_frame [simp]:
  "player (redact_seat s v p) = player p" "seat_no (redact_seat s v p) = seat_no p"
  "stack (redact_seat s v p) = stack p" "bet (redact_seat s v p) = bet p"
  "committed (redact_seat s v p) = committed p" "folded (redact_seat s v p) = folded p"
  "acted_bet (redact_seat s v p) = acted_bet p"
  by (simp_all add: redact_seat_def)

lemma redact_frame [simp]:
  "seats (redact v s) = map (redact_seat s v) (seats s)" "finished (redact v s) = finished s"
  "result (redact v s) = result s" "pending (redact v s) = pending s" "current_bet (redact v s) = current_bet s"
  "min_raise (redact v s) = min_raise s" "button (redact v s) = button s" "small_blind (redact v s) = small_blind s"
  "big_blind (redact v s) = big_blind s" "small_blind_seat (redact v s) = small_blind_seat s"
  "big_blind_seat (redact v s) = big_blind_seat s" "street (redact v s) = street s" "board (redact v s) = board s"
  "uncalled (redact v s) = uncalled s"
  by (simp_all add: redact_def)

lemma build_pots_map:
  assumes "\<And>p. player (f p) = player p \<and> committed (f p) = committed p \<and> folded (f p) = folded p"
  shows "build_pots (map f ps) previous ls acc = build_pots ps previous ls acc"
  using assms by (induction ls arbitrary: previous acc) (simp_all add: filter_map comp_def)

lemma pots_redact: "pots (redact v s) = pots s"
  by (simp add: pots_def build_pots_map levels_def comp_def)

lemma find_redact:
  "find (\<lambda>p. seat_no p = n) (map (redact_seat s v) ps) = map_option (redact_seat s v) (find (\<lambda>p. seat_no p = n) ps)"
  by (induction ps) auto

lemma actor_redact: "actor (redact v s) = map_option (redact_seat s v) (actor s)"
  by (auto simp: actor_def find_seat_def find_redact split: list.splits)

lemma options_redact: "options_for (redact v s) (redact_seat s v p) = options_for s p"
proof -
  have "raise_allowed (redact v s) (redact_seat s v p) = raise_allowed s p"
    by (auto simp: raise_allowed_def capable_def cong: option.case_cong)
  then show ?thesis by (simp add: options_for_def Let_def)
qed

lemma current_redact: "current_player (redact v s) = current_player s"
  by (simp add: current_player_def actor_redact option.map_comp comp_def)

lemma legal_redact: "legal_actions (redact v s) name = legal_actions s name"
  by (simp add: legal_actions_def current_redact actor_redact option.map_comp comp_def options_redact)

lemma shown_redact: "was_shown (redact v s) n = was_shown s n"
  by (simp add: was_shown_def)

lemma public_redact: "public_of (redact v s) v (redact_seat s v p) = public_of s v p"
  by (simp add: public_of_def shown_redact) (simp add: redact_seat_def visible_def)

lemma view_redact: "view_hand (redact viewer s) viewer = view_hand s viewer"
proof -
  have "map (public_of (redact viewer s) viewer) (seats (redact viewer s)) = map (public_of s viewer) (seats s)"
    by (simp add: public_redact)
  then show ?thesis
    unfolding view_hand_def by (simp add: pots_redact current_redact legal_redact Let_def cong: option.case_cong)
qed

text \<open>C15. The public snapshot is a function of what the viewer may know: removing the deck, the burned cards and the
  hole cards of every other player whose hand was not shown leaves it unchanged, and during a hand it carries
  no hole cards but the viewer's own.\<close>

theorem view_hides_cards:
  "view_hand (redact viewer s) viewer = view_hand s viewer \<and>
   list_all (\<lambda>q. pub_hole q = None \<or> Some (pub_player q) = viewer \<or> finished s) (v_seats (view_hand s viewer))"
proof
  show "view_hand (redact viewer s) viewer = view_hand s viewer" by (rule view_redact)
  show "list_all (\<lambda>q. pub_hole q = None \<or> Some (pub_player q) = viewer \<or> finished s) (v_seats (view_hand s viewer))"
    by (auto simp: list_all_iff view_hand_def public_of_def was_shown_def Let_def)
qed

section \<open>The automatic policy\<close>

lemma actor_capable:
  assumes "hand_ok s" "pending_ok s" "actor s = Some p"
  shows "capable p"
proof -
  obtain n ns where n: "pending s = n # ns" "find_seat s n = Some p"
    using assms(3) by (auto simp: actor_def split: list.splits)
  obtain q where q: "q \<in> set (seats s)" "seat_no q = n" "capable q"
    using assms(2) n(1) by (auto simp: pending_ok_def)
  have "distinct (map seat_no (seats s))" using assms(1) by (simp add: hand_ok_def)
  then have "q = p" using same_seat [OF _ q(1), of p] find_seat_Some [OF n(2)] q(2) by blast
  with q(3) show ?thesis by simp
qed

lemma auto_action_cases:
  assumes "auto_action s name = Inr act"
  obtains opts p where "legal_actions s name = Some opts" "actor s = Some p"
    "if can_check opts then act = Check
     else act = Fold \<or> act = Call \<and> 2 * call_amount opts \<le> sum_list (map committed (seats s))"
proof -
  obtain opts p where o: "legal_actions s name = Some opts" "actor s = Some p"
    using assms by (cases "legal_actions s name"; cases "actor s") (simp_all add: auto_action_def)
  have "if can_check opts then act = Check
     else act = Fold \<or> act = Call \<and> 2 * call_amount opts \<le> sum_list (map committed (seats s))"
    using assms unfolding auto_action_def o option.case prod.case Let_def bindR_def
    by (simp split: if_splits sum.splits)
  with o show ?thesis by (rule that)
qed

text \<open>Whatever the policy chooses for an absent player is accepted by the engine at that point of the hand. It
  checks when that is free, otherwise folds or calls, and a call costs at most half of the pot.\<close>

theorem auto_action_accepted:
  assumes "new_hand es btn sb bb cards = Inr s" "runR act_step s acts = Inr t"
    and "auto_action t name = Inr act"
  shows "\<exists>opts. check_action t (legal_actions t name) act None = Inr opts \<and>
    (if can_check opts then act = Check
     else act = Fold \<or> act = Call \<and> 0 < call_amount opts \<and>
       2 * call_amount opts \<le> sum_list (map committed (seats t)))"
proof -
  have inv: "hand_inv es t" by (rule hand_run_inv [OF assms(1,2)])
  obtain opts p where l: "legal_actions t name = Some opts" and p: "actor t = Some p"
    and c: "if can_check opts then act = Check
      else act = Fold \<or> act = Call \<and> 2 * call_amount opts \<le> sum_list (map committed (seats t))"
    using assms(3) by (rule auto_action_cases)
  have o: "opts = options_for t p" "\<not> finished t" using l p by (auto elim: legal_actions_Some)
  then have "hand_ok t" "pending_ok t" using inv by (auto simp: hand_inv_def hand_done_def)
  then have "capable p" using p by (rule actor_capable)
  then have "\<not> can_check opts \<longrightarrow> 0 < call_amount opts"
    by (auto simp: o(1) options_for_def Let_def capable_def)
  with c l show ?thesis by (auto simp: check_action_def split: if_splits)
qed

theorem auto_action_accepted_witness:
  "auto_action demo_raised ''bob'' = Inr Fold \<and>
   (\<exists>opts. check_action demo_raised (legal_actions demo_raised ''bob'') Fold None = Inr opts)"
proof -
  have run: "runR act_step demo_hand [(''ann'', Raise, Some 30)] = Inr demo_raised"
    by (simp add: demo_raise)
  have a: "auto_action demo_raised ''bob'' = Inr Fold" by code_simp
  from auto_action_accepted [OF demo_dealt run a] a show ?thesis by blast
qed

end
