(* ===== verification/Points.thy ===== *)
theory Points
  imports Prelude
begin

text \<open>
  \<^verbatim>\<open>backend/app/modules/points.py\<close>: the append-only points ledger. The table
  \<open>points_ledger\<close> is the list of its rows in insertion (id) order; a balance is never
  stored, it is the sum of the deltas of a member. The locale \<open>ledger_ops\<close> is what the
  escrow of \<open>CashBook\<close> and the games rely on.
\<close>

section \<open>The interface of a ledger\<close>

locale ledger_ops =
  fixes post :: "'s \<Rightarrow> uid \<Rightarrow> int \<Rightarrow> 'x \<Rightarrow> 'e + 's"
    and bal :: "'s \<Rightarrow> uid \<Rightarrow> int"
    and tot :: "'s \<Rightarrow> int"
    and overdraft :: "'x \<Rightarrow> bool"
  assumes post_bal: "post s u d x = Inr t \<Longrightarrow> bal t v = bal s v + (if v = u then d else 0)"
    and post_tot: "post s u d x = Inr t \<Longrightarrow> tot t = tot s + d"
    and credit_ok: "0 \<le> d \<Longrightarrow> \<exists>t. post s u d x = Inr t"
    and debit_covered: "post s u d x = Inr t \<Longrightarrow> d < 0 \<Longrightarrow> \<not> overdraft x \<Longrightarrow> 0 \<le> bal t u"
    and debit_ok: "0 \<le> bal s u + d \<Longrightarrow> \<exists>t. post s u d x = Inr t"
begin

text \<open>A debit of one account followed by a credit of another.\<close>

lemma pair_tot:
  "post s u (- d) x = Inr t \<Longrightarrow> post t v c y = Inr r \<Longrightarrow> tot r = tot s - d + c"
  by (drule post_tot)+ simp

lemma pair_bal:
  assumes "u \<noteq> v" "post s u (- d) x = Inr t" "post t v c y = Inr r"
  shows "bal r u = bal s u - d \<and> bal r v = bal s v + c \<and>
    (\<forall>w. w \<noteq> u \<longrightarrow> w \<noteq> v \<longrightarrow> bal r w = bal s w)"
  using post_bal [OF assms(2)] post_bal [OF assms(3)] assms(1) by auto

lemma pair_ok:
  assumes "0 < d" "d \<le> bal s u" "0 \<le> c"
  shows "\<exists>t r. post s u (- d) x = Inr t \<and> post t v c y = Inr r"
  using assms debit_ok [of s u "- d" x] credit_ok by fastforce

lemma nonneg_preserved:
  assumes "post s u d x = Inr t" "\<not> overdraft x" "0 \<le> bal s v"
  shows "0 \<le> bal t v"
proof (cases "v = u \<and> d < 0")
  case True
  then show ?thesis using assms debit_covered by blast
next
  case False
  then show ?thesis using assms post_bal [OF assms(1), of v] by auto
qed

end

section \<open>Rows and reads\<close>

record ledger_row =
  l_user :: uid
  l_delta :: int
  l_after :: int
  l_reason :: string
  l_ref :: string
  l_actor :: string
  l_at :: int

type_synonym ledger = "ledger_row list"

datatype points_error =
    InsufficientPoints | ZeroDelta | MissingUser | AmountNotPositive | MissingParties
  | SelfTransfer | FeeTooHigh

definition balance :: "ledger \<Rightarrow> uid \<Rightarrow> int" where
  "balance rows u = sum_list (map l_delta (filter (\<lambda>r. l_user r = u) rows))"

text \<open>\<open>balances(None)\<close>: every member with a row; \<open>balances(ids)\<close>: exactly the asked ones.\<close>

definition balances :: "ledger \<Rightarrow> uid list option \<Rightarrow> (uid \<times> int) list" where
  "balances rows ids =
     (let out = map (\<lambda>u. (u, balance rows u)) (remdups (map l_user rows)) in
      case ids of
        None \<Rightarrow> out
      | Some us \<Rightarrow> map (\<lambda>u. (u, case map_of out u of None \<Rightarrow> 0 | Some b \<Rightarrow> b)) us)"

text \<open>The newest rows first; \<open>int(limit or 20)\<close> reads a limit of 0 as 20.\<close>

definition ledger_page :: "ledger \<Rightarrow> uid \<Rightarrow> int \<Rightarrow> ledger" where
  "ledger_page rows u limit =
     take (nat (clamp 1 500 (if limit = 0 then 20 else limit)))
       (rev (filter (\<lambda>r. l_user r = u) rows))"

definition spent_since :: "ledger \<Rightarrow> uid \<Rightarrow> string \<Rightarrow> int \<Rightarrow> int" where
  "spent_since rows u reason since =
     sum_list (map (\<lambda>r. - l_delta r)
       (filter (\<lambda>r. l_user r = u \<and> l_reason r = reason \<and> since \<le> l_at r \<and> l_delta r < 0) rows))"

section \<open>Writes\<close>

definition points_apply ::
    "ledger \<Rightarrow> uid \<Rightarrow> int \<Rightarrow> string \<Rightarrow> string \<Rightarrow> string \<Rightarrow> int \<Rightarrow> points_error + ledger \<times> int" where
  "points_apply rows u delta reason ref actor now =
     (let after = balance rows u + delta in
      if delta < 0 \<and> after < 0 \<and> reason \<noteq> ''checkin'' then Inl InsufficientPoints
      else Inr (rows @ [\<lparr>l_user = u, l_delta = delta, l_after = after, l_reason = take 60 reason,
                         l_ref = take 120 ref, l_actor = take 60 actor, l_at = now\<rparr>], after))"

definition points_add ::
    "ledger \<Rightarrow> uid \<Rightarrow> int \<Rightarrow> string \<Rightarrow> string \<Rightarrow> string \<Rightarrow> int \<Rightarrow> points_error + ledger \<times> int" where
  "points_add rows u delta reason ref actor now =
     (if delta = 0 then Inl ZeroDelta
      else if py_strip u = [] then Inl MissingUser
      else points_apply rows u delta reason ref actor now)"

record transfer_result =
  t_amount :: int
  t_fee :: int
  t_received :: int
  t_from_balance :: int
  t_to_balance :: int

definition points_transfer ::
    "ledger \<Rightarrow> uid \<Rightarrow> uid \<Rightarrow> int \<Rightarrow> string \<Rightarrow> int \<Rightarrow> int \<Rightarrow> points_error + ledger \<times> transfer_result" where
  "points_transfer rows from_id to_id amount actor fee now =
     (if amount \<le> 0 then Inl AmountNotPositive
      else if from_id = [] \<or> to_id = [] then Inl MissingParties
      else if from_id = to_id then Inl SelfTransfer
      else
        let fee' = max 0 (min fee amount); received = amount - fee' in
        if received \<le> 0 then Inl FeeTooHigh
        else
          bindR (points_apply rows from_id (- amount) ''transfer.out'' (''to:'' @ to_id) actor now)
            (\<lambda>(rows1, out_balance).
          bindR (points_apply rows1 to_id received ''transfer.in'' (''from:'' @ from_id) actor now)
            (\<lambda>(rows2, in_balance).
          Inr (rows2, \<lparr>t_amount = amount, t_fee = fee', t_received = received,
                       t_from_balance = out_balance, t_to_balance = in_balance\<rparr>))))"

section \<open>Lemmas\<close>

definition ledger_total :: "ledger \<Rightarrow> int" where
  "ledger_total rows = sum_list (map l_delta rows)"

lemma balance_Nil [simp]: "balance [] u = 0"
  by (simp add: balance_def)

lemma balance_snoc [simp]:
  "balance (rows @ [r]) u = balance rows u + (if l_user r = u then l_delta r else 0)"
  by (simp add: balance_def)

lemma ledger_total_snoc [simp]: "ledger_total (rows @ [r]) = ledger_total rows + l_delta r"
  by (simp add: ledger_total_def)

lemma points_apply_Inr:
  "points_apply rows u d reason ref actor now = Inr (rows', b) \<longleftrightarrow>
   (0 \<le> d \<or> 0 \<le> balance rows u + d \<or> reason = ''checkin'') \<and> b = balance rows u + d \<and>
   rows' = rows @ [\<lparr>l_user = u, l_delta = d, l_after = b, l_reason = take 60 reason,
                    l_ref = take 120 ref, l_actor = take 60 actor, l_at = now\<rparr>]"
  by (auto simp: points_apply_def Let_def)

lemma points_apply_after:
  "points_apply rows u d reason ref actor now = Inr (rows', b) \<Longrightarrow> b = balance rows' u"
  by (auto simp: points_apply_Inr)

text \<open>The posting of a ledger with its metadata (reason, reference, actor, clock) as one value.\<close>

definition post_entry ::
    "ledger \<Rightarrow> uid \<Rightarrow> int \<Rightarrow> string \<times> string \<times> string \<times> int \<Rightarrow> points_error + ledger" where
  "post_entry rows u d = (\<lambda>(reason, ref, actor, now).
     bindR (points_apply rows u d reason ref actor now) (\<lambda>(rows', _). Inr rows'))"

lemma post_entry_Inr:
  "post_entry rows u d (reason, ref, actor, now) = Inr rows' \<longleftrightarrow>
   (\<exists>b. points_apply rows u d reason ref actor now = Inr (rows', b))"
  by (auto simp: post_entry_def)

interpretation ledger: ledger_ops post_entry balance ledger_total "\<lambda>x. fst x = ''checkin''"
proof unfold_locales
  fix s u d t v and x :: "string \<times> string \<times> string \<times> int"
  assume "post_entry s u d x = Inr t"
  then show "balance t v = balance s v + (if v = u then d else 0)"
    by (cases x) (auto simp: post_entry_Inr points_apply_Inr)
next
  fix s u d t and x :: "string \<times> string \<times> string \<times> int"
  assume "post_entry s u d x = Inr t"
  then show "ledger_total t = ledger_total s + d"
    by (cases x) (auto simp: post_entry_Inr points_apply_Inr)
next
  fix d :: int and s u and x :: "string \<times> string \<times> string \<times> int"
  assume "0 \<le> d"
  then show "\<exists>t. post_entry s u d x = Inr t"
    by (cases x) (auto simp: post_entry_Inr points_apply_Inr)
next
  fix s u d t and x :: "string \<times> string \<times> string \<times> int"
  assume "post_entry s u d x = Inr t" "d < 0" "fst x \<noteq> ''checkin''"
  then show "0 \<le> balance t u"
    by (cases x) (auto simp: post_entry_Inr points_apply_Inr)
next
  fix s u and d :: int and x :: "string \<times> string \<times> string \<times> int"
  assume "0 \<le> balance s u + d"
  then show "\<exists>t. post_entry s u d x = Inr t"
    by (cases x) (auto simp: post_entry_Inr points_apply_Inr)
qed

lemma points_apply_post:
  "points_apply rows u d reason ref actor now = Inr (rows', b) \<Longrightarrow>
   post_entry rows u d (reason, ref, actor, now) = Inr rows'"
  by (auto simp: post_entry_Inr)

lemmas apply_tot = ledger.post_tot [OF points_apply_post]
  and apply_bal = ledger.post_bal [OF points_apply_post]
  and apply_nonneg = ledger.nonneg_preserved [OF points_apply_post]

text \<open>Rows whose recorded \<open>balance_after\<close> is the balance derived from the rows up to them.\<close>

definition witnessed :: "ledger \<Rightarrow> bool" where
  "witnessed rows \<longleftrightarrow>
     (\<forall>i < length rows. l_after (rows ! i) = balance (take (Suc i) rows) (l_user (rows ! i)))"

lemma witnessed_snoc:
  "witnessed (rows @ [r]) \<longleftrightarrow> witnessed rows \<and> l_after r = balance (rows @ [r]) (l_user r)"
  by (auto simp: witnessed_def nth_append less_Suc_eq)

lemma points_apply_witnessed:
  "points_apply rows u d reason ref actor now = Inr (rows', b) \<Longrightarrow> witnessed rows \<Longrightarrow> witnessed rows'"
  by (auto simp: points_apply_Inr witnessed_snoc)

lemma points_transfer_Inr:
  assumes "points_transfer rows a b amount actor fee now = Inr (rows', res)"
  obtains rows1 x y where
    "points_apply rows a (- amount) ''transfer.out'' (''to:'' @ b) actor now = Inr (rows1, x)"
    "points_apply rows1 b (amount - max 0 (min fee amount)) ''transfer.in'' (''from:'' @ a) actor now
       = Inr (rows', y)"
    "a \<noteq> b" "0 < amount" "max 0 (min fee amount) < amount"
    "res = \<lparr>t_amount = amount, t_fee = max 0 (min fee amount),
            t_received = amount - max 0 (min fee amount), t_from_balance = x, t_to_balance = y\<rparr>"
  using assms by (auto simp: points_transfer_def Let_def split: if_splits)

lemma spent_since_nonneg: "0 \<le> spent_since rows u reason since"
  unfolding spent_since_def by (rule sum_list_int_nonneg) auto

lemma balances_lookup:
  "u \<in> l_user ` set rows \<Longrightarrow> map_of (balances rows None) u = Some (balance rows u)"
  by (simp add: balances_def Let_def map_of_map_restrict restrict_map_def)

lemma balance_no_rows: "u \<notin> l_user ` set rows \<Longrightarrow> balance rows u = 0"
proof -
  assume "u \<notin> l_user ` set rows"
  then have "filter (\<lambda>r. l_user r = u) rows = []" by (auto simp: filter_empty_conv)
  then show ?thesis by (simp add: balance_def)
qed

lemma transfer_effect:
  assumes "points_transfer rows a b amount actor fee now = Inr (rows', r)" and w: "witnessed rows"
  shows "balance rows' a = balance rows a - amount \<and> balance rows' b = balance rows b + t_received r \<and>
      (\<forall>w. w \<noteq> a \<longrightarrow> w \<noteq> b \<longrightarrow> balance rows' w = balance rows w) \<and>
      ledger_total rows' = ledger_total rows - t_fee r \<and>
      t_from_balance r = balance rows' a \<and> t_to_balance r = balance rows' b \<and>
      t_received r = amount - t_fee r \<and> 0 < t_received r \<and> witnessed rows'"
  using assms(1)
proof (rule points_transfer_Inr)
  fix rows1 x y
  assume t1: "points_apply rows a (- amount) ''transfer.out'' (''to:'' @ b) actor now = Inr (rows1, x)"
    and t2: "points_apply rows1 b (amount - max 0 (min fee amount)) ''transfer.in'' (''from:'' @ a) actor now
          = Inr (rows', y)"
    and ab: "a \<noteq> b" "0 < amount" "max 0 (min fee amount) < amount"
    and r: "r = \<lparr>t_amount = amount, t_fee = max 0 (min fee amount),
            t_received = amount - max 0 (min fee amount), t_from_balance = x, t_to_balance = y\<rparr>"
  note p = points_apply_post [OF t1] points_apply_post [OF t2]
  have xy: "x = balance rows a - amount" "y = balance rows' b"
    using t1 points_apply_after [OF t2] by (auto simp: points_apply_Inr)
  show ?thesis
    using ledger.pair_bal [OF ab(1) p] ledger.pair_tot [OF p] ab(3) xy
      points_apply_witnessed [OF t2 points_apply_witnessed [OF t1 w]]
    by (auto simp: r min_def max_def split: if_splits)
qed

section \<open>Properties\<close>

text \<open>A transfer succeeds exactly when the amount is positive, both parties are named and differ,
  the clamped fee leaves something to receive and the sender's derived balance covers the amount.
  On success the receiver gains amount minus fee, the sender loses the amount, nobody else changes,
  the ledger total falls by exactly the fee, and every row still records its derived balance.\<close>

theorem transfer_exact:
  assumes "witnessed rows"
  shows "((\<exists>rows' r. points_transfer rows a b amount actor fee now = Inr (rows', r)) \<longleftrightarrow>
      0 < amount \<and> a \<noteq> [] \<and> b \<noteq> [] \<and> a \<noteq> b \<and> max 0 (min fee amount) < amount \<and> amount \<le> balance rows a) \<and>
    (\<forall>rows' r. points_transfer rows a b amount actor fee now = Inr (rows', r) \<longrightarrow>
      balance rows' a = balance rows a - amount \<and> balance rows' b = balance rows b + t_received r \<and>
      (\<forall>w. w \<noteq> a \<longrightarrow> w \<noteq> b \<longrightarrow> balance rows' w = balance rows w) \<and>
      ledger_total rows' = ledger_total rows - t_fee r \<and>
      t_from_balance r = balance rows' a \<and> t_to_balance r = balance rows' b \<and>
      t_received r = amount - t_fee r \<and> 0 < t_received r \<and> witnessed rows')"
  (is "?dom \<and> ?eff")
proof
  show ?dom
    by (auto simp: points_transfer_def points_apply_def Let_def max_def split: if_splits)
  show ?eff using transfer_effect [OF _ assms] by blast
qed

definition demo_ledger :: ledger where
  "demo_ledger =
     [\<lparr>l_user = ''ann'', l_delta = 100, l_after = 100, l_reason = ''admin.mint'', l_ref = [],
       l_actor = ''root'', l_at = 1\<rparr>]"

theorem transfer_exact_witness:
  "witnessed demo_ledger \<and>
   (\<exists>rows' r. points_transfer demo_ledger ''ann'' ''bob'' 30 ''member'' 5 2 = Inr (rows', r)
      \<and> ledger_total rows' = 95)"
proof -
  have w: "witnessed demo_ledger" by (simp add: witnessed_def demo_ledger_def balance_def)
  have "\<exists>rows' r. points_transfer demo_ledger ''ann'' ''bob'' 30 ''member'' 5 2 = Inr (rows', r)"
    using transfer_exact [OF w, of "''ann''" "''bob''" 30 "''member''" 5 2]
    by (simp add: demo_ledger_def balance_def)
  then obtain rows' r where t: "points_transfer demo_ledger ''ann'' ''bob'' 30 ''member'' 5 2 = Inr (rows', r)"
    by blast
  then have "t_fee r = 5" by (auto elim!: points_transfer_Inr)
  then have "ledger_total rows' = 95"
    using transfer_exact [OF w, of "''ann''" "''bob''" 30 "''member''" 5 2] t
    by (simp add: demo_ledger_def ledger_total_def)
  then show ?thesis using w t by blast
qed

text \<open>The guarded write: posting never takes a non-negative balance below zero unless its reason is
  the check-in, it moves exactly one member's balance by exactly the delta, and it is refused only when
  a debit is not covered.\<close>

theorem apply_guard:
  "case points_apply rows u d reason ref actor now of
     Inl e \<Rightarrow> e = InsufficientPoints \<and> d < 0 \<and> balance rows u + d < 0 \<and> reason \<noteq> ''checkin''
   | Inr (rows', b) \<Rightarrow>
       b = balance rows' u \<and>
       (\<forall>v. balance rows' v = balance rows v + (if v = u then d else 0)) \<and>
       (\<forall>v. reason \<noteq> ''checkin'' \<longrightarrow> 0 \<le> balance rows v \<longrightarrow> 0 \<le> balance rows' v) \<and>
       take (length rows) rows' = rows"
  by (auto simp: points_apply_def Let_def)

theorem apply_guard_witness:
  "(\<forall>v. balance (demo_ledger @ [\<lparr>l_user = ''ann'', l_delta = -60, l_after = 40, l_reason = ''shop.redeem'',
      l_ref = [], l_actor = ''root'', l_at = 2\<rparr>]) v = balance demo_ledger v + (if v = ''ann'' then -60 else 0))
   \<and> (InsufficientPoints = InsufficientPoints \<and> (-160::int) < 0)"
proof -
  have a: "points_apply demo_ledger ''ann'' (-60) ''shop.redeem'' [] ''root'' 2 =
    Inr (demo_ledger @ [\<lparr>l_user = ''ann'', l_delta = -60, l_after = 40, l_reason = ''shop.redeem'',
      l_ref = [], l_actor = ''root'', l_at = 2\<rparr>], 40)"
    by (simp add: points_apply_def demo_ledger_def balance_def)
  have b: "points_apply demo_ledger ''ann'' (-160) ''shop.redeem'' [] ''root'' 2 = Inl InsufficientPoints"
    by (simp add: points_apply_def demo_ledger_def balance_def)
  show ?thesis
    using apply_guard [where rows = demo_ledger and u = "''ann''" and d = "-60" and reason = "''shop.redeem''"
          and ref = "[]" and actor = "''root''" and now = 2, unfolded a]
      apply_guard [where rows = demo_ledger and u = "''ann''" and d = "-160" and reason = "''shop.redeem''"
          and ref = "[]" and actor = "''root''" and now = 2, unfolded b] by simp
qed

end
