(* ===== verification/CashBook.thy ===== *)
theory CashBook
  imports Points
begin

text \<open>
  \<^verbatim>\<open>backend/app/modules/play_money.py\<close>: escrowed game money. The state is the ledger
  together with the tables \<open>play_escrows\<close>, \<open>play_funds\<close>, \<open>play_cash_moves\<close> and
  \<open>play_cash_events\<close>. Every method runs inside the caller's write transaction, which an
  exception rolls back, so a raise is an error value that leaves no new state. The check
  that a transaction is open is the caller's obligation and has no counterpart.
\<close>

section \<open>Errors and bounded integers\<close>

datatype amount_label =
    LQuantity | LFreeze | LTopUp | LMove | LStakePoints | LTotalStake | LCapital | LBetPoints
  | LEscrowTotal | LMessageId | LWindow | LMultiplier

datatype play_error =
    OutOfRange amount_label int int
  | IntentMismatch | EscrowChanged | MissingRequestId | BuyInMissing | SelfMove | SeatNotFunded
  | PotChanged | UnknownFund | SinkCannotPay | InvalidOption | EmptyDraft | FromPoints points_error

definition MAX_INT :: int where
  "MAX_INT = 2 ^ 63 - 1"

definition integer :: "int \<Rightarrow> amount_label \<Rightarrow> int \<Rightarrow> int \<Rightarrow> play_error + int" where
  "integer v label low high = (if low \<le> v \<and> v \<le> high then Inr v else Inl (OutOfRange label low high))"

lemma integer_Inr [simp]: "integer v label low high = Inr w \<longleftrightarrow> w = v \<and> low \<le> v \<and> v \<le> high"
  by (auto simp: integer_def)

section \<open>Tables\<close>

record escrow =
  e_amount :: int
  e_reserved :: int
  e_spent :: int
  e_released :: int
  e_created :: int

record fund =
  f_amount :: int
  f_received :: int
  f_paid :: int

datatype operation = OpReserve | OpRelease | OpBuyIn | OpTopUp | OpTransferOut | OpTransferIn
  | OpConsume | OpPayout

record cash_event =
  ev_scope :: string
  ev_ref :: string
  ev_user :: uid
  ev_op :: operation
  ev_amount :: int
  ev_target :: string
  ev_at :: int

text \<open>The JSON list stored as \<open>intent_json\<close>; a top-up has a fourth element unless its reason is the default.\<close>

datatype intent = ITopUp uid int "string option" | ITransfer uid uid int

record cash =
  points :: ledger
  escrows :: "((string \<times> string \<times> uid) \<times> escrow) list"
  funds :: "((string \<times> string) \<times> fund) list"
  moves :: "((string \<times> string \<times> string) \<times> intent) list"
  events :: "cash_event list"

definition cash_event ::
    "cash \<Rightarrow> string \<Rightarrow> string \<Rightarrow> uid \<Rightarrow> operation \<Rightarrow> int \<Rightarrow> string \<Rightarrow> int \<Rightarrow> cash" where
  "cash_event c scope ref u op amount target now =
     c\<lparr>events := events c @ [\<lparr>ev_scope = scope, ev_ref = ref, ev_user = u, ev_op = op,
        ev_amount = amount, ev_target = target, ev_at = now\<rparr>]\<rparr>"

definition cash_apply ::
    "cash \<Rightarrow> uid \<Rightarrow> int \<Rightarrow> string \<Rightarrow> string \<Rightarrow> int \<Rightarrow> play_error + cash" where
  "cash_apply c u delta reason ref now =
     (case points_apply (points c) u delta reason ref ''play'' now of
        Inl e \<Rightarrow> Inl (FromPoints e)
      | Inr (rows, _) \<Rightarrow> Inr (c\<lparr>points := rows\<rparr>))"

section \<open>Operations\<close>

definition reserve ::
    "cash \<Rightarrow> string \<Rightarrow> string \<Rightarrow> uid \<Rightarrow> int \<Rightarrow> string \<Rightarrow> int \<Rightarrow> play_error + cash \<times> bool" where
  "reserve c scope ref u amount reason now =
     bindR (integer amount LFreeze 1 MAX_INT) (\<lambda>_.
     case map_of (escrows c) (scope, ref, u) of
       Some row \<Rightarrow> if e_reserved row \<noteq> amount then Inl IntentMismatch else Inr (c, False)
     | None \<Rightarrow>
         bindR (cash_apply c u (- amount) reason (scope @ '':'' @ ref) now) (\<lambda>c1.
         let c2 = c1\<lparr>escrows := put (scope, ref, u)
               \<lparr>e_amount = amount, e_reserved = amount, e_spent = 0, e_released = 0, e_created = now\<rparr>
               (escrows c1)\<rparr>
         in Inr (cash_event c2 scope ref u OpReserve amount [] now, True)))"

definition held :: "cash \<Rightarrow> string \<Rightarrow> string \<Rightarrow> uid \<Rightarrow> int" where
  "held c scope ref u =
     (case map_of (escrows c) (scope, ref, u) of None \<Rightarrow> 0 | Some row \<Rightarrow> e_amount row)"

datatype take_field = Spent | Released

fun take_row :: "take_field \<Rightarrow> int \<Rightarrow> escrow \<Rightarrow> escrow" where
  "take_row Spent a row = row\<lparr>e_amount := e_amount row - a, e_spent := e_spent row + a\<rparr>"
| "take_row Released a row = row\<lparr>e_amount := e_amount row - a, e_released := e_released row + a\<rparr>"

definition take_escrow ::
    "cash \<Rightarrow> string \<Rightarrow> string \<Rightarrow> uid \<Rightarrow> int \<Rightarrow> take_field \<Rightarrow> play_error + cash" where
  "take_escrow c scope ref u amount field =
     bindR (integer amount LQuantity 1 MAX_INT) (\<lambda>_.
     case map_of (escrows c) (scope, ref, u) of
       None \<Rightarrow> Inl EscrowChanged
     | Some row \<Rightarrow>
         if e_amount row < amount then Inl EscrowChanged
         else Inr (c\<lparr>escrows := put (scope, ref, u) (take_row field amount row) (escrows c)\<rparr>))"

definition release ::
    "cash \<Rightarrow> string \<Rightarrow> string \<Rightarrow> uid \<Rightarrow> int option \<Rightarrow> string \<Rightarrow> int \<Rightarrow> play_error + cash \<times> int" where
  "release c scope ref u amount reason now =
     bindR (case amount of None \<Rightarrow> Inr (held c scope ref u)
                         | Some a \<Rightarrow> integer a LQuantity 0 MAX_INT) (\<lambda>a.
     if a = 0 then Inr (c, 0)
     else
       bindR (take_escrow c scope ref u a Released) (\<lambda>c1.
       bindR (cash_apply c1 u a reason (scope @ '':'' @ ref) now) (\<lambda>c2.
       Inr (cash_event c2 scope ref u OpRelease a [] now, a))))"

definition move_once ::
    "cash \<Rightarrow> string \<Rightarrow> string \<Rightarrow> string \<Rightarrow> intent \<Rightarrow> play_error + cash \<times> bool" where
  "move_once c scope ref request_id intent =
     (if \<not> (1 \<le> length request_id \<and> length request_id \<le> 120) then Inl MissingRequestId
      else case map_of (moves c) (scope, ref, request_id) of
        Some old \<Rightarrow> if old \<noteq> intent then Inl IntentMismatch else Inr (c, False)
      | None \<Rightarrow> Inr (c\<lparr>moves := put (scope, ref, request_id) intent (moves c)\<rparr>, True))"

text \<open>\<open>UPDATE play_escrows SET amount=amount+?,reserved=reserved+?\<close> on an existing row.\<close>

definition arrive :: "cash \<Rightarrow> string \<Rightarrow> string \<Rightarrow> uid \<Rightarrow> int \<Rightarrow> cash" where
  "arrive c scope ref u amount =
     (case map_of (escrows c) (scope, ref, u) of
        None \<Rightarrow> c
      | Some row \<Rightarrow> c\<lparr>escrows := put (scope, ref, u)
            (row\<lparr>e_amount := e_amount row + amount, e_reserved := e_reserved row + amount\<rparr>)
            (escrows c)\<rparr>)"

definition top_up ::
    "cash \<Rightarrow> string \<Rightarrow> string \<Rightarrow> uid \<Rightarrow> int \<Rightarrow> string \<Rightarrow> string \<Rightarrow> int \<Rightarrow> play_error + cash \<times> bool" where
  "top_up c scope ref u amount request_id reason now =
     bindR (integer amount LTopUp 1 MAX_INT) (\<lambda>_.
     bindR (move_once c scope ref request_id
             (ITopUp u amount (if reason \<noteq> ''game.top_up'' then Some reason else None))) (\<lambda>(c1, fresh).
     if \<not> fresh then Inr (c1, False)
     else if map_of (escrows c1) (scope, ref, u) = None then Inl BuyInMissing
     else
       bindR (cash_apply c1 u (- amount) reason (scope @ '':'' @ ref) now) (\<lambda>c2.
       Inr (cash_event (arrive c2 scope ref u amount) scope ref u
              (if reason = ''game.buy_in'' then OpBuyIn else OpTopUp) amount [] now, True))))"

definition transfer ::
    "cash \<Rightarrow> string \<Rightarrow> string \<Rightarrow> uid \<Rightarrow> uid \<Rightarrow> int \<Rightarrow> string \<Rightarrow> int \<Rightarrow> play_error + cash \<times> bool" where
  "transfer c scope ref source target amount request_id now =
     bindR (integer amount LMove 1 MAX_INT) (\<lambda>_.
     if source = target then Inl SelfMove
     else bindR (move_once c scope ref request_id (ITransfer source target amount)) (\<lambda>(c1, fresh).
     if \<not> fresh then Inr (c1, False)
     else if map_of (escrows c1) (scope, ref, target) = None then Inl SeatNotFunded
     else
       bindR (take_escrow c1 scope ref source amount Spent) (\<lambda>c2.
       let c3 = arrive c2 scope ref target amount;
           c4 = cash_event c3 scope ref source OpTransferOut amount target now
       in Inr (cash_event c4 scope ref target OpTransferIn amount source now, True))))"

definition fund_in :: "cash \<Rightarrow> string \<Rightarrow> string \<Rightarrow> int \<Rightarrow> cash" where
  "fund_in c kind fund_ref amount =
     c\<lparr>funds := put (kind, fund_ref)
        (case map_of (funds c) (kind, fund_ref) of
           None \<Rightarrow> \<lparr>f_amount = amount, f_received = amount, f_paid = 0\<rparr>
         | Some f \<Rightarrow> f\<lparr>f_amount := f_amount f + amount, f_received := f_received f + amount\<rparr>)
        (funds c)\<rparr>"

definition consume ::
    "cash \<Rightarrow> string \<Rightarrow> string \<Rightarrow> uid \<Rightarrow> int \<Rightarrow> string \<Rightarrow> string \<Rightarrow> int \<Rightarrow> play_error + cash" where
  "consume c scope ref u amount kind fund_ref now =
     (if kind \<notin> {''blackwhite'', ''poker'', ''issuance'', ''fee''} then Inl UnknownFund
      else
        bindR (take_escrow c scope ref u amount Spent) (\<lambda>c1.
        Inr (cash_event (fund_in c1 kind fund_ref amount) scope ref u OpConsume amount
               (kind @ '':'' @ fund_ref) now)))"

text \<open>\<open>UPDATE play_funds SET amount=amount-?,paid=paid+? ... AND amount>=?\<close>; any other row count is an error.\<close>

definition fund_out :: "cash \<Rightarrow> string \<Rightarrow> string \<Rightarrow> int \<Rightarrow> play_error + cash" where
  "fund_out c kind fund_ref amount =
     (case map_of (funds c) (kind, fund_ref) of
        None \<Rightarrow> Inl PotChanged
      | Some f \<Rightarrow>
          if f_amount f < amount then Inl PotChanged
          else Inr (c\<lparr>funds := put (kind, fund_ref)
                 (f\<lparr>f_amount := f_amount f - amount, f_paid := f_paid f + amount\<rparr>) (funds c)\<rparr>))"

definition payout ::
    "cash \<Rightarrow> string \<Rightarrow> string \<Rightarrow> uid \<Rightarrow> int \<Rightarrow> int \<Rightarrow> play_error + cash" where
  "payout c kind fund_ref u amount now =
     (if kind \<notin> {''blackwhite'', ''poker''} then Inl SinkCannotPay
      else bindR (integer amount LQuantity 1 MAX_INT) (\<lambda>_.
      bindR (fund_out c kind fund_ref amount) (\<lambda>c1.
      bindR (cash_apply c1 u amount ''play.payout'' (kind @ '':'' @ fund_ref) now) (\<lambda>c2.
      Inr (cash_event c2 kind fund_ref u OpPayout amount [] now)))))"

section \<open>Runs of operations\<close>

datatype cash_op =
    Reserve string string uid int string
  | Release string string uid "int option" string
  | TopUp string string uid int string string
  | Transfer string string uid uid int string
  | Consume string string uid int string string
  | Payout string string uid int

text \<open>An operation with the clock it runs at.\<close>

fun cash_step :: "cash \<Rightarrow> int \<times> cash_op \<Rightarrow> play_error + cash" where
  "cash_step c (now, Reserve scope ref u a reason) =
     bindR (reserve c scope ref u a reason now) (\<lambda>(d, _). Inr d)"
| "cash_step c (now, Release scope ref u a reason) =
     bindR (release c scope ref u a reason now) (\<lambda>(d, _). Inr d)"
| "cash_step c (now, TopUp scope ref u a req reason) =
     bindR (top_up c scope ref u a req reason now) (\<lambda>(d, _). Inr d)"
| "cash_step c (now, Transfer scope ref s t a req) =
     bindR (transfer c scope ref s t a req now) (\<lambda>(d, _). Inr d)"
| "cash_step c (now, Consume scope ref u a kind fref) = consume c scope ref u a kind fref now"
| "cash_step c (now, Payout kind fref u a) = payout c kind fref u a now"

section \<open>The invariant of the tables\<close>

definition escrow_ok :: "escrow \<Rightarrow> bool" where
  "escrow_ok e \<longleftrightarrow> 0 \<le> e_amount e \<and> 0 < e_reserved e \<and> 0 \<le> e_spent e \<and> 0 \<le> e_released e \<and>
     e_amount e + e_spent e + e_released e = e_reserved e"

definition fund_ok :: "string \<Rightarrow> fund \<Rightarrow> bool" where
  "fund_ok kind f \<longleftrightarrow> kind \<in> {''blackwhite'', ''poker'', ''issuance'', ''fee''} \<and>
     0 \<le> f_amount f \<and> 0 \<le> f_received f \<and> 0 \<le> f_paid f \<and> f_amount f + f_paid f = f_received f \<and>
     (kind \<in> {''issuance'', ''fee''} \<longrightarrow> f_paid f = 0)"

definition cash_ok :: "cash \<Rightarrow> bool" where
  "cash_ok c \<longleftrightarrow> keyed (escrows c) \<and> keyed (funds c) \<and>
     (\<forall>k e. map_of (escrows c) k = Some e \<longrightarrow> escrow_ok e) \<and>
     (\<forall>k r f. map_of (funds c) (k, r) = Some f \<longrightarrow> fund_ok k f) \<and>
     (\<forall>ev \<in> set (events c). 0 < ev_amount ev)"

text \<open>Everything the members own: spendable points, held escrow and undistributed funds.\<close>

definition wealth :: "cash \<Rightarrow> int" where
  "wealth c = ledger_total (points c) + asum e_amount (escrows c) + asum f_amount (funds c)"

definition empty_cash :: "ledger \<Rightarrow> cash" where
  "empty_cash rows = \<lparr>points = rows, escrows = [], funds = [], moves = [], events = []\<rparr>"

lemma cash_event_simps [simp]:
  "points (cash_event c a b u op n t k) = points c"
  "escrows (cash_event c a b u op n t k) = escrows c"
  "funds (cash_event c a b u op n t k) = funds c"
  "moves (cash_event c a b u op n t k) = moves c"
  "set (events (cash_event c a b u op n t k)) = insert \<lparr>ev_scope = a, ev_ref = b, ev_user = u,
     ev_op = op, ev_amount = n, ev_target = t, ev_at = k\<rparr> (set (events c))"
  by (auto simp: cash_event_def)

lemma cash_event_wealth [simp]: "wealth (cash_event c a b u op n t k) = wealth c"
  by (simp add: wealth_def)

lemma cash_event_ok [simp]: "cash_ok (cash_event c a b u op n t k) \<longleftrightarrow> cash_ok c \<and> 0 < n"
  by (auto simp: cash_ok_def)

lemma cash_apply_Inr:
  assumes "cash_apply c u d reason ref now = Inr c'"
  obtains rows b where "points_apply (points c) u d reason ref ''play'' now = Inr (rows, b)"
    "c' = c\<lparr>points := rows\<rparr>"
  using assms by (auto simp: cash_apply_def split: sum.splits prod.splits)

lemma cash_apply_wealth:
  "cash_apply c u d reason ref now = Inr c' \<Longrightarrow> wealth c' = wealth c + d"
  by (erule cash_apply_Inr) (auto dest: apply_tot simp: wealth_def)

lemma cash_apply_frame:
  "cash_apply c u d reason ref now = Inr c' \<Longrightarrow>
   escrows c' = escrows c \<and> funds c' = funds c \<and> moves c' = moves c \<and> events c' = events c"
  by (erule cash_apply_Inr) simp

lemma cash_apply_ok [keeps_wf]:
  "cash_apply c u d reason ref now = Inr c' \<Longrightarrow> cash_ok c' \<longleftrightarrow> cash_ok c"
  by (drule cash_apply_frame) (simp add: cash_ok_def)

lemma cash_apply_balance:
  "cash_apply c u d reason ref now = Inr c' \<Longrightarrow>
   balance (points c') v = balance (points c) v + (if v = u then d else 0)"
  by (erule cash_apply_Inr) (auto dest: apply_bal [where v = v])

lemma take_escrow_Inr:
  assumes "take_escrow c scope ref u a field = Inr c'"
  obtains row where "map_of (escrows c) (scope, ref, u) = Some row" "1 \<le> a" "a \<le> e_amount row"
    "c' = c\<lparr>escrows := put (scope, ref, u) (take_row field a row) (escrows c)\<rparr>"
  using assms by (auto simp: take_escrow_def split: option.splits if_splits)

lemma take_row_ok: "escrow_ok row \<Longrightarrow> 1 \<le> a \<Longrightarrow> a \<le> e_amount row \<Longrightarrow> escrow_ok (take_row field a row)"
  by (cases field) (auto simp: escrow_ok_def)

lemma take_row_amount [simp]: "e_amount (take_row field a row) = e_amount row - a"
  by (cases field) auto

lemma take_escrow_ok: "take_escrow c scope ref u a field = Inr c' \<Longrightarrow> cash_ok c \<Longrightarrow> cash_ok c' \<and> 0 < a"
  by (erule take_escrow_Inr) (auto simp: cash_ok_def intro!: take_row_ok)

lemma take_escrow_wealth:
  "take_escrow c scope ref u a field = Inr c' \<Longrightarrow> cash_ok c \<Longrightarrow> wealth c' = wealth c - a"
  by (erule take_escrow_Inr) (auto simp: cash_ok_def wealth_def asum_put)

lemma take_escrow_frame:
  "take_escrow c scope ref u a field = Inr c' \<Longrightarrow>
   points c' = points c \<and> funds c' = funds c \<and> moves c' = moves c \<and> events c' = events c \<and>
   (\<forall>k. k \<noteq> (scope, ref, u) \<longrightarrow> map_of (escrows c') k = map_of (escrows c) k) \<and>
   map_of (escrows c') (scope, ref, u) \<noteq> None"
  by (erule take_escrow_Inr) auto

lemma arrive_row_ok:
  "escrow_ok e \<Longrightarrow> 0 < a \<Longrightarrow> escrow_ok (e\<lparr>e_amount := e_amount e + a, e_reserved := e_reserved e + a\<rparr>)"
  by (auto simp: escrow_ok_def)

lemma arrive_ok: "cash_ok c \<Longrightarrow> 0 < a \<Longrightarrow> cash_ok (arrive c scope ref u a)"
  by (auto simp: arrive_def cash_ok_def intro!: arrive_row_ok split: option.splits)

lemma arrive_wealth:
  "cash_ok c \<Longrightarrow> map_of (escrows c) (scope, ref, u) \<noteq> None \<Longrightarrow> wealth (arrive c scope ref u a) = wealth c + a"
  by (auto simp: arrive_def cash_ok_def wealth_def asum_put)

lemma arrive_points [simp]: "points (arrive c scope ref u a) = points c"
  by (simp add: arrive_def split: option.splits)

lemma move_once_Inr:
  assumes "move_once c scope ref req i = Inr (c', fresh)"
  shows "points c' = points c" "escrows c' = escrows c" "funds c' = funds c" "events c' = events c"
    "wealth c' = wealth c" "cash_ok c' \<longleftrightarrow> cash_ok c" "\<not> fresh \<Longrightarrow> c' = c"
    "fresh \<longleftrightarrow> map_of (moves c) (scope, ref, req) = None"
    "map_of (moves c') (scope, ref, req) = Some i"
  using assms
  by (auto simp: move_once_def wealth_def cash_ok_def split: option.splits if_splits)

lemma fund_in_ok:
  "cash_ok c \<Longrightarrow> 0 < a \<Longrightarrow> kind \<in> {''blackwhite'', ''poker'', ''issuance'', ''fee''} \<Longrightarrow>
   cash_ok (fund_in c kind fref a)"
  by (auto simp: fund_in_def cash_ok_def fund_ok_def split: option.splits)

lemma fund_in_wealth: "cash_ok c \<Longrightarrow> wealth (fund_in c kind fref a) = wealth c + a"
  by (auto simp: fund_in_def cash_ok_def wealth_def asum_put split: option.splits)

lemma fund_in_points [simp]: "points (fund_in c kind fref a) = points c"
  by (simp add: fund_in_def)

section \<open>Every operation keeps the invariant and the wealth\<close>

lemma reserve_keeps [keeps_wf]:
  assumes "reserve c scope ref u a reason now = Inr (c', b)" "cash_ok c"
  shows "cash_ok c' \<and> wealth c' = wealth c"
proof (cases "map_of (escrows c) (scope, ref, u)")
  case (Some row)
  then show ?thesis using assms by (auto simp: reserve_def split: if_splits)
next
  case None
  with assms obtain c1 where c1: "cash_apply c u (- a) reason (scope @ '':'' @ ref) now = Inr c1"
    and a: "1 \<le> a"
    and c': "c' = cash_event (c1\<lparr>escrows := put (scope, ref, u)
        \<lparr>e_amount = a, e_reserved = a, e_spent = 0, e_released = 0, e_created = now\<rparr> (escrows c1)\<rparr>)
        scope ref u OpReserve a [] now"
    by (auto simp: reserve_def Let_def)
  have fr: "escrows c1 = escrows c" "funds c1 = funds c" "events c1 = events c"
    using cash_apply_frame [OF c1] by auto
  have "wealth c1 = wealth c - a" using cash_apply_wealth [OF c1] by simp
  with assms(2) fr None have "wealth c' = wealth c"
    by (simp add: c' wealth_def asum_put cash_ok_def)
  moreover have "cash_ok c'" using assms(2) fr a by (auto simp: c' cash_ok_def escrow_ok_def)
  ultimately show ?thesis by blast
qed

lemma release_keeps [keeps_wf]:
  assumes "release c scope ref u amount reason now = Inr (c', b)" "cash_ok c"
  shows "cash_ok c' \<and> wealth c' = wealth c"
proof -
  obtain a where a: "(case amount of None \<Rightarrow> Inr (held c scope ref u)
      | Some a \<Rightarrow> integer a LQuantity 0 MAX_INT) = Inr a"
    and rest: "if a = 0 then c' = c else (\<exists>c1 c2. take_escrow c scope ref u a Released = Inr c1 \<and>
      cash_apply c1 u a reason (scope @ '':'' @ ref) now = Inr c2 \<and>
      c' = cash_event c2 scope ref u OpRelease a [] now)"
    using assms(1) unfolding release_def by (auto split: if_splits)
  show ?thesis
  proof (cases "a = 0")
    case True
    then show ?thesis using rest assms(2) by simp
  next
    case False
    then obtain c1 c2 where t: "take_escrow c scope ref u a Released = Inr c1"
      and p: "cash_apply c1 u a reason (scope @ '':'' @ ref) now = Inr c2"
      and c': "c' = cash_event c2 scope ref u OpRelease a [] now"
      using rest by auto
    show ?thesis
      using take_escrow_ok [OF t assms(2)] take_escrow_wealth [OF t assms(2)]
        cash_apply_wealth [OF p] cash_apply_ok [OF p] by (simp add: c')
  qed
qed

lemma top_up_keeps [keeps_wf]:
  assumes "top_up c scope ref u a req reason now = Inr (c', b)" "cash_ok c"
  shows "cash_ok c' \<and> wealth c' = wealth c"
proof -
  let ?i = "ITopUp u a (if reason \<noteq> ''game.top_up'' then Some reason else None)"
  obtain c1 fresh where m: "move_once c scope ref req ?i = Inr (c1, fresh)" and a: "1 \<le> a"
    using assms(1) by (auto simp: top_up_def)
  note mm = move_once_Inr [OF m]
  show ?thesis
  proof (cases fresh)
    case False
    then show ?thesis using assms m mm by (auto simp: top_up_def)
  next
    case True
    then obtain c2 op where e: "map_of (escrows c1) (scope, ref, u) \<noteq> None"
      and p: "cash_apply c1 u (- a) reason (scope @ '':'' @ ref) now = Inr c2"
      and c': "c' = cash_event (arrive c2 scope ref u a) scope ref u op a [] now"
      using assms(1) m by (auto simp: top_up_def split: if_splits)
    have "cash_ok c2" using cash_apply_ok [OF p] mm(6) assms(2) by simp
    moreover have "escrows c2 = escrows c1" using cash_apply_frame [OF p] by simp
    ultimately show ?thesis
      using arrive_ok [of c2 a] arrive_wealth [of c2 scope ref u a] e a cash_apply_wealth [OF p] mm(5)
      by (simp add: c')
  qed
qed

lemma transfer_keeps [keeps_wf]:
  assumes "transfer c scope ref s t a req now = Inr (c', b)" "cash_ok c"
  shows "cash_ok c' \<and> wealth c' = wealth c \<and> points c' = points c"
proof -
  obtain c1 fresh where m: "move_once c scope ref req (ITransfer s t a) = Inr (c1, fresh)"
    and a: "1 \<le> a" and st: "s \<noteq> t"
    using assms(1) by (auto simp: transfer_def split: if_splits)
  note mm = move_once_Inr [OF m]
  show ?thesis
  proof (cases fresh)
    case False
    then show ?thesis using assms m mm by (auto simp: transfer_def split: if_splits)
  next
    case True
    then obtain c2 where e: "map_of (escrows c1) (scope, ref, t) \<noteq> None"
      and p: "take_escrow c1 scope ref s a Spent = Inr c2"
      and c': "c' = cash_event (cash_event (arrive c2 scope ref t a) scope ref s OpTransferOut a t now)
            scope ref t OpTransferIn a s now"
      using assms(1) m by (auto simp: transfer_def Let_def split: if_splits)
    have ok: "cash_ok c1" using mm(6) assms(2) by simp
    have "map_of (escrows c2) (scope, ref, t) \<noteq> None"
      using take_escrow_frame [OF p] e st by auto
    then show ?thesis
      using take_escrow_ok [OF p ok] take_escrow_wealth [OF p ok] take_escrow_frame [OF p] mm a
        arrive_ok [of c2 a scope ref t] arrive_wealth [of c2 scope ref t a] by (simp add: c')
  qed
qed

lemma consume_keeps [keeps_wf]:
  assumes "consume c scope ref u a kind fref now = Inr c'" "cash_ok c"
  shows "cash_ok c' \<and> wealth c' = wealth c \<and> points c' = points c"
proof -
  obtain c1 where k: "kind \<in> {''blackwhite'', ''poker'', ''issuance'', ''fee''}"
    and t: "take_escrow c scope ref u a Spent = Inr c1"
    and c': "c' = cash_event (fund_in c1 kind fref a) scope ref u OpConsume a (kind @ '':'' @ fref) now"
    using assms(1) by (auto simp: consume_def split: if_splits)
  show ?thesis
    using take_escrow_ok [OF t assms(2)] take_escrow_wealth [OF t assms(2)] take_escrow_frame [OF t] k
      fund_in_ok [of c1 a kind fref] fund_in_wealth [of c1 kind fref a] by (simp add: c')
qed

lemma fund_out_Inr:
  assumes "fund_out c kind fref a = Inr c'"
  obtains f where "map_of (funds c) (kind, fref) = Some f" "a \<le> f_amount f"
    "c' = c\<lparr>funds := put (kind, fref)
        (f\<lparr>f_amount := f_amount f - a, f_paid := f_paid f + a\<rparr>) (funds c)\<rparr>"
  using assms by (auto simp: fund_out_def split: option.splits)

lemma fund_row_out:
  "fund_ok k f \<Longrightarrow> 0 < a \<Longrightarrow> a \<le> f_amount f \<Longrightarrow> k \<in> {''blackwhite'', ''poker''} \<Longrightarrow>
   fund_ok k (f\<lparr>f_amount := f_amount f - a, f_paid := f_paid f + a\<rparr>)"
  by (auto simp: fund_ok_def)

lemma fund_out_ok:
  "fund_out c kind fref a = Inr c' \<Longrightarrow> cash_ok c \<Longrightarrow> 0 < a \<Longrightarrow> kind \<in> {''blackwhite'', ''poker''} \<Longrightarrow> cash_ok c'"
  by (erule fund_out_Inr) (auto simp: cash_ok_def intro!: fund_row_out)

lemma fund_out_wealth: "fund_out c kind fref a = Inr c' \<Longrightarrow> cash_ok c \<Longrightarrow> wealth c' = wealth c - a"
  by (erule fund_out_Inr) (auto simp: wealth_def cash_ok_def asum_put)

lemma payout_Inr:
  assumes "payout c kind fref u a now = Inr c'"
  obtains c1 c2 where "kind \<in> {''blackwhite'', ''poker''}" "0 < a"
    "fund_out c kind fref a = Inr c1"
    "cash_apply c1 u a ''play.payout'' (kind @ '':'' @ fref) now = Inr c2"
    "c' = cash_event c2 kind fref u OpPayout a [] now"
  using assms by (auto simp: payout_def)

lemma payout_keeps [keeps_wf]:
  assumes "payout c kind fref u a now = Inr c'" "cash_ok c"
  shows "cash_ok c' \<and> wealth c' = wealth c"
  using assms(1)
proof (rule payout_Inr)
  fix c1 c2
  assume k: "kind \<in> {''blackwhite'', ''poker''}" "0 < a"
    and f: "fund_out c kind fref a = Inr c1"
    and p: "cash_apply c1 u a ''play.payout'' (kind @ '':'' @ fref) now = Inr c2"
    and c': "c' = cash_event c2 kind fref u OpPayout a [] now"
  show ?thesis
    using fund_out_ok [OF f assms(2)] fund_out_wealth [OF f assms(2)]
      cash_apply_ok [OF p] cash_apply_wealth [OF p] k by (simp add: c')
qed

lemma cash_step_keeps:
  "cash_step c x = Inr c' \<Longrightarrow> cash_ok c \<Longrightarrow> cash_ok c' \<and> wealth c' = wealth c"
  by (induction c x rule: cash_step.induct)
    (auto dest: reserve_keeps release_keeps top_up_keeps transfer_keeps consume_keeps payout_keeps)

section \<open>Funds and balances along a run\<close>

definition fund_held :: "cash \<Rightarrow> string \<Rightarrow> string \<Rightarrow> int" where
  "fund_held c kind ref = (case map_of (funds c) (kind, ref) of None \<Rightarrow> 0 | Some f \<Rightarrow> f_amount f)"

lemma sink_step:
  assumes "cash_step c x = Inr c'" "kind \<in> {''issuance'', ''fee''}"
  shows "fund_held c kind ref \<le> fund_held c' kind ref"
proof -
  have fi: "fund_held d kind ref \<le> fund_held (fund_in d k r a) kind ref" if "0 < a" for d k r and a :: int
    using that by (auto simp: fund_held_def fund_in_def split: option.splits)
  have fo: "fund_held d kind ref = fund_held d' kind ref"
    if "fund_out d k r a = Inr d'" "k \<in> {''blackwhite'', ''poker''}" for d d' k r a
    using that assms(2) by (elim fund_out_Inr) (auto simp: fund_held_def)
  have ev: "fund_held (cash_event d sc r u op a t k) kind ref = fund_held d kind ref" for d sc r u op a t k
    by (simp add: fund_held_def)
  have ar: "fund_held (arrive d sc r u a) kind ref = fund_held d kind ref" for d sc r u a
    by (simp add: fund_held_def arrive_def split: option.splits)
  have ap: "fund_held d' kind ref = fund_held d kind ref" if "cash_apply d u a r f n = Inr d'" for d d' u a r f n
    using cash_apply_frame [OF that] by (simp add: fund_held_def)
  have tk: "fund_held d' kind ref = fund_held d kind ref \<and> 0 < a"
    if "take_escrow d sc r u a f = Inr d'" for d d' sc r u a f
    using that by (elim take_escrow_Inr) (simp add: fund_held_def)
  have mo: "fund_held d' kind ref = fund_held d kind ref" if "move_once d sc r q i = Inr (d', b)" for d d' sc r q i b
    using move_once_Inr(3) [OF that] by (simp add: fund_held_def)
  have es: "fund_held (d\<lparr>escrows := e\<rparr>) kind ref = fund_held d kind ref" for d e
    by (simp add: fund_held_def)
  show ?thesis using assms(1)
  proof (induction c x rule: cash_step.induct)
    case (6 c now k fref u a)
    then show ?case by (auto elim!: payout_Inr simp: ev dest!: ap fo)
  next
    case (5 c now sc r u a k fref)
    then obtain d where t: "take_escrow c sc r u a Spent = Inr d"
      and c': "c' = cash_event (fund_in d k fref a) sc r u OpConsume a (k @ '':'' @ fref) now"
      by (auto simp: consume_def split: if_splits)
    show ?case using fi [of a d k fref] tk [OF t] by (simp add: c' ev)
  qed (auto simp: reserve_def release_def top_up_def transfer_def Let_def ev ar es
         dest!: ap tk mo split: option.splits if_splits)
qed

fun op_reason :: "cash_op \<Rightarrow> string" where
  "op_reason (Reserve _ _ _ _ r) = r"
| "op_reason (TopUp _ _ _ _ _ r) = r"
| "op_reason (Release _ _ _ _ r) = ''play.release''"
| "op_reason _ = ''play''"

lemma cash_apply_nonneg:
  "cash_apply c u d reason ref now = Inr c' \<Longrightarrow> reason \<noteq> ''checkin'' \<or> 0 \<le> d \<Longrightarrow>
   0 \<le> balance (points c) v \<Longrightarrow> 0 \<le> balance (points c') v"
  by (erule cash_apply_Inr) (auto simp: points_apply_Inr)

lemma release_points:
  assumes "release c sc r u a reason now = Inr (c', b)" "cash_ok c" "0 \<le> balance (points c) v"
  shows "0 \<le> balance (points c') v"
proof -
  from assms(1) have "c' = c \<or> (\<exists>c1 c2. take_escrow c sc r u b Released = Inr c1 \<and>
      cash_apply c1 u b reason (sc @ '':'' @ r) now = Inr c2 \<and> c' = cash_event c2 sc r u OpRelease b [] now)"
    by (auto simp: release_def split: if_splits)
  then show ?thesis
  proof (elim disjE exE conjE)
    fix c1 c2
    assume t: "take_escrow c sc r u b Released = Inr c1"
      and p: "cash_apply c1 u b reason (sc @ '':'' @ r) now = Inr c2"
      and c': "c' = cash_event c2 sc r u OpRelease b [] now"
    show ?thesis
      using cash_apply_nonneg [OF p, of v] take_escrow_ok [OF t assms(2)] take_escrow_frame [OF t] assms(3)
      by (simp add: c')
  qed (use assms(3) in simp)
qed

lemma nonneg_step:
  assumes "cash_step c x = Inr c'" "op_reason (snd x) \<noteq> ''checkin''" "cash_ok c" "0 \<le> balance (points c) v"
  shows "0 \<le> balance (points c') v"
  using assms
proof (induction c x rule: cash_step.induct)
  case (1 c now sc r u a reason)
  then show ?case
    by (auto simp: reserve_def Let_def split: option.splits if_splits elim!: cash_apply_nonneg)
next
  case (2 c now sc r u a reason)
  then show ?case by (auto dest: release_points)
next
  case (3 c now sc r u a req reason)
  then show ?case
    by (auto simp: top_up_def split: if_splits elim!: cash_apply_nonneg dest!: move_once_Inr(1))
next
  case (4 c now sc r s t a req)
  then show ?case by (auto dest: transfer_keeps)
next
  case (5 c now sc r u a k fref)
  then show ?case by (auto dest: consume_keeps)
next
  case (6 c now k fref u a)
  from 6(1) have "payout c k fref u a now = Inr c'" by simp
  then show ?case
    by (rule payout_Inr) (use 6 in \<open>auto elim!: fund_out_Inr cash_apply_nonneg\<close>)
qed

section \<open>Properties\<close>

definition demo_cash :: cash where
  "demo_cash = empty_cash demo_ledger"

definition demo_ops :: "(int \<times> cash_op) list" where
  "demo_ops =
     [(2, Reserve ''poker'' ''t1'' ''ann'' 40 ''play.reserve''),
      (3, TopUp ''poker'' ''t1'' ''ann'' 5 ''q1'' ''game.top_up''),
      (4, Consume ''poker'' ''t1'' ''ann'' 30 ''poker'' ''t1''),
      (5, Payout ''poker'' ''t1'' ''bob'' 30),
      (6, Release ''poker'' ''t1'' ''ann'' None ''play.release'')]"

lemma demo_ok: "cash_ok demo_cash"
  by (simp add: demo_cash_def empty_cash_def cash_ok_def)

lemma demo_run: "\<exists>c. runR cash_step demo_cash demo_ops = Inr c"
proof -
  have "case runR cash_step demo_cash demo_ops of Inl _ \<Rightarrow> False | Inr _ \<Rightarrow> True" by code_simp
  then show ?thesis by (cases "runR cash_step demo_cash demo_ops") auto
qed

interpretation cash: accounting cash_step cash_ok wealth
  using cash_step_keeps by unfold_locales blast+

text \<open>C2. No operation of the cash book mints or destroys money: along any successful run of reserves,
  releases, top-ups, seat transfers, pot contributions and payouts, the sum of spendable points, held
  escrow and undistributed funds is constant, and every row keeps amount + spent + released = reserved
  (escrows) and amount + paid = received (funds) with all parts non-negative.\<close>

theorem cash_run_conserves:
  assumes "cash_ok c" and "runR cash_step c ops = Inr c'"
  shows "cash_ok c' \<and> wealth c' = wealth c"
  using cash.run_ok [OF assms(2,1)] cash.run_worth [OF assms(2,1)] by simp

theorem cash_run_conserves_witness:
  "\<exists>c'. runR cash_step demo_cash demo_ops = Inr c' \<and> cash_ok c' \<and> wealth c' = 100"
proof -
  obtain c' where r: "runR cash_step demo_cash demo_ops = Inr c'" using demo_run by blast
  have "wealth demo_cash = 100"
    by (simp add: wealth_def demo_cash_def empty_cash_def ledger_total_def demo_ledger_def)
  then show ?thesis using cash_run_conserves [OF demo_ok r] r by auto
qed

text \<open>What stays in the tables: a recorded move is never changed, a row of the escrows is never deleted, and only a top-up of the
  escrow or a transfer into it raises the sum that was ever reserved in it.\<close>

definition reserved_of :: "cash \<Rightarrow> string \<times> string \<times> uid \<Rightarrow> int option" where
  "reserved_of c k = map_option e_reserved (map_of (escrows c) k)"

fun feeds :: "string \<times> string \<times> uid \<Rightarrow> cash_op \<Rightarrow> bool" where
  "feeds k (TopUp sc r u _ _ _) = (k = (sc, r, u))"
| "feeds k (Transfer sc r _ t _ _) = (k = (sc, r, t))"
| "feeds _ _ = False"

lemma take_row_reserved [simp]: "e_reserved (take_row field a row) = e_reserved row"
  by (cases field) auto

lemma take_escrow_reserved: "take_escrow c sc r u a field = Inr c' \<Longrightarrow> reserved_of c' = reserved_of c"
  by (erule take_escrow_Inr) (auto simp: reserved_of_def fun_eq_iff)

lemma cash_apply_reserved: "cash_apply c u d reason ref now = Inr c' \<Longrightarrow> reserved_of c' = reserved_of c"
  by (drule cash_apply_frame) (simp add: reserved_of_def fun_eq_iff)

lemma reserved_event [simp]: "reserved_of (cash_event c a b u op n t k) = reserved_of c"
  by (simp add: reserved_of_def fun_eq_iff)

lemma arrive_reserved:
  "k \<noteq> (sc, r, u) \<Longrightarrow> reserved_of (arrive c sc r u a) k = reserved_of c k"
  "reserved_of (arrive c sc r u a) k = None \<longleftrightarrow> reserved_of c k = None"
  by (auto simp: arrive_def reserved_of_def split: option.split)

lemma fund_moves [simp]: "reserved_of (fund_in c kind f a) = reserved_of c" "moves (fund_in c kind f a) = moves c"
  by (simp_all add: fund_in_def reserved_of_def fun_eq_iff)

lemma fund_out_reserved: "fund_out c kind f a = Inr c' \<Longrightarrow> reserved_of c' = reserved_of c \<and> moves c' = moves c"
  by (auto simp: fund_out_def reserved_of_def fun_eq_iff split: option.splits if_splits)

lemma move_once_kept:
  "move_once c sc r q i = Inr (c', new) \<Longrightarrow> reserved_of c' = reserved_of c \<and> (map_of (moves c) k = Some j \<longrightarrow> map_of (moves c') k = Some j)"
  by (auto simp: move_once_def reserved_of_def fun_eq_iff split: option.splits if_splits)

lemma arrive_moves [simp]: "moves (arrive c sc r u a) = moves c"
  by (simp add: arrive_def split: option.split)

lemma step_persists:
  assumes "cash_step c x = Inr d"
  shows "(map_of (moves c) q = Some i \<longrightarrow> map_of (moves d) q = Some i)
    \<and> (reserved_of c k \<noteq> None \<longrightarrow> reserved_of d k \<noteq> None)
    \<and> (feeds k (snd x) \<or> reserved_of c k = None \<or> reserved_of d k = reserved_of c k)"
  using assms
proof (induction c x rule: cash_step.induct)
  case (1 c now sc r u a reason)
  then show ?case
    by (auto simp: reserve_def Let_def reserved_of_def dest!: cash_apply_frame split: option.splits if_splits)
next
  case (2 c now sc r u a reason)
  then obtain b where "release c sc r u a reason now = Inr (d, b)" by auto
  then have "d = c \<or> (\<exists>c1 c2. take_escrow c sc r u b Released = Inr c1 \<and>
      cash_apply c1 u b reason (sc @ '':'' @ r) now = Inr c2 \<and> d = cash_event c2 sc r u OpRelease b [] now)"
    by (auto simp: release_def split: if_splits)
  then show ?case
  proof (elim disjE exE conjE)
    fix c1 c2
    assume t: "take_escrow c sc r u b Released = Inr c1"
      and p: "cash_apply c1 u b reason (sc @ '':'' @ r) now = Inr c2" and d: "d = cash_event c2 sc r u OpRelease b [] now"
    show ?thesis
      using take_escrow_reserved [OF t] take_escrow_frame [OF t] cash_apply_reserved [OF p] cash_apply_frame [OF p] by (simp add: d)
  qed simp
next
  case (3 c now sc r u a req reason)
  then obtain c1 isnew where m: "move_once c sc r req (ITopUp u a (if reason \<noteq> ''game.top_up'' then Some reason else None)) = Inr (c1, isnew)"
    and rest: "\<not> isnew \<and> d = c1 \<or> (\<exists>c2 op. cash_apply c1 u (- a) reason (sc @ '':'' @ r) now = Inr c2
      \<and> d = cash_event (arrive c2 sc r u a) sc r u op a [] now)"
    by (auto simp: top_up_def split: if_splits prod.splits)
  note mk = move_once_kept [OF m, where k = q and j = i]
  from rest show ?case
  proof (elim disjE exE conjE)
    fix c2 op
    assume p: "cash_apply c1 u (- a) reason (sc @ '':'' @ r) now = Inr c2" and d: "d = cash_event (arrive c2 sc r u a) sc r u op a [] now"
    show ?thesis
      using mk cash_apply_reserved [OF p] cash_apply_frame [OF p] arrive_reserved(1) [of k sc r u c2 a] arrive_reserved(2) [of c2 sc r u a k]
      by (simp add: d) metis
  qed (use mk in simp)
next
  case (4 c now sc r s t a req)
  then obtain c1 isnew where m: "move_once c sc r req (ITransfer s t a) = Inr (c1, isnew)"
    and rest: "\<not> isnew \<and> d = c1 \<or> (\<exists>c2. take_escrow c1 sc r s a Spent = Inr c2
      \<and> d = cash_event (cash_event (arrive c2 sc r t a) sc r s OpTransferOut a t now) sc r t OpTransferIn a s now)"
    by (auto simp: transfer_def Let_def split: if_splits prod.splits)
  note mk = move_once_kept [OF m, where k = q and j = i]
  from rest show ?case
  proof (elim disjE exE conjE)
    fix c2
    assume p: "take_escrow c1 sc r s a Spent = Inr c2"
      and d: "d = cash_event (cash_event (arrive c2 sc r t a) sc r s OpTransferOut a t now) sc r t OpTransferIn a s now"
    show ?thesis
      using mk take_escrow_reserved [OF p] take_escrow_frame [OF p] arrive_reserved(1) [of k sc r t c2 a] arrive_reserved(2) [of c2 sc r t a k]
      by (simp add: d) metis
  qed (use mk in simp)
next
  case (5 c now sc r u a kind fref)
  then obtain c1 where t: "take_escrow c sc r u a Spent = Inr c1"
    and d: "d = cash_event (fund_in c1 kind fref a) sc r u OpConsume a (kind @ '':'' @ fref) now"
    by (auto simp: consume_def split: if_splits)
  show ?case using take_escrow_reserved [OF t] take_escrow_frame [OF t] by (simp add: d)
next
  case (6 c now kind fref u a)
  then obtain c1 c2 where f: "fund_out c kind fref a = Inr c1"
    and p: "cash_apply c1 u a ''play.payout'' (kind @ '':'' @ fref) now = Inr c2" and d: "d = cash_event c2 kind fref u OpPayout a [] now"
    by (auto simp: payout_def split: if_splits)
  show ?case using fund_out_reserved [OF f] cash_apply_reserved [OF p] cash_apply_frame [OF p] by (simp add: d)
qed

lemma run_persists:
  assumes "runR cash_step c ops = Inr d"
  shows "map_of (moves c) q = Some i \<Longrightarrow> map_of (moves d) q = Some i"
    and "reserved_of c k \<noteq> None \<Longrightarrow> reserved_of d k \<noteq> None"
    and "reserved_of c k \<noteq> None \<Longrightarrow> \<forall>x \<in> set ops. \<not> feeds k (snd x) \<Longrightarrow> reserved_of d k = reserved_of c k"
proof -
  have "(map_of (moves c) q = Some i \<longrightarrow> map_of (moves d) q = Some i) \<and> (reserved_of c k \<noteq> None \<longrightarrow> reserved_of d k \<noteq> None)
    \<and> (reserved_of c k \<noteq> None \<longrightarrow> (\<forall>x \<in> set ops. \<not> feeds k (snd x)) \<longrightarrow> reserved_of d k = reserved_of c k)"
    using assms
  proof (induction ops arbitrary: c)
    case (Cons x xs)
    then obtain e where e: "cash_step c x = Inr e" "runR cash_step e xs = Inr d" by auto
    show ?case using Cons.IH [OF e(2)] step_persists [OF e(1), of q i k] by auto
  qed simp
  then show "map_of (moves c) q = Some i \<Longrightarrow> map_of (moves d) q = Some i" "reserved_of c k \<noteq> None \<Longrightarrow> reserved_of d k \<noteq> None"
    "reserved_of c k \<noteq> None \<Longrightarrow> \<forall>x \<in> set ops. \<not> feeds k (snd x) \<Longrightarrow> reserved_of d k = reserved_of c k" by blast+
qed

lemma reserve_row:
  assumes "reserve c sc r u a reason now = Inr (c1, b)"
  shows "reserved_of c1 (sc, r, u) = Some a"
  using assms by (auto simp: reserve_def reserved_of_def Let_def split: option.splits if_splits)

lemma reserve_again:
  assumes "reserved_of c (sc, r, u) = Some n"
  shows "reserve c sc r u a reason now = (if a < 1 \<or> MAX_INT < a then Inl (OutOfRange LFreeze 1 MAX_INT)
     else if a = n then Inr (c, False) else Inl IntentMismatch)"
  using assms by (auto simp: reserve_def reserved_of_def integer_def)

lemma top_up_move:
  assumes "top_up c sc r u a q reason now = Inr (c1, b)"
  shows "map_of (moves c1) (sc, r, q) = Some (ITopUp u a (if reason \<noteq> ''game.top_up'' then Some reason else None))"
    "1 \<le> length q \<and> length q \<le> 120"
proof -
  obtain d f where m: "move_once c sc r q (ITopUp u a (if reason \<noteq> ''game.top_up'' then Some reason else None)) = Inr (d, f)"
    and d: "moves c1 = moves d"
    using assms by (auto simp: top_up_def dest!: cash_apply_frame split: if_splits option.splits)
  show "map_of (moves c1) (sc, r, q) = Some (ITopUp u a (if reason \<noteq> ''game.top_up'' then Some reason else None))"
    using move_once_Inr(9) [OF m] d by simp
  show "1 \<le> length q \<and> length q \<le> 120" using m by (auto simp: move_once_def split: if_splits)
qed

lemma transfer_move:
  assumes "transfer c sc r s t a q now = Inr (c1, b)"
  shows "map_of (moves c1) (sc, r, q) = Some (ITransfer s t a)" "1 \<le> length q \<and> length q \<le> 120" "s \<noteq> t"
proof -
  show "s \<noteq> t" using assms by (auto simp: transfer_def split: if_splits)
  obtain d f where m: "move_once c sc r q (ITransfer s t a) = Inr (d, f)" and d: "moves c1 = moves d"
    using assms by (auto simp: transfer_def Let_def dest!: take_escrow_frame split: if_splits option.splits)
  show "map_of (moves c1) (sc, r, q) = Some (ITransfer s t a)" using move_once_Inr(9) [OF m] d by simp
  show "1 \<le> length q \<and> length q \<le> 120" using m by (auto simp: move_once_def split: if_splits)
qed

text \<open>C9. A repeated request never moves money again, however many operations were carried out in between: a reserve answers
  False or is refused by its amount (and answers False for the same amount unless the escrow was fed in between), a top-up and a
  transfer answer False for the same amount and are refused for any other. None of these answers changes the book.\<close>

theorem cash_replay:
  assumes "runR cash_step c1 ops = Inr c2"
  shows "(reserve c sc r u a reason now = Inr (c1, b) \<longrightarrow>
      (\<exists>n. reserve c2 sc r u a' reason' now' =
         (if a' < 1 \<or> MAX_INT < a' then Inl (OutOfRange LFreeze 1 MAX_INT)
          else if a' = n then Inr (c2, False) else Inl IntentMismatch)
        \<and> (list_all (\<lambda>x. \<not> feeds (sc, r, u) (snd x)) ops \<longrightarrow> n = a))) \<and>
    (top_up c sc r u a q reason now = Inr (c1, b) \<longrightarrow>
      top_up c2 sc r u a' q reason now' =
      (if a' < 1 \<or> MAX_INT < a' then Inl (OutOfRange LTopUp 1 MAX_INT)
       else if a' = a then Inr (c2, False) else Inl IntentMismatch)) \<and>
    (transfer c sc r u t a q now = Inr (c1, b) \<longrightarrow>
      transfer c2 sc r u t a' q now' =
      (if a' < 1 \<or> MAX_INT < a' then Inl (OutOfRange LMove 1 MAX_INT)
       else if a' = a then Inr (c2, False) else Inl IntentMismatch))"
proof (intro conjI impI)
  assume r: "reserve c sc r u a reason now = Inr (c1, b)"
  have "reserved_of c1 (sc, r, u) \<noteq> None" using reserve_row [OF r] by simp
  then obtain n where n: "reserved_of c2 (sc, r, u) = Some n" using run_persists(2) [OF assms] by blast
  have "list_all (\<lambda>x. \<not> feeds (sc, r, u) (snd x)) ops \<longrightarrow> n = a"
    using run_persists(3) [OF assms, of "(sc, r, u)"] reserve_row [OF r] n by (simp add: list_all_iff)
  then show "\<exists>n. reserve c2 sc r u a' reason' now' =
         (if a' < 1 \<or> MAX_INT < a' then Inl (OutOfRange LFreeze 1 MAX_INT)
          else if a' = n then Inr (c2, False) else Inl IntentMismatch)
        \<and> (list_all (\<lambda>x. \<not> feeds (sc, r, u) (snd x)) ops \<longrightarrow> n = a)"
    using reserve_again [OF n] by blast
next
  assume t: "top_up c sc r u a q reason now = Inr (c1, b)"
  show "top_up c2 sc r u a' q reason now' = (if a' < 1 \<or> MAX_INT < a' then Inl (OutOfRange LTopUp 1 MAX_INT)
       else if a' = a then Inr (c2, False) else Inl IntentMismatch)"
    using run_persists(1) [OF assms top_up_move(1) [OF t]] top_up_move(2) [OF t] by (auto simp: top_up_def integer_def move_once_def)
next
  assume t: "transfer c sc r u t a q now = Inr (c1, b)"
  show "transfer c2 sc r u t a' q now' = (if a' < 1 \<or> MAX_INT < a' then Inl (OutOfRange LMove 1 MAX_INT)
       else if a' = a then Inr (c2, False) else Inl IntentMismatch)"
    using run_persists(1) [OF assms transfer_move(1) [OF t]] transfer_move(2,3) [OF t] by (auto simp: transfer_def integer_def move_once_def)
qed

definition demo_later :: "(int \<times> cash_op) list" where
  "demo_later = [(4, Consume ''poker'' ''t1'' ''ann'' 40 ''poker'' ''t1''), (5, Payout ''poker'' ''t1'' ''bob'' 40)]"

theorem cash_replay_witness:
  "\<exists>c1 c2. reserve demo_cash ''poker'' ''t1'' ''ann'' 40 ''play.reserve'' 2 = Inr (c1, True) \<and> runR cash_step c1 demo_later = Inr c2
     \<and> held c2 ''poker'' ''t1'' ''ann'' = 0 \<and> reserve c2 ''poker'' ''t1'' ''ann'' 40 ''x'' 9 = Inr (c2, False)
     \<and> reserve c2 ''poker'' ''t1'' ''ann'' 41 ''x'' 9 = Inl IntentMismatch"
proof -
  have "case reserve demo_cash ''poker'' ''t1'' ''ann'' 40 ''play.reserve'' 2 of Inl _ \<Rightarrow> False
      | Inr (c1, b) \<Rightarrow> b \<and> (case runR cash_step c1 demo_later of Inl _ \<Rightarrow> False | Inr c2 \<Rightarrow> held c2 ''poker'' ''t1'' ''ann'' = 0)" by code_simp
  then obtain c1 c2 where r: "reserve demo_cash ''poker'' ''t1'' ''ann'' 40 ''play.reserve'' 2 = Inr (c1, True)"
    "runR cash_step c1 demo_later = Inr c2" "held c2 ''poker'' ''t1'' ''ann'' = 0"
    by (auto split: sum.splits)
  have "list_all (\<lambda>x. \<not> feeds (''poker'', ''t1'', ''ann'') (snd x)) demo_later" by (simp add: demo_later_def)
  then have "reserve c2 ''poker'' ''t1'' ''ann'' a' ''x'' 9 = (if a' < 1 \<or> MAX_INT < a' then Inl (OutOfRange LFreeze 1 MAX_INT)
      else if a' = 40 then Inr (c2, False) else Inl IntentMismatch)" for a'
    using cash_replay [OF r(2), THEN conjunct1, rule_format, OF r(1), of a' "''x''" 9] by auto
  then show ?thesis using r by (simp add: MAX_INT_def)
qed

text \<open>C8. The tables along every accepted run from a consistent book: every row satisfies its CHECK constraints
  (an escrow has no negative part and amount, spent and released add up to what was reserved; a fund has a known kind, no negative
  part and amount and paid add up to what it received; an event has a positive amount), the issuance and fee sinks never pay anyone
  and never shrink, and, when no debit carries the reason of a check-in, a balance that is not negative stays so.\<close>

theorem cash_run_safe:
  assumes "cash_ok c" and "runR cash_step c ops = Inr c'"
  shows "(case map_of (escrows c') k of None \<Rightarrow> True | Some e \<Rightarrow>
      0 \<le> e_amount e \<and> 0 < e_reserved e \<and> 0 \<le> e_spent e \<and> 0 \<le> e_released e \<and> e_amount e + e_spent e + e_released e = e_reserved e) \<and>
    (case map_of (funds c') (kind, ref) of None \<Rightarrow> True | Some f \<Rightarrow>
      kind \<in> {''blackwhite'', ''poker'', ''issuance'', ''fee''} \<and> 0 \<le> f_amount f \<and> 0 \<le> f_received f \<and> 0 \<le> f_paid f
        \<and> f_amount f + f_paid f = f_received f \<and> (kind \<in> {''issuance'', ''fee''} \<longrightarrow> f_paid f = 0)) \<and>
    (\<forall>ev \<in> set (events c'). 0 < ev_amount ev) \<and>
    (kind \<in> {''issuance'', ''fee''} \<longrightarrow> fund_held c kind ref \<le> fund_held c' kind ref) \<and>
    (list_all (\<lambda>x. op_reason (snd x) \<noteq> ''checkin'') ops \<longrightarrow> 0 \<le> balance (points c) u \<longrightarrow> 0 \<le> balance (points c') u)"
proof (intro conjI impI ballI)
  have ok: "cash_ok c'" by (rule cash.run_ok [OF assms(2,1)])
  have e: "escrow_ok e" if "map_of (escrows c') k = Some e" for e using ok that by (cases k) (simp add: cash_ok_def)
  have f: "fund_ok kind f" if "map_of (funds c') (kind, ref) = Some f" for f using ok that by (auto simp: cash_ok_def)
  show "case map_of (escrows c') k of None \<Rightarrow> True | Some e \<Rightarrow>
      0 \<le> e_amount e \<and> 0 < e_reserved e \<and> 0 \<le> e_spent e \<and> 0 \<le> e_released e \<and> e_amount e + e_spent e + e_released e = e_reserved e"
    using e by (auto simp: escrow_ok_def split: option.split)
  show "case map_of (funds c') (kind, ref) of None \<Rightarrow> True | Some f \<Rightarrow>
      kind \<in> {''blackwhite'', ''poker'', ''issuance'', ''fee''} \<and> 0 \<le> f_amount f \<and> 0 \<le> f_received f \<and> 0 \<le> f_paid f
        \<and> f_amount f + f_paid f = f_received f \<and> (kind \<in> {''issuance'', ''fee''} \<longrightarrow> f_paid f = 0)"
  proof (cases "map_of (funds c') (kind, ref)")
    case (Some fd)
    then show ?thesis using f [OF Some] unfolding fund_ok_def by simp
  qed simp
  show "\<And>ev. ev \<in> set (events c') \<Longrightarrow> 0 < ev_amount ev" using ok by (simp add: cash_ok_def)
  show "0 \<le> balance (points c') u"
    if "list_all (\<lambda>x. op_reason (snd x) \<noteq> ''checkin'') ops" "0 \<le> balance (points c) u"
    using assms that
  proof (induction ops arbitrary: c)
    case Nil
    then show ?case by simp
  next
    case (Cons x xs)
    then obtain d where d: "cash_step c x = Inr d" "runR cash_step d xs = Inr c'" by auto
    then show ?case
      using Cons.IH [of d] Cons.prems cash_step_keeps [OF d(1)] nonneg_step [OF d(1)] by auto
  qed
  show "fund_held c kind ref \<le> fund_held c' kind ref" if "kind \<in> {''issuance'', ''fee''}"
    using that runR_invariant [OF assms(2), of "\<lambda>s. fund_held c kind ref \<le> fund_held s kind ref"] sink_step
    by (meson order.refl order_trans)
qed

theorem cash_run_safe_witness:
  "\<exists>c'. runR cash_step demo_cash demo_ops = Inr c' \<and> 0 \<le> balance (points c') ''ann''
     \<and> fund_held demo_cash ''fee'' ''t1'' \<le> fund_held c' ''fee'' ''t1''"
proof -
  obtain c' where r: "runR cash_step demo_cash demo_ops = Inr c'" using demo_run by blast
  show ?thesis
    using cash_run_safe [OF demo_ok r, of undefined "''fee''" "''t1''" "''ann''"] r
    by (auto simp: demo_ops_def demo_cash_def empty_cash_def balance_def demo_ledger_def)
qed

text \<open>Money in escrow can always be taken back: releasing the whole escrow of a seat always succeeds,
  returns what was held, credits exactly that to the member and leaves the seat empty.\<close>

theorem release_all:
  assumes "cash_ok c" and "held c sc r u \<le> MAX_INT"
  shows "\<exists>c'. release c sc r u None reason now = Inr (c', held c sc r u) \<and> held c' sc r u = 0 \<and>
    balance (points c') u = balance (points c) u + held c sc r u"
proof (cases "held c sc r u = 0")
  case True
  then show ?thesis by (simp add: release_def)
next
  case False
  then obtain row where row: "map_of (escrows c) (sc, r, u) = Some row"
    by (auto simp: held_def split: option.splits)
  then have h: "held c sc r u = e_amount row" by (simp add: held_def)
  have "0 < e_amount row"
    using assms(1) row False h by (fastforce simp: cash_ok_def escrow_ok_def)
  then have t: "take_escrow c sc r u (e_amount row) Released =
      Inr (c\<lparr>escrows := put (sc, r, u) (take_row Released (e_amount row) row) (escrows c)\<rparr>)"
    using assms(2) row h by (simp add: take_escrow_def integer_def)
  let ?c1 = "c\<lparr>escrows := put (sc, r, u) (take_row Released (e_amount row) row) (escrows c)\<rparr>"
  obtain rows b where p: "points_apply (points c) u (e_amount row) reason (sc @ '':'' @ r) ''play'' now = Inr (rows, b)"
    using \<open>0 < e_amount row\<close> by (auto simp: points_apply_def Let_def)
  then have ap: "cash_apply ?c1 u (e_amount row) reason (sc @ '':'' @ r) now = Inr (?c1\<lparr>points := rows\<rparr>)"
    by (simp add: cash_apply_def)
  have "release c sc r u None reason now =
      Inr (cash_event (?c1\<lparr>points := rows\<rparr>) sc r u OpRelease (e_amount row) [] now, e_amount row)"
    using False ap by (simp add: release_def h t del: take_row.simps)
  then show ?thesis using apply_bal [OF p, of u] h by (simp add: held_def)
qed

theorem release_all_witness:
  "\<exists>c c'. reserve demo_cash ''poker'' ''t1'' ''ann'' 40 ''play.reserve'' 2 = Inr (c, True)
     \<and> release c ''poker'' ''t1'' ''ann'' None ''play.release'' 3 = Inr (c', 40)
     \<and> held c' ''poker'' ''t1'' ''ann'' = 0"
proof -
  have "case reserve demo_cash ''poker'' ''t1'' ''ann'' 40 ''play.reserve'' 2 of
      Inl _ \<Rightarrow> False | Inr (c, b) \<Rightarrow> b \<and> held c ''poker'' ''t1'' ''ann'' = 40" by code_simp
  then obtain c where r: "reserve demo_cash ''poker'' ''t1'' ''ann'' 40 ''play.reserve'' 2 = Inr (c, True)"
    and h: "held c ''poker'' ''t1'' ''ann'' = 40"
    by (cases "reserve demo_cash ''poker'' ''t1'' ''ann'' 40 ''play.reserve'' 2") auto
  have "cash_ok c" using reserve_keeps [OF r demo_ok] by simp
  then show ?thesis
    using release_all [of c "''poker''" "''t1''" "''ann''" "''play.release''" 3] r h by (auto simp: MAX_INT_def)
qed

end
