(* ===== verification/RoundCards.thy ===== *)
theory RoundCards
  imports Prelude
begin

text \<open>
  \<open>PlayAccess.group\<close> and \<open>RoundCards\<close> of \<^verbatim>\<open>backend/app/modules/play_rounds.py\<close>: the durable
  publication of a game's one group card. A row of \<open>rounds_table\<close> carries the state of the send;
  every method is one write transaction on the row it loads. Telegram ids are integers
  (the code compares their decimal strings, which is injective). \<open>secrets.token_hex\<close> is an input.
\<close>

section \<open>Messages\<close>

record message =
  m_chat_type :: string
  m_chat_id :: "int option"          \<comment> \<open>None when the id is not an integer\<close>
  m_sender_chat :: bool
  m_auto_forward :: bool
  m_forward_origin :: bool
  m_forward_date :: bool
  m_thread :: int                    \<comment> \<open>\<open>message_thread_id or 0\<close>\<close>
  m_topic :: bool
  m_from_bot :: bool
  m_from_id :: int
  m_id :: "int option"
  m_actions :: "string list"         \<comment> \<open>callback data of the inline keyboard\<close>
  m_reply_to :: "int option"         \<comment> \<open>message id of the replied-to message\<close>

datatype card_error = NotInGroup | BadThread | NotOriginalCard | CardUnconfirmed | WrongMessage

definition group_scope :: "(message \<Rightarrow> bool) \<Rightarrow> message \<Rightarrow> card_error + int \<times> int" where
  "group_scope allowed m =
     (case m_chat_id m of
        None \<Rightarrow> Inl NotInGroup
      | Some chat \<Rightarrow>
          if m_chat_type m \<notin> {''group'', ''supergroup''} \<or> \<not> allowed m \<or> m_sender_chat m
             \<or> m_auto_forward m \<or> m_forward_origin m \<or> m_forward_date m then Inl NotInGroup
          else if m_thread m < 0 then Inl BadThread
          else Inr (chat, if m_topic m then m_thread m else 0))"

section \<open>The row of a card\<close>

datatype send_state = SPending | SSending | SSent | SUnknown

datatype publish_note = NoNote | EditUnconfirmed | SendUnconfirmed | RestartUnknown

record card =
  c_bot :: int
  c_kind :: string
  c_chat :: int
  c_thread :: int
  c_command :: int
  c_message :: "int option"
  c_send :: send_state
  c_revision :: int
  c_rendered :: int
  c_token :: string
  c_lease :: real
  c_next :: real
  c_error :: publish_note
  c_created :: real

text \<open>A callback on the card: identity checks, then recovery of a lost send acknowledgement.\<close>

definition card_context ::
    "int \<Rightarrow> (message \<Rightarrow> bool) \<Rightarrow> card \<Rightarrow> message \<Rightarrow> string \<Rightarrow> card_error + card" where
  "card_context me allowed row m data =
     bindR (group_scope allowed m) (\<lambda>(chat, thread).
     case m_id m of
       None \<Rightarrow> Inl NotOriginalCard
     | Some mid \<Rightarrow>
         if c_bot row \<noteq> me \<or> c_chat row \<noteq> chat \<or> c_thread row \<noteq> thread \<or> mid \<le> 0
            \<or> \<not> m_from_bot m \<or> m_from_id m \<noteq> me \<or> data \<notin> set (m_actions m)
         then Inl NotOriginalCard
         else (case c_message row of
             None \<Rightarrow>
               if c_send row \<notin> {SSending, SUnknown} \<or> m_reply_to m \<noteq> Some (c_command row)
               then Inl CardUnconfirmed
               else Inr (row\<lparr>c_message := Some mid, c_send := SSent, c_next := 0\<rparr>)
           | Some bound \<Rightarrow> if bound \<noteq> mid then Inl WrongMessage else Inr row))"

text \<open>
  \<open>begin_publish\<close> returns the row as it was read, with the new token, and stores the lease. The
  stored row is the first component.
\<close>

definition begin_publish :: "int \<Rightarrow> real \<Rightarrow> string \<Rightarrow> card \<Rightarrow> card \<times> card option" where
  "begin_publish me clock token row =
     (if c_bot row \<noteq> me \<or> clock < c_next row \<or> clock < c_lease row \<or> c_revision row \<le> c_rendered row
      then (row, None)
      else if c_message row = None \<and> c_send row \<noteq> SPending then (row, None)
      else (row\<lparr>c_token := token, c_lease := clock + 90,
                c_send := (if c_message row = None then SSending else SSent)\<rparr>,
            Some (row\<lparr>c_token := token\<rparr>)))"

definition published :: "card \<Rightarrow> card \<Rightarrow> int \<Rightarrow> card \<times> bool" where
  "published current job mid =
     (if mid \<le> 0 then (current, False)
      else if c_token current \<noteq> c_token job then (current, False)
      else if c_message current \<notin> {None, Some mid} then (current, False)
      else (current\<lparr>c_message := Some mid, c_send := SSent,
                    c_rendered := max (c_rendered current) (c_revision job),
                    c_token := [], c_lease := 0, c_error := NoNote, c_next := 0\<rparr>, True))"

text \<open>\<open>retry\<close> is \<open>failure.get('state') == 'retry'\<close>: a definite refusal, nothing was sent.\<close>

definition publish_failed :: "card \<Rightarrow> card \<Rightarrow> bool \<Rightarrow> int \<Rightarrow> real \<Rightarrow> card" where
  "publish_failed current job retry retry_after clock =
     (if c_token current \<noteq> c_token job then current
      else current\<lparr>c_send := (if c_message current \<noteq> None then SSent else if retry then SPending else SUnknown),
                   c_token := [], c_lease := 0, c_next := clock + real_of_int (max 10 retry_after),
                   c_error := (if c_message current \<noteq> None then EditUnconfirmed else SendUnconfirmed)\<rparr>)"

text \<open>The first statement of \<open>pending_cards\<close>: an initial send whose lease ran out is uncertain.\<close>

definition recover :: "string \<Rightarrow> int \<Rightarrow> real \<Rightarrow> card \<Rightarrow> card" where
  "recover kind me clock row =
     (if c_kind row = kind \<and> c_bot row = me \<and> c_message row = None \<and> c_send row = SSending
         \<and> c_lease row \<le> clock
      then row\<lparr>c_send := SUnknown, c_token := [], c_lease := 0, c_error := RestartUnknown\<rparr>
      else row)"

definition pending_cards :: "string \<Rightarrow> int \<Rightarrow> real \<Rightarrow> card list \<Rightarrow> card list \<times> card list" where
  "pending_cards kind me clock rows =
     (let rows' = map (recover kind me clock) rows in
      (rows', take 50 (sort_key c_created (filter (\<lambda>r. c_kind r = kind \<and> c_bot r = me
          \<and> c_rendered r < c_revision r \<and> (c_message r \<noteq> None \<or> c_send r = SPending)
          \<and> c_next r \<le> clock \<and> c_lease r \<le> clock) rows'))))"

text \<open>\<open>_bump\<close>: a new revision of the card is due at once.\<close>

definition bump :: "card \<Rightarrow> card" where
  "bump row = row\<lparr>c_revision := c_revision row + 1, c_next := 0\<rparr>"

section \<open>The publication as a state machine\<close>

text \<open>
  A configuration is the stored row, the jobs handed out so far and a ghost count: the initial sends
  started whose outcome is not a definite refusal. Workers may report late, twice or never; any
  callback may arrive.
\<close>

record pub =
  row :: card
  jobs :: "card list"
  sends :: nat

definition initial_job :: "card \<Rightarrow> bool" where
  "initial_job job \<longleftrightarrow> c_message job = None"

inductive pub_step :: "pub \<Rightarrow> pub \<Rightarrow> bool" where
  begin_step: "begin_publish me clock token (row s) = (r, Some job) \<Longrightarrow> token \<noteq> [] \<Longrightarrow>
     token \<notin> c_token ` set (jobs s) \<Longrightarrow>
     pub_step s (s\<lparr>row := r, jobs := job # jobs s,
       sends := sends s + (if initial_job job then 1 else 0)\<rparr>)"
| done_step: "job \<in> set (jobs s) \<Longrightarrow> published (row s) job mid = (r, ok) \<Longrightarrow> pub_step s (s\<lparr>row := r\<rparr>)"
| fail_step: "job \<in> set (jobs s) \<Longrightarrow> r = publish_failed (row s) job retry after clock \<Longrightarrow>
     pub_step s (s\<lparr>row := r,
       sends := sends s - (if retry \<and> initial_job job \<and> c_token (row s) = c_token job \<and> c_message (row s) = None
                           then 1 else 0)\<rparr>)"
| click_step: "card_context me allowed (row s) m data = Inr r \<Longrightarrow> pub_step s (s\<lparr>row := r\<rparr>)"
| recover_step: "pub_step s (s\<lparr>row := recover kind me clock (row s)\<rparr>)"
| bump_step: "pub_step s (s\<lparr>row := bump (row s)\<rparr>)"

inductive_cases pub_stepE: "pub_step s t"

inductive pub_reach :: "card \<Rightarrow> pub \<Rightarrow> bool" for r0 where
  start: "pub_reach r0 \<lparr>row = r0, jobs = [], sends = 0\<rparr>"
| step: "pub_reach r0 s \<Longrightarrow> pub_step s t \<Longrightarrow> pub_reach r0 t"

definition fresh_card :: "card \<Rightarrow> bool" where
  "fresh_card r \<longleftrightarrow> c_message r = None \<and> c_send r = SPending \<and> c_token r = []"

text \<open>
  What holds between the row and the workers: a card that may still be sent has no send
  outstanding, an empty token belongs to no job, and while a send is running the token of the row
  is that of an initial job.
\<close>

definition pub_inv :: "pub \<Rightarrow> bool" where
  "pub_inv s \<longleftrightarrow> sends s \<le> 1 \<and> (\<forall>j \<in> set (jobs s). c_token j \<noteq> []) \<and>
     (c_message (row s) = None \<and> c_send (row s) = SPending \<longrightarrow> sends s = 0 \<and> c_token (row s) = []) \<and>
     (c_message (row s) = None \<longrightarrow> c_send (row s) \<noteq> SSent) \<and>
     (c_message (row s) = None \<and> c_token (row s) \<noteq> [] \<longrightarrow> c_send (row s) = SSending) \<and>
     (c_message (row s) = None \<longrightarrow>
        (\<forall>j \<in> set (jobs s). c_token j = c_token (row s) \<longrightarrow> sends s = 1 \<and> initial_job j))"

lemma published_cases:
  "published cur job mid = (r, ok) \<Longrightarrow> (r = cur \<and> \<not> ok) \<or>
   (ok \<and> 0 < mid \<and> c_token cur = c_token job \<and> c_message cur \<in> {None, Some mid} \<and> c_message r = Some mid)"
  by (auto simp: published_def split: if_splits)

lemma card_context_cases:
  "card_context me allowed cur m data = Inr r \<Longrightarrow> r = cur \<or>
   (c_message cur = None \<and> (\<exists>mid. r = cur\<lparr>c_message := Some mid, c_send := SSent, c_next := 0\<rparr>))"
  by (auto simp: card_context_def split: option.splits if_splits)

lemma pub_step_inv: "pub_step s t \<Longrightarrow> pub_inv s \<Longrightarrow> pub_inv t"
proof (induction rule: pub_step.induct)
  case (begin_step me clock token s r job)
  then show ?case
    by (auto simp: begin_publish_def pub_inv_def initial_job_def split: if_splits)
next
  case (done_step job s mid r ok)
  then show ?case using published_cases [OF done_step(2)] by (auto simp: pub_inv_def)
next
  case (fail_step job s r retry after clock)
  then show ?case by (auto simp: publish_failed_def pub_inv_def split: if_splits)
next
  case (click_step me allowed s m data r)
  then show ?case using card_context_cases [OF click_step(1)] by (auto simp: pub_inv_def)
next
  case (recover_step s kind me clock)
  then show ?case by (auto simp: recover_def pub_inv_def)
next
  case (bump_step s)
  then show ?case by (simp add: bump_def pub_inv_def)
qed

lemma pub_reach_inv: "pub_reach r0 s \<Longrightarrow> fresh_card r0 \<Longrightarrow> pub_inv s"
proof (induction rule: pub_reach.induct)
  case start
  then show ?case by (simp add: fresh_card_def pub_inv_def)
next
  case (step s t)
  then show ?case using pub_step_inv by blast
qed

lemma pub_step_bound:
  "pub_step s t \<Longrightarrow> c_message (row s) = Some m \<Longrightarrow> c_message (row t) = Some m"
proof (induction rule: pub_step.induct)
  case (done_step job s mid r ok)
  then show ?case using published_cases [OF done_step(2)] by auto
next
  case (click_step me allowed s m' data r)
  then show ?case using card_context_cases [OF click_step(1)] by auto
qed (auto simp: begin_publish_def publish_failed_def recover_def bump_def split: if_splits)

section \<open>Properties\<close>

text \<open>C3. One card per game: however callbacks, crashed workers, late acknowledgements, restarts and new
  revisions interleave, at most one initial send of the card is ever started without a definite
  refusal, so an uncertain send is never repeated and no second card appears.\<close>

theorem one_initial_send:
  assumes "fresh_card r0" and "pub_reach r0 s"
  shows "sends s \<le> 1 \<and>
    (\<forall>me clock token r job. begin_publish me clock token (row s) = (r, Some job) \<longrightarrow> initial_job job \<longrightarrow> sends s = 0)"
  using pub_reach_inv [OF assms(2,1)]
  by (auto simp: pub_inv_def begin_publish_def initial_job_def split: if_splits)

definition demo_card :: card where
  "demo_card = \<lparr>c_bot = 7, c_kind = ''poker'', c_chat = -100, c_thread = 0, c_command = 5, c_message = None,
     c_send = SPending, c_revision = 1, c_rendered = 0, c_token = [], c_lease = 0, c_next = 0,
     c_error = NoNote, c_created = 0\<rparr>"

definition demo_sent :: pub where
  "demo_sent = \<lparr>row = demo_card\<lparr>c_token := ''k1'', c_lease := 100, c_send := SSending\<rparr>,
     jobs = [demo_card\<lparr>c_token := ''k1''\<rparr>], sends = 1\<rparr>"

lemma demo_fresh: "fresh_card demo_card"
  by (simp add: fresh_card_def demo_card_def)

lemma demo_reach: "pub_reach demo_card demo_sent"
proof (rule pub_reach.step [OF pub_reach.start])
  have "pub_step \<lparr>row = demo_card, jobs = [], sends = 0\<rparr>
      (\<lparr>row = demo_card, jobs = [], sends = 0\<rparr>\<lparr>row := demo_card\<lparr>c_token := ''k1'', c_lease := 100, c_send := SSending\<rparr>,
         jobs := demo_card\<lparr>c_token := ''k1''\<rparr> # jobs \<lparr>row = demo_card, jobs = [], sends = 0\<rparr>,
         sends := sends \<lparr>row = demo_card, jobs = [], sends = 0\<rparr> + (if initial_job (demo_card\<lparr>c_token := ''k1''\<rparr>) then 1 else 0)\<rparr>)"
    by (rule begin_step [where me = 7 and clock = 10 and token = "''k1''"])
      (simp_all add: begin_publish_def demo_card_def)
  then show "pub_step \<lparr>row = demo_card, jobs = [], sends = 0\<rparr> demo_sent"
    by (simp add: demo_sent_def initial_job_def demo_card_def)
qed

theorem one_initial_send_witness:
  "pub_reach demo_card demo_sent \<and> sends demo_sent \<le> 1 \<and> sends demo_sent = 1"
  using one_initial_send [OF demo_fresh demo_reach] demo_reach by (simp add: demo_sent_def)

text \<open>A card message, once bound, is never replaced: no later callback, acknowledgement or recovery
  points the game at another message, and a callback from any other message is refused.\<close>

theorem bound_card_stable:
  assumes "pub_step\<^sup>*\<^sup>* s t" and "c_message (row s) = Some mid"
  shows "c_message (row t) = Some mid \<and>
    (\<forall>me allowed m data r. card_context me allowed (row t) m data = Inr r \<longrightarrow> m_id m = Some mid \<and> r = row t)"
proof -
  have "c_message (row t) = Some mid"
    using assms by (induction rule: rtranclp_induct) (auto dest: pub_step_bound)
  then show ?thesis by (auto simp: card_context_def split: option.splits if_splits)
qed

theorem bound_card_stable_witness:
  "c_message (row (demo_sent\<lparr>row := bump (demo_card\<lparr>c_message := Some 9\<rparr>)\<rparr>)) = Some 9"
proof -
  let ?s = "demo_sent\<lparr>row := demo_card\<lparr>c_message := Some 9\<rparr>\<rparr>"
  have "pub_step\<^sup>*\<^sup>* ?s (?s\<lparr>row := bump (row ?s)\<rparr>)"
    by (rule r_into_rtranclp, rule bump_step)
  from bound_card_stable [OF this, of 9] show ?thesis by simp
qed

end
