(* ===== verification/Zjh.thy ===== *)
theory Zjh
  imports PotSplit
begin

text \<open>
  \<^verbatim>\<open>backend/app/modules/zjh_engine.py\<close> and \<open>strength\<close> of \<^verbatim>\<open>poker.py\<close>: the three-card
  betting engine. The state dictionary is the record \<open>zhand\<close>; \<open>deepcopy\<close> makes every operation a
  function of the old state. The HMAC of the settlement is the parameter \<open>mac\<close>, the digest as a byte string.
\<close>

section \<open>Three-card strength\<close>

datatype zjh_error = ZBadSetup | ZBudgetBelowAnte | ZNotAllowed | ZBadTarget | ZNotYourTurn | ZNotSettled
  | ZBadHand | ZNoWinner

definition zjh_rank :: "int list \<Rightarrow> int list" where
  "zjh_rank cards =
     (let ranks = rev (sort (map (\<lambda>c. c mod 13 + 2) cards));
          flush = (length (remdups (map (\<lambda>c. c div 13) cards)) = 1);
          straight = (if ranks = [14, 3, 2] then 3
                      else if ranks ! 0 = ranks ! 1 + 1 \<and> ranks ! 1 + 1 = ranks ! 2 + 2 then ranks ! 0 else 0)
      in if length (remdups ranks) = 1 then [5, ranks ! 0]
         else if straight \<noteq> 0 \<and> flush then [4, straight]
         else if flush then 3 # ranks
         else if straight \<noteq> 0 then [2, straight]
         else if length (remdups ranks) = 2 then
           (let pair = hd (filter (\<lambda>r. count_list ranks r = 2) ranks)
            in [1, pair, hd (filter (\<lambda>r. r \<noteq> pair) ranks)])
         else 0 # ranks)"

definition three_cards :: "int list \<Rightarrow> bool" where
  "three_cards cards \<longleftrightarrow> length cards = 3 \<and> distinct cards \<and> (\<forall>c \<in> set cards. 0 \<le> c \<and> c < 52)"

definition strength :: "int list \<Rightarrow> zjh_error + int list" where
  "strength cards = (if three_cards cards then Inr (zjh_rank cards) else Inl ZBadHand)"

definition special235 :: "int list \<Rightarrow> bool" where
  "special235 cards \<longleftrightarrow> hd (zjh_rank cards) = 0 \<and> sort (map (\<lambda>c. c mod 13 + 2) cards) = [2, 3, 5]"

text \<open>\<open>compare\<close> answers 1, 0 or -1.\<close>

definition compare_hands :: "int list \<Rightarrow> int list \<Rightarrow> bool \<Rightarrow> zjh_error + int" where
  "compare_hands a b allow =
     bindR (strength a) (\<lambda>sa. bindR (strength b) (\<lambda>sb.
       Inr (if allow \<and> special235 a \<and> hd sb = 5 then 1
            else if allow \<and> special235 b \<and> hd sa = 5 then -1
            else (if sb < sa then 1 else 0) - (if sa < sb then 1 else 0))))"

section \<open>State\<close>

record zplayer =
  z_player :: string
  z_seat :: int
  z_budget :: int
  z_cards :: "int list"
  z_seen :: bool
  z_folded :: bool
  z_invested :: int

datatype z_reason = LastPlayer | RoundLimit | AllInEnd

record zresult =
  zr_winners :: "string list"
  zr_awards :: "(string \<times> int) list"
  zr_net :: "(string \<times> int) list"

record comparison =
  cmp_turn :: int
  cmp_actor :: string
  cmp_target :: string
  cmp_loser :: string
  cmp_cards :: "(string \<times> int list) list"

record zhand =
  z_players :: "zplayer list"
  z_ante :: int
  z_bet :: int
  z_round :: int
  z_turn :: int
  z_current :: "string option"
  z_acted :: "string list"           \<comment> \<open>a set: no repetitions\<close>
  z_comparisons :: "comparison list"
  z_allow_235 :: bool
  z_finished :: bool
  z_why :: "z_reason option"
  z_result :: "zresult option"
  z_showdown :: "string list"

record zentry =
  ze_seat :: int
  ze_player :: string
  ze_stack :: int

definition deal_three :: "int list \<Rightarrow> nat \<Rightarrow> int list" where
  "deal_three deck i = take 3 (drop (i * 3) deck)"

definition z_new_hand :: "zentry list \<Rightarrow> int \<Rightarrow> int list \<Rightarrow> bool \<Rightarrow> zjh_error + zhand" where
  "z_new_hand seats ante deck allow =
     (if \<not> (2 \<le> length seats \<and> length seats \<le> 5) \<or> ante < 1 \<or> length deck \<noteq> 52 \<or> set deck \<noteq> {0..51}
         \<or> \<not> distinct (map ze_player seats)
      then Inl ZBadSetup
      else
        let order = sort_key ze_seat seats in
        if \<exists>p \<in> set order. ze_stack p < ante then Inl ZBudgetBelowAnte
        else
          let players = map (\<lambda>(i, p). \<lparr>z_player = ze_player p, z_seat = ze_seat p, z_budget = ze_stack p,
                z_cards = deal_three deck i, z_seen = False, z_folded = False, z_invested = ante\<rparr>)
                (List.enumerate 0 order)
          in Inr \<lparr>z_players = players, z_ante = ante, z_bet = ante, z_round = 1, z_turn = 1,
               z_current = Some (z_player (hd players)), z_acted = [], z_comparisons = [],
               z_allow_235 = allow, z_finished = False, z_why = None, z_result = None, z_showdown = []\<rparr>)"

section \<open>Legal actions\<close>

definition z_current_player :: "zhand \<Rightarrow> string option" where
  "z_current_player s = (if z_finished s then None else z_current s)"

definition z_find :: "zhand \<Rightarrow> string \<Rightarrow> zplayer option" where
  "z_find s name = find (\<lambda>p. z_player p = name) (z_players s)"

definition z_upd :: "string \<Rightarrow> (zplayer \<Rightarrow> zplayer) \<Rightarrow> zhand \<Rightarrow> zhand" where
  "z_upd name f s = s\<lparr>z_players := map (\<lambda>p. if z_player p = name then f p else p) (z_players s)\<rparr>"

datatype zact = ZLook | ZFold | ZAllIn | ZCall | ZRaise | ZCompare | ZOther string

text \<open>The dictionary of actions: the price of each, and the opponents a comparison may name.\<close>

record zoption =
  zo_amount :: int
  zo_targets :: "string list"

definition price :: "int \<Rightarrow> zoption" where
  "price a = \<lparr>zo_amount = a, zo_targets = []\<rparr>"

definition z_turn_actions :: "zhand \<Rightarrow> zplayer \<Rightarrow> (zact \<times> zoption) list" where
  "z_turn_actions s p =
     (let left = z_budget p - z_invested p;
          factor = (if z_seen p then 2 else 1);
          due = z_bet s * factor;
          raised = (z_bet s + z_ante s) * factor
      in [(ZFold, price 0)]
         @ (if left < due then [(ZAllIn, price left)] else [(ZCall, price due)])
         @ (if z_bet s < 5 * z_ante s \<and> raised \<le> left then [(ZRaise, price raised)] else [])
         @ (if z_seen p \<and> 2 \<le> z_round s \<and> 2 * due \<le> left
            then [(ZCompare, \<lparr>zo_amount = 2 * due,
                     zo_targets = map z_player (filter (\<lambda>q. \<not> z_folded q \<and> q \<noteq> p) (z_players s))\<rparr>)]
            else []))"

definition z_legal :: "zhand \<Rightarrow> string \<Rightarrow> (zact \<times> zoption) list" where
  "z_legal s name =
     (case z_find s name of
        None \<Rightarrow> []
      | Some p \<Rightarrow>
          if z_folded p \<or> z_finished s then []
          else (if z_seen p then [] else [(ZLook, price 0)])
            @ (if z_current_player s = Some name then z_turn_actions s p else []))"

section \<open>Settlement\<close>

definition z_live :: "zhand \<Rightarrow> zplayer list" where
  "z_live s = filter (\<lambda>p. \<not> z_folded p) (z_players s)"

definition z_value :: "bool \<Rightarrow> bool \<Rightarrow> zplayer \<Rightarrow> int list" where
  "z_value allow trips p = (if allow \<and> trips \<and> special235 (z_cards p) then [6] else zjh_rank (z_cards p))"

definition z_winners :: "zhand \<Rightarrow> string list" where
  "z_winners s =
     (let live = z_live s;
          trips = (\<exists>p \<in> set live. hd (zjh_rank (z_cards p)) = 5);
          val = z_value (z_allow_235 s) trips
      in map z_player (filter (\<lambda>p. \<forall>q \<in> set live. val q \<le> val p) live))"

definition z_pot :: "zhand \<Rightarrow> int" where
  "z_pot s = sum_list (map z_invested (z_players s))"

definition z_award :: "(string \<times> int) list \<Rightarrow> string \<Rightarrow> int" where
  "z_award aw name = (case map_of aw name of None \<Rightarrow> 0 | Some a \<Rightarrow> a)"

definition z_settle :: "(string \<Rightarrow> string) \<Rightarrow> zhand \<Rightarrow> z_reason \<Rightarrow> zjh_error + zhand" where
  "z_settle mac s reason =
     (if \<exists>p \<in> set (z_live s). \<not> three_cards (z_cards p) then Inl ZBadHand
      else case fair_split mac (z_pot s) (z_winners s) of
        Inl _ \<Rightarrow> Inl ZNoWinner
      | Inr aw \<Rightarrow> Inr (s\<lparr>z_finished := True, z_current := None, z_why := Some reason,
          z_showdown := (if 1 < length (z_live s) then map z_player (z_live s) else []),
          z_result := Some \<lparr>zr_winners = z_winners s,
             zr_awards = map (\<lambda>p. (z_player p, z_award aw (z_player p))) (z_players s),
             zr_net = map (\<lambda>p. (z_player p, z_award aw (z_player p) - z_invested p)) (z_players s)\<rparr>\<rparr>))"

section \<open>Turns\<close>

text \<open>The next live player after position \<open>pos\<close>, at most once around the table.\<close>

definition next_live :: "zplayer list \<Rightarrow> nat \<Rightarrow> zplayer option" where
  "next_live ps pos =
     find (\<lambda>q. \<not> z_folded q) (map (\<lambda>step. ps ! ((pos + step) mod length ps)) [1..<length ps + 1])"

definition position :: "zplayer list \<Rightarrow> string \<Rightarrow> nat" where
  "position ps name = length (takeWhile (\<lambda>p. z_player p \<noteq> name) ps)"

definition pass_turn :: "zhand \<Rightarrow> string \<Rightarrow> zhand" where
  "pass_turn s name =
     (let nxt = next_live (z_players s) (position (z_players s) name)
      in s\<lparr>z_current := (case nxt of None \<Rightarrow> z_current s | Some q \<Rightarrow> Some (z_player q)),
           z_turn := z_turn s + 1\<rparr>)"

definition z_advance :: "(string \<Rightarrow> string) \<Rightarrow> zhand \<Rightarrow> string \<Rightarrow> zjh_error + zhand" where
  "z_advance mac s name =
     (if length (z_live s) = 1 then z_settle mac s LastPlayer
      else
        let s1 = s\<lparr>z_acted := List.insert name (z_acted s)\<rparr> in
        if \<forall>p \<in> set (z_live s1). z_player p \<in> set (z_acted s1) then
          if 10 \<le> z_round s1 then z_settle mac s1 RoundLimit
          else Inr (pass_turn (s1\<lparr>z_round := z_round s1 + 1, z_acted := []\<rparr>) name)
        else Inr (pass_turn s1 name))"

definition invest :: "int \<Rightarrow> zplayer \<Rightarrow> zplayer" where
  "invest a p = p\<lparr>z_invested := z_invested p + a\<rparr>"

definition fold_player :: "zplayer \<Rightarrow> zplayer" where
  "fold_player p = p\<lparr>z_folded := True\<rparr>"

text \<open>A comparison: the loser folds, ties lose for the challenger, and both hands are recorded.\<close>

definition z_compare :: "zhand \<Rightarrow> string \<Rightarrow> string \<Rightarrow> zjh_error + zhand" where
  "z_compare s name target =
     (case (z_find s name, z_find s target) of
        (Some p, Some q) \<Rightarrow>
          bindR (compare_hands (z_cards p) (z_cards q) (z_allow_235 s)) (\<lambda>c.
            let loser = (if 0 < c then target else name) in
            Inr ((z_upd loser fold_player s)\<lparr>z_comparisons := z_comparisons s @
              [\<lparr>cmp_turn = z_turn s, cmp_actor = name, cmp_target = target, cmp_loser = loser,
                cmp_cards = [(name, z_cards p), (target, z_cards q)]\<rparr>]\<rparr>))
      | _ \<Rightarrow> Inl ZBadTarget)"

definition z_apply :: "(string \<Rightarrow> string) \<Rightarrow> zhand \<Rightarrow> string \<Rightarrow> zact \<Rightarrow> int option \<Rightarrow> string option
    \<Rightarrow> zjh_error + zhand" where
  "z_apply mac s name act amount target =
     (let actions = z_legal s name;
          looker = (case z_find s name of None \<Rightarrow> False | Some p \<Rightarrow> \<not> z_folded p) in
      if act = ZLook \<and> looker \<and> \<not> z_finished s \<and> amount = None
      then Inr (z_upd name (\<lambda>p. p\<lparr>z_seen := True\<rparr>) s)
      else case (map_of actions act, amount) of
        (Some opt, None) \<Rightarrow>
          if act = ZFold then z_advance mac (z_upd name fold_player s) name
          else
            bindR (check (act = ZCompare \<longrightarrow> (case target of None \<Rightarrow> False | Some t \<Rightarrow> t \<in> set (zo_targets opt)))
              ZBadTarget) (\<lambda>_.
            let s1 = z_upd name (invest (zo_amount opt)) s;
                s2 = (if act = ZRaise then s1\<lparr>z_bet := z_bet s1 + z_ante s1\<rparr> else s1)
            in if act = ZAllIn then z_settle mac s2 AllInEnd
               else if act = ZCompare
               then bindR (z_compare s2 name (case target of None \<Rightarrow> [] | Some t \<Rightarrow> t)) (\<lambda>s3. z_advance mac s3 name)
               else z_advance mac s2 name)
      | _ \<Rightarrow> Inl ZNotAllowed)"

text \<open>Leaving the table folds out of turn; the action clock is untouched.\<close>

definition force_fold :: "(string \<Rightarrow> string) \<Rightarrow> zhand \<Rightarrow> string \<Rightarrow> zjh_error + zhand" where
  "force_fold mac s name =
     (case z_find s name of
        None \<Rightarrow> Inr s
      | Some p \<Rightarrow>
          if z_finished s \<or> z_folded p then Inr s
          else if z_current_player s = Some name then z_apply mac s name ZFold None None
          else
            let s1 = z_upd name fold_player s in
            if length (z_live s1) = 1 then z_settle mac s1 LastPlayer else Inr s1)"

definition z_auto :: "zhand \<Rightarrow> string \<Rightarrow> zjh_error + zact" where
  "z_auto s name =
     (let actions = z_legal s name in
      if actions = [] \<or> z_current_player s \<noteq> Some name then Inl ZNotYourTurn
      else if map_of actions ZLook \<noteq> None then Inr ZLook
      else case z_find s name of
        None \<Rightarrow> Inl ZNotYourTurn
      | Some p \<Rightarrow> bindR (strength (z_cards p)) (\<lambda>r.
          Inr (if 1 \<le> hd r then (if map_of actions ZCall \<noteq> None then ZCall else ZAllIn) else ZFold)))"

definition z_results :: "zhand \<Rightarrow> zjh_error + zresult option" where
  "z_results s = (if \<not> z_finished s then Inl ZNotSettled else Inr (z_result s))"

section \<open>The public view\<close>

record zpublic =
  zp_player :: string
  zp_seat :: int
  zp_seen :: bool
  zp_folded :: bool
  zp_invested :: int
  zp_remaining :: int
  zp_cards :: "int list option"
  zp_category :: "int option"

record zview =
  zv_turn :: int
  zv_round :: int
  zv_bet :: int
  zv_current :: "string option"
  zv_pot :: int
  zv_players :: "zpublic list"
  zv_legal :: "(zact \<times> zoption) list"
  zv_finished :: bool
  zv_reason :: "z_reason option"
  zv_comparisons :: "comparison list"
  zv_result :: "zresult option"

definition z_visible :: "zhand \<Rightarrow> string \<Rightarrow> zplayer \<Rightarrow> bool" where
  "z_visible s viewer p \<longleftrightarrow> z_player p \<in> set (z_showdown s) \<or> z_player p = viewer \<and> z_seen p"

definition z_public :: "zhand \<Rightarrow> string \<Rightarrow> zplayer \<Rightarrow> zpublic" where
  "z_public s viewer p =
     \<lparr>zp_player = z_player p, zp_seat = z_seat p, zp_seen = z_seen p, zp_folded = z_folded p,
      zp_invested = z_invested p, zp_remaining = z_budget p - z_invested p,
      zp_cards = (if z_visible s viewer p then Some (z_cards p) else None),
      zp_category = (if z_visible s viewer p then Some (hd (zjh_rank (z_cards p))) else None)\<rparr>"

definition z_view :: "zhand \<Rightarrow> string \<Rightarrow> zview" where
  "z_view s viewer =
     \<lparr>zv_turn = z_turn s, zv_round = z_round s, zv_bet = z_bet s, zv_current = z_current_player s,
      zv_pot = z_pot s, zv_players = map (z_public s viewer) (z_players s), zv_legal = z_legal s viewer,
      zv_finished = z_finished s, zv_reason = z_why s,
      zv_comparisons = filter (\<lambda>c. viewer \<in> {cmp_actor c, cmp_target c}) (z_comparisons s),
      zv_result = z_result s\<rparr>"

end
