(* ===== verification/ZjhChips.thy ===== *)
theory ZjhChips
  imports Zjh
begin

text \<open>
  Chip accounting and progress of the three-card engine: a legal action is always carried out, nobody invests
  beyond the budget, and a settlement pays the pot to the last chip.
\<close>

section \<open>Invariant\<close>

definition z_core :: "zhand \<Rightarrow> bool" where
  "z_core s \<longleftrightarrow> distinct (map z_player (z_players s)) \<and> 1 \<le> z_ante s \<and> z_ante s \<le> z_bet s
     \<and> (\<forall>p \<in> set (z_players s). 0 \<le> z_invested p \<and> z_invested p \<le> z_budget p \<and> three_cards (z_cards p))"

definition z_paid :: "zhand \<Rightarrow> zresult \<Rightarrow> bool" where
  "z_paid s r \<longleftrightarrow> map fst (zr_awards r) = map z_player (z_players s) \<and> map fst (zr_net r) = map z_player (z_players s)
     \<and> sum_list (map snd (zr_awards r)) = z_pot s \<and> sum_list (map snd (zr_net r)) = 0
     \<and> (\<forall>a \<in> set (zr_awards r). 0 \<le> snd a)"

definition z_turn_ok :: "zhand \<Rightarrow> bool" where
  "z_turn_ok s \<longleftrightarrow> 2 \<le> length (z_live s) \<and> (\<exists>p \<in> set (z_live s). z_current s = Some (z_player p))"

definition z_ok :: "zhand \<Rightarrow> bool" where
  "z_ok s \<longleftrightarrow> z_core s \<and>
     (if z_finished s then (\<exists>r. z_result s = Some r \<and> z_paid s r) else z_turn_ok s)"

lemma z_find_Some: "z_find s name = Some p \<Longrightarrow> p \<in> set (z_players s) \<and> z_player p = name"
  by (auto simp: z_find_def find_Some_iff)

lemma z_find_in: "z_core s \<Longrightarrow> p \<in> set (z_players s) \<Longrightarrow> z_find s (z_player p) = Some p"
proof -
  assume c: "z_core s" and p: "p \<in> set (z_players s)"
  then have "z_find s (z_player p) \<noteq> None" by (auto simp: z_find_def find_None_iff)
  then obtain q where q: "z_find s (z_player p) = Some q" by blast
  then have "q = p"
    using z_find_Some [OF q] c p by (auto simp: z_core_def distinct_map dest: inj_onD)
  with q show ?thesis by simp
qed

lemma z_upd_frame [simp]:
  "z_players (z_upd n f s) = map (\<lambda>p. if z_player p = n then f p else p) (z_players s)"
  "z_ante (z_upd n f s) = z_ante s" "z_bet (z_upd n f s) = z_bet s" "z_finished (z_upd n f s) = z_finished s"
  "z_current (z_upd n f s) = z_current s" "z_round (z_upd n f s) = z_round s" "z_turn (z_upd n f s) = z_turn s"
  "z_acted (z_upd n f s) = z_acted s" "z_allow_235 (z_upd n f s) = z_allow_235 s"
  "z_result (z_upd n f s) = z_result s"
  by (simp_all add: z_upd_def)

lemma z_upd_names: "(\<And>p. z_player (f p) = z_player p) \<Longrightarrow>
    map z_player (z_players (z_upd n f s)) = map z_player (z_players s)"
  by simp

lemma z_core_upd:
  assumes "z_core s" "\<And>p. z_player (f p) = z_player p \<and> z_cards (f p) = z_cards p \<and> z_budget (f p) = z_budget p"
    and "\<And>p. p \<in> set (z_players s) \<Longrightarrow> z_player p = n \<Longrightarrow> 0 \<le> z_invested p \<Longrightarrow> z_invested p \<le> z_budget p
      \<Longrightarrow> 0 \<le> z_invested (f p) \<and> z_invested (f p) \<le> z_budget p"
  shows "z_core (z_upd n f s)"
proof -
  have "map z_player (z_players (z_upd n f s)) = map z_player (z_players s)"
    by (rule z_upd_names) (use assms(2) in blast)
  then have "distinct (map z_player (z_players (z_upd n f s)))" using assms(1) by (simp only: z_core_def)
  then show ?thesis using assms by (auto simp: z_core_def simp del: map_map)
qed

section \<open>Settlement\<close>

lemma z_winners_props:
  "z_live s \<noteq> [] \<Longrightarrow> z_winners s \<noteq> []"
  "z_core s \<Longrightarrow> distinct (z_winners s)"
  "set (z_winners s) \<subseteq> z_player ` set (z_live s)"
proof -
  show "z_winners s \<noteq> []" if "z_live s \<noteq> []"
    using ex_maximal [OF that] unfolding z_winners_def Let_def by (auto simp: filter_empty_conv)
  show "distinct (z_winners s)" if "z_core s"
    using that by (auto simp: z_winners_def z_live_def z_core_def Let_def distinct_map inj_on_def)
  show "set (z_winners s) \<subseteq> z_player ` set (z_live s)"
    by (auto simp: z_winners_def Let_def)
qed

lemma z_settle_pays:
  assumes c: "z_core s" and l: "z_live s \<noteq> []"
  shows "\<exists>t. z_settle mac s why = Inr t \<and> z_ok t \<and> z_finished t \<and> z_players t = z_players s"
proof -
  obtain aw where aw: "fair_split mac (z_pot s) (z_winners s) = Inr aw"
    using fair.split_ok [OF z_winners_props(1) [OF l]] by blast
  have tc: "\<not> (\<exists>p \<in> set (z_live s). \<not> three_cards (z_cards p))"
    using c by (auto simp: z_core_def z_live_def)
  have d: "distinct (map z_player (z_players s))" using c by (simp add: z_core_def)
  have sub: "set (z_winners s) \<subseteq> set (map z_player (z_players s))"
    using z_winners_props(3) [of s] by (auto simp: z_live_def)
  have "sum_list (map (z_award aw) (map z_player (z_players s))) = z_pot s"
    unfolding z_award_def by (rule fair.awards_total [OF aw z_winners_props(2) [OF c] d sub])
  then have sum: "sum_list (map (\<lambda>p. z_award aw (z_player p)) (z_players s)) = z_pot s" by (simp add: comp_def)
  have "0 \<le> z_pot s" unfolding z_pot_def using c by (intro sum_list_int_nonneg) (auto simp: z_core_def)
  then have nn: "0 \<le> z_award aw n" for n
    using fair.split_nonneg [OF aw] by (force simp: z_award_def split: option.split dest: map_of_SomeD)
  show ?thesis
    using c tc aw sum nn
    by (auto simp: z_settle_def z_ok_def z_paid_def z_core_def z_pot_def comp_def sum_list_subtractf)
qed

section \<open>Passing the turn\<close>

lemma position_lt: "n \<in> z_player ` set ps \<Longrightarrow> position ps n < length ps"
  by (induction ps) (auto simp: position_def)

lemma position_nth: "n \<in> z_player ` set ps \<Longrightarrow> z_player (ps ! position ps n) = n"
  by (induction ps) (auto simp: position_def)

lemma next_live_Some:
  assumes "\<exists>p \<in> set ps. \<not> z_folded p" "pos < length ps"
  shows "\<exists>q \<in> set ps. next_live ps pos = Some q \<and> \<not> z_folded q"
proof -
  obtain i where i: "i < length ps" "\<not> z_folded (ps ! i)" using assms(1) by (auto simp: in_set_conv_nth)
  define k where "k = (if pos < i then i - pos else i + length ps - pos)"
  have k: "1 \<le> k" "k \<le> length ps" "(pos + k) mod length ps = i"
    using i(1) assms(2) by (auto simp: k_def)
  have "ps ! i \<in> set (map (\<lambda>step. ps ! ((pos + step) mod length ps)) [1..<length ps + 1])"
    unfolding set_map k(3) [symmetric] by (rule imageI) (use k(1,2) in auto)
  then have "next_live ps pos \<noteq> None"
    using i(2) unfolding next_live_def find_None_iff by blast
  then obtain q where q: "next_live ps pos = Some q" by blast
  have "\<not> z_folded q" and q_in: "q \<in> set (map (\<lambda>step. ps ! ((pos + step) mod length ps)) [1..<length ps + 1])"
    using find_SomeD [OF q [unfolded next_live_def]] by blast+
  have "q \<in> set ps"
    using q_in assms(2) by (auto simp del: upt_Suc intro!: nth_mem mod_less_divisor)
  with q \<open>\<not> z_folded q\<close> show ?thesis by blast
qed

lemma z_live_frame [simp]:
  "z_live (s\<lparr>z_acted := a\<rparr>) = z_live s" "z_live (s\<lparr>z_round := r\<rparr>) = z_live s" "z_live (s\<lparr>z_current := c\<rparr>) = z_live s"
  "z_live (s\<lparr>z_turn := k\<rparr>) = z_live s" "z_live (s\<lparr>z_comparisons := cs\<rparr>) = z_live s" "z_live (s\<lparr>z_bet := b\<rparr>) = z_live s"
  by (simp_all add: z_live_def)

lemma pass_turn_ok:
  assumes "z_core s" "2 \<le> length (z_live s)" "name \<in> z_player ` set (z_players s)" "\<not> z_finished s"
  shows "z_ok (pass_turn s name) \<and> z_players (pass_turn s name) = z_players s \<and> \<not> z_finished (pass_turn s name)"
proof -
  have "z_live s \<noteq> []" using assms(2) by auto
  then have "\<exists>p \<in> set (z_players s). \<not> z_folded p" by (auto simp: z_live_def filter_empty_conv)
  from next_live_Some [OF this position_lt [OF assms(3)]]
  obtain q where q: "q \<in> set (z_players s)" "next_live (z_players s) (position (z_players s) name) = Some q" "\<not> z_folded q"
    by blast
  then have "q \<in> set (z_live s)" by (simp add: z_live_def)
  then show ?thesis
    using assms q(2) by (auto simp: pass_turn_def z_ok_def z_core_def z_turn_ok_def)
qed

lemma z_advance_ok:
  assumes c: "z_core s" and l: "z_live s \<noteq> []" and n: "name \<in> z_player ` set (z_players s)" and f: "\<not> z_finished s"
  shows "\<exists>t. z_advance mac s name = Inr t \<and> z_ok t \<and> z_players t = z_players s"
proof (cases "length (z_live s) = 1")
  case True
  then show ?thesis using z_settle_pays [OF c l] by (auto simp: z_advance_def)
next
  case False
  then have l2: "2 \<le> length (z_live s)" using l by (cases "z_live s") (auto simp: Suc_le_eq)
  let ?s = "s\<lparr>z_acted := List.insert name (z_acted s)\<rparr>"
  let ?r = "?s\<lparr>z_round := z_round s + 1, z_acted := []\<rparr>"
  have cs: "z_core ?s" "z_core ?r" using c by (simp_all add: z_core_def)
  have "\<exists>t. z_settle mac ?s RoundLimit = Inr t \<and> z_ok t \<and> z_players t = z_players s"
    using z_settle_pays [OF cs(1), of mac RoundLimit] l by auto
  moreover have "z_ok (pass_turn ?r name) \<and> z_players (pass_turn ?r name) = z_players s"
    using pass_turn_ok [OF cs(2)] l2 n f by simp
  moreover have "z_ok (pass_turn ?s name) \<and> z_players (pass_turn ?s name) = z_players s"
    using pass_turn_ok [OF cs(1)] l2 n f by simp
  ultimately show ?thesis using False by (auto simp: z_advance_def Let_def)
qed

section \<open>Actions\<close>

text \<open>What no action changes: who plays, from which seat, with which budget and cards.\<close>

definition z_key :: "zplayer \<Rightarrow> string \<times> int \<times> int \<times> int list" where
  "z_key p = (z_player p, z_seat p, z_budget p, z_cards p)"

definition z_roster :: "zhand \<Rightarrow> (string \<times> int \<times> int \<times> int list) list" where
  "z_roster s = map z_key (z_players s)"

lemma z_roster_upd: "(\<And>p. z_key (f p) = z_key p) \<Longrightarrow> z_roster (z_upd n f s) = z_roster s"
  by (simp add: z_roster_def)

lemma z_roster_names: "z_roster t = z_roster s \<Longrightarrow> z_player ` set (z_players t) = z_player ` set (z_players s)"
proof -
  have "z_player ` set (z_players u) = fst ` set (z_roster u)" for u
    by (simp add: z_roster_def z_key_def image_image)
  then show "z_roster t = z_roster s \<Longrightarrow> ?thesis" by simp
qed

lemma z_key_upd [simp]: "z_key (invest a p) = z_key p" "z_key (fold_player p) = z_key p"
  "z_key (p\<lparr>z_seen := b\<rparr>) = z_key p"
  by (simp_all add: z_key_def invest_def fold_player_def)

lemma z_pass_frame [simp]:
  "z_player (invest a p) = z_player p" "z_cards (invest a p) = z_cards p" "z_budget (invest a p) = z_budget p"
  "z_folded (invest a p) = z_folded p" "z_invested (invest a p) = z_invested p + a"
  "z_player (fold_player p) = z_player p" "z_cards (fold_player p) = z_cards p" "z_budget (fold_player p) = z_budget p"
  "z_invested (fold_player p) = z_invested p" "z_folded (fold_player p)"
  by (simp_all add: invest_def fold_player_def)

text \<open>When one of at least two live players folds, somebody is still live.\<close>

lemma fold_leaves_live:
  assumes "z_core s" "2 \<le> length (z_live s)"
  shows "z_live (z_upd n fold_player s) \<noteq> []"
proof -
  have d: "distinct (map z_player (z_live s))"
    using assms(1) by (auto simp: z_core_def z_live_def distinct_map inj_on_def)
  obtain p q r where "z_live s = p # q # r" using assms(2) by (metis Suc_le_length_iff numeral_2_eq_2)
  then have "z_player p \<noteq> z_player q" "p \<in> set (z_live s)" "q \<in> set (z_live s)" using d by auto
  then obtain x where "x \<in> set (z_players s)" "\<not> z_folded x" "z_player x \<noteq> n"
    by (cases "z_player p = n") (auto simp: z_live_def)
  then show ?thesis by (auto simp: z_live_def filter_empty_conv intro!: bexI [of _ x])
qed

lemma z_legal_cases:
  assumes "map_of (z_legal s name) act = Some opt" "act \<noteq> ZLook"
  obtains p where "z_find s name = Some p" "\<not> z_folded p" "\<not> z_finished s" "z_current s = Some name"
    "map_of (z_turn_actions s p) act = Some opt"
  using assms
  by (auto simp: z_legal_def z_current_player_def split: option.splits if_splits)

lemma turn_amount:
  assumes "map_of (z_turn_actions s p) act = Some opt" "0 \<le> z_bet s" "0 \<le> z_ante s" "z_invested p \<le> z_budget p"
  shows "0 \<le> zo_amount opt \<and> z_invested p + zo_amount opt \<le> z_budget p"
  using assms by (auto simp: z_turn_actions_def Let_def price_def split: if_splits)

lemma turn_targets:
  assumes "map_of (z_turn_actions s p) ZCompare = Some opt" "t \<in> set (zo_targets opt)"
  shows "\<exists>q \<in> set (z_players s). z_player q = t \<and> \<not> z_folded q \<and> q \<noteq> p"
  using assms by (auto simp: z_turn_actions_def Let_def price_def split: if_splits)

text \<open>A change of the players alone: \<open>t\<close> is \<open>s\<close> with \<open>f\<close> applied to every player; nobody comes back.\<close>

definition z_bump :: "zhand \<Rightarrow> zhand \<Rightarrow> (zplayer \<Rightarrow> zplayer) \<Rightarrow> bool" where
  "z_bump s t f \<longleftrightarrow> z_players t = map f (z_players s) \<and> z_current t = z_current s \<and> z_acted t = z_acted s
     \<and> z_round t = z_round s \<and> z_turn t = z_turn s \<and> z_finished t = z_finished s
     \<and> (\<forall>p. z_key (f p) = z_key p \<and> (z_folded p \<longrightarrow> z_folded (f p)))"

lemma z_bump_roster: "z_bump s t f \<Longrightarrow> z_roster t = z_roster s"
  by (simp add: z_bump_def z_roster_def)

lemma z_bump_trans: "z_bump s t f \<Longrightarrow> z_bump t u g \<Longrightarrow> z_bump s u (g \<circ> f)"
  by (simp add: z_bump_def)

lemma z_compare_ok:
  assumes c: "z_core s" and l: "2 \<le> length (z_live s)"
    and p: "name \<in> z_player ` set (z_players s)" "target \<in> z_player ` set (z_players s)" "\<not> z_finished s"
  shows "\<exists>t. z_compare s name target = Inr t \<and> z_core t \<and> z_live t \<noteq> [] \<and> \<not> z_finished t
    \<and> (\<exists>loser. z_bump s t (\<lambda>p. if z_player p = loser then fold_player p else p))"
proof -
  obtain a b where ab: "z_find s name = Some a" "z_find s target = Some b"
    using p(1,2) z_find_in [OF c] by auto
  then have "three_cards (z_cards a)" "three_cards (z_cards b)"
    using c by (auto simp: z_core_def dest!: z_find_Some)
  then obtain r where r: "compare_hands (z_cards a) (z_cards b) (z_allow_235 s) = Inr r"
    by (auto simp: compare_hands_def strength_def)
  have "z_core (z_upd n fold_player s)" for n
    by (rule z_core_upd [OF c]) auto
  then have "z_core ((z_upd n fold_player s)\<lparr>z_comparisons := cs\<rparr>)" for n cs by (simp add: z_core_def)
  moreover have "z_bump s ((z_upd n fold_player s)\<lparr>z_comparisons := cs\<rparr>)
      (\<lambda>p. if z_player p = n then fold_player p else p)" for n cs
    by (simp add: z_bump_def)
  ultimately show ?thesis
    using fold_leaves_live [OF c l] ab r p(3) by (simp add: z_compare_def Let_def) blast
qed

lemma z_ok_running: "z_ok s \<Longrightarrow> \<not> z_finished s \<Longrightarrow> z_core s \<and> 2 \<le> length (z_live s)"
  by (simp add: z_ok_def z_turn_ok_def)

text \<open>A legal action with an admissible target is always carried out.\<close>

lemma z_advance_roster:
  assumes "z_core s" "z_live s \<noteq> []" "name \<in> z_player ` set (z_players s)" "\<not> z_finished s"
  shows "\<exists>t. z_advance mac s name = Inr t \<and> z_ok t \<and> z_roster t = z_roster s"
  using z_advance_ok [OF assms, of mac] by (auto simp: z_roster_def)

lemma z_apply_effect:
  assumes ok: "z_ok s" and a: "map_of (z_legal s name) act = Some opt" "act \<noteq> ZLook"
    and t: "act = ZCompare \<longrightarrow> (\<exists>u. target = Some u \<and> u \<in> set (zo_targets opt))"
  obtains u f where "z_bump s u f" "z_core u" "z_live u \<noteq> []"
    "z_apply mac s name act None target = (if act = ZAllIn then z_settle mac u AllInEnd else z_advance mac u name)"
proof -
  obtain p where p: "z_find s name = Some p" "\<not> z_finished s" and o: "map_of (z_turn_actions s p) act = Some opt"
    using a by (rule z_legal_cases)
  have c: "z_core s" and l: "2 \<le> length (z_live s)" using z_ok_running [OF ok p(2)] by auto
  have n: "name \<in> z_player ` set (z_players s)" using z_find_Some [OF p(1)] by auto
  have amt: "0 \<le> zo_amount opt \<and> z_invested p + zo_amount opt \<le> z_budget p"
    using turn_amount [OF o] c z_find_Some [OF p(1)] by (auto simp: z_core_def)
  let ?i = "z_upd name (invest (zo_amount opt)) s"
  let ?s = "if act = ZRaise then ?i\<lparr>z_bet := z_bet ?i + z_ante ?i\<rparr> else ?i"
  have "z_core ?i"
  proof (rule z_core_upd [OF c])
    fix q assume "q \<in> set (z_players s)" "z_player q = name" "0 \<le> z_invested q"
    then show "0 \<le> z_invested (invest (zo_amount opt) q) \<and> z_invested (invest (zo_amount opt) q) \<le> z_budget q"
      using z_find_in [OF c] p(1) amt by auto
  qed simp
  then have cs: "z_core ?s" by (simp add: z_core_def)
  have ls: "length (z_live ?s) = length (z_live s)"
    by (simp add: z_live_def filter_map comp_def cong: if_cong)
  have bs: "z_bump s ?s (\<lambda>p. if z_player p = name then invest (zo_amount opt) p else p)"
    by (simp add: z_bump_def)
  have ne: "z_live ?s \<noteq> []"
  proof
    assume e: "z_live ?s = []"
    show False using ls l unfolding e by simp
  qed
  consider "act = ZFold" | "act = ZCompare" | "act \<notin> {ZFold, ZCompare}" by blast
  then show ?thesis
  proof cases
    case 1
    have "z_core (z_upd name fold_player s)" by (rule z_core_upd [OF c]) auto
    moreover have "z_bump s (z_upd name fold_player s) (\<lambda>p. if z_player p = name then fold_player p else p)"
      by (simp add: z_bump_def)
    ultimately show ?thesis
      using 1 a fold_leaves_live [OF c l] by (intro that) (auto simp: z_apply_def)
  next
    case 2
    then obtain u where u: "target = Some u" "u \<in> set (zo_targets opt)" using t by blast
    have "u \<in> z_player ` set (z_players ?s)"
      using turn_targets [OF o [unfolded 2] u(2)] z_roster_names [OF z_bump_roster [OF bs]] by auto
    moreover have "name \<in> z_player ` set (z_players ?s)" "\<not> z_finished ?s" "2 \<le> length (z_live ?s)"
      using n z_roster_names [OF z_bump_roster [OF bs]] p(2) ls l by auto
    ultimately obtain v loser where v: "z_compare ?s name u = Inr v" "z_core v" "z_live v \<noteq> []"
      "z_bump ?s v (\<lambda>p. if z_player p = loser then fold_player p else p)"
      using z_compare_ok [OF cs] by blast
    have ap: "z_apply mac s name act None target = z_advance mac v name"
      using 2 a u v(1) by (simp add: z_apply_def Let_def)
    show ?thesis
      by (rule that [OF z_bump_trans [OF bs v(4)] v(2,3)]) (use ap 2 in simp)
  next
    case 3
    have ap: "z_apply mac s name act None target = (if act = ZAllIn then z_settle mac ?s AllInEnd else z_advance mac ?s name)"
      using 3 a by (simp add: z_apply_def Let_def)
    show ?thesis by (rule that [OF bs cs ne ap])
  qed
qed

text \<open>A legal action with an admissible target is always carried out.\<close>

lemma z_apply_turn:
  assumes "z_ok s" "map_of (z_legal s name) act = Some opt" "act \<noteq> ZLook"
    and "act = ZCompare \<longrightarrow> (\<exists>u. target = Some u \<and> u \<in> set (zo_targets opt))"
  shows "\<exists>t. z_apply mac s name act None target = Inr t \<and> z_ok t \<and> z_roster t = z_roster s"
proof -
  obtain p where p: "z_find s name = Some p" "\<not> z_finished s"
    using assms(2,3) by (rule z_legal_cases)
  obtain u f where u: "z_bump s u f" "z_core u" "z_live u \<noteq> []"
    and ap: "z_apply mac s name act None target = (if act = ZAllIn then z_settle mac u AllInEnd else z_advance mac u name)"
    using z_apply_effect [OF assms] by metis
  have "\<not> z_finished u" "name \<in> z_player ` set (z_players u)"
    using u(1) p z_find_Some [OF p(1)] z_roster_names [OF z_bump_roster [OF u(1)]] by (auto simp: z_bump_def)
  then show ?thesis
    using z_settle_pays [OF u(2,3), of mac AllInEnd] z_advance_roster [OF u(2,3), of name mac] ap z_bump_roster [OF u(1)]
    by (auto simp: z_roster_def)
qed

section \<open>Rounds end\<close>

text \<open>
  The turn order as a ring: the round began at position \<open>b\<close>, the current player sits \<open>d\<close> places on,
  everybody in between has acted or folded, and nobody else has acted.
\<close>

definition ring_at :: "zplayer list \<Rightarrow> nat \<Rightarrow> zplayer" where
  "ring_at ps i = ps ! (i mod length ps)"

definition ring :: "zhand \<Rightarrow> nat \<Rightarrow> nat \<Rightarrow> bool" where
  "ring s b d \<longleftrightarrow>
     d < length (z_players s) \<and> z_current s = Some (z_player (ring_at (z_players s) (b + d)))
     \<and> (\<forall>e<d. z_folded (ring_at (z_players s) (b + e)) \<or> z_player (ring_at (z_players s) (b + e)) \<in> set (z_acted s))
     \<and> set (z_acted s) \<subseteq> (\<lambda>e. z_player (ring_at (z_players s) (b + e))) ` {..<d}"

definition z_clock :: "zhand \<Rightarrow> bool" where
  "z_clock s \<longleftrightarrow> 1 \<le> z_round s \<and> z_round s \<le> 10 \<and>
     (if z_finished s then z_turn s \<le> 10 * int (length (z_players s))
      else \<exists>b d. ring s b d \<and> z_turn s \<le> (z_round s - 1) * int (length (z_players s)) + int d + 1)"

lemma ring_at_in: "ps \<noteq> [] \<Longrightarrow> ring_at ps i \<in> set ps"
  by (simp add: ring_at_def)

lemma position_unique:
  assumes "distinct (map z_player ps)" "i < length ps"
  shows "position ps (z_player (ps ! i)) = i"
proof -
  have "z_player (ps ! i) \<in> z_player ` set ps" using assms(2) by simp
  then have "position ps (z_player (ps ! i)) < length ps"
    "z_player (ps ! position ps (z_player (ps ! i))) = z_player (ps ! i)"
    by (simp_all add: position_lt position_nth)
  then show ?thesis
    using nth_eq_iff_index_eq [OF assms(1), of "position ps (z_player (ps ! i))" i] assms(2) by simp
qed

lemma position_ring:
  assumes "distinct (map z_player ps)" "ps \<noteq> []"
  shows "position ps (z_player (ring_at ps i)) = i mod length ps"
  using position_unique [OF assms(1), of "i mod length ps"] assms(2) by (simp add: ring_at_def)

text \<open>Every seat is some number of places on.\<close>

lemma ring_covers:
  assumes "q \<in> set ps"
  shows "\<exists>e<length ps. q = ring_at ps (b + e)"
proof -
  obtain i where i: "i < length ps" "q = ps ! i" using assms by (auto simp: in_set_conv_nth)
  define c where "c = b mod length ps"
  have c: "c < length ps" unfolding c_def using i(1) by (intro mod_less_divisor) linarith
  define e where "e = (if c \<le> i then i - c else i + length ps - c)"
  have "e < length ps" "(c + e) mod length ps = i" using i(1) c by (auto simp: e_def)
  moreover have "(b + e) mod length ps = (c + e) mod length ps" by (simp add: c_def mod_simps)
  ultimately show ?thesis using i(2) by (auto simp: ring_at_def intro!: exI [of _ e])
qed

text \<open>The search for the next live player stops at the first one.\<close>

lemma next_live_first:
  assumes "next_live ps (i mod length ps) = Some q"
  obtains k where "1 \<le> k" "k \<le> length ps" "q = ring_at ps (i + k)" "\<not> z_folded q"
    "\<And>j. 1 \<le> j \<Longrightarrow> j < k \<Longrightarrow> z_folded (ring_at ps (i + j))"
proof -
  let ?xs = "map (\<lambda>step. ps ! ((i mod length ps + step) mod length ps)) [1..<length ps + 1]"
  have at: "k < length ps \<Longrightarrow> ?xs ! k = ring_at ps (i + Suc k)" for k
    by (simp add: ring_at_def mod_simps del: upt_Suc)
  obtain k where k: "k < length ?xs" "q = ?xs ! k" "\<not> z_folded (?xs ! k)" "\<forall>j<k. z_folded (?xs ! j)"
    using iffD1 [OF find_Some_iff assms [unfolded next_live_def]] by blast
  have kl: "k < length ps" using k(1) by (simp del: upt_Suc)
  show ?thesis
  proof (rule that [of "Suc k"])
    show "q = ring_at ps (i + Suc k)" using k(2) at [OF kl] by (rule trans)
    show "\<not> z_folded q" unfolding k(2) by (rule k(3))
    show "1 \<le> Suc k" "Suc k \<le> length ps" using kl by simp_all
    fix j assume j: "1 \<le> j" "j < Suc k"
    then have "z_folded (?xs ! (j - 1))" using k(4) by (metis Suc_diff_le diff_Suc_1 less_Suc_eq_le not_less_eq)
    moreover have "?xs ! (j - 1) = ring_at ps (i + Suc (j - 1))" using j kl by (intro at) linarith
    ultimately show "z_folded (ring_at ps (i + j))" using j(1) by simp
  qed
qed

lemma ring_mono:
  assumes "ring s b d" "z_players t = map f (z_players s)" "z_current t = z_current s" "z_acted t = z_acted s"
    and "\<And>p. z_player (f p) = z_player p \<and> (z_folded p \<longrightarrow> z_folded (f p))"
  shows "ring t b d"
proof -
  have ne: "z_players s \<noteq> []" using assms(1) by (auto simp: ring_def)
  then have "ring_at (z_players t) i = f (ring_at (z_players s) i)" for i
    using assms(2) by (simp add: ring_at_def)
  then show ?thesis using assms by (simp add: ring_def) blast
qed

lemma clock_mono:
  assumes "z_clock s" "z_players t = map f (z_players s)" "z_current t = z_current s" "z_acted t = z_acted s"
    "z_round t = z_round s" "z_turn t = z_turn s" "z_finished t = z_finished s"
    and "\<And>p. z_player (f p) = z_player p \<and> (z_folded p \<longrightarrow> z_folded (f p))"
  shows "z_clock t"
  using assms(1-7) ring_mono [OF _ assms(2-4,8)] by (auto simp: z_clock_def split: if_splits)

lemma clock_upd:
  assumes "z_clock s" "\<And>p. z_player (f p) = z_player p \<and> (z_folded p \<longrightarrow> z_folded (f p))"
  shows "z_clock (z_upd n f s)"
  by (rule clock_mono [OF assms(1) z_upd_frame(1)]) (use assms(2) in auto)

lemma clock_turns: "z_clock s \<Longrightarrow> z_turn s \<le> 10 * int (length (z_players s))"
proof -
  assume c: "z_clock s"
  show ?thesis
  proof (cases "z_finished s")
    case False
    with c obtain b d where r: "ring s b d" and t: "z_turn s \<le> (z_round s - 1) * int (length (z_players s)) + int d + 1"
      by (auto simp: z_clock_def)
    have "(z_round s - 1) * int (length (z_players s)) \<le> 9 * int (length (z_players s))"
      using c by (intro mult_right_mono) (auto simp: z_clock_def)
    moreover have "int d + 1 \<le> int (length (z_players s))" using r by (auto simp: ring_def)
    ultimately show ?thesis using t by linarith
  qed (use c in \<open>auto simp: z_clock_def\<close>)
qed

lemma settle_frame:
  "z_settle mac s why = Inr t \<Longrightarrow>
   z_turn t = z_turn s \<and> z_round t = z_round s \<and> z_players t = z_players s \<and> z_finished t"
  by (auto simp: z_settle_def split: if_splits sum.splits)

lemma settle_clock:
  assumes "z_settle mac u why = Inr t" "z_clock s" "z_turn u = z_turn s" "z_round u = z_round s" "z_players u = z_players s"
  shows "z_clock t"
  using settle_frame [OF assms(1)] clock_turns [OF assms(2)] assms(2-5) by (auto simp: z_clock_def)

text \<open>Passing the turn inside a round moves on along the ring; ending the round starts a new ring.\<close>

lemma pass_ring:
  assumes d: "distinct (map z_player (z_players s))" and r: "ring s b d" and c: "z_current s = Some name"
    and live: "q \<in> set (z_live s)" "z_player q \<notin> set (z_acted s)" "z_player q \<noteq> name"
    and acted: "set (z_acted t) = insert name (set (z_acted s))" "z_players t = z_players s"
  shows "\<exists>d'. d < d' \<and> ring (pass_turn t name) b d'"
proof -
  let ?ps = "z_players s"
  have ne: "?ps \<noteq> []" using live by (auto simp: z_live_def)
  have nm: "name = z_player (ring_at ?ps (b + d))" using r c by (simp add: ring_def)
  obtain e where e: "e < length ?ps" "q = ring_at ?ps (b + e)"
    using ring_covers [of q ?ps b] live(1) by (auto simp: z_live_def)
  have "\<not> e < d" using r e(2) live by (auto simp: ring_def z_live_def)
  moreover have "e \<noteq> d" using e(2) nm live(3) by auto
  ultimately have de: "d < e" by simp
  have pos: "position ?ps name = (b + d) mod length ?ps"
    using position_ring [OF d ne] nm by simp
  have "\<exists>p \<in> set ?ps. \<not> z_folded p" "(b + d) mod length ?ps < length ?ps"
    using live ne by (auto simp: z_live_def)
  from next_live_Some [OF this] obtain x where x: "next_live ?ps ((b + d) mod length ?ps) = Some x" by blast
  then obtain k where k: "1 \<le> k" "x = ring_at ?ps (b + d + k)"
    "\<And>j. 1 \<le> j \<Longrightarrow> j < k \<Longrightarrow> z_folded (ring_at ?ps (b + d + j))"
    by (rule next_live_first) blast
  have "k \<le> e - d"
  proof (rule ccontr)
    assume "\<not> k \<le> e - d"
    then have "z_folded (ring_at ?ps (b + d + (e - d)))" using de by (intro k(3)) auto
    then show False using de e(2) live(1) by (simp add: z_live_def)
  qed
  then have lt: "d + k < length ?ps" using e(1) de by simp
  have "z_folded (ring_at ?ps (b + j)) \<or> z_player (ring_at ?ps (b + j)) \<in> set (z_acted t)" if j: "j < d + k" for j
  proof -
    consider "j < d" | "j = d" | "d < j" by linarith
    then show ?thesis
    proof cases
      case 3
      then have "z_folded (ring_at ?ps (b + d + (j - d)))" using j by (intro k(3)) auto
      then show ?thesis using 3 by simp
    qed (use r nm acted(1) in \<open>auto simp: ring_def\<close>)
  qed
  moreover have "set (z_acted t) \<subseteq> (\<lambda>j. z_player (ring_at ?ps (b + j))) ` {..<d + k}"
  proof -
    have "set (z_acted s) \<subseteq> (\<lambda>j. z_player (ring_at ?ps (b + j))) ` {..<d + k}"
      using r by (force simp: ring_def)
    moreover have "name \<in> (\<lambda>j. z_player (ring_at ?ps (b + j))) ` {..<d + k}"
      using nm k(1) by auto
    ultimately show ?thesis using acted(1) by simp
  qed
  ultimately have "ring (pass_turn t name) b (d + k)"
    using x pos k(2) lt acted(2) by (simp add: ring_def pass_turn_def Let_def add.assoc)
  then show ?thesis using k(1) by (intro exI [of _ "d + k"]) auto
qed

lemma new_round_ring:
  assumes "distinct (map z_player (z_players t))" "z_live t \<noteq> []" "z_acted t = []" "name \<in> z_player ` set (z_players t)"
  shows "\<exists>b. ring (pass_turn t name) b 0"
proof -
  have ne: "z_players t \<noteq> []" using assms(2) by (auto simp: z_live_def)
  have "\<exists>p \<in> set (z_players t). \<not> z_folded p" using assms(2) by (auto simp: z_live_def filter_empty_conv)
  from next_live_Some [OF this position_lt [OF assms(4)]]
  obtain x where x: "next_live (z_players t) (position (z_players t) name) = Some x" "x \<in> set (z_players t)" by blast
  then obtain b where "x = ring_at (z_players t) (0 + b)" using ring_covers by blast
  then have "ring (pass_turn t name) b 0"
    using x assms(3) ne by (simp add: ring_def pass_turn_def)
  then show ?thesis by blast
qed

lemma pass_turn_frame:
  "z_finished (pass_turn s n) = z_finished s" "z_round (pass_turn s n) = z_round s"
  "z_turn (pass_turn s n) = z_turn s + 1" "z_players (pass_turn s n) = z_players s"
  by (simp_all add: pass_turn_def)

lemma advance_clock:
  assumes c: "z_core s" and l: "z_live s \<noteq> []" and f: "\<not> z_finished s" and k: "z_clock s"
    and cur: "z_current s = Some name" and a: "z_advance mac s name = Inr t"
  shows "z_clock t \<and> z_turn t = z_turn s + (if z_finished t then 0 else 1)"
proof -
  let ?s = "s\<lparr>z_acted := List.insert name (z_acted s)\<rparr>"
  let ?r = "?s\<lparr>z_round := z_round s + 1, z_acted := []\<rparr>"
  have d: "distinct (map z_player (z_players s))" using c by (simp add: z_core_def)
  obtain b e where r: "ring s b e" and tn: "z_turn s \<le> (z_round s - 1) * int (length (z_players s)) + int e + 1"
    and rd: "1 \<le> z_round s" "z_round s \<le> 10"
    using k f by (auto simp: z_clock_def)
  have ne: "z_players s \<noteq> []" using l by (auto simp: z_live_def)
  have name: "name \<in> z_player ` set (z_players s)"
    using r cur ring_at_in [OF ne] by (auto simp: ring_def)
  consider (settle) u why where "z_settle mac u why = Inr t" "z_turn u = z_turn s" "z_round u = z_round s" "z_players u = z_players s"
    | (round) "t = pass_turn ?r name" "z_round s < 10"
    | (turn) "t = pass_turn ?s name" "\<not> (\<forall>p \<in> set (z_live s). z_player p \<in> insert name (set (z_acted s)))"
  proof -
    show ?thesis
    proof (cases "length (z_live s) = 1")
      case True
      with a that(1) [of s LastPlayer] show ?thesis by (simp add: z_advance_def)
    next
      case False
      then have "z_settle mac ?s RoundLimit = Inr t \<or> (t = pass_turn ?r name \<and> z_round s < 10)
          \<or> (t = pass_turn ?s name \<and> \<not> (\<forall>p \<in> set (z_live s). z_player p \<in> insert name (set (z_acted s))))"
        using a by (auto simp: z_advance_def Let_def split: if_splits)
      then show ?thesis
        by (elim disjE conjE) (erule that(1), simp_all add: that(2,3))
    qed
  qed
  then show ?thesis
  proof cases
    case settle
    then show ?thesis using settle_clock [OF settle(1) k settle(2-4)] settle_frame [OF settle(1)] by simp
  next
    case round
    obtain b' where "ring (pass_turn ?r name) b' 0"
      using new_round_ring [of ?r name] d l name by auto
    moreover have "z_turn s \<le> z_round s * int (length (z_players s))"
    proof -
      have "int e + 1 \<le> int (length (z_players s))" using r by (simp add: ring_def)
      moreover have "(z_round s - 1) * int (length (z_players s)) =
          z_round s * int (length (z_players s)) - int (length (z_players s))"
        by (simp add: left_diff_distrib)
      ultimately show ?thesis using tn by linarith
    qed
    ultimately have "\<exists>b d. ring (pass_turn ?r name) b d \<and>
        z_turn s + 1 \<le> z_round s * int (length (z_players s)) + int d + 1"
      by (intro exI [of _ b'] exI [of _ 0]) simp
    then have "z_clock (pass_turn ?r name)"
      using round(2) rd f by (simp add: z_clock_def pass_turn_frame)
    then show ?thesis using round(1) f by (simp add: pass_turn_frame)
  next
    case turn
    then obtain q where q: "q \<in> set (z_live s)" "z_player q \<notin> set (z_acted s)" "z_player q \<noteq> name" by auto
    obtain e' where e: "e < e'" "ring (pass_turn ?s name) b e'"
      using pass_ring [OF d r cur q, of ?s] by auto
    then have "\<exists>b d. ring (pass_turn ?s name) b d \<and>
        z_turn s + 1 \<le> (z_round s - 1) * int (length (z_players s)) + int d + 1"
      using tn by (intro exI [of _ b] exI [of _ e']) simp
    then have "z_clock (pass_turn ?s name)"
      using rd f by (simp add: z_clock_def pass_turn_frame)
    then show ?thesis using turn(1) f by (simp add: pass_turn_frame)
  qed
qed

section \<open>Runs\<close>

datatype zmove = ZAct string zact "int option" "string option" | ZLeave string

fun zstep :: "(string \<Rightarrow> string) \<Rightarrow> zhand \<Rightarrow> zmove \<Rightarrow> zjh_error + zhand" where
  "zstep mac s (ZAct name act amount target) = z_apply mac s name act amount target"
| "zstep mac s (ZLeave name) = force_fold mac s name"

fun takes_turn :: "zmove \<Rightarrow> bool" where
  "takes_turn (ZAct name act amount target) \<longleftrightarrow> act \<noteq> ZLook"
| "takes_turn (ZLeave name) \<longleftrightarrow> False"

definition z_good :: "zhand \<Rightarrow> bool" where
  "z_good s \<longleftrightarrow> z_ok s \<and> z_clock s"

lemma z_apply_Inr:
  assumes "z_apply mac s name act amount target = Inr t"
  obtains "act = ZLook" "\<not> z_finished s" "t = z_upd name (\<lambda>p. p\<lparr>z_seen := True\<rparr>) s"
  | opt where "act \<noteq> ZLook" "amount = None" "map_of (z_legal s name) act = Some opt"
      "act = ZCompare \<longrightarrow> (\<exists>u. target = Some u \<and> u \<in> set (zo_targets opt))"
proof (cases "act = ZLook")
  case True
  have "map_of (z_legal s name) ZLook \<noteq> None \<Longrightarrow>
      (case z_find s name of None \<Rightarrow> False | Some p \<Rightarrow> \<not> z_folded p) \<and> \<not> z_finished s"
    by (auto simp: z_legal_def z_turn_actions_def Let_def split: option.splits if_splits)
  then show ?thesis
    using assms True that(1) by (auto simp: z_apply_def Let_def split: if_splits option.splits)
next
  case False
  then obtain opt where o: "map_of (z_legal s name) act = Some opt" "amount = None"
    using assms by (auto simp: z_apply_def Let_def split: option.splits)
  have "act = ZCompare \<longrightarrow> (\<exists>u. target = Some u \<and> u \<in> set (zo_targets opt))"
    using assms False o by (auto simp: z_apply_def Let_def check_def split: if_splits option.splits)
  with False o show ?thesis by (intro that(2))
qed

lemma look_keeps:
  assumes "z_good s" "\<not> z_finished s"
  shows "z_good (z_upd name (\<lambda>p. p\<lparr>z_seen := True\<rparr>) s)"
proof -
  let ?t = "z_upd name (\<lambda>p. p\<lparr>z_seen := True\<rparr>) s"
  have c: "z_core ?t" using assms by (intro z_core_upd) (auto simp: z_good_def z_ok_def)
  have "z_live ?t = map (\<lambda>p. if z_player p = name then p\<lparr>z_seen := True\<rparr> else p) (z_live s)"
    by (simp add: z_live_def filter_map comp_def cong: if_cong)
  moreover obtain p where "p \<in> set (z_live s)" "z_current s = Some (z_player p)" "2 \<le> length (z_live s)"
    using assms by (auto simp: z_good_def z_ok_def z_turn_ok_def)
  moreover have "z_player ` set (z_live ?t) = z_player ` set (z_live s)"
    unfolding calculation(1) set_map image_image by (rule image_cong) auto
  then obtain q where "q \<in> set (z_live ?t)" "z_player q = z_player p" using calculation(2) by (metis imageE image_eqI)
  ultimately have "z_turn_ok ?t"
    by (auto simp: z_turn_ok_def simp del: z_upd_frame(1) intro!: bexI [of _ q])
  moreover have "z_clock ?t" using assms by (intro clock_upd) (auto simp: z_good_def)
  ultimately show ?thesis using c assms(2) by (simp add: z_good_def z_ok_def)
qed

lemma z_turn_keeps:
  assumes g: "z_good s" and a: "map_of (z_legal s name) act = Some opt" "act \<noteq> ZLook"
    and tg: "act = ZCompare \<longrightarrow> (\<exists>u. target = Some u \<and> u \<in> set (zo_targets opt))"
    and ap: "z_apply mac s name act None target = Inr t"
  shows "z_good t \<and> z_turn t = z_turn s + (if z_finished t then 0 else 1)"
proof -
  have ok: "z_ok s" and k: "z_clock s" using g by (auto simp: z_good_def)
  have zt: "z_ok t" using z_apply_turn [OF ok a tg, of mac] ap by auto
  obtain p where p: "\<not> z_finished s" "z_current s = Some name" using a by (rule z_legal_cases)
  obtain u f where u: "z_bump s u f" "z_core u" "z_live u \<noteq> []"
    and e: "z_apply mac s name act None target = (if act = ZAllIn then z_settle mac u AllInEnd else z_advance mac u name)"
    using z_apply_effect [OF ok a tg] by metis
  have uk: "z_clock u" using clock_mono [OF k] u(1) by (auto simp: z_bump_def z_key_def)
  have fr: "z_turn u = z_turn s" "\<not> z_finished u" "z_current u = Some name" using u(1) p by (auto simp: z_bump_def)
  show ?thesis
  proof (cases "act = ZAllIn")
    case True
    then have st: "z_settle mac u AllInEnd = Inr t" using ap e by simp
    show ?thesis using settle_clock [OF st uk] settle_frame [OF st] zt fr by (simp add: z_good_def)
  next
    case False
    then have "z_advance mac u name = Inr t" using ap e by simp
    from advance_clock [OF u(2,3) fr(2) uk fr(3) this] show ?thesis using zt fr by (simp add: z_good_def)
  qed
qed

lemma z_apply_keeps:
  assumes g: "z_good s" and ap: "z_apply mac s name act amount target = Inr t"
  shows "z_good t \<and> z_roster t = z_roster s \<and>
    z_turn t = z_turn s + (if act = ZLook \<or> z_finished t then 0 else 1)"
  using ap
proof (cases rule: z_apply_Inr)
  case 1
  have "z_roster t = z_roster s" unfolding 1(3) by (rule z_roster_upd) simp
  with 1 look_keeps [OF g] show ?thesis by auto
next
  case (2 opt)
  have "z_apply mac s name act None target = Inr t" using ap 2(2) by simp
  then show ?thesis
    using z_turn_keeps [OF g 2(3,1,4)] z_apply_turn [OF _ 2(3,1,4), of mac] g 2(1) by (auto simp: z_good_def)
qed

lemma force_fold_keeps:
  assumes g: "z_good s" and f: "force_fold mac s name = Inr t"
  shows "z_good t \<and> z_roster t = z_roster s \<and> z_turn s \<le> z_turn t"
proof -
  let ?s = "z_upd name fold_player s"
  consider "t = s" | "z_apply mac s name ZFold None None = Inr t"
    | "\<not> z_finished s" "z_current s \<noteq> Some name" "length (z_live ?s) = 1" "z_settle mac ?s LastPlayer = Inr t"
    | "\<not> z_finished s" "z_current s \<noteq> Some name" "length (z_live ?s) \<noteq> 1" "t = ?s"
  proof -
    have "t = s \<or> z_apply mac s name ZFold None None = Inr t \<or>
        \<not> z_finished s \<and> z_current s \<noteq> Some name \<and>
          (if length (z_live ?s) = 1 then z_settle mac ?s LastPlayer = Inr t else t = ?s)"
      using f unfolding force_fold_def Let_def
      by (cases "z_find s name") (simp_all add: z_current_player_def split: if_splits)
    then show ?thesis using that by (simp split: if_splits) blast+
  qed
  then show ?thesis
  proof cases
    case 1
    with g show ?thesis by simp
  next
    case 2
    from z_apply_keeps [OF g this] show ?thesis by auto
  next
    case 3
    have ok: "z_core s" "2 \<le> length (z_live s)" using z_ok_running g 3(1) by (auto simp: z_good_def)
    have c: "z_core ?s" by (rule z_core_upd [OF ok(1)]) auto
    have k: "z_clock ?s" using g by (intro clock_upd) (auto simp: z_good_def)
    have "z_roster ?s = z_roster s" by (rule z_roster_upd) simp
    then show ?thesis
      using z_settle_pays [OF c fold_leaves_live [OF ok], of mac LastPlayer] settle_clock [OF 3(4) k]
        settle_frame [OF 3(4)] 3(4) by (auto simp: z_good_def z_roster_def)
  next
    case 4
    have ok: "z_core s" "2 \<le> length (z_live s)" using z_ok_running g 4(1) by (auto simp: z_good_def)
    have c: "z_core ?s" by (rule z_core_upd [OF ok(1)]) auto
    have k: "z_clock ?s" using g by (intro clock_upd) (auto simp: z_good_def)
    have r: "z_roster ?s = z_roster s" by (rule z_roster_upd) simp
    have l2: "2 \<le> length (z_live ?s)" using fold_leaves_live [OF ok, of name] 4(3) by (cases "z_live ?s") (auto simp: Suc_le_eq)
    obtain p where p: "p \<in> set (z_live s)" "z_current s = Some (z_player p)"
      using g 4(1) by (auto simp: z_good_def z_ok_def z_turn_ok_def)
    then have "z_player p \<noteq> name" "p \<in> set (z_players s)" "\<not> z_folded p" using 4(2) by (auto simp: z_live_def)
    then have "p \<in> set (z_live ?s)"
      by (simp add: z_live_def)
    then show ?thesis using c k r l2 p(2) 4(1,4) by (auto simp: z_good_def z_ok_def z_turn_ok_def)
  qed
qed

lemma deal_three_ok:
  assumes "length deck = 52" "set deck = {0..51}" "i < 5"
  shows "three_cards (deal_three deck i)"
proof -
  have "card (set deck) = length deck" using assms(1,2) by simp
  then have "distinct deck" by (rule card_distinct)
  moreover have "set (deal_three deck i) \<subseteq> set deck"
    unfolding deal_three_def by (meson set_drop_subset set_take_subset subset_trans)
  ultimately show ?thesis
    using assms by (auto simp: three_cards_def deal_three_def)
qed

lemma z_new_hand_good:
  assumes "z_new_hand es ante deck allow = Inr s"
  shows "z_good s \<and> length (z_players s) = length es \<and> z_turn s = 1 \<and> \<not> z_finished s"
proof -
  let ?o = "sort_key ze_seat es"
  let ?f = "\<lambda>(i, p). \<lparr>z_player = ze_player p, z_seat = ze_seat p, z_budget = ze_stack p,
                z_cards = deal_three deck i, z_seen = False, z_folded = False, z_invested = ante\<rparr>"
  let ?ps = "map ?f (List.enumerate 0 ?o)"
  have g: "2 \<le> length es" "length es \<le> 5" "1 \<le> ante" "length deck = 52" "set deck = {0..51}"
      "distinct (map ze_player es)" "\<forall>p \<in> set es. ante \<le> ze_stack p"
    and s: "z_players s = ?ps" "z_current s = Some (z_player (hd ?ps))" "z_acted s = []" "z_round s = 1"
      "z_turn s = 1" "z_finished s = False" "z_ante s = ante" "z_bet s = ante"
    using assms by (auto simp: z_new_hand_def Let_def not_less split: if_splits)
  have len: "length ?ps = length es" by simp
  have names: "map z_player ?ps = map ze_player ?o"
    by (simp add: comp_def case_prod_beta) (metis (no_types) map_map map_snd_enumerate comp_def map_eq_conv)
  have q1: "distinct (map z_player (z_players s))"
    unfolding s(1) names using g(6) by (simp add: distinct_map)
  have q2: "0 \<le> z_invested p \<and> z_invested p \<le> z_budget p \<and> three_cards (z_cards p) \<and> \<not> z_folded p"
    if mem: "p \<in> set (z_players s)" for p
  proof -
    obtain x where x: "x \<in> set (List.enumerate 0 ?o)" "p = ?f x" using mem unfolding s(1) set_map by blast
    obtain i q where "x = (i, q)" by (cases x)
    with x have q: "(i, q) \<in> set (List.enumerate 0 ?o)" "p = ?f (i, q)" by simp_all
    then have "i < length es" "q \<in> set es"
      by (auto simp: in_set_enumerate_eq) (metis length_sort nth_mem set_sort)
    then show ?thesis using g deal_three_ok [of deck i] q(2) by auto
  qed
  have live: "z_live s = z_players s"
    unfolding z_live_def using q2 by (intro filter_True) blast
  have len': "length (z_players s) = length es" using s(1) len by simp
  then have ne: "z_players s \<noteq> []" using g(1) by auto
  have cur: "z_current s = Some (z_player (hd (z_players s)))" using s(1,2) by simp
  have "z_core s" unfolding z_core_def using q1 q2 s(7,8) g(3) by auto
  moreover have "z_turn_ok s"
    unfolding z_turn_ok_def live using len' g(1) cur ne by (auto intro!: bexI [of _ "hd (z_players s)"])
  moreover have "ring s 0 0" using cur s(3) ne by (simp add: ring_def ring_at_def hd_conv_nth)
  then have "z_clock s" using s(4,5,6) by (auto simp: z_clock_def intro!: exI [of _ 0])
  ultimately show ?thesis using s(5,6) len' by (simp add: z_good_def z_ok_def)
qed

section \<open>Properties\<close>

definition z_worth :: "zhand \<Rightarrow> int" where
  "z_worth s = sum_list (map (\<lambda>p. z_budget p - z_invested p) (z_players s))
     + (if z_finished s then (case z_result s of None \<Rightarrow> 0 | Some r \<Rightarrow> sum_list (map snd (zr_awards r))) else z_pot s)"

lemma z_worth_budgets: "z_good s \<Longrightarrow> z_worth s = sum_list (map (\<lambda>k. fst (snd (snd k))) (z_roster s))"
  by (auto simp: z_good_def z_ok_def z_worth_def z_roster_def z_key_def z_pot_def z_paid_def comp_def sum_list_subtractf)

lemma zstep_keeps: "z_good s \<Longrightarrow> zstep mac s m = Inr t \<Longrightarrow> z_good t \<and> z_roster t = z_roster s"
  by (cases m) (auto dest: z_apply_keeps force_fold_keeps)

interpretation zjh: accounting "zstep mac" z_good z_worth for mac
  using zstep_keeps z_worth_budgets by unfold_locales metis+

text \<open>C11. Playing a three-card hand, leaving included, never invests more than a player's budget, and when it is over the
  awards are non-negative and add up to exactly what was invested: the nets cancel out.\<close>

theorem zjh_conserves:
  assumes "z_new_hand es ante deck allow = Inr s" "runR (zstep mac) s ms = Inr t"
  shows "list_all (\<lambda>p. 0 \<le> z_invested p \<and> z_invested p \<le> z_budget p) (z_players t) \<and>
    (if z_finished t
     then \<exists>r. z_results t = Inr (Some r) \<and> list_all (\<lambda>a. 0 \<le> snd a) (zr_awards r) \<and>
            sum_list (map snd (zr_awards r)) = sum_list (map z_invested (z_players t)) \<and>
            sum_list (map snd (zr_net r)) = 0
     else z_results t = Inl ZNotSettled)"
proof -
  have "z_good t" using zjh.run_ok [OF assms(2)] z_new_hand_good [OF assms(1)] by simp
  then show ?thesis
    by (auto simp: z_good_def z_ok_def z_core_def z_paid_def z_pot_def z_results_def list_all_iff)
qed

definition z_demo_entries :: "zentry list" where
  "z_demo_entries = [\<lparr>ze_seat = 2, ze_player = ''bob'', ze_stack = 40\<rparr>, \<lparr>ze_seat = 1, ze_player = ''ann'', ze_stack = 100\<rparr>]"

definition z_demo :: zhand where
  "z_demo = \<lparr>z_players =
       [\<lparr>z_player = ''ann'', z_seat = 1, z_budget = 100, z_cards = [0, 1, 2], z_seen = False, z_folded = False, z_invested = 10\<rparr>,
        \<lparr>z_player = ''bob'', z_seat = 2, z_budget = 40, z_cards = [3, 4, 5], z_seen = False, z_folded = False, z_invested = 10\<rparr>],
     z_ante = 10, z_bet = 10, z_round = 1, z_turn = 1, z_current = Some ''ann'', z_acted = [], z_comparisons = [],
     z_allow_235 = False, z_finished = False, z_why = None, z_result = None, z_showdown = []\<rparr>"

lemma z_demo_dealt: "z_new_hand z_demo_entries 10 [0..51] False = Inr z_demo"
proof -
  have "set [0..51::int] = {0..51}" by simp
  moreover have "length [0..51::int] = 52" by simp
  moreover have "deal_three [0..51] 0 = [0, 1, 2]" "deal_three [0..51] 1 = [3, 4, 5]" by code_simp+
  ultimately show ?thesis
    by (simp add: z_new_hand_def z_demo_entries_def z_demo_def)
qed

definition z_demo_moves :: "zmove list" where
  "z_demo_moves = [ZAct ''ann'' ZRaise None None, ZAct ''bob'' ZCall None None, ZAct ''ann'' ZFold None None]"

lemma z_demo_run: "\<exists>t. runR (zstep id) z_demo z_demo_moves = Inr t \<and> z_finished t"
proof -
  have "case runR (zstep id) z_demo z_demo_moves of Inl _ \<Rightarrow> False | Inr t \<Rightarrow> z_finished t" by code_simp
  then show ?thesis by (cases "runR (zstep id) z_demo z_demo_moves") auto
qed

theorem zjh_conserves_witness:
  "\<exists>t r. runR (zstep id) z_demo z_demo_moves = Inr t \<and> z_results t = Inr (Some r) \<and> sum_list (map snd (zr_net r)) = 0"
  using z_demo_run zjh_conserves [OF z_demo_dealt, of id z_demo_moves] by fastforce

lemma turns_counted:
  assumes "runR (zstep mac) s ms = Inr t" "z_good s"
  shows "int (length (filter takes_turn ms)) + z_turn s + (if z_finished s then 1 else 0)
    \<le> z_turn t + (if z_finished t then 1 else 0)"
  using assms
proof (induction ms arbitrary: s)
  case Nil
  then show ?case by simp
next
  case (Cons m ms)
  then obtain u where u: "zstep mac s m = Inr u" "runR (zstep mac) u ms = Inr t" by auto
  have "(if takes_turn m then 1 else 0) + z_turn s + (if z_finished s then 1 else 0)
      \<le> z_turn u + (if z_finished u then 1 else (0::int))"
  proof (cases m)
    case (ZAct name act amount target)
    then have ap: "z_apply mac s name act amount target = Inr u" using u(1) by simp
    have nf: "\<not> z_finished s" by (rule z_apply_Inr [OF ap]) (auto elim: z_legal_cases)
    moreover have "act = ZLook \<Longrightarrow> \<not> z_finished u"
      using ap nf by (auto elim!: z_apply_Inr)
    ultimately show ?thesis
      using z_apply_keeps [OF Cons.prems(2) ap] ZAct by auto
  next
    case (ZLeave name)
    then have f: "force_fold mac s name = Inr u" using u(1) by simp
    moreover have "z_finished s \<Longrightarrow> u = s"
      using f by (auto simp: force_fold_def split: option.splits)
    ultimately show ?thesis using force_fold_keeps [OF Cons.prems(2) f] ZLeave by auto
  qed
  moreover have "z_good u" using zstep_keeps [OF Cons.prems(2) u(1)] by simp
  ultimately show ?case using Cons.IH [OF u(2)] by auto
qed

text \<open>C10. A three-card hand is finite: however it is played, at most ten actions per player can be taken (looking at
  one's cards does not count), because a round ends once every live player has acted and the tenth round settles.\<close>

theorem zjh_ends:
  assumes "z_new_hand es ante deck allow = Inr s" "runR (zstep mac) s ms = Inr t"
  shows "length (filter takes_turn ms) \<le> 10 * length es"
proof -
  note g = z_new_hand_good [OF assms(1)]
  have t: "z_good t" "z_roster t = z_roster s"
    using zjh.run_ok [OF assms(2)] g
      runR_invariant [where P = "\<lambda>u. z_good u \<and> z_roster u = z_roster s", OF assms(2)] zstep_keeps by metis+
  have "length (z_players t) = length es" using g t(2) by (metis length_map z_roster_def)
  then have "z_turn t \<le> 10 * int (length es)"
    using clock_turns t(1) by (metis z_good_def)
  moreover have "int (length (filter takes_turn ms)) \<le> z_turn t"
    using turns_counted [OF assms(2)] g by (auto split: if_splits)
  ultimately show ?thesis by linarith
qed

theorem zjh_ends_witness:
  "\<exists>t. runR (zstep id) z_demo z_demo_moves = Inr t \<and> length (filter takes_turn z_demo_moves) \<le> 20"
  using z_demo_run zjh_ends [OF z_demo_dealt, of id z_demo_moves] by (auto simp: z_demo_entries_def)

text \<open>The table never gets stuck on its current player: the automatic policy always has an answer and the engine
  carries it out, whatever the state the hand has reached.\<close>

theorem zjh_auto_plays:
  assumes "z_new_hand es ante deck allow = Inr s" "runR (zstep mac) s ms = Inr t"
    and "z_current_player t = Some name"
  shows "\<exists>act u. z_auto t name = Inr act \<and> z_apply mac t name act None None = Inr u"
proof -
  have g: "z_good t" using zjh.run_ok [OF assms(2)] z_new_hand_good [OF assms(1)] by simp
  have nf: "\<not> z_finished t" using assms(3) by (simp add: z_current_player_def split: if_splits)
  obtain p where p: "p \<in> set (z_live t)" "name = z_player p"
    using g nf assms(3) by (auto simp: z_good_def z_ok_def z_turn_ok_def z_current_player_def)
  have c: "z_core t" using z_ok_running g nf by (auto simp: z_good_def)
  have f: "z_find t name = Some p" "\<not> z_folded p" "three_cards (z_cards p)"
    using z_find_in [OF c] p c by (auto simp: z_live_def z_core_def)
  show ?thesis
  proof (cases "z_seen p")
    case False
    have "map_of (z_legal t name) ZLook \<noteq> None" using f False nf by (simp add: z_legal_def)
    then have "z_auto t name = Inr ZLook" using assms(3) by (auto simp: z_auto_def Let_def)
    moreover have "\<exists>u. z_apply mac t name ZLook None None = Inr u" using f nf by (simp add: z_apply_def Let_def)
    ultimately show ?thesis by blast
  next
    case True
    have l: "z_legal t name = z_turn_actions t p" using f nf True assms(3) by (simp add: z_legal_def)
    define act where "act = (if 1 \<le> hd (zjh_rank (z_cards p))
      then (if map_of (z_turn_actions t p) ZCall \<noteq> None then ZCall else ZAllIn) else ZFold)"
    have "z_turn_actions t p \<noteq> []" "map_of (z_turn_actions t p) ZLook = None"
      by (simp_all add: z_turn_actions_def Let_def)
    then have "z_auto t name = Inr act"
      using assms(3) f by (simp add: z_auto_def l act_def strength_def Let_def)
    moreover have "\<exists>opt. map_of (z_legal t name) act = Some opt"
      unfolding l act_def by (auto simp: z_turn_actions_def Let_def)
    then have "\<exists>u. z_apply mac t name act None None = Inr u"
      using z_apply_turn [of t name act _ None mac] g by (fastforce simp: z_good_def act_def)
    ultimately show ?thesis by blast
  qed
qed

theorem zjh_auto_plays_witness:
  "\<exists>act u. z_auto z_demo ''ann'' = Inr act \<and> z_apply id z_demo ''ann'' act None None = Inr u"
  by (rule zjh_auto_plays [OF z_demo_dealt, of id "[]"]) (simp_all add: z_demo_def z_current_player_def)

end
