(* ===== verification/BoardGame.thy ===== *)
theory BoardGame
  imports Prelude
begin

text \<open>
  The interface of a two-player board game as the robots and the game service use it: a game over when there is no legal
  move, and \<open>make\<close> accepting exactly the legal moves. \<open>random.choice\<close> is a parameter that
  answers an element of a non-empty list.
\<close>

locale board_game =
  fixes legal :: "'s \<Rightarrow> 'm list" and make :: "'s \<Rightarrow> 'm \<Rightarrow> 'e + 's" and ok :: "'s \<Rightarrow> bool"
  assumes make_iff: "ok s \<Longrightarrow> (\<exists>t. make s m = Inr t) \<longleftrightarrow> m \<in> set (legal s)"
    and make_ok: "ok s \<Longrightarrow> make s m = Inr t \<Longrightarrow> ok t"
begin

lemma make_total: "ok s \<Longrightarrow> m \<in> set (legal s) \<Longrightarrow> \<exists>t. make s m = Inr t \<and> ok t"
  using make_iff make_ok by metis

lemma play_ok: "runR make s ms = Inr t \<Longrightarrow> ok s \<Longrightarrow> ok t"
  by (erule runR_invariant) (auto intro: make_ok)

text \<open>A robot that plays whatever an untrusted engine proposes if it is legal, and a local choice otherwise.\<close>

definition guarded :: "'m option \<Rightarrow> ('s \<Rightarrow> 'm) \<Rightarrow> 's \<Rightarrow> 'm" where
  "guarded reply local s = (case reply of None \<Rightarrow> local s | Some m \<Rightarrow> if m \<in> set (legal s) then m else local s)"

lemma guarded_legal: "local s \<in> set (legal s) \<Longrightarrow> guarded reply local s \<in> set (legal s)"
  by (simp add: guarded_def split: option.split)

lemma guarded_plays: "ok s \<Longrightarrow> local s \<in> set (legal s) \<Longrightarrow> \<exists>t. make s (guarded reply local s) = Inr t \<and> ok t"
  by (rule make_total) (simp_all add: guarded_legal)

end

text \<open>What the code relies on of \<open>random.choice\<close>.\<close>

definition choosy :: "('a list \<Rightarrow> 'a) \<Rightarrow> bool" where
  "choosy choice \<longleftrightarrow> (\<forall>xs. xs \<noteq> [] \<longrightarrow> choice xs \<in> set xs)"

lemma choosyD: "choosy choice \<Longrightarrow> xs \<noteq> [] \<Longrightarrow> choice xs \<in> set xs"
  by (simp add: choosy_def)

lemma choosy_hd: "choosy hd"
  by (simp add: choosy_def)

end
