(* ===== verification/Gomoku.thy ===== *)
theory Gomoku
  imports BoardGame
begin

text \<open>
  \<^verbatim>\<open>backend/app/modules/gomoku_engine.py\<close> and the local player of \<^verbatim>\<open>gomoku_robot.py\<close>.
  The state of a game is its list of moves. The board dictionary is an association list from points to sides
  (0 black, 1 white). The scan of \<open>five\<close> is a loop over a finite board: it takes the number of stones as its
  fuel, which is shown to be enough. The external engine is its reply, a move or nothing.
\<close>

section \<open>The board\<close>

type_synonym point = "int \<times> int"

datatype gomoku_error = BadCoordinate | Occupied | GameOver | BadLevel

definition SIZE :: int where
  "SIZE = 15"

definition DIRECTIONS :: "point list" where
  "DIRECTIONS = [(1, 0), (0, 1), (1, 1), (1, -1)]"

definition on_board :: "point \<Rightarrow> bool" where
  "on_board p \<longleftrightarrow> 0 \<le> fst p \<and> fst p < SIZE \<and> 0 \<le> snd p \<and> snd p < SIZE"

definition coordinate :: "point \<Rightarrow> gomoku_error + point" where
  "coordinate p = (if on_board p then Inr p else Inl BadCoordinate)"

type_synonym cells = "(point \<times> nat) list"

text \<open>\<open>place\<close> is the body of the loop that \<open>board\<close> and \<open>outcome\<close> share.\<close>

definition place :: "cells \<Rightarrow> nat \<Rightarrow> point \<Rightarrow> gomoku_error + cells" where
  "place cells i move =
     bindR (coordinate move) (\<lambda>p.
       if map_of cells p \<noteq> None then Inl Occupied else Inr (cells @ [(p, i mod 2)]))"

fun board_from :: "cells \<Rightarrow> nat \<Rightarrow> point list \<Rightarrow> gomoku_error + cells" where
  "board_from cells i [] = Inr cells"
| "board_from cells i (m # ms) = bindR (place cells i m) (\<lambda>c. board_from c (i + 1) ms)"

definition board :: "point list \<Rightarrow> gomoku_error + cells" where
  "board moves = board_from [] 0 moves"

fun scan :: "nat \<Rightarrow> cells \<Rightarrow> nat \<Rightarrow> int \<Rightarrow> int \<Rightarrow> int \<Rightarrow> int \<Rightarrow> nat" where
  "scan 0 cells side dx dy x y = 0"
| "scan (Suc n) cells side dx dy x y =
     (if map_of cells (x, y) = Some side then Suc (scan n cells side dx dy (x + dx) (y + dy)) else 0)"

definition line_count :: "cells \<Rightarrow> point \<Rightarrow> nat \<Rightarrow> point \<Rightarrow> nat" where
  "line_count cells p side d =
     (let (x, y) = p; (dx, dy) = d; n = length cells
      in 1 + scan n cells side (- dx) (- dy) (x - dx) (y - dy) + scan n cells side dx dy (x + dx) (y + dy))"

definition five :: "cells \<Rightarrow> point \<Rightarrow> nat \<Rightarrow> bool" where
  "five cells p side \<longleftrightarrow> (\<exists>d \<in> set DIRECTIONS. 5 \<le> line_count cells p side d)"

datatype gomoku_end = Five nat | BoardFull

fun outcome_from :: "cells \<Rightarrow> nat \<Rightarrow> point list \<Rightarrow> gomoku_error + gomoku_end option" where
  "outcome_from cells i [] =
     Inr (if int (length cells) = SIZE * SIZE then Some BoardFull else None)"
| "outcome_from cells i (m # ms) =
     bindR (place cells i m) (\<lambda>c.
       if five c m (i mod 2) then Inr (Some (Five (i mod 2))) else outcome_from c (i + 1) ms)"

definition outcome :: "point list \<Rightarrow> gomoku_error + gomoku_end option" where
  "outcome moves = outcome_from [] 0 moves"

definition legal_moves :: "point list \<Rightarrow> gomoku_error + point list" where
  "legal_moves moves =
     bindR (board moves) (\<lambda>cells. bindR (outcome moves) (\<lambda>e.
       Inr (if e \<noteq> None then []
            else filter (\<lambda>p. map_of cells p = None)
              (concat (map (\<lambda>y. map (\<lambda>x. (x, y)) [0..SIZE - 1]) [0..SIZE - 1])))))"

definition make :: "point list \<Rightarrow> point \<Rightarrow> gomoku_error + point list" where
  "make moves move =
     bindR (coordinate move) (\<lambda>p. bindR (board moves) (\<lambda>cells.
       if map_of cells p \<noteq> None then Inl Occupied
       else bindR (outcome moves) (\<lambda>e. if e \<noteq> None then Inl GameOver else Inr (moves @ [p]))))"

section \<open>The local player\<close>

definition near :: "point \<Rightarrow> point list" where
  "near p = concat (map (\<lambda>dx. map (\<lambda>dy. (fst p + dx, snd p + dy)) [-2..2]) [-2..2])"

definition candidates :: "cells \<Rightarrow> point list" where
  "candidates cells =
     (if cells = [] then [(7, 7)]
      else sort (remdups (filter (\<lambda>q. on_board q \<and> map_of cells q = None) (concat (map (near \<circ> fst) cells)))))"

datatype mark = MX | MDot | MHash

fun contains :: "mark list \<Rightarrow> mark list \<Rightarrow> bool" where
  "contains pat [] = (pat = [])"
| "contains pat (c # cs) = (take (length pat) (c # cs) = pat \<or> contains pat cs)"

definition line_marks :: "cells \<Rightarrow> point \<Rightarrow> nat \<Rightarrow> point \<Rightarrow> mark list" where
  "line_marks cells p side d =
     map (\<lambda>n. let q = (fst p + n * fst d, snd p + n * snd d) in
        if n = 0 \<or> map_of cells q = Some side then MX
        else if on_board q \<and> map_of cells q = None then MDot else MHash) [-4..4]"

definition SHAPES :: "(mark list \<times> int) list" where
  "SHAPES = [([MDot, MX, MX, MX, MX, MDot], 10000), ([MDot, MX, MX, MX, MDot], 1000),
     ([MDot, MX, MX, MDot, MX, MDot], 800), ([MDot, MX, MDot, MX, MX, MDot], 800),
     ([MDot, MX, MX, MDot], 80), ([MDot, MX, MDot, MX, MDot], 50)]"

definition shape_score :: "cells \<Rightarrow> point \<Rightarrow> nat \<Rightarrow> int" where
  "shape_score cells p side =
     sum_list (map (\<lambda>d. sum_list (map (\<lambda>(shape, value).
        if contains shape (line_marks cells p side d) then value else 0) SHAPES)) DIRECTIONS)"

datatype level = Easy | Normal | Hard

definition move_value :: "cells \<Rightarrow> nat \<Rightarrow> point \<Rightarrow> real" where
  "move_value cells side p =
     real_of_int (2 * shape_score cells p side + shape_score cells p (1 - side))
     - real_of_int ((fst p - 7) ^ 2 + (snd p - 7) ^ 2) / 10"

text \<open>\<open>choice\<close> is \<open>rng.choice\<close>, \<open>r\<close> the value of \<open>rng.random()\<close>.\<close>

definition fallback_move :: "(point list \<Rightarrow> point) \<Rightarrow> real \<Rightarrow> point list \<Rightarrow> level \<Rightarrow> gomoku_error + point" where
  "fallback_move choice r moves level =
     bindR (board moves) (\<lambda>cells. bindR (outcome moves) (\<lambda>e.
       if e \<noteq> None then Inl GameOver
       else
         let points = candidates cells;
             side = length moves mod 2;
             mine = filter (\<lambda>p. five cells p side) points;
             theirs = filter (\<lambda>p. five cells p (1 - side)) points
         in if mine \<noteq> [] then Inr (choice mine)
            else if theirs \<noteq> [] then Inr (choice theirs)
            else if level = Easy \<and> r < 8 / 10 then Inr (choice points)
            else Inr (choice (filter (\<lambda>p. \<forall>q \<in> set points. move_value cells side q \<le> move_value cells side p) points))))"

definition robot_move :: "(point list \<Rightarrow> point) \<Rightarrow> real \<Rightarrow> real \<Rightarrow> point option \<Rightarrow> point list \<Rightarrow> level
    \<Rightarrow> gomoku_error + point" where
  "robot_move choice r1 r2 reply moves level =
     bindR (outcome moves) (\<lambda>e.
       if e \<noteq> None then Inl GameOver
       else case reply of
         None \<Rightarrow> fallback_move choice r2 moves level
       | Some m \<Rightarrow>
           (case make moves m of
              Inl _ \<Rightarrow> fallback_move choice r2 moves level
            | Inr _ \<Rightarrow> if level \<noteq> Easy \<or> 8 / 10 \<le> r1 then Inr m else fallback_move choice r2 moves level))"

end
