(* ===== verification/GomokuRules.thy ===== *)
theory GomokuRules
  imports Gomoku
begin

text \<open>
  Correctness of the gomoku engine and its local player: the five-in-a-row scan against its geometric meaning,
  \<open>make\<close> against \<open>legal_moves\<close>, and the local player's moves are always legal.
\<close>

section \<open>Boards\<close>

lemma place_Inr:
  "place cells i m = Inr c \<longleftrightarrow> on_board m \<and> m \<notin> fst ` set cells \<and> c = cells @ [(m, i mod 2)]"
  by (cases m) (auto simp: place_def coordinate_def map_of_eq_None_iff)

lemma board_from_Inr:
  "board_from cells i ms = Inr c \<Longrightarrow> keyed cells \<Longrightarrow>
   keyed c \<and> map fst c = map fst cells @ ms \<and> (\<forall>m \<in> set ms. on_board m)"
proof (induction ms arbitrary: cells i)
  case Nil
  then show ?case by simp
next
  case (Cons m ms)
  then obtain d where d: "place cells i m = Inr d" "board_from d (i + 1) ms = Inr c" by auto
  then have "keyed d" "map fst d = map fst cells @ [m]" "on_board m"
    using Cons.prems(2) by (auto simp: place_Inr)
  have "keyed c" "map fst c = map fst d @ ms" "\<forall>x \<in> set ms. on_board x"
    using Cons.IH [OF d(2) \<open>keyed d\<close>] by blast+
  then show ?case using \<open>map fst d = _\<close> \<open>on_board m\<close> by (intro conjI) simp_all
qed

lemma board_from_ok:
  "distinct (map fst cells @ ms) \<Longrightarrow> \<forall>m \<in> set ms. on_board m \<Longrightarrow> \<exists>c. board_from cells i ms = Inr c"
proof (induction ms arbitrary: cells i)
  case Nil
  then show ?case by simp
next
  case (Cons m ms)
  have "place cells i m = Inr (cells @ [(m, i mod 2)])" using Cons.prems by (auto simp: place_Inr)
  then show ?case using Cons.IH [of "cells @ [(m, i mod 2)]" "i + 1"] Cons.prems by auto
qed

definition history_ok :: "point list \<Rightarrow> bool" where
  "history_ok moves \<longleftrightarrow> distinct moves \<and> (\<forall>m \<in> set moves. on_board m)"

lemma board_iff: "(\<exists>c. board moves = Inr c) \<longleftrightarrow> history_ok moves"
proof
  assume "\<exists>c. board moves = Inr c"
  then obtain c where c: "board_from [] 0 moves = Inr c" by (auto simp: board_def)
  have "keyed c" "map fst c = moves" "\<forall>m \<in> set moves. on_board m"
    using board_from_Inr [OF c] by auto
  then show "history_ok moves" unfolding history_ok_def by metis
next
  assume "history_ok moves"
  then show "\<exists>c. board moves = Inr c"
    using board_from_ok [of "[]" moves 0] by (simp add: board_def history_ok_def)
qed

lemma board_keys: "board moves = Inr c \<Longrightarrow> map fst c = moves \<and> keyed c"
  unfolding board_def by (drule board_from_Inr) auto

lemma board_free: "board moves = Inr c \<Longrightarrow> map_of c p = None \<longleftrightarrow> p \<notin> set moves"
  using board_keys [of moves c] by (metis image_set map_of_eq_None_iff)

lemma outcome_from_ok: "board_from cells i ms = Inr c \<Longrightarrow> \<exists>e. outcome_from cells i ms = Inr e"
proof (induction ms arbitrary: cells i)
  case Nil
  then show ?case by simp
next
  case (Cons m ms)
  then obtain d where d: "place cells i m = Inr d" "board_from d (i + 1) ms = Inr c" by auto
  obtain e where "outcome_from d (i + 1) ms = Inr e" using Cons.IH [OF d(2)] by blast
  then have "outcome_from cells i (m # ms) = Inr (if five d m (i mod 2) then Some (Five (i mod 2)) else e)"
    by (simp add: d(1))
  then show ?case by blast
qed

lemma outcome_ok: "history_ok moves \<Longrightarrow> \<exists>e. outcome moves = Inr e"
  using board_iff outcome_from_ok unfolding outcome_def board_def by blast

section \<open>The geometry of a line\<close>

lemma scan_ge:
  "k \<le> n \<Longrightarrow> k \<le> scan n cells side dx dy x y \<longleftrightarrow>
     (\<forall>j<k. map_of cells (x + int j * dx, y + int j * dy) = Some side)"
proof (induction n arbitrary: k x y)
  case 0
  then show ?case by simp
next
  case (Suc n)
  show ?case
  proof (cases k)
    case 0
    then show ?thesis by simp
  next
    case (Suc k')
    then have "k' \<le> scan n cells side dx dy (x + dx) (y + dy) \<longleftrightarrow>
        (\<forall>j<k'. map_of cells (x + int (Suc j) * dx, y + int (Suc j) * dy) = Some side)"
      using Suc.IH [of k' "x + dx" "y + dy"] Suc.prems by (simp add: algebra_simps)
    then show ?thesis
      by (simp add: Suc All_less_Suc2)
  qed
qed

text \<open>The stones of a run are different stones, so the number of stones is fuel enough.\<close>

lemma run_bound:
  assumes "(dx, dy) \<noteq> (0, 0)" "\<forall>j<k. map_of cells (x + int j * dx, y + int j * dy) = Some side"
  shows "k \<le> length cells"
proof -
  let ?f = "\<lambda>j. (x + int j * dx, y + int j * dy)"
  have "inj_on ?f {..<k}" using assms(1) by (auto simp: inj_on_def)
  then have "k = card (?f ` {..<k})" by (simp add: card_image)
  moreover have "?f ` {..<k} \<subseteq> fst ` set cells"
    using assms(2) by (auto dest!: map_of_SomeD intro: rev_image_eqI)
  then have "card (?f ` {..<k}) \<le> card (fst ` set cells)" by (intro card_mono) auto
  ultimately have "k \<le> card (fst ` set cells)" by simp
  also have "\<dots> \<le> length cells" by (metis card_length image_set length_map)
  finally show ?thesis .
qed

lemma scan_run:
  assumes "(dx, dy) \<noteq> (0, 0)"
  shows "k \<le> scan (length cells) cells side dx dy x y \<longleftrightarrow>
    (\<forall>j<k. map_of cells (x + int j * dx, y + int j * dy) = Some side)"
proof (cases "k \<le> length cells")
  case True
  then show ?thesis by (rule scan_ge)
next
  case False
  have "scan n cells side dx dy x y \<le> n" for n
    by (induction n arbitrary: x y) auto
  from this [of "length cells"] False have "\<not> k \<le> scan (length cells) cells side dx dy x y"
    by linarith
  moreover have "\<not> (\<forall>j<k. map_of cells (x + int j * dx, y + int j * dy) = Some side)"
  proof
    assume "\<forall>j<k. map_of cells (x + int j * dx, y + int j * dy) = Some side"
    from run_bound [OF assms this] False show False by simp
  qed
  ultimately show ?thesis by (simp only: simp_thms)
qed

text \<open>Five stones of the side in line, one of them the new stone at place \<open>k\<close>.\<close>

definition five_line :: "cells \<Rightarrow> point \<Rightarrow> nat \<Rightarrow> point \<Rightarrow> nat \<Rightarrow> bool" where
  "five_line cells p side d k \<longleftrightarrow>
     (\<forall>i<5. i = k \<or> map_of cells (fst p + (int i - int k) * fst d, snd p + (int i - int k) * snd d) = Some side)"

lemma five_line_split:
  assumes "k \<le> 4"
  shows "five_line cells p side d k \<longleftrightarrow>
    (\<forall>j<k. map_of cells (fst p - fst d + int j * - fst d, snd p - snd d + int j * - snd d) = Some side) \<and>
    (\<forall>j<4 - k. map_of cells (fst p + fst d + int j * fst d, snd p + snd d + int j * snd d) = Some side)"
    (is "_ \<longleftrightarrow> ?l \<and> ?r")
proof
  assume f: "five_line cells p side d k"
  show "?l \<and> ?r"
  proof (intro conjI allI impI)
    fix j assume j: "j < k"
    then have i: "k - 1 - j < 5" "k - 1 - j \<noteq> k" and eq: "int (k - 1 - j) - int k = - 1 - int j" using assms by auto
    show "map_of cells (fst p - fst d + int j * - fst d, snd p - snd d + int j * - snd d) = Some side"
      using f [unfolded five_line_def, rule_format, OF i(1)] i(2) unfolding eq by (simp add: algebra_simps)
  next
    fix j assume j: "j < 4 - k"
    then have i: "k + 1 + j < 5" "k + 1 + j \<noteq> k" and eq: "int (k + 1 + j) - int k = 1 + int j" by auto
    show "map_of cells (fst p + fst d + int j * fst d, snd p + snd d + int j * snd d) = Some side"
      using f [unfolded five_line_def, rule_format, OF i(1)] i(2) unfolding eq by (simp add: algebra_simps)
  qed
next
  assume lr: "?l \<and> ?r"
  show "five_line cells p side d k"
    unfolding five_line_def
  proof (intro allI impI)
    fix i :: nat assume i: "i < 5"
    consider "i < k" | "i = k" | "k < i" by linarith
    then show "i = k \<or> map_of cells (fst p + (int i - int k) * fst d, snd p + (int i - int k) * snd d) = Some side"
    proof cases
      case 1
      then show ?thesis using lr [THEN conjunct1, rule_format, of "k - 1 - i"] by (auto simp: of_nat_diff algebra_simps)
    next
      case 3
      then show ?thesis using lr [THEN conjunct2, rule_format, of "i - k - 1"] i by (auto simp: of_nat_diff algebra_simps)
    qed simp
  qed
qed

lemma five_iff:
  "five cells p side \<longleftrightarrow> (\<exists>d \<in> set DIRECTIONS. \<exists>k \<le> 4. five_line cells p side d k)"
proof -
  have "5 \<le> line_count cells p side d \<longleftrightarrow> (\<exists>k \<le> 4. five_line cells p side d k)" if "d \<in> set DIRECTIONS" for d
  proof -
    have nz: "(fst d, snd d) \<noteq> (0, 0)" "(- fst d, - snd d) \<noteq> (0, 0)" using that by (auto simp: DIRECTIONS_def)
    let ?b = "scan (length cells) cells side (- fst d) (- snd d) (fst p - fst d) (snd p - snd d)"
    let ?f = "scan (length cells) cells side (fst d) (snd d) (fst p + fst d) (snd p + snd d)"
    have "five_line cells p side d k \<longleftrightarrow> k \<le> ?b \<and> 4 - k \<le> ?f" if "k \<le> 4" for k
      using five_line_split [OF that] scan_run [OF nz(2)] scan_run [OF nz(1)] by simp
    moreover have "5 \<le> 1 + ?b + ?f \<longleftrightarrow> (\<exists>k \<le> 4. k \<le> ?b \<and> 4 - k \<le> ?f)"
      by (auto intro!: exI [of _ "min 4 ?b"])
    ultimately show ?thesis by (auto simp: line_count_def case_prod_beta Let_def)
  qed
  then show ?thesis by (auto simp: five_def)
qed

section \<open>Moves\<close>

definition grid :: "point list" where
  "grid = concat (map (\<lambda>y. map (\<lambda>x. (x, y)) [0..SIZE - 1]) [0..SIZE - 1])"

lemma set_grid: "set grid = {p. on_board p}"
  by (auto simp: grid_def on_board_def SIZE_def image_iff)

lemma card_board: "card {p. on_board p} = 225"
proof -
  have "{p. on_board p} = {0..14} \<times> {0..14}" by (auto simp: on_board_def SIZE_def)
  then show ?thesis by (simp add: card_cartesian_product)
qed

text \<open>The list a caller sees: empty when the history is refused.\<close>

definition legal_list :: "point list \<Rightarrow> point list" where
  "legal_list moves = (case legal_moves moves of Inl _ \<Rightarrow> [] | Inr l \<Rightarrow> l)"

lemma legal_list_iff:
  assumes "history_ok moves"
  shows "p \<in> set (legal_list moves) \<longleftrightarrow> outcome moves = Inr None \<and> on_board p \<and> p \<notin> set moves"
proof -
  obtain c e where "board moves = Inr c" "outcome moves = Inr e"
    using assms board_iff outcome_ok by blast
  then show ?thesis
    using board_free [of moves c] set_grid
    by (auto simp: legal_list_def legal_moves_def grid_def simp del: set_concat)
qed

lemma make_Inr:
  assumes "history_ok moves"
  shows "make moves p = Inr t \<longleftrightarrow> p \<in> set (legal_list moves) \<and> t = moves @ [p]"
proof -
  obtain c e where "board moves = Inr c" "outcome moves = Inr e"
    using assms board_iff outcome_ok by blast
  then show ?thesis
    using legal_list_iff [OF assms] board_free [of moves c]
    by (cases p) (auto simp: make_def coordinate_def)
qed

lemma make_history: "history_ok moves \<Longrightarrow> make moves p = Inr t \<Longrightarrow> history_ok t"
  using legal_list_iff [of moves p] by (auto simp: make_Inr history_ok_def)

interpretation gomoku: board_game legal_list make history_ok
  using make_Inr make_history by unfold_locales auto

section \<open>The end of a game\<close>

lemma history_bound: "history_ok moves \<Longrightarrow> length moves \<le> 225"
proof -
  assume h: "history_ok moves"
  then have "length moves = card (set moves)" by (simp add: history_ok_def distinct_card)
  also have "finite {p. on_board p}" by (rule card_ge_0_finite) (simp add: card_board)
  then have "card (set moves) \<le> card {p. on_board p}"
    using h by (intro card_mono) (auto simp: history_ok_def)
  finally show ?thesis by (simp add: card_board)
qed

lemma outcome_from_None:
  "outcome_from cells i ms = Inr None \<Longrightarrow> length cells + length ms \<noteq> 225"
proof (induction ms arbitrary: cells i)
  case Nil
  then show ?case by (auto simp: SIZE_def split: if_splits)
next
  case (Cons m ms)
  obtain d where d: "place cells i m = Inr d" using Cons.prems by (auto simp del: bindR_Inr simp: bindR_def split: sum.splits)
  then have "outcome_from d (i + 1) ms = Inr None" using Cons.prems by (auto split: if_splits)
  moreover have "length d = length cells + 1" using d by (auto simp: place_Inr)
  ultimately show ?case using Cons.IH by fastforce
qed

text \<open>A game that is not over has a free point, so it is over exactly when there is no legal move.\<close>

lemma free_point:
  assumes "history_ok moves" "outcome moves = Inr None"
  shows "\<exists>p. on_board p \<and> p \<notin> set moves"
proof (rule ccontr)
  assume "\<not> ?thesis"
  then have "set moves = {p. on_board p}" using assms(1) by (auto simp: history_ok_def)
  then have "length moves = 225" using assms(1) distinct_card [of moves] card_board by (simp add: history_ok_def)
  then show False using outcome_from_None [of "[]" 0 moves] assms(2) by (simp add: outcome_def)
qed

lemma over_iff: "history_ok moves \<Longrightarrow> legal_list moves = [] \<longleftrightarrow> outcome moves \<noteq> Inr None"
proof
  assume h: "history_ok moves" and e: "legal_list moves = []"
  show "outcome moves \<noteq> Inr None"
  proof
    assume "outcome moves = Inr None"
    with free_point [OF h] obtain p where "on_board p" "p \<notin> set moves" by blast
    with legal_list_iff [OF h, of p] e \<open>outcome moves = Inr None\<close> show False by simp
  qed
next
  assume h: "history_ok moves" and o: "outcome moves \<noteq> Inr None"
  have "p \<notin> set (legal_list moves)" for p using legal_list_iff [OF h, of p] o by simp
  then show "legal_list moves = []" by (metis list.set_intros(1) neq_Nil_conv)
qed

section \<open>The local player\<close>

lemma line_closed:
  fixes P :: "int \<Rightarrow> bool"
  assumes "P a" "0 \<le> a" "a < 15" "0 \<le> b" "b < 15"
    and up: "\<And>x. 0 \<le> x \<Longrightarrow> x + 1 < 15 \<Longrightarrow> P x \<Longrightarrow> P (x + 1)"
    and down: "\<And>x. x < 15 \<Longrightarrow> 0 \<le> x - 1 \<Longrightarrow> P x \<Longrightarrow> P (x - 1)"
  shows "P b"
proof (cases "a \<le> b")
  case True
  then have "b < 15 \<longrightarrow> P b"
    by (induction rule: int_ge_induct) (use assms(1,2) up in auto)
  with assms(5) show ?thesis by simp
next
  case False
  then have "b \<le> a" by simp
  then have "0 \<le> b \<longrightarrow> P b"
    by (induction rule: int_le_induct) (use assms(1,3) down in auto)
  with assms(4) show ?thesis by simp
qed

lemma near_iff: "q \<in> set (near p) \<longleftrightarrow> \<bar>fst q - fst p\<bar> \<le> 2 \<and> \<bar>snd q - snd p\<bar> \<le> 2"
proof
  assume "q \<in> set (near p)"
  then show "\<bar>fst q - fst p\<bar> \<le> 2 \<and> \<bar>snd q - snd p\<bar> \<le> 2" by (auto simp: near_def)
next
  assume "\<bar>fst q - fst p\<bar> \<le> 2 \<and> \<bar>snd q - snd p\<bar> \<le> 2"
  then have "fst q - fst p \<in> {-2..2}" "snd q - snd p \<in> {-2..2}" by (auto simp: abs_le_iff)
  then show "q \<in> set (near p)"
    by (auto simp: near_def prod_eq_iff
      intro!: bexI [of _ "fst q - fst p"] image_eqI [where x = "snd q - snd p"])
qed

lemma near_steps:
  "(x + 1, y) \<in> set (near (x, y))" "(x - 1, y) \<in> set (near (x, y))"
  "(x, y + 1) \<in> set (near (x, y))" "(x, y - 1) \<in> set (near (x, y))"
  by (simp_all add: near_iff)

lemma candidates_set:
  assumes "board moves = Inr c" "moves \<noteq> []"
  shows "set (candidates c) = {q. on_board q \<and> q \<notin> set moves \<and> (\<exists>p \<in> set moves. q \<in> set (near p))}"
proof -
  have k: "map fst c = moves" using board_keys [OF assms(1)] by simp
  then have "c \<noteq> []" using assms(2) by auto
  have "set moves = fst ` set c" unfolding k [symmetric] by simp
  then have "(\<Union>x \<in> set c. set (near (fst x))) = (\<Union>p \<in> set moves. set (near p))" by simp
  note this \<open>c \<noteq> []\<close>
  then show ?thesis using board_free [OF assms(1)] by (auto simp: candidates_def)
qed

lemma candidates_free:
  assumes "history_ok moves" "board moves = Inr c"
  shows "set (candidates c) \<subseteq> {p. on_board p \<and> p \<notin> set moves}"
proof (cases "moves = []")
  case True
  then have "c = []" using board_keys [OF assms(2)] by simp
  then show ?thesis using True by (simp add: candidates_def on_board_def SIZE_def)
next
  case False
  then show ?thesis using candidates_set [OF assms(2)] by auto
qed

lemma candidates_nonempty:
  assumes h: "history_ok moves" and c: "board moves = Inr c" and f: "on_board f" "f \<notin> set moves"
  shows "candidates c \<noteq> []"
proof (cases "moves = []")
  case True
  then show ?thesis using board_keys [OF c] by (simp add: candidates_def)
next
  case False
  show ?thesis
  proof
    assume "candidates c = []"
    then have cl: "on_board q \<Longrightarrow> p \<in> set moves \<Longrightarrow> q \<in> set (near p) \<Longrightarrow> q \<in> set moves" for p q
      using candidates_set [OF c False] unfolding \<open>candidates c = []\<close> by fastforce
    obtain a b where ab: "(a, b) \<in> set moves" using False by (metis list.set_intros(1) neq_Nil_conv surj_pair)
    then have rng: "0 \<le> a" "a < 15" "0 \<le> b" "b < 15" using h by (auto simp: history_ok_def on_board_def SIZE_def)
    have row: "(x, b) \<in> set moves" if "0 \<le> x" "x < 15" for x
      using line_closed [where P = "\<lambda>x. (x, b) \<in> set moves", OF ab rng(1,2) that]
        cl near_steps(1,2) [of _ b] rng(3,4) by (auto simp: on_board_def SIZE_def)
    have "(x, y) \<in> set moves" if "0 \<le> x" "x < 15" "0 \<le> y" "y < 15" for x y
      using line_closed [where P = "\<lambda>y. (x, y) \<in> set moves", OF row [OF that(1,2)] rng(3,4) that(3,4)]
        cl near_steps(3,4) [of x] that(1,2) by (auto simp: on_board_def SIZE_def)
    then have "f \<in> set moves" using f(1) by (cases f) (auto simp: on_board_def SIZE_def)
    then show False using f(2) by simp
  qed
qed

text \<open>Every branch chooses among candidates.\<close>

lemma fallback_candidate:
  assumes ch: "choosy choice" and h: "history_ok moves" and o: "outcome moves = Inr None"
  obtains c m where "board moves = Inr c" "fallback_move choice r moves lev = Inr m" "m \<in> set (candidates c)"
    "(\<exists>p \<in> set (candidates c). five c p (length moves mod 2)) \<Longrightarrow> five c m (length moves mod 2)"
proof -
  obtain c where c: "board moves = Inr c" using h board_iff by blast
  let ?p = "candidates c" and ?s = "length moves mod 2"
  obtain f where "on_board f" "f \<notin> set moves" using free_point [OF h o] by blast
  then have ne: "?p \<noteq> []" by (rule candidates_nonempty [OF h c])
  let ?mine = "filter (\<lambda>p. five c p ?s) ?p" and ?theirs = "filter (\<lambda>p. five c p (1 - ?s)) ?p"
  let ?best = "filter (\<lambda>p. \<forall>q \<in> set ?p. move_value c ?s q \<le> move_value c ?s p) ?p"
  have "?best \<noteq> []" using ex_maximal [OF ne, of "move_value c ?s"] by (auto simp: filter_empty_conv)
  note ch = choosyD [OF ch]
  have "choice ?best \<in> set ?p" using ch [OF \<open>?best \<noteq> []\<close>] by auto
  moreover have "choice ?p \<in> set ?p" using ch [OF ne] by simp
  moreover have "?mine \<noteq> [] \<Longrightarrow> choice ?mine \<in> set ?mine" "?theirs \<noteq> [] \<Longrightarrow> choice ?theirs \<in> set ?theirs"
    using ch by blast+
  moreover define m where "m = (if ?mine \<noteq> [] then choice ?mine else if ?theirs \<noteq> [] then choice ?theirs
    else if lev = Easy \<and> r < 8 / 10 then choice ?p else choice ?best)"
  ultimately have "m \<in> set ?p" "?mine \<noteq> [] \<Longrightarrow> m \<in> set ?mine" by (auto split: if_splits)
  moreover have "fallback_move choice r moves lev = Inr m"
    using c o by (simp add: fallback_move_def m_def Let_def)
  ultimately show ?thesis using that [OF c] by (auto simp: filter_empty_conv)
qed

lemma outcome_from_snoc:
  "outcome_from cells i ms = Inr None \<Longrightarrow> board_from cells i ms = Inr c \<Longrightarrow>
   outcome_from cells i (ms @ [m]) = outcome_from c (i + length ms) [m]"
proof (induction ms arbitrary: cells i)
  case Nil
  then show ?case by simp
next
  case (Cons x ms)
  then obtain d where d: "place cells i x = Inr d" "board_from d (i + 1) ms = Inr c" by auto
  then have "outcome_from d (i + 1) ms = Inr None" "\<not> five d x (i mod 2)"
    using Cons.prems(1) by (auto split: if_splits)
  then show ?case using Cons.IH [of d "i + 1"] d by simp
qed

text \<open>Whether a stone makes five depends on the other stones only.\<close>

lemma five_new_stone: "five (c @ [(p, side)]) p side \<longleftrightarrow> five c p side"
proof -
  have "five_line (c @ [(p, side)]) p side d k \<longleftrightarrow> five_line c p side d k" if "d \<in> set DIRECTIONS" for d k
  proof -
    have "i = k \<or> (map_of (c @ [(p, side)]) (fst p + (int i - int k) * fst d, snd p + (int i - int k) * snd d) = Some side \<longleftrightarrow>
        map_of c (fst p + (int i - int k) * fst d, snd p + (int i - int k) * snd d) = Some side)" for i
    proof -
      have "i = k \<or> (fst p + (int i - int k) * fst d, snd p + (int i - int k) * snd d) \<noteq> p"
        using that by (cases p) (auto simp: DIRECTIONS_def)
      then show ?thesis by (auto simp: map_add_def split: option.split)
    qed
    then show ?thesis unfolding five_line_def by blast
  qed
  then show ?thesis by (simp add: five_iff)
qed

text \<open>A winning point is next to a stone of its line, so it is a candidate.\<close>

lemma winning_candidate:
  assumes h: "history_ok moves" and c: "board moves = Inr c" and p: "on_board p" "p \<notin> set moves" and f: "five c p side"
  shows "p \<in> set (candidates c)"
proof -
  obtain d k where d: "d \<in> set DIRECTIONS" "k \<le> 4" "five_line c p side d k" using f five_iff by blast
  define i where "i = (if k = 0 then 1 else k - 1)"
  have i: "i < 5" "i \<noteq> k" "int i - int k \<in> {1, - 1}" using d(2) by (auto simp: i_def)
  let ?q = "(fst p + (int i - int k) * fst d, snd p + (int i - int k) * snd d)"
  have "map_of c ?q = Some side" using d(3) i(1,2) unfolding five_line_def by blast
  then have "?q \<in> set moves" using board_free [OF c, of ?q] by auto
  moreover have "p \<in> set (near ?q)"
    using d(1) i(3) by (auto simp: near_iff DIRECTIONS_def)
  moreover have "moves \<noteq> []" using calculation(1) by auto
  ultimately show ?thesis using candidates_set [OF c] p by auto
qed

section \<open>Properties\<close>

text \<open>C13. The loop that counts stones in both directions decides exactly the rule of the game: the new stone completes five
  (or more) iff in one of the four directions it is one of five consecutive points that are otherwise held by its side.\<close>

theorem five_rule:
  "five cells p side = list_ex (\<lambda>d. list_ex (\<lambda>k. five_line cells p side d k) [0..<5]) DIRECTIONS"
  using five_iff [of cells p side] by (fastforce simp: list_ex_iff)

text \<open>On every history of distinct points of the board, the engine accepts a move iff it lists it as legal, the game is over
  iff nothing is legal, and there are never more than 225 moves.\<close>

theorem gomoku_moves:
  assumes "history_ok moves"
  shows "((\<exists>t. make moves p = Inr t) = (p \<in> set (legal_list moves))) \<and>
    ((legal_list moves = []) = (outcome moves \<noteq> Inr None)) \<and> length moves \<le> 225"
  using gomoku.make_iff [OF assms] over_iff [OF assms] history_bound [OF assms] by blast

theorem gomoku_moves_witness: "(\<exists>t. make [(7, 7), (8, 8)] (0, 14) = Inr t) = ((0, 14) \<in> set (legal_list [(7, 7), (8, 8)]))"
proof -
  have "history_ok [(7, 7), (8, 8)]" by (simp add: history_ok_def on_board_def SIZE_def)
  from gomoku_moves [OF this] show ?thesis by blast
qed

text \<open>C16. The robot always answers with a move that the engine accepts, whatever the external engine replied (nothing, an
  illegal point, a legal one) and whatever the random generator answered.\<close>

theorem robot_always_legal:
  assumes "choosy choice" "history_ok moves" "outcome moves = Inr None"
  shows "\<exists>m t. robot_move choice r1 r2 reply moves lev = Inr m \<and> make moves m = Inr t"
proof -
  obtain c m where c: "board moves = Inr c" and m: "fallback_move choice r2 moves lev = Inr m" "m \<in> set (candidates c)"
    using fallback_candidate [OF assms] by metis
  have "m \<in> set (legal_list moves)"
    using candidates_free [OF assms(2) c] m(2) legal_list_iff [OF assms(2)] assms(3) by auto
  then have mk: "\<exists>t. make moves m = Inr t" using gomoku.make_iff [OF assms(2)] by blast
  show ?thesis
  proof (cases reply)
    case None
    then show ?thesis using m mk assms(3) by (simp add: robot_move_def)
  next
    case (Some x)
    then show ?thesis using m mk assms(3) by (cases x; cases m; cases "make moves x") (auto simp: robot_move_def)
  qed
qed

theorem robot_always_legal_witness:
  "\<exists>m t. robot_move hd 0 0 (Some (7, 7)) [(7, 7)] Hard = Inr m \<and> make [(7, 7)] m = Inr t"
proof -
  have "history_ok [(7, 7)]" by (simp add: history_ok_def on_board_def SIZE_def)
  moreover have "outcome [(7, 7)] = Inr None" by code_simp
  ultimately show ?thesis by (rule robot_always_legal [OF choosy_hd])
qed

text \<open>C12. The local player never misses a win: if some legal point completes five for the side to move, its move ends the game
  in that side's favour.\<close>

theorem local_player_wins:
  assumes "choosy choice" "history_ok moves" "outcome moves = Inr None"
    and "make moves p = Inr t" "outcome t = Inr (Some (Five (length moves mod 2)))"
  shows "\<exists>m. fallback_move choice r moves lev = Inr m \<and>
    outcome (moves @ [m]) = Inr (Some (Five (length moves mod 2)))"
proof -
  let ?s = "length moves mod 2"
  obtain c m where c: "board moves = Inr c" and m: "fallback_move choice r moves lev = Inr m" "m \<in> set (candidates c)"
      "(\<exists>p \<in> set (candidates c). five c p ?s) \<Longrightarrow> five c m ?s"
    using fallback_candidate [OF assms(1-3)] by metis
  have snoc: "outcome (moves @ [q]) = outcome_from c (length moves) [q]" for q
    using outcome_from_snoc [of "[]" 0 moves c q] assms(3) c by (simp add: outcome_def board_def)
  have fresh: "place c (length moves) q = Inr (c @ [(q, ?s)])" if "on_board q" "q \<notin> set moves" for q
  proof -
    have "set moves = fst ` set c" using board_keys [OF c] by (metis list.set_map)
    then show ?thesis using that by (simp add: place_Inr)
  qed
  have p: "on_board p" "p \<notin> set moves" "t = moves @ [p]"
    using assms(4) legal_list_iff [OF assms(2)] make_Inr [OF assms(2)] by auto
  have "five c p ?s"
    using assms(5) p snoc [of p] fresh [OF p(1,2)] five_new_stone [of c p ?s] by (auto split: if_splits)
  then have "five c m ?s" using m(3) winning_candidate [OF assms(2) c p(1,2)] by blast
  moreover have "on_board m" "m \<notin> set moves" using candidates_free [OF assms(2) c] m(2) by auto
  ultimately have "outcome (moves @ [m]) = Inr (Some (Five ?s))"
    using snoc [of m] fresh [of m] five_new_stone [of c m ?s] by simp
  with m(1) show ?thesis by blast
qed

theorem local_player_wins_witness:
  "\<exists>m. fallback_move hd 1 [(0, 0), (9, 9), (1, 0), (9, 1), (2, 0), (1, 9), (3, 0), (5, 5)] Normal = Inr m \<and>
    outcome ([(0, 0), (9, 9), (1, 0), (9, 1), (2, 0), (1, 9), (3, 0), (5, 5)] @ [m]) = Inr (Some (Five 0))"
proof -
  let ?ms = "[(0, 0), (9, 9), (1, 0), (9, 1), (2, 0), (1, 9), (3, 0), (5, 5)] :: point list"
  have "history_ok ?ms" by (simp add: history_ok_def on_board_def SIZE_def)
  moreover have "outcome ?ms = Inr None" by code_simp
  moreover have "make ?ms (4, 0) = Inr (?ms @ [(4, 0)])" by code_simp
  moreover have "outcome (?ms @ [(4, 0)]) = Inr (Some (Five (length ?ms mod 2)))" by code_simp
  ultimately show ?thesis using local_player_wins [OF choosy_hd, of ?ms "(4, 0)" _ 1 Normal] by auto
qed

end
