(* ===== verification/Xiangqi.thy ===== *)
theory Xiangqi
  imports BoardGame
begin

text \<open>
  \<^verbatim>\<open>backend/app/modules/xiangqi_engine.py\<close> and the local player of \<^verbatim>\<open>xiangqi_robot.py\<close>.
  A square is its index \<open>9 * y + x\<close>, a piece its code (1 king, 2 advisor, 3 elephant, 4 horse, 5 rook, 6 cannon,
  7 pawn; negative for Black), a board the list of the 90 codes. The tables \<open>_RAYS\<close>, \<open>_STEPS\<close> and
  \<open>_ATTACKS\<close> are functions; the cached king squares are recomputed. FEN strings and moves are strings.
\<close>

section \<open>Geometry\<close>

datatype xiangqi_error = BadFen | BadFenFields | BadFenCounters | BadFenRows | BadFenPiece | BadFenRow
  | KingCount | KingPalace | BadSquare | BadMove | IllegalMove | SelfCheck

definition palace :: "int \<Rightarrow> int \<Rightarrow> int \<Rightarrow> bool" where
  "palace x y side \<longleftrightarrow> 3 \<le> x \<and> x \<le> 5 \<and> (if side = 1 then 0 \<le> y \<and> y \<le> 2 else 7 \<le> y \<and> y \<le> 9)"

definition inside :: "int \<times> int \<Rightarrow> bool" where
  "inside p \<longleftrightarrow> 0 \<le> fst p \<and> fst p < 9 \<and> 0 \<le> snd p \<and> snd p < 10"

definition square :: "int \<times> int \<Rightarrow> nat" where
  "square p = nat (snd p * 9 + fst p)"

definition col :: "nat \<Rightarrow> int" where
  "col n = int (n mod 9)"

definition row_of :: "nat \<Rightarrow> int" where
  "row_of n = int (n div 9)"

definition ray :: "nat \<Rightarrow> int \<times> int \<Rightarrow> nat list" where
  "ray n d = map square (takeWhile inside (map (\<lambda>k. (col n + k * fst d, row_of n + k * snd d)) [1..9]))"

definition RAY_DIRECTIONS :: "(int \<times> int) list" where
  "RAY_DIRECTIONS = [(1, 0), (-1, 0), (0, 1), (0, -1)]"

definition offsets :: "int \<Rightarrow> int \<Rightarrow> int \<Rightarrow> (int \<times> int) list" where
  "offsets kind side y =
     (if kind = 1 then [(1, 0), (-1, 0), (0, 1), (0, -1)]
      else if kind = 2 then [(1, 1), (-1, 1), (1, -1), (-1, -1)]
      else if kind = 3 then [(2, 2), (-2, 2), (2, -2), (-2, -2)]
      else if kind = 4 then [(1, 2), (-1, 2), (1, -2), (-1, -2), (2, 1), (2, -1), (-2, 1), (-2, -1)]
      else if kind = 7 then
        (if (if side = 1 then 5 \<le> y else y \<le> 4) then [(0, side), (1, 0), (-1, 0)] else [(0, side)])
      else [])"

definition step_allowed :: "int \<Rightarrow> int \<Rightarrow> int \<times> int \<Rightarrow> bool" where
  "step_allowed kind side p \<longleftrightarrow> inside p \<and> (kind \<in> {1, 2} \<longrightarrow> palace (fst p) (snd p) side)
     \<and> \<not> (kind = 3 \<and> (if side = 1 then 4 < snd p else snd p < 5))"

definition step_blocker :: "int \<Rightarrow> nat \<Rightarrow> int \<times> int \<Rightarrow> nat option" where
  "step_blocker kind n d =
     (if kind = 3 then Some (square (col n + fst d div 2, row_of n + snd d div 2))
      else if kind = 4 then Some (square (col n + (if \<bar>fst d\<bar> = 2 then fst d div 2 else 0),
                                          row_of n + (if \<bar>snd d\<bar> = 2 then snd d div 2 else 0)))
      else None)"

text \<open>\<open>_STEPS[side * kind, square]\<close>: destinations with the square that must be empty, if any.\<close>

definition steps :: "int \<Rightarrow> int \<Rightarrow> nat \<Rightarrow> (nat \<times> nat option) list" where
  "steps side kind n =
     map (\<lambda>d. (square (col n + fst d, row_of n + snd d), step_blocker kind n d))
       (filter (\<lambda>d. step_allowed kind side (col n + fst d, row_of n + snd d)) (offsets kind side (row_of n)))"

section \<open>Attacks and targets\<close>

type_synonym board = "int list"

text \<open>One ray seen from the target: rook (or, on a file, king) first, cannon behind one screen.\<close>

fun ray_attack :: "board \<Rightarrow> int \<Rightarrow> bool \<Rightarrow> bool \<Rightarrow> nat list \<Rightarrow> bool" where
  "ray_attack b enemy file screened [] = False"
| "ray_attack b enemy file screened (n # ns) =
     (if b ! n = 0 then ray_attack b enemy file screened ns
      else if \<not> screened then
        (b ! n = enemy * 5 \<or> (file \<and> b ! n = enemy)) \<or> ray_attack b enemy file True ns
      else b ! n = enemy * 6)"

definition open_step :: "board \<Rightarrow> nat option \<Rightarrow> bool" where
  "open_step b blocker = (case blocker of None \<Rightarrow> True | Some k \<Rightarrow> b ! k = 0)"

definition attacked :: "board \<Rightarrow> nat \<Rightarrow> int \<Rightarrow> bool" where
  "attacked b target enemy \<longleftrightarrow>
     list_ex (\<lambda>d. ray_attack b enemy (fst d = 0) False (ray target d)) RAY_DIRECTIONS
     \<or> list_ex (\<lambda>source. list_ex (\<lambda>kind. b ! source = enemy * kind \<and>
           list_ex (\<lambda>(t, blocker). t = target \<and> open_step b blocker) (steps enemy kind source))
         [1, 2, 3, 4, 7]) [0..<90]"

definition side_of :: "int \<Rightarrow> int" where
  "side_of piece = (if 0 < piece then 1 else - 1)"

definition takes :: "int \<Rightarrow> int \<Rightarrow> bool" where
  "takes side occupant \<longleftrightarrow> occupant * side < 0 \<and> \<bar>occupant\<bar> \<noteq> 1"

fun ray_targets :: "board \<Rightarrow> int \<Rightarrow> int \<Rightarrow> bool \<Rightarrow> nat list \<Rightarrow> nat list" where
  "ray_targets b side kind screened [] = []"
| "ray_targets b side kind screened (n # ns) =
     (if \<not> screened then
        (if b ! n = 0 then n # ray_targets b side kind False ns
         else if kind = 5 then (if takes side (b ! n) then [n] else [])
         else ray_targets b side kind True ns)
      else if b ! n \<noteq> 0 then (if takes side (b ! n) then [n] else [])
      else ray_targets b side kind True ns)"

definition targets :: "board \<Rightarrow> nat \<Rightarrow> nat list" where
  "targets b source =
     (let piece = b ! source; side = side_of piece; kind = \<bar>piece\<bar> in
      if kind \<in> {5, 6} then concat (map (\<lambda>d. ray_targets b side kind False (ray source d)) RAY_DIRECTIONS)
      else map fst (filter (\<lambda>(t, blocker). \<not> (0 < b ! t * side \<or> \<bar>b ! t\<bar> = 1) \<and> open_step b blocker)
             (steps side kind source)))"

section \<open>Square names\<close>

definition COLUMNS :: string where
  "COLUMNS = ''abcdefghi''"

definition DIGITS :: string where
  "DIGITS = ''0123456789''"

definition square_name :: "nat \<Rightarrow> string" where
  "square_name n = [COLUMNS ! (n mod 9), DIGITS ! (n div 9)]"

text \<open>\<open>_INDEX.get\<close>: the square of a name, looked up among the 90.\<close>

definition square_index :: "string \<Rightarrow> nat option" where
  "square_index name = find (\<lambda>n. square_name n = name) [0..<90]"

section \<open>Positions\<close>

datatype colour = White | Black

fun sign :: "colour \<Rightarrow> int" where
  "sign White = 1"
| "sign Black = - 1"

fun other :: "colour \<Rightarrow> colour" where
  "other White = Black"
| "other Black = White"

record position =
  p_board :: board
  p_side :: colour

definition king_square :: "board \<Rightarrow> int \<Rightarrow> nat" where
  "king_square b king = length (takeWhile (\<lambda>p. p \<noteq> king) b)"

definition in_check :: "position \<Rightarrow> bool" where
  "in_check p = attacked (p_board p) (king_square (p_board p) (sign (p_side p))) (- sign (p_side p))"

definition moved :: "board \<Rightarrow> nat \<Rightarrow> nat \<Rightarrow> board" where
  "moved b source target = b[source := 0, target := b ! source]"

text \<open>The square of the mover's king after the move.\<close>

definition king_after :: "position \<Rightarrow> nat \<Rightarrow> nat \<Rightarrow> nat" where
  "king_after p source target =
     (if \<bar>p_board p ! source\<bar> = 1 then target else king_square (p_board p) (sign (p_side p)))"

definition exposes :: "position \<Rightarrow> nat \<Rightarrow> nat \<Rightarrow> bool" where
  "exposes p source target \<longleftrightarrow>
     attacked (moved (p_board p) source target) (king_after p source target) (- sign (p_side p))"

definition legal_moves :: "position \<Rightarrow> string list" where
  "legal_moves p =
     concat (map (\<lambda>source.
         if p_board p ! source * sign (p_side p) \<le> 0 then []
         else map (\<lambda>target. square_name source @ square_name target)
           (filter (\<lambda>target. \<not> exposes p source target) (targets (p_board p) source)))
       [0..<length (p_board p)])"

definition parse_move :: "position \<Rightarrow> string \<Rightarrow> xiangqi_error + nat \<times> nat" where
  "parse_move p move =
     (if length move \<noteq> 4 then Inl BadMove
      else case (square_index (take 2 move), square_index (drop 2 move)) of
        (Some source, Some target) \<Rightarrow>
          if p_board p ! source * sign (p_side p) \<le> 0 \<or> target \<notin> set (targets (p_board p) source)
          then Inl IllegalMove else Inr (source, target)
      | _ \<Rightarrow> Inl BadMove)"

definition make_move :: "position \<Rightarrow> string \<Rightarrow> xiangqi_error + position" where
  "make_move p move =
     bindR (parse_move p move) (\<lambda>(source, target).
       if exposes p source target then Inl SelfCheck
       else Inr \<lparr>p_board = moved (p_board p) source target, p_side = other (p_side p)\<rparr>)"

definition LETTERS :: string where
  "LETTERS = '' KABNRCP''"

definition lower_of :: "char \<Rightarrow> char" where
  "lower_of c = (if c \<in> set LETTERS \<and> c \<noteq> CHR '' '' then char_of (of_char c + 32 :: nat) else c)"

definition piece_letter :: "int \<Rightarrow> char" where
  "piece_letter piece =
     (let letter = LETTERS ! nat \<bar>piece\<bar> in if 0 < piece then letter else lower_of letter)"

definition piece_at :: "position \<Rightarrow> string \<Rightarrow> xiangqi_error + char option" where
  "piece_at p name =
     (case square_index name of
        None \<Rightarrow> Inl BadSquare
      | Some n \<Rightarrow> Inr (if p_board p ! n = 0 then None else Some (piece_letter (p_board p ! n))))"

definition is_capture :: "position \<Rightarrow> string \<Rightarrow> xiangqi_error + bool" where
  "is_capture p move =
     bindR (make_move p move) (\<lambda>_. Inr (case square_index (drop 2 move) of None \<Rightarrow> False | Some n \<Rightarrow> p_board p ! n \<noteq> 0))"

section \<open>Adjudication\<close>

datatype verdict = Checkmate | Stalemate | Insufficient | PerpetualCheck | Repetition | MoveLimit

type_synonym result = "colour option \<times> verdict"

definition terminal :: "position \<Rightarrow> result option" where
  "terminal p =
     (if legal_moves p = [] then Some (Some (other (p_side p)), if in_check p then Checkmate else Stalemate)
      else if \<not> list_ex (\<lambda>c. \<bar>c\<bar> \<in> {4, 5, 6, 7}) (p_board p) then Some (None, Insufficient)
      else None)"

definition long_check :: "(colour \<times> bool) list \<Rightarrow> colour \<Rightarrow> bool" where
  "long_check cycle side \<longleftrightarrow> list_ex (\<lambda>(m, _). m = side) cycle \<and> list_all (\<lambda>(m, c). m = side \<longrightarrow> c) cycle"

definition repetition :: "(colour \<times> bool) list \<Rightarrow> nat \<Rightarrow> result" where
  "repetition checks start =
     (let cycle = drop start checks; w = long_check cycle White; b = long_check cycle Black in
      if w \<and> \<not> b then (Some Black, PerpetualCheck)
      else if b \<and> \<not> w then (Some White, PerpetualCheck)
      else (None, if w then PerpetualCheck else Repetition))"

text \<open>
  The history loop: \<open>seen\<close> maps a position to the plies at which it occurred, \<open>checks\<close> lists
  the mover of each ply and whether it gave check, \<open>quiet\<close> counts plies without a capture.
\<close>

record history =
  h_position :: position
  h_seen :: "(position \<times> nat list) list"
  h_checks :: "(colour \<times> bool) list"
  h_quiet :: nat
  h_ply :: nat

definition plies_of :: "(position \<times> nat list) list \<Rightarrow> position \<Rightarrow> nat list" where
  "plies_of seen p = (case map_of seen p of None \<Rightarrow> [] | Some l \<Rightarrow> l)"

definition outcome_step :: "history \<Rightarrow> string \<Rightarrow> xiangqi_error + history \<times> result option" where
  "outcome_step h move =
     bindR (make_move (h_position h) move) (\<lambda>nxt.
     bindR (piece_at (h_position h) (drop 2 move)) (\<lambda>victim.
       let quiet = (if victim \<noteq> None then 0 else h_quiet h + 1);
           checks = h_checks h @ [(p_side (h_position h), in_check nxt)];
           ply = h_ply h + 1;
           plies = plies_of (h_seen h) nxt @ [ply];
           h' = \<lparr>h_position = nxt, h_seen = put nxt plies (h_seen h), h_checks = checks, h_quiet = quiet, h_ply = ply\<rparr>
       in Inr (h', case terminal nxt of
            Some r \<Rightarrow> Some r
          | None \<Rightarrow>
              if 3 \<le> length plies then Some (repetition checks (plies ! (length plies - 3)))
              else if 120 \<le> quiet then Some (None, MoveLimit)
              else None)))"

fun outcome_run :: "history \<Rightarrow> string list \<Rightarrow> xiangqi_error + result option" where
  "outcome_run h [] = Inr None"
| "outcome_run h (m # ms) =
     bindR (outcome_step h m) (\<lambda>(h', r). case r of Some v \<Rightarrow> Inr (Some v) | None \<Rightarrow> outcome_run h' ms)"

definition start_history :: "position \<Rightarrow> history" where
  "start_history p = \<lparr>h_position = p, h_seen = [(p, [0])], h_checks = [], h_quiet = 0, h_ply = 0\<rparr>"

definition outcome :: "position \<Rightarrow> string list \<Rightarrow> xiangqi_error + result option" where
  "outcome p moves = (case terminal p of Some v \<Rightarrow> Inr (Some v) | None \<Rightarrow> outcome_run (start_history p) moves)"

section \<open>FEN\<close>

text \<open>\<open>str.split(sep)\<close> and \<open>str.split()\<close>.\<close>

fun split_at :: "char \<Rightarrow> string \<Rightarrow> string list" where
  "split_at sep [] = [[]]"
| "split_at sep (c # cs) =
     (if c = sep then [] # split_at sep cs
      else (case split_at sep cs of [] \<Rightarrow> [[c]] | w # ws \<Rightarrow> (c # w) # ws))"

fun words :: "string \<Rightarrow> string \<Rightarrow> string list" where
  "words acc [] = (if acc = [] then [] else [acc])"
| "words acc (c # cs) =
     (if py_space c then (if acc = [] then words [] cs else acc # words [] cs) else words (acc @ [c]) cs)"

definition digits_only :: "string \<Rightarrow> bool" where
  "digits_only s \<longleftrightarrow> s \<noteq> [] \<and> list_all (\<lambda>c. c \<in> set DIGITS) s"

fun index_of :: "'a \<Rightarrow> 'a list \<Rightarrow> nat" where
  "index_of x [] = 0"
| "index_of x (y # ys) = (if x = y then 0 else Suc (index_of x ys))"

definition piece_of :: "char \<Rightarrow> int option" where
  "piece_of c =
     (if c \<in> set (tl LETTERS) then Some (int (index_of c LETTERS))
      else if c \<in> set (map lower_of (tl LETTERS)) then Some (- int (index_of c (map lower_of LETTERS)))
      else None)"

fun parse_row :: "string \<Rightarrow> xiangqi_error + int list" where
  "parse_row [] = Inr []"
| "parse_row (c # cs) =
     (if c \<in> set (tl DIGITS) then bindR (parse_row cs) (\<lambda>r. Inr (replicate (index_of c DIGITS) 0 @ r))
      else case piece_of c of
        None \<Rightarrow> Inl BadFenPiece
      | Some p \<Rightarrow> bindR (parse_row cs) (\<lambda>r. Inr (p # r)))"

fun parse_rows :: "string list \<Rightarrow> xiangqi_error + board" where
  "parse_rows [] = Inr []"
| "parse_rows (r # rs) =
     bindR (parse_row r) (\<lambda>row.
       if length row \<noteq> 9 then Inl BadFenRow else bindR (parse_rows rs) (\<lambda>b. Inr (row @ b)))"

definition king_placed :: "board \<Rightarrow> int \<Rightarrow> xiangqi_error + unit" where
  "king_placed b king =
     bindR (check (count_list b king = 1) KingCount) (\<lambda>_.
       check (palace (col (king_square b king)) (row_of (king_square b king)) king) KingPalace)"

definition from_fen :: "string \<Rightarrow> xiangqi_error + position" where
  "from_fen fen =
     (let fields = words [] fen in
      if fen = [] then Inl BadFen
      else if length fields \<notin> {2, 6} \<or> fields ! 1 \<notin> {''w'', ''b''} then Inl BadFenFields
      else if length fields = 6 \<and> (fields ! 2 \<noteq> ''-'' \<or> fields ! 3 \<noteq> ''-'' \<or> \<not> digits_only (fields ! 4)
          \<or> \<not> digits_only (fields ! 5) \<or> list_all (\<lambda>c. c = CHR ''0'') (fields ! 5)) then Inl BadFenCounters
      else
        let ranks = split_at (CHR ''/'') (fields ! 0) in
        if length ranks \<noteq> 10 then Inl BadFenRows
        else bindR (parse_rows (rev ranks)) (\<lambda>b.
             bindR (king_placed b 1) (\<lambda>_.
             bindR (king_placed b (- 1)) (\<lambda>_.
               Inr \<lparr>p_board = b, p_side = (if fields ! 1 = ''w'' then White else Black)\<rparr>))))"

text \<open>One rank: \<open>gap\<close> counts the empty squares not yet written.\<close>

fun fen_row :: "nat \<Rightarrow> int list \<Rightarrow> string" where
  "fen_row gap [] = (if gap \<noteq> 0 then [DIGITS ! gap] else [])"
| "fen_row gap (p # ps) =
     (if p = 0 then fen_row (gap + 1) ps
      else (if gap \<noteq> 0 then [DIGITS ! gap] else []) @ piece_letter p # fen_row 0 ps)"

definition board_row :: "board \<Rightarrow> nat \<Rightarrow> int list" where
  "board_row b y = take 9 (drop (y * 9) b)"

fun join :: "string \<Rightarrow> string list \<Rightarrow> string" where
  "join sep [] = []"
| "join sep [w] = w"
| "join sep (w # ws) = w @ sep @ join sep ws"

definition fen :: "position \<Rightarrow> string" where
  "fen p =
     join ''/'' (map (\<lambda>y. fen_row 0 (board_row (p_board p) y)) (rev [0..<10])) @ '' ''
     @ (if p_side p = White then ''w'' else ''b'')"

text \<open>The entry point of the game service: the history starts from a FEN.\<close>

definition outcome_from_fen :: "string \<Rightarrow> string list \<Rightarrow> xiangqi_error + result option" where
  "outcome_from_fen text moves = bindR (from_fen text) (\<lambda>p. outcome p moves)"

section \<open>The local player\<close>

definition piece_value :: "int \<Rightarrow> int" where
  "piece_value piece =
     (let k = \<bar>piece\<bar> in if k = 1 then 10000 else if k = 5 then 900 else if k = 6 then 450 else if k = 4 then 400
      else if k = 3 then 200 else if k = 2 then 200 else if k = 7 then 100 else 0)"

definition move_score :: "position \<Rightarrow> string \<Rightarrow> int" where
  "move_score p move =
     (case square_index (drop 2 move) of None \<Rightarrow> 0 | Some n \<Rightarrow> piece_value (p_board p ! n))
     + (case make_move p move of Inl _ \<Rightarrow> 0 | Inr q \<Rightarrow> if in_check q then 60 else 0)"

fun best_moves :: "position \<Rightarrow> string list \<Rightarrow> string list \<Rightarrow> int \<Rightarrow> string list" where
  "best_moves p [] choices best = choices"
| "best_moves p (m # ms) choices best =
     (let score = move_score p m in
      if best < score then best_moves p ms [m] score
      else if score = best then best_moves p ms (choices @ [m]) best
      else best_moves p ms choices best)"

definition fallback :: "(string list \<Rightarrow> string) \<Rightarrow> position \<Rightarrow> string list \<Rightarrow> string" where
  "fallback choice p moves = choice (best_moves p moves [] (- 1))"

datatype difficulty = EasyLevel | NormalLevel | HardLevel

text \<open>\<open>reply\<close> is the move the external engine gave, or None when it is absent or failed; the answer None
  is the error raised when there is no legal move.\<close>

definition robot_move :: "(string list \<Rightarrow> string) \<Rightarrow> real \<Rightarrow> string option \<Rightarrow> string \<Rightarrow> difficulty
    \<Rightarrow> xiangqi_error + string option" where
  "robot_move choice r reply text level =
     bindR (from_fen text) (\<lambda>p.
       let moves = legal_moves p in
       Inr (if moves = [] then None
            else if level = EasyLevel \<and> r < 85 / 100 then Some (choice moves)
            else case reply of
              Some m \<Rightarrow> Some (if m \<in> set moves then m else fallback choice p moves)
            | None \<Rightarrow> Some (fallback choice p moves)))"

text \<open>\<open>_spin\<close>: an engine option clamped into its advertised bounds.\<close>

definition spin :: "int \<Rightarrow> int \<Rightarrow> int \<Rightarrow> int option" where
  "spin minimum maximum desired = (if maximum < minimum then None else Some (max minimum (min maximum desired)))"

end
