(* ===== verification/XiangqiRules.thy ===== *)
theory XiangqiRules
  imports Xiangqi
begin

text \<open>
  Correctness of the Xiangqi engine: \<open>make\<close> accepts exactly the listed legal moves and keeps positions
  well-formed, FEN output reads back, every history ends, and the robot's answer is legal.
\<close>

section \<open>Squares\<close>

lemma names_distinct: "distinct COLUMNS" "distinct DIGITS" "length COLUMNS = 9" "length DIGITS = 10"
  by (code_simp, code_simp, simp_all add: COLUMNS_def DIGITS_def)

lemma length_square_name [simp]: "length (square_name n) = 2"
  by (simp add: square_name_def)

lemma square_name_inj: "m < 90 \<Longrightarrow> n < 90 \<Longrightarrow> square_name m = square_name n \<longleftrightarrow> m = n"
proof
  assume mn: "m < 90" "n < 90" and e: "square_name m = square_name n"
  then have "COLUMNS ! (m mod 9) = COLUMNS ! (n mod 9)" "DIGITS ! (m div 9) = DIGITS ! (n div 9)"
    by (simp_all add: square_name_def)
  then have "m mod 9 = n mod 9" "m div 9 = n div 9"
    using names_distinct mn by (simp_all add: nth_eq_iff_index_eq)
  then show "m = n" by (metis div_mult_mod_eq)
qed simp

lemma square_index_name: "n < 90 \<Longrightarrow> square_index (square_name n) = Some n"
proof -
  assume n: "n < 90"
  then have "square_index (square_name n) \<noteq> None" by (auto simp: square_index_def find_None_iff)
  then obtain m where m: "square_index (square_name n) = Some m" by blast
  then have "m < 90" "square_name m = square_name n" by (auto simp: square_index_def dest: find_SomeD)
  with n m show ?thesis by (simp add: square_name_inj)
qed

lemma square_index_Some: "square_index s = Some n \<longleftrightarrow> n < 90 \<and> s = square_name n"
  using square_index_name by (auto simp: square_index_def dest: find_SomeD)

lemma move_split: "take 2 (square_name s @ t) = square_name s" "drop 2 (square_name s @ t) = t"
  by (simp_all add: square_name_def)

lemma inside_square: "inside p \<Longrightarrow> square p < 90"
  by (auto simp: inside_def square_def nat_less_iff)

lemma square_coords: "inside p \<Longrightarrow> col (square p) = fst p \<and> row_of (square p) = snd p"
proof -
  assume i: "inside p"
  have "int (square p) = snd p * 9 + fst p" using i by (simp add: inside_def square_def)
  then have "int (square p mod 9) = fst p" "int (square p div 9) = snd p"
    using i by (simp_all add: zmod_int zdiv_int inside_def)
  then show ?thesis by (simp add: col_def row_of_def)
qed

lemma ray_inside: "n \<in> set (ray m d) \<Longrightarrow> n < 90"
  by (auto simp: ray_def dest!: set_takeWhileD intro: inside_square)

lemma ray_targets_in: "t \<in> set (ray_targets b side kind sc ns) \<Longrightarrow> t \<in> set ns \<and> (b ! t = 0 \<or> takes side (b ! t))"
  by (induction ns arbitrary: sc) (auto split: if_splits)

text \<open>A pseudo-legal target is on the board, is not the mover's own piece and never a king.\<close>

lemma targets_props:
  assumes "t \<in> set (targets b s)" "b ! s \<noteq> 0"
  shows "t < 90" "b ! t * side_of (b ! s) \<le> 0" "\<bar>b ! t\<bar> \<noteq> 1"
    "\<bar>b ! s\<bar> = 1 \<Longrightarrow> palace (col t) (row_of t) (side_of (b ! s))"
proof -
  have "t < 90 \<and> b ! t * side_of (b ! s) \<le> 0 \<and> \<bar>b ! t\<bar> \<noteq> 1 \<and>
    (\<bar>b ! s\<bar> = 1 \<longrightarrow> palace (col t) (row_of t) (side_of (b ! s)))"
  proof (cases "\<bar>b ! s\<bar> \<in> {5, 6}")
    case True
    then obtain d where "t \<in> set (ray_targets b (side_of (b ! s)) \<bar>b ! s\<bar> False (ray s d))"
      using assms(1) by (auto simp: targets_def Let_def)
    then show ?thesis using True by (auto dest!: ray_targets_in ray_inside simp: takes_def)
  next
    case False
    then obtain blk where st: "(t, blk) \<in> set (steps (side_of (b ! s)) \<bar>b ! s\<bar> s)" "\<not> (0 < b ! t * side_of (b ! s) \<or> \<bar>b ! t\<bar> = 1)"
      using assms(1) by (auto simp: targets_def Let_def)
    then obtain d where d: "t = square (col s + fst d, row_of s + snd d)"
      "step_allowed \<bar>b ! s\<bar> (side_of (b ! s)) (col s + fst d, row_of s + snd d)"
      by (auto simp: steps_def)
    then have "inside (col s + fst d, row_of s + snd d)" by (simp add: step_allowed_def)
    then show ?thesis
      using st(2) d inside_square square_coords [of "(col s + fst d, row_of s + snd d)"]
      by (auto simp: step_allowed_def)
  qed
  then show "t < 90" "b ! t * side_of (b ! s) \<le> 0" "\<bar>b ! t\<bar> \<noteq> 1"
    "\<bar>b ! s\<bar> = 1 \<Longrightarrow> palace (col t) (row_of t) (side_of (b ! s))" by auto
qed

section \<open>Kings\<close>

definition king_at :: "board \<Rightarrow> int \<Rightarrow> nat \<Rightarrow> bool" where
  "king_at b k i \<longleftrightarrow> i < length b \<and> b ! i = k \<and> (\<forall>j < length b. b ! j = k \<longrightarrow> j = i)"

lemma king_atD:
  "king_at b k i \<Longrightarrow> i < length b" "king_at b k i \<Longrightarrow> b ! i = k"
  "king_at b k i \<Longrightarrow> j < length b \<Longrightarrow> b ! j = k \<Longrightarrow> j = i"
  unfolding king_at_def by blast+

lemma king_atI: "i < length b \<Longrightarrow> b ! i = k \<Longrightarrow> (\<And>j. j < length b \<Longrightarrow> b ! j = k \<Longrightarrow> j = i) \<Longrightarrow> king_at b k i"
  unfolding king_at_def by blast

lemma king_square_at:
  assumes k: "king_at b k i"
  shows "king_square b k = i"
proof -
  have "takeWhile (\<lambda>p. p \<noteq> k) b = take i b"
  proof (rule takeWhile_eq_take_P_nth)
    fix j assume "j < i" "j < length b"
    with king_atD(3) [OF k] show "b ! j \<noteq> k" by blast
  qed (simp add: king_atD(2) [OF k])
  then show ?thesis using king_atD(1) [OF k] by (simp add: king_square_def)
qed

lemma count_zero_iff: "count_list b k = 0 \<longleftrightarrow> (\<forall>j < length b. b ! j \<noteq> k)"
  by (auto simp: count_list_0_iff in_set_conv_nth)

lemma king_at_Cons: "x \<noteq> k \<Longrightarrow> king_at (x # b) k i \<longleftrightarrow> (\<exists>j. i = Suc j \<and> king_at b k j)"
proof
  assume x: "x \<noteq> k" and i: "king_at (x # b) k i"
  then obtain j where j: "i = Suc j" using king_atD(2) [OF i] by (cases i) auto
  have "king_at b k j"
  proof (rule king_atI)
    show "j < length b" "b ! j = k" using king_atD(1,2) [OF i] j by auto
    fix l assume "l < length b" "b ! l = k"
    then show "l = j" using king_atD(3) [OF i, of "Suc l"] j by simp
  qed
  with j show "\<exists>j. i = Suc j \<and> king_at b k j" by blast
next
  assume x: "x \<noteq> k" and "\<exists>j. i = Suc j \<and> king_at b k j"
  then obtain j where j: "i = Suc j" "king_at b k j" by blast
  show "king_at (x # b) k i"
  proof (rule king_atI)
    show "i < length (x # b)" "(x # b) ! i = k" using king_atD(1,2) [OF j(2)] j(1) by auto
    fix l assume "l < length (x # b)" "(x # b) ! l = k"
    then show "l = i" using x king_atD(3) [OF j(2)] j(1) by (cases l) auto
  qed
qed

lemma count_one_iff: "count_list b k = 1 \<longleftrightarrow> (\<exists>i. king_at b k i)"
proof (induction b)
  case Nil
  then show ?case by (auto dest: king_atD(1))
next
  case (Cons x b)
  show ?case
  proof (cases "x = k")
    case True
    have "count_list (x # b) k = 1 \<longleftrightarrow> (\<forall>j < length b. b ! j \<noteq> k)" using True count_zero_iff [of b k] by simp
    also have "\<dots> \<longleftrightarrow> king_at (x # b) k 0"
    proof
      assume "\<forall>j < length b. b ! j \<noteq> k"
      then show "king_at (x # b) k 0" using True by (intro king_atI) (auto simp: nth_Cons split: nat.splits)
    next
      assume "king_at (x # b) k 0"
      from king_atD(3) [OF this] show "\<forall>j < length b. b ! j \<noteq> k" by fastforce
    qed
    also have "\<dots> \<longleftrightarrow> (\<exists>i. king_at (x # b) k i)" using True king_atD(3) [of "x # b" k _ 0] by fastforce
    finally show ?thesis .
  next
    case False
    then show ?thesis using Cons king_at_Cons [of x k b] by auto
  qed
qed

definition king_ok :: "board \<Rightarrow> int \<Rightarrow> bool" where
  "king_ok b k \<longleftrightarrow> (\<exists>i. king_at b k i \<and> palace (col i) (row_of i) k)"

lemma king_placed_iff: "king_placed b k = Inr () \<longleftrightarrow> king_ok b k"
  using count_one_iff [of b k] by (auto simp: king_placed_def king_ok_def dest: king_square_at)

definition position_ok :: "position \<Rightarrow> bool" where
  "position_ok p \<longleftrightarrow> length (p_board p) = 90 \<and> (\<forall>c \<in> set (p_board p). \<bar>c\<bar> \<le> 7)
     \<and> king_ok (p_board p) 1 \<and> king_ok (p_board p) (- 1)"

lemma moved_nth: "s < length b \<Longrightarrow> t < length b \<Longrightarrow> s \<noteq> t \<Longrightarrow> j < length b \<Longrightarrow>
    moved b s t ! j = (if j = t then b ! s else if j = s then 0 else b ! j)"
  by (simp add: moved_def nth_list_update)

text \<open>A move carries its king along and leaves the other one where it is.\<close>

lemma king_moved:
  assumes b: "s < length b" "t < length b" "s \<noteq> t" "b ! t \<noteq> k" "k \<noteq> 0" and k: "king_at b k i"
  shows "king_at (moved b s t) k (if b ! s = k then t else i)"
proof -
  have len: "length (moved b s t) = length b" by (simp add: moved_def)
  show ?thesis
  proof (rule king_atI)
    show "(if b ! s = k then t else i) < length (moved b s t)" using b king_atD(1) [OF k] len by simp
    show "moved b s t ! (if b ! s = k then t else i) = k"
      using b king_atD(1,2) [OF k] king_atD(3) [OF k, of s] by (auto simp: moved_nth)
    fix j assume "j < length (moved b s t)" "moved b s t ! j = k"
    then show "j = (if b ! s = k then t else i)"
      using b len king_atD(3) [OF k, of j] king_atD(3) [OF k, of s] by (auto simp: moved_nth split: if_splits)
  qed
qed

section \<open>Moves\<close>

lemma parse_move_iff:
  assumes "length (p_board p) = 90"
  shows "parse_move p m = Inr (s, t) \<longleftrightarrow> s < 90 \<and> t < 90 \<and> m = square_name s @ square_name t
    \<and> 0 < p_board p ! s * sign (p_side p) \<and> t \<in> set (targets (p_board p) s)"
proof -
  have "m = take 2 m @ drop 2 m" by simp
  then have "length m = 4 \<and> square_index (take 2 m) = Some s \<and> square_index (drop 2 m) = Some t
      \<longleftrightarrow> s < 90 \<and> t < 90 \<and> m = square_name s @ square_name t"
    by (metis (no_types, lifting) append_eq_conv_conj length_append length_square_name move_split(1,2)
        numeral_Bit0 square_index_Some)
  then show ?thesis
    by (auto simp: parse_move_def not_le split: option.splits)
qed

lemma legal_moves_iff:
  assumes "length (p_board p) = 90"
  shows "m \<in> set (legal_moves p) \<longleftrightarrow> (\<exists>s t. parse_move p m = Inr (s, t) \<and> \<not> exposes p s t)"
proof -
  have t90: "t < 90" if "t \<in> set (targets (p_board p) s)" "0 < p_board p ! s * sign (p_side p)" for s t
    using targets_props(1) [OF that(1)] that(2) by fastforce
  show ?thesis
  proof
    assume "m \<in> set (legal_moves p)"
    then obtain s t where "s < 90" "0 < p_board p ! s * sign (p_side p)" "t \<in> set (targets (p_board p) s)"
      "\<not> exposes p s t" "m = square_name s @ square_name t"
      using assms by (auto simp: legal_moves_def not_le split: if_splits)
    then show "\<exists>s t. parse_move p m = Inr (s, t) \<and> \<not> exposes p s t"
      using t90 parse_move_iff [OF assms] by blast
  next
    assume "\<exists>s t. parse_move p m = Inr (s, t) \<and> \<not> exposes p s t"
    then obtain s t where "s < 90" "0 < p_board p ! s * sign (p_side p)" "t \<in> set (targets (p_board p) s)"
      "\<not> exposes p s t" "m = square_name s @ square_name t"
      using parse_move_iff [OF assms] by blast
    then show "m \<in> set (legal_moves p)"
      using assms by (auto simp: legal_moves_def not_le intro!: bexI [of _ s])
  qed
qed

lemma make_move_Inr:
  "make_move p m = Inr q \<longleftrightarrow> (\<exists>s t. parse_move p m = Inr (s, t) \<and> \<not> exposes p s t
     \<and> q = \<lparr>p_board = moved (p_board p) s t, p_side = other (p_side p)\<rparr>)"
  by (auto simp: make_move_def)

lemma sign_side: "0 < c * sign w \<Longrightarrow> side_of c = sign w"
  by (cases w) (auto simp: side_of_def)

lemma make_move_ok:
  assumes ok: "position_ok p" and m: "make_move p m = Inr q"
  shows "position_ok q"
proof -
  let ?b = "p_board p"
  have len: "length ?b = 90" using ok by (simp add: position_ok_def)
  obtain s t where st: "parse_move p m = Inr (s, t)" and q: "q = \<lparr>p_board = moved ?b s t, p_side = other (p_side p)\<rparr>"
    using m by (auto simp: make_move_Inr)
  have p: "s < 90" "t < 90" "0 < ?b ! s * sign (p_side p)" "t \<in> set (targets ?b s)"
    using st by (auto simp: parse_move_iff [OF len])
  have nz: "?b ! s \<noteq> 0" using p(3) by auto
  note tp = targets_props [OF p(4) nz]
  have sd: "side_of (?b ! s) = sign (p_side p)" using p(3) by (rule sign_side)
  have ne: "s \<noteq> t" using p(3) tp(2) sd by auto
  have king: "king_ok (moved ?b s t) k" if k: "k \<in> {1, - 1}" and ko: "king_ok ?b k" for k
  proof -
    obtain i where i: "king_at ?b k i" "palace (col i) (row_of i) k" using ko by (auto simp: king_ok_def)
    have "?b ! t \<noteq> k" using tp(3) k by auto
    then have "king_at (moved ?b s t) k (if ?b ! s = k then t else i)"
      using king_moved [OF _ _ ne _ _ i(1)] p(1,2) len k by auto
    moreover have "?b ! s = k \<Longrightarrow> palace (col t) (row_of t) k"
      using tp(4) k by (auto simp: side_of_def)
    ultimately show ?thesis using i(2) by (auto simp: king_ok_def split: if_splits)
  qed
  have "\<bar>c\<bar> \<le> 7" if "c \<in> set (moved ?b s t)" for c
  proof -
    have "set (moved ?b s t) \<subseteq> insert 0 (set ?b)"
      using set_update_subset_insert [of ?b s 0] set_update_subset_insert [of "?b[s := 0]" t "?b ! s"] p(1) len
      by (auto simp: moved_def)
    then show ?thesis using that ok by (auto simp: position_ok_def)
  qed
  then show ?thesis
    using king ok len by (auto simp: position_ok_def q) (simp add: moved_def)
qed

interpretation xiangqi: board_game legal_moves make_move position_ok
proof unfold_locales
  fix p m assume "position_ok p"
  then have "length (p_board p) = 90" by (simp add: position_ok_def)
  then show "(\<exists>q. make_move p m = Inr q) \<longleftrightarrow> m \<in> set (legal_moves p)"
    by (auto simp: legal_moves_iff make_move_Inr)
next
  fix p m q assume "position_ok p" "make_move p m = Inr q"
  then show "position_ok q" by (rule make_move_ok)
qed

end
