(* ===== verification/XiangqiMatch.thy ===== *)
theory XiangqiMatch
  imports XiangqiRules
begin

text \<open>
  Whole games of Xiangqi: FEN output reads back, every history ends, and the robot's answer is legal.
\<close>

section \<open>Reading back a FEN\<close>

lemma split_at_word: "sep \<notin> set w \<Longrightarrow> split_at sep w = [w]"
  by (induction w) auto

lemma split_at_append: "sep \<notin> set w \<Longrightarrow> split_at sep (w @ sep # s) = w # split_at sep s"
  by (induction w) auto

lemma split_at_join:
  "ws \<noteq> [] \<Longrightarrow> \<forall>w \<in> set ws. sep \<notin> set w \<Longrightarrow> split_at sep (join [sep] ws) = ws"
proof (induction "[sep]" ws rule: join.induct)
  case (3 w v ws)
  then show ?case by (simp add: split_at_append)
qed (simp_all add: split_at_word)

lemma words_word: "\<forall>c \<in> set w. \<not> py_space c \<Longrightarrow> words acc (w @ s) = words (acc @ w) s"
  by (induction w arbitrary: acc) auto

lemma words_append:
  assumes "\<forall>c \<in> set w. \<not> py_space c" "w \<noteq> []" "py_space c"
  shows "words [] (w @ c # s) = w # words [] s"
  using assms by (simp add: words_word)

lemma set_join: "set (join sep ws) \<subseteq> set sep \<union> (\<Union>w \<in> set ws. set w)"
  by (induction sep ws rule: join.induct) auto

lemma join_two: "2 \<le> length ws \<Longrightarrow> sep \<noteq> [] \<Longrightarrow> join sep ws \<noteq> []"
  by (cases "(sep, ws)" rule: join.cases) auto

definition fen_chars :: string where
  "fen_chars = tl DIGITS @ tl LETTERS @ map lower_of (tl LETTERS)"

lemma fen_chars_plain: "list_all (\<lambda>c. \<not> py_space c \<and> c \<noteq> CHR ''/'') fen_chars"
  by code_simp

lemma letters_read:
  "list_all (\<lambda>c. c = 0 \<or> piece_of (piece_letter c) = Some c \<and> piece_letter c \<notin> set (tl DIGITS)
     \<and> piece_letter c \<in> set fen_chars) [-7..7]"
  by code_simp

lemma letter_read:
  assumes "\<bar>c\<bar> \<le> 7" "c \<noteq> 0"
  shows "piece_of (piece_letter c) = Some c" "piece_letter c \<notin> set (tl DIGITS)" "piece_letter c \<in> set fen_chars"
proof -
  have "c \<in> set [-7..7]" using assms(1) by auto
  with letters_read assms(2) show "piece_of (piece_letter c) = Some c" "piece_letter c \<notin> set (tl DIGITS)"
    "piece_letter c \<in> set fen_chars" by (auto simp only: list_all_iff)
qed

lemma digits_read: "list_all (\<lambda>g. g = 0 \<or> DIGITS ! g \<in> set (tl DIGITS) \<and> index_of (DIGITS ! g) DIGITS = g) [0..<10]"
  by code_simp

lemma digit_read:
  assumes "0 < g" "g < 10"
  shows "DIGITS ! g \<in> set (tl DIGITS)" "index_of (DIGITS ! g) DIGITS = g"
proof -
  have "g \<in> set [0..<10]" using assms by simp
  with digits_read assms(1) show "DIGITS ! g \<in> set (tl DIGITS)" "index_of (DIGITS ! g) DIGITS = g"
    by (auto simp only: list_all_iff)
qed

lemma parse_fen_row:
  "g + length r < 10 \<Longrightarrow> \<forall>c \<in> set r. \<bar>c\<bar> \<le> 7 \<Longrightarrow> parse_row (fen_row g r) = Inr (replicate g 0 @ r)"
proof (induction g r rule: fen_row.induct)
  case (1 g)
  then show ?case using digit_read [of g] by auto
next
  case (2 g p ps)
  then show ?case
    using digit_read [of g] letter_read [of p] by (auto simp: replicate_app_Cons_same replicate_append_same)
qed

lemma fen_row_chars:
  "g + length r < 10 \<Longrightarrow> \<forall>c \<in> set r. \<bar>c\<bar> \<le> 7 \<Longrightarrow> set (fen_row g r) \<subseteq> set fen_chars"
proof (induction g r rule: fen_row.induct)
  case (1 g)
  then show ?case using digit_read [of g] by (auto simp: fen_chars_def)
next
  case (2 g p ps)
  then show ?case using digit_read [of g] letter_read(3) [of p] by (auto simp: fen_chars_def)
qed

lemma parse_fen_rows:
  "\<forall>r \<in> set rs. length r = 9 \<and> (\<forall>c \<in> set r. \<bar>c\<bar> \<le> 7) \<Longrightarrow> parse_rows (map (fen_row 0) rs) = Inr (concat rs)"
  by (induction rs) (simp_all add: parse_fen_row)

lemma concat_rows: "length b = n * 9 \<Longrightarrow> concat (map (board_row b) [0..<n]) = b"
proof -
  have "concat (map (board_row b) [0..<k]) = take (k * 9) b" if "k \<le> n" for k
    using that
  proof (induction k)
    case (Suc k)
    then show ?case by (simp add: board_row_def take_add [symmetric] add.commute)
  qed simp
  then show "length b = n * 9 \<Longrightarrow> concat (map (board_row b) [0..<n]) = b" by simp
qed

lemma fen_rows:
  assumes "position_ok p"
  shows "\<forall>r \<in> set (map (board_row (p_board p)) [0..<10]). length r = 9 \<and> (\<forall>c \<in> set r. \<bar>c\<bar> \<le> 7)"
proof -
  have "c \<in> set (p_board p)" if "c \<in> set (board_row (p_board p) y)" for c y
    using that by (auto simp: board_row_def dest: in_set_takeD in_set_dropD)
  then show ?thesis using assms by (auto simp: position_ok_def board_row_def)
qed

lemma position_of_kings:
  "position_ok p \<Longrightarrow> king_placed (p_board p) 1 = Inr () \<and> king_placed (p_board p) (- 1) = Inr ()"
  by (simp add: king_placed_iff position_ok_def)

text \<open>C17. A well-formed position written as a FEN reads back as itself: the printed ranks, gaps and side to move lose nothing.\<close>

theorem fen_roundtrip:
  assumes ok: "position_ok p"
  shows "from_fen (fen p) = Inr p"
proof -
  let ?rows = "map (board_row (p_board p)) [0..<10]"
  let ?ranks = "map (\<lambda>y. fen_row 0 (board_row (p_board p) y)) (rev [0..<10])"
  let ?b = "join ''/'' ?ranks" and ?s = "if p_side p = White then ''w'' else ''b''"
  have rows: "\<forall>r \<in> set ?rows. length r = 9 \<and> (\<forall>c \<in> set r. \<bar>c\<bar> \<le> 7)" using ok by (rule fen_rows)
  have chars: "set w \<subseteq> set fen_chars" if "w \<in> set ?ranks" for w
    using that rows by (auto intro!: fen_row_chars [THEN subsetD])
  have plain: "\<not> py_space c \<and> c \<noteq> CHR ''/''" if "w \<in> set ?ranks" "c \<in> set w" for w c
    using chars [OF that(1)] that(2) fen_chars_plain by (auto simp: list_all_iff)
  have slash: "\<not> py_space (CHR ''/'')" "py_space (CHR '' '')" "\<not> py_space (CHR ''w'')" "\<not> py_space (CHR ''b'')"
    by code_simp+
  have split: "split_at (CHR ''/'') ?b = ?ranks"
    using plain by (intro split_at_join) auto
  have nb: "?b \<noteq> []" by (rule join_two) simp_all
  have "\<not> py_space c" if "c \<in> set ?b" for c
    using set_join [of "''/''" ?ranks, THEN subsetD, OF that] plain slash(1) by (auto simp del: set_map set_upt)
  then have "words [] (?b @ CHR '' '' # ?s) = ?b # words [] ?s"
    by (intro words_append nb slash(2)) blast
  then have words: "words [] (fen p) = [?b, ?s]" using slash by (simp add: fen_def del: upt_Suc)
  have "rev ?ranks = map (fen_row 0) ?rows" by (simp add: rev_map)
  then have parse: "parse_rows (rev ?ranks) = Inr (p_board p)"
    using parse_fen_rows [OF rows] concat_rows [of "p_board p" 10] ok by (simp add: position_ok_def)
  have ne: "fen p \<noteq> []" by (simp add: fen_def)
  have side: "?s = ''w'' \<or> ?s = ''b''" "(if ?s = ''w'' then White else Black) = p_side p" by (cases "p_side p"; simp)+
  have len: "length [?b, ?s] = 2" "[?b, ?s] ! 0 = ?b" "[?b, ?s] ! 1 = ?s" "length ?ranks = 10" by simp_all
  show ?thesis
    unfolding from_fen_def Let_def words len split parse using position_of_kings [OF ok] ne side by simp
qed

text \<open>The opening position.\<close>

definition start_position :: position where
  "start_position = \<lparr>p_board = [5, 4, 3, 2, 1, 2, 3, 4, 5, 0, 0, 0, 0, 0, 0, 0, 0, 0, 0, 6, 0, 0, 0, 0, 0, 6, 0, 7, 0, 7, 0, 7, 0, 7, 0, 7,
     0, 0, 0, 0, 0, 0, 0, 0, 0, 0, 0, 0, 0, 0, 0, 0, 0, 0, - 7, 0, - 7, 0, - 7, 0, - 7, 0, - 7, 0, - 6, 0, 0, 0, 0, 0, - 6, 0,
     0, 0, 0, 0, 0, 0, 0, 0, 0, - 5, - 4, - 3, - 2, - 1, - 2, - 3, - 4, - 5], p_side = White\<rparr>"

lemma start_position_ok: "position_ok start_position"
proof -
  have "list_all (\<lambda>c. \<bar>c\<bar> \<le> 7) (p_board start_position)" "length (p_board start_position) = 90"
    "king_placed (p_board start_position) 1 = Inr ()" "king_placed (p_board start_position) (- 1) = Inr ()"
    by code_simp+
  then show ?thesis by (simp add: position_ok_def king_placed_iff list_all_iff)
qed

lemma start_position_read: "from_fen ''rnbakabnr/9/1c5c1/p1p1p1p1p/9/9/P1P1P1P1P/1C5C1/9/RNBAKABNR w'' = Inr start_position"
  by code_simp

theorem fen_roundtrip_witness:
  "from_fen (fen start_position) = Inr start_position \<and> fen start_position = ''rnbakabnr/9/1c5c1/p1p1p1p1p/9/9/P1P1P1P1P/1C5C1/9/RNBAKABNR w''"
proof -
  have "fen start_position = ''rnbakabnr/9/1c5c1/p1p1p1p1p/9/9/P1P1P1P1P/1C5C1/9/RNBAKABNR w''" by code_simp
  with fen_roundtrip [OF start_position_ok] show ?thesis by simp
qed

section \<open>Legal moves\<close>

lemma make_move_safe:
  assumes ok: "position_ok p" and m: "make_move p m = Inr q"
  shows "\<not> attacked (p_board q) (king_square (p_board q) (sign (p_side p))) (- sign (p_side p))"
proof -
  let ?b = "p_board p" and ?k = "sign (p_side p)"
  have len: "length ?b = 90" using ok by (simp add: position_ok_def)
  obtain s t where st: "parse_move p m = Inr (s, t)" "\<not> exposes p s t"
    and q: "q = \<lparr>p_board = moved ?b s t, p_side = other (p_side p)\<rparr>"
    using m by (auto simp: make_move_Inr)
  have p: "s < 90" "t < 90" "0 < ?b ! s * ?k" "t \<in> set (targets ?b s)"
    using st by (auto simp: parse_move_iff [OF len])
  have nz: "?b ! s \<noteq> 0" using p(3) by auto
  note tp = targets_props [OF p(4) nz]
  have sd: "side_of (?b ! s) = ?k" using p(3) by (rule sign_side)
  have ne: "s \<noteq> t" using p(3) tp(2) sd by auto
  have kk: "?k = 1 \<or> ?k = - 1" by (cases "p_side p") auto
  then have "king_ok ?b ?k" using ok by (auto simp: position_ok_def)
  then obtain i where i: "king_at ?b ?k i" by (auto simp: king_ok_def)
  have kt: "?b ! t \<noteq> ?k" using tp(3) kk by auto
  have "king_at (moved ?b s t) ?k (if ?b ! s = ?k then t else i)"
    using king_moved [OF _ _ ne kt _ i] p(1,2) len kk by auto
  then have "king_square (moved ?b s t) ?k = (if ?b ! s = ?k then t else i)" by (rule king_square_at)
  moreover have "\<bar>?b ! s\<bar> = 1 \<longleftrightarrow> ?b ! s = ?k" using p(3) kk by auto
  ultimately have "king_square (moved ?b s t) ?k = king_after p s t"
    using king_square_at [OF i] by (simp add: king_after_def)
  then show ?thesis using st(2) by (simp add: exposes_def q)
qed

lemma make_move_side: "make_move p m = Inr q \<Longrightarrow> p_side q = other (p_side p)"
  by (auto simp: make_move_Inr)

text \<open>\<open>make\<close> and \<open>legal_moves\<close> agree: a move is either refused and not listed, or listed and played, and then the
  position is again well formed, the other side is to move and the mover's own king is not left attacked.\<close>

theorem xiangqi_moves:
  assumes "position_ok p"
  shows "case make_move p m of
      Inl _ \<Rightarrow> m \<notin> set (legal_moves p)
    | Inr q \<Rightarrow> m \<in> set (legal_moves p) \<and> position_ok q \<and> p_side q = other (p_side p)
        \<and> \<not> attacked (p_board q) (king_square (p_board q) (sign (p_side p))) (- sign (p_side p))"
proof (cases "make_move p m")
  case (Inl e)
  then show ?thesis using xiangqi.make_iff [OF assms, of m] by simp
next
  case (Inr q)
  then show ?thesis
    using xiangqi.make_iff [OF assms, of m] make_move_ok [OF assms Inr] make_move_safe [OF assms Inr]
      make_move_side [OF Inr] by simp
qed

theorem xiangqi_moves_witness: "\<exists>q. make_move start_position ''b2b9'' = Inr q \<and> position_ok q \<and> ''b2b9'' \<in> set (legal_moves start_position)"
proof -
  have "case make_move start_position ''b2b9'' of Inl _ \<Rightarrow> False | Inr _ \<Rightarrow> True" by code_simp
  with xiangqi_moves [OF start_position_ok, of "''b2b9''"] show ?thesis by (auto split: sum.splits)
qed

section \<open>Games end\<close>

definition pieces :: "board \<Rightarrow> nat" where
  "pieces b = length (filter (\<lambda>c. c \<noteq> 0) b)"

lemma pieces_update:
  "i < length b \<Longrightarrow> pieces (b[i := x]) + (if b ! i = 0 then 0 else 1) = pieces b + (if x = 0 then 0 else 1)"
proof (induction b arbitrary: i)
  case (Cons c b)
  show ?case
  proof (cases i)
    case (Suc j)
    then show ?thesis using Cons.IH [of j] Cons.prems by (cases "c = 0") (simp_all add: pieces_def split del: if_split)
  qed (simp add: pieces_def)
qed simp

lemma pieces_moved:
  assumes "s < length b" "t < length b" "s \<noteq> t" "b ! s \<noteq> 0"
  shows "pieces (moved b s t) + (if b ! t = 0 then 0 else 1) = pieces b"
  using pieces_update [of s b 0] pieces_update [of t "b[s := 0]" "b ! s"] assms by (auto simp: moved_def split: if_splits)

definition plies_left :: "history \<Rightarrow> nat" where
  "plies_left h = 120 * pieces (p_board (h_position h)) + (120 - h_quiet h)"

lemma outcome_step_legal:
  assumes ok: "position_ok (h_position h)" and m: "m \<in> set (legal_moves (h_position h))"
  shows "\<exists>h' r. outcome_step h m = Inr (h', r) \<and> make_move (h_position h) m = Inr (h_position h')
    \<and> position_ok (h_position h')
    \<and> (r = None \<longrightarrow> h_quiet h < 120 \<longrightarrow> plies_left h' < plies_left h \<and> h_quiet h' < 120 \<and> terminal (h_position h') = None)"
proof -
  let ?p = "h_position h" and ?b = "p_board (h_position h)"
  obtain q where q: "make_move ?p m = Inr q" "position_ok q" using xiangqi.make_total [OF ok m] by blast
  have len: "length ?b = 90" using ok by (simp add: position_ok_def)
  obtain s t where st: "parse_move ?p m = Inr (s, t)"
    and qe: "q = \<lparr>p_board = moved ?b s t, p_side = other (p_side ?p)\<rparr>"
    using q(1) by (auto simp: make_move_Inr)
  have p: "s < 90" "t < 90" "0 < ?b ! s * sign (p_side ?p)" "t \<in> set (targets ?b s)"
    and mst: "m = square_name s @ square_name t"
    using st by (auto simp: parse_move_iff [OF len])
  have nz: "?b ! s \<noteq> 0" using p(3) by auto
  have ne: "s \<noteq> t" using p(3) targets_props(2) [OF p(4) nz] sign_side [OF p(3)] by auto
  have pc: "pieces (p_board q) + (if ?b ! t = 0 then 0 else 1) = pieces ?b"
    using pieces_moved [OF _ _ ne nz] p(1,2) len by (simp add: qe)
  have at: "piece_at ?p (drop 2 m) = Inr (if ?b ! t = 0 then None else Some (piece_letter (?b ! t)))"
    using p(2) by (simp add: piece_at_def mst move_split square_index_name)
  show ?thesis
    using q pc by (auto simp: outcome_step_def at Let_def plies_left_def split: option.splits if_splits)
qed

text \<open>A game: any sequence of moves, each of them accepted by \<open>make\<close> where it is played, which are the legal moves (theorem
  \<open>xiangqi_moves\<close>). Nothing is said of how the players choose.\<close>

fun legal_game :: "position \<Rightarrow> string list \<Rightarrow> bool" where
  "legal_game p [] = True"
| "legal_game p (m # ms) = (case make_move p m of Inl _ \<Rightarrow> False | Inr q \<Rightarrow> legal_game q ms)"

lemma game_ends:
  assumes "position_ok (h_position h)" "terminal (h_position h) = None" "h_quiet h < 120" "legal_game (h_position h) moves"
  shows "case outcome_run h moves of Inl _ \<Rightarrow> False
    | Inr None \<Rightarrow> length moves < plies_left h \<and> (\<exists>m. legal_game (h_position h) (moves @ [m]))
    | Inr (Some v) \<Rightarrow> True"
  using assms
proof (induction moves arbitrary: h)
  case Nil
  have "legal_moves (h_position h) \<noteq> []" using Nil.prems(2) by (auto simp: terminal_def split: if_splits)
  then have m: "hd (legal_moves (h_position h)) \<in> set (legal_moves (h_position h))" (is "?m \<in> _") by simp
  then obtain q where "make_move (h_position h) ?m = Inr q" using xiangqi.make_total [OF Nil.prems(1)] by blast
  then have "legal_game (h_position h) [?m]" by simp
  moreover have "0 < plies_left h" using Nil.prems(3) by (simp add: plies_left_def)
  ultimately show ?case by auto
next
  case (Cons m ms)
  have m: "m \<in> set (legal_moves (h_position h))"
    using Cons.prems(4) xiangqi.make_iff [OF Cons.prems(1), of m] by (auto split: sum.splits)
  from outcome_step_legal [OF Cons.prems(1) m] obtain h' r
    where r: "outcome_step h m = Inr (h', r)" "make_move (h_position h) m = Inr (h_position h')" "position_ok (h_position h')"
      "r = None \<longrightarrow> h_quiet h < 120 \<longrightarrow> plies_left h' < plies_left h \<and> h_quiet h' < 120 \<and> terminal (h_position h') = None"
    by blast
  show ?case
  proof (cases r)
    case None
    have "plies_left h' < plies_left h" "h_quiet h' < 120" "terminal (h_position h') = None" using r(4) None Cons.prems(3) by auto
    moreover have "legal_game (h_position h') ms" using Cons.prems(4) r(2) by simp
    ultimately have "case outcome_run h' ms of Inl _ \<Rightarrow> False
      | Inr None \<Rightarrow> length ms < plies_left h' \<and> (\<exists>m. legal_game (h_position h') (ms @ [m])) | Inr (Some v) \<Rightarrow> True"
      using Cons.IH [OF r(3)] by blast
    then show ?thesis using r(1,2) None \<open>plies_left h' < plies_left h\<close> by (auto split: sum.splits option.splits)
  qed (use r(1) in simp)
qed

text \<open>C18. Every game ends: however the two sides choose among their legal moves from a well-formed position, the history is never
  refused, and as long as it has no verdict it is shorter than 120 plies for each piece on the board and 120 more and there is a legal
  move to continue with.\<close>

theorem xiangqi_ends:
  assumes "position_ok p" "legal_game p moves"
  shows "case outcome p moves of Inl _ \<Rightarrow> False
    | Inr None \<Rightarrow> length moves < 120 * pieces (p_board p) + 120 \<and> (\<exists>m. legal_game p (moves @ [m]))
    | Inr (Some v) \<Rightarrow> True"
proof (cases "terminal p")
  case None
  have st: "h_position (start_history p) = p" "h_quiet (start_history p) = 0"
    "plies_left (start_history p) = 120 * pieces (p_board p) + 120" by (simp_all add: start_history_def plies_left_def)
  show ?thesis using game_ends [of "start_history p" moves, unfolded st] assms None by (simp add: outcome_def)
qed (simp add: outcome_def)

text \<open>Two rooks that go back and forth: the third return to the first position is a draw by repetition. The position is visited with
  different moves played from it.\<close>

definition demo_game :: "string list" where
  "demo_game = [''a0a1'', ''a9a8'', ''a1a0'', ''a8a9'', ''i0i1'', ''i9i8'']"

theorem xiangqi_ends_witness: "case outcome start_position demo_game of Inl _ \<Rightarrow> False
    | Inr None \<Rightarrow> length demo_game < 120 * 32 + 120 \<and> (\<exists>m. legal_game start_position (demo_game @ [m])) | Inr (Some v) \<Rightarrow> True"
proof -
  have pc: "pieces (p_board start_position) = 32" by code_simp
  have g: "legal_game start_position demo_game" by code_simp
  show ?thesis using xiangqi_ends [OF start_position_ok g] unfolding pc .
qed

section \<open>The robot\<close>

lemma piece_value_nonneg: "0 \<le> piece_value c"
  by (simp add: piece_value_def Let_def)

lemma move_score_nonneg: "0 \<le> move_score p m"
  by (auto simp: move_score_def piece_value_nonneg split: option.split sum.split)

lemma best_moves_in:
  "set (best_moves p ms cs best) \<subseteq> set ms \<union> set cs"
proof (induction ms arbitrary: cs best)
  case (Cons m ms)
  show ?case using Cons [of "[m]"] Cons [of "cs @ [m]"] Cons [of cs] by (simp add: Let_def) blast
qed simp

lemma best_moves_keep: "cs \<noteq> [] \<Longrightarrow> best_moves p ms cs best \<noteq> []"
  by (induction ms arbitrary: cs best) (auto simp: Let_def)

lemma best_moves_some:
  assumes "ms \<noteq> []"
  shows "best_moves p ms [] (- 1) \<noteq> []"
proof -
  obtain m ms' where m: "ms = m # ms'" using assms by (cases ms) auto
  have "- 1 < move_score p m" using move_score_nonneg [of p m] by linarith
  then show ?thesis by (simp add: m best_moves_keep Let_def)
qed

lemma fallback_legal: "choosy choice \<Longrightarrow> moves \<noteq> [] \<Longrightarrow> fallback choice p moves \<in> set moves"
  using choosyD [OF _ best_moves_some, of choice moves p] best_moves_in [of p moves "[]"] by (auto simp: fallback_def)

text \<open>C19. Whatever the external engine replied and whatever the random generator drew, the Xiangqi robot answers a legal move of the
  position it was given, and answers nothing only when there is none.\<close>

theorem xiangqi_robot_legal:
  assumes "choosy choice" "from_fen text = Inr p"
  shows "case robot_move choice r reply text level of
      Inl _ \<Rightarrow> False | Inr None \<Rightarrow> legal_moves p = [] | Inr (Some m) \<Rightarrow> m \<in> set (legal_moves p)"
  using assms choosyD [OF assms(1), of "legal_moves p"] fallback_legal [OF assms(1), of "legal_moves p" p]
  by (simp add: robot_move_def Let_def split: option.split)

theorem xiangqi_robot_legal_witness:
  "case robot_move hd 1 (Some ''a0a9'') ''rnbakabnr/9/1c5c1/p1p1p1p1p/9/9/P1P1P1P1P/1C5C1/9/RNBAKABNR w'' HardLevel of
      Inl _ \<Rightarrow> False | Inr None \<Rightarrow> legal_moves start_position = [] | Inr (Some m) \<Rightarrow> m \<in> set (legal_moves start_position)"
  by (rule xiangqi_robot_legal [OF choosy_hd start_position_read])

end
