(* ===== verification/DiceRules.thy ===== *)
theory DiceRules
  imports CashBook
begin

text \<open>
  \<^verbatim>\<open>backend/app/modules/dice_rules.py\<close> and \<^verbatim>\<open>dice_banker.py\<close>: the seven betting pools on three dice, the settlement
  of one pool by largest remainder, and the settlement of a round against a member who keeps the bank. A Chinese label
  is the byte string of its UTF-8 encoding, which orders as the code points do. The SHA-256 tie-break is the parameter
  \<open>tie\<close>.
\<close>

section \<open>Pools and options\<close>

datatype dice_error =
    Play play_error | InvalidDice | UnknownPool | PoolNotConserved | BankerBet | BankerExposure
  | BankerDice | BankerNotConserved | TotalNotBounded

definition playing :: "play_error + 'a \<Rightarrow> dice_error + 'a" where
  "playing r = (case r of Inl e \<Rightarrow> Inl (Play e) | Inr a \<Rightarrow> Inr a)"

lemma playing_Inr [simp]: "playing r = Inr a \<longleftrightarrow> r = Inr a"
  by (cases r) (auto simp: playing_def)

lemma playing_simps [simp]: "playing (Inr a) = Inr a" "playing (Inl e) = Inl (Play e)"
  by (simp_all add: playing_def)

definition digit :: "int \<Rightarrow> char" where
  "digit n = ''0123456789'' ! nat n"

definition number :: "int \<Rightarrow> string" where
  "number n = (if n < 10 then [digit n] else [digit (n div 10), digit (n mod 10)])"

definition BIG :: string where "BIG = [CHR 0xE5, CHR 0xA4, CHR 0xA7]"
definition SMALL :: string where "SMALL = [CHR 0xE5, CHR 0xB0, CHR 0x8F]"
definition ODD :: string where "ODD = [CHR 0xE5, CHR 0x8D, CHR 0x95]"
definition EVEN :: string where "EVEN = [CHR 0xE5, CHR 0x8F, CHR 0x8C]"
definition TRIPLE :: string where "TRIPLE = [CHR 0xE8, CHR 0xB1, CHR 0xB9, CHR 0xE5, CHR 0xAD, CHR 0x90]"
definition NO_TRIPLE :: string where "NO_TRIPLE = [CHR 0xE6, CHR 0x97, CHR 0xA0] @ TRIPLE"
definition ANY_TRIPLE :: string where "ANY_TRIPLE = [CHR 0xE4, CHR 0xBB, CHR 0xBB, CHR 0xE6, CHR 0x84, CHR 0x8F] @ TRIPLE"

text \<open>\<open>itertools.combinations(xs, 2)\<close>.\<close>

fun pairs :: "'a list \<Rightarrow> ('a \<times> 'a) list" where
  "pairs [] = []"
| "pairs (x # xs) = map (\<lambda>y. (x, y)) xs @ pairs xs"

definition combo :: "int \<times> int \<Rightarrow> string" where
  "combo p = number (fst p) @ ''+'' @ number (snd p)"

definition POOLS :: "(string \<times> string list) list" where
  "POOLS =
     [(''size'', [BIG, SMALL]), (''parity'', [ODD, EVEN]), (''single'', map number [1..6]),
      (''double'', map (\<lambda>i. number i @ number i) [1..6]), (''combo'', map combo (pairs [1..6])),
      (''triple'', [NO_TRIPLE, ANY_TRIPLE] @ map (\<lambda>i. number i @ number i @ number i) [1..6]),
      (''total'', map number [3..18])]"

text \<open>A combination may be typed in either order: \<open>5+2\<close> is read as \<open>2+5\<close>.\<close>

definition sort_combo :: "string \<Rightarrow> string" where
  "sort_combo option =
     (case option of
        [a, c, b] \<Rightarrow>
          if c = CHR ''+'' \<and> a \<in> set ''123456'' \<and> b \<in> set ''123456'' then
            (if a \<le> b then [a, c, b] else [b, c, a])
          else option
      | _ \<Rightarrow> option)"

definition normalize :: "string \<Rightarrow> string \<Rightarrow> play_error + string" where
  "normalize pool option =
     (let o' = (if pool = ''combo'' then sort_combo option else option) in
      case map_of POOLS pool of
        None \<Rightarrow> Inl InvalidOption
      | Some options \<Rightarrow> if o' \<in> set options then Inr o' else Inl InvalidOption)"

section \<open>A betting slip\<close>

type_synonym slip = "((string \<times> string) \<times> int) list"

fun merge_items :: "slip \<Rightarrow> (string \<times> string \<times> int) list \<Rightarrow> play_error + slip" where
  "merge_items merged [] = Inr merged"
| "merge_items merged ((p, option, amount) # items) =
     bindR (normalize p option) (\<lambda>o'.
     bindR (integer amount LStakePoints 1 MAX_INT) (\<lambda>a.
       merge_items (put (p, o') ((case map_of merged (p, o') of None \<Rightarrow> 0 | Some b \<Rightarrow> b) + a) merged) items))"

text \<open>The amounts of equal bets are added, the rows are sorted by pool and option.\<close>

definition validate :: "(string \<times> string \<times> int) list \<Rightarrow> play_error + slip" where
  "validate items =
     (if items = [] then Inl EmptyDraft
      else bindR (merge_items [] items) (\<lambda>merged.
           bindR (integer (asum id merged) LTotalStake 1 MAX_INT) (\<lambda>_.
           Inr (sort_key (\<lambda>row. row) merged))))"

section \<open>What three dice hit\<close>

definition valid_dice :: "int list \<Rightarrow> bool" where
  "valid_dice dice \<longleftrightarrow> length dice = 3 \<and> list_all (\<lambda>d. 1 \<le> d \<and> d \<le> 6) dice"

definition counter :: "int list \<Rightarrow> (int \<times> int) list" where
  "counter dice = map (\<lambda>k. (k, int (count_list dice k))) (rev (remdups (rev dice)))"

definition hits :: "int list \<Rightarrow> dice_error + (string \<times> (string \<times> int) list) list" where
  "hits dice =
     (if \<not> valid_dice dice then Inl InvalidDice
      else
        let count = counter dice; tot = sum_list dice; triple = (length count = 1) in
        Inr [(''size'', if triple then [] else [(if 11 \<le> tot then BIG else SMALL, 1)]),
             (''parity'', if triple then [] else [(if tot mod 2 \<noteq> 0 then ODD else EVEN, 1)]),
             (''single'', map (\<lambda>(k, v). (number k, v)) count),
             (''double'', map (\<lambda>(k, v). (number k @ number k, 1)) (filter (\<lambda>(k, v). 2 \<le> v) count)),
             (''combo'', map (\<lambda>p. (combo p, 1)) (pairs (sort (map fst count)))),
             (''triple'', if triple then [(ANY_TRIPLE, 1), (number (hd dice) @ number (hd dice) @ number (hd dice), 1)]
                          else [(NO_TRIPLE, 1)]),
             (''total'', [(number tot, 1)])])"

section \<open>Settling a pool\<close>

record bet =
  b_ticket :: string
  b_user :: uid
  b_option :: string
  b_amount :: int

record stake =
  u_invested :: int
  u_winning :: int
  u_weight :: int
  u_bonus :: int
  u_extra :: int
  u_returned :: int
  u_net :: int
  u_refund :: int

datatype pool_reason = Contested | NoStake | BeaconTimeout | NoHit | NoLoser | TripleRefund

record allocation =
  a_total :: int
  a_reason :: pool_reason
  a_users :: "(uid \<times> stake) list"

definition no_stake :: stake where
  "no_stake = \<lparr>u_invested = 0, u_winning = 0, u_weight = 0, u_bonus = 0, u_extra = 0, u_returned = 0, u_net = 0, u_refund = 0\<rparr>"

definition winning_weight :: "(string \<times> int) list \<Rightarrow> string \<Rightarrow> int" where
  "winning_weight winning option = (case map_of winning option of None \<Rightarrow> 0 | Some w \<Rightarrow> w)"

definition add_stake :: "int \<Rightarrow> int \<Rightarrow> stake \<Rightarrow> stake" where
  "add_stake amount weight u =
     (let v = u\<lparr>u_invested := u_invested u + amount\<rparr> in
      if weight = 0 then v
      else v\<lparr>u_winning := u_winning v + amount, u_weight := u_weight v + amount * weight\<rparr>)"

fun collect_stakes :: "string \<Rightarrow> (string \<times> int) list \<Rightarrow> (uid \<times> stake) list \<Rightarrow> bet list \<Rightarrow> play_error + (uid \<times> stake) list" where
  "collect_stakes pool winning users [] = Inr users"
| "collect_stakes pool winning users (b # bets) =
     bindR (integer (b_amount b) LQuantity 1 MAX_INT) (\<lambda>amount.
     bindR (normalize pool (b_option b)) (\<lambda>_.
       collect_stakes pool winning
         (put (b_user b) (add_stake amount (winning_weight winning (b_option b))
            (case map_of users (b_user b) of None \<Rightarrow> no_stake | Some u \<Rightarrow> u)) users) bets))"

definition pool_reason_of :: "string \<Rightarrow> int list \<Rightarrow> bool \<Rightarrow> int \<Rightarrow> int \<Rightarrow> pool_reason" where
  "pool_reason_of pool dice force_refund tot win =
     (if dice \<noteq> [] \<and> length (remdups dice) = 1 \<and> pool \<in> {''size'', ''parity''}
      then (if tot \<noteq> 0 then TripleRefund else NoStake)
      else if tot = 0 then NoStake
      else if force_refund then BeaconTimeout
      else if win = 0 then NoHit
      else if tot - win = 0 then NoLoser
      else Contested)"

definition refund_stake :: "stake \<Rightarrow> stake" where
  "refund_stake u = u\<lparr>u_returned := u_invested u, u_net := 0, u_refund := u_invested u\<rparr>"

definition floor_bonus :: "int \<Rightarrow> int \<Rightarrow> stake \<Rightarrow> int" where
  "floor_bonus lost weight u = (if u_weight u = 0 then 0 else lost * u_weight u div weight)"

definition remainder_order :: "(uid \<Rightarrow> string) \<Rightarrow> int \<Rightarrow> int \<Rightarrow> uid \<times> stake \<Rightarrow> int \<times> string \<times> string" where
  "remainder_order tie lost weight p = (- (lost * u_weight (snd p) mod weight), tie (fst p), fst p)"

text \<open>The winners that receive one unit of what the floors leave over.\<close>

definition lucky :: "(uid \<Rightarrow> string) \<Rightarrow> int \<Rightarrow> int \<Rightarrow> (uid \<times> stake) list \<Rightarrow> uid list" where
  "lucky tie lost weight users =
     map fst (take (nat (lost - asum (floor_bonus lost weight) users))
       (sort_key (remainder_order tie lost weight) (filter (\<lambda>p. u_weight (snd p) \<noteq> 0) users)))"

definition pay_stake :: "int \<Rightarrow> int \<Rightarrow> uid list \<Rightarrow> uid \<times> stake \<Rightarrow> uid \<times> stake" where
  "pay_stake lost weight extra p =
     (let u = snd p; one = (if fst p \<in> set extra then 1 else 0);
          bonus = floor_bonus lost weight u + one; returned = u_winning u + bonus in
      (fst p, u\<lparr>u_bonus := bonus, u_extra := one, u_returned := returned, u_net := returned - u_invested u, u_refund := 0\<rparr>))"

definition share_out :: "(uid \<Rightarrow> string) \<Rightarrow> int \<Rightarrow> (uid \<times> stake) list \<Rightarrow> (uid \<times> stake) list" where
  "share_out tie lost users =
     (let weight = asum u_weight users in map (pay_stake lost weight (lucky tie lost weight users)) users)"

definition settle_pool :: "(uid \<Rightarrow> string) \<Rightarrow> string \<Rightarrow> bet list \<Rightarrow> int list \<Rightarrow> bool \<Rightarrow> dice_error + allocation" where
  "settle_pool tie pool bets dice force_refund =
     bindR (if dice = [] then Inr [] else bindR (hits dice) (\<lambda>h.
              case map_of h pool of None \<Rightarrow> Inl UnknownPool | Some w \<Rightarrow> Inr w)) (\<lambda>winning.
     bindR (playing (collect_stakes pool winning [] bets)) (\<lambda>users.
       let tot = asum u_invested users; win = asum u_winning users;
           reason = pool_reason_of pool dice force_refund tot win;
           paid = (if reason \<noteq> Contested then map (\<lambda>(k, u). (k, refund_stake u)) users
                   else share_out tie (tot - win) users)
       in bindR (playing (integer tot LQuantity 0 MAX_INT)) (\<lambda>_.
          if asum u_returned paid \<noteq> tot then Inl PoolNotConserved
          else Inr \<lparr>a_total = tot, a_reason = reason, a_users = paid\<rparr>)))"

section \<open>Settling against a banker\<close>

record side_stakes =
  on_big :: int
  on_small :: int

record outcome =
  o_invested :: int
  o_returned :: int
  o_net :: int

record bank =
  bank_user :: uid
  bank_tg :: string
  bank_capital :: int

record banker_result =
  r_total :: int
  r_reason :: pool_reason
  r_users :: "(uid \<times> outcome) list"
  r_banker :: outcome

definition add_side :: "string \<Rightarrow> int \<Rightarrow> side_stakes \<Rightarrow> side_stakes" where
  "add_side option amount s =
     (if option = BIG then s\<lparr>on_big := on_big s + amount\<rparr> else s\<lparr>on_small := on_small s + amount\<rparr>)"

fun collect_sides :: "uid \<Rightarrow> (uid \<times> side_stakes) list \<Rightarrow> bet list \<Rightarrow> dice_error + (uid \<times> side_stakes) list" where
  "collect_sides house stakes [] = Inr stakes"
| "collect_sides house stakes (b # bets) =
     (if b_user b = house \<or> b_option b \<notin> {BIG, SMALL} then Inl BankerBet
      else bindR (playing (integer (b_amount b) LBetPoints 1 MAX_INT)) (\<lambda>amount.
        collect_sides house
          (put (b_user b) (add_side (b_option b) amount
             (case map_of stakes (b_user b) of None \<Rightarrow> \<lparr>on_big = 0, on_small = 0\<rparr> | Some s \<Rightarrow> s)) stakes) bets))"

definition winner_of :: "pool_reason \<Rightarrow> int list \<Rightarrow> string option" where
  "winner_of reason dice =
     (if reason \<noteq> Contested \<or> length (remdups dice) = 1 then None
      else if 11 \<le> sum_list dice then Some BIG else Some SMALL)"

definition side_of_winner :: "string option \<Rightarrow> side_stakes \<Rightarrow> int" where
  "side_of_winner winner s =
     (case winner of None \<Rightarrow> 0 | Some w \<Rightarrow> if w = BIG then on_big s else on_small s)"

definition banker_outcome :: "pool_reason \<Rightarrow> string option \<Rightarrow> side_stakes \<Rightarrow> outcome" where
  "banker_outcome reason winner s =
     (let invested = on_big s + on_small s;
          returned = (if reason \<noteq> Contested then invested else 2 * side_of_winner winner s)
      in \<lparr>o_invested = invested, o_returned = returned, o_net = returned - invested\<rparr>)"

definition settle_banker :: "bet list \<Rightarrow> int list \<Rightarrow> bank \<Rightarrow> bool \<Rightarrow> dice_error + banker_result" where
  "settle_banker bets dice b force_refund =
     bindR (playing (integer (bank_capital b) LCapital 1 MAX_INT)) (\<lambda>capital.
     bindR (collect_sides (bank_user b) [] bets) (\<lambda>stakes.
       let big = asum on_big stakes; small = asum on_small stakes; tot = big + small in
       bindR (playing (integer (capital + tot) LEscrowTotal 1 MAX_INT)) (\<lambda>_.
       if capital < \<bar>big - small\<bar> then Inl BankerExposure
       else
         let reason = (if force_refund then BeaconTimeout else if tot = 0 then NoStake else Contested) in
         if reason = Contested \<and> \<not> valid_dice dice then Inl BankerDice
         else
           let winner = winner_of reason dice;
               users = map (\<lambda>(k, s). (k, banker_outcome reason winner s)) stakes;
               net = tot - asum o_returned users;
               house = \<lparr>o_invested = capital, o_returned = capital + net, o_net = net\<rparr>
           in if o_returned house < 0 \<or> asum o_returned users + o_returned house \<noteq> capital + tot
              then Inl BankerNotConserved
              else Inr \<lparr>r_total = tot, r_reason = reason, r_users = users, r_banker = house\<rparr>)))"

end
