(* ===== verification/DiceSettle.thy ===== *)
theory DiceSettle
  imports DiceRules
begin

text \<open>
  Settlement of a dice round: the largest-remainder rule pays out exactly what was staked, the final assertion of each
  settlement is never reached, and the table of winning options is the one the rules state.
\<close>

section \<open>Largest remainder\<close>

lemma asum_map_snd: "asum f (map (\<lambda>(k, v). (k, g v)) al) = asum (\<lambda>v. f (g v)) al"
  by (simp add: asum_def comp_def split_def)

lemma asum_add: "asum (\<lambda>v. f v + g v) al = asum f al + asum g al"
  by (simp add: asum_def sum_list_addf)

lemma asum_mult: "asum (\<lambda>v. c * f v) al = c * asum f al"
  by (induction al) (auto simp: algebra_simps)

lemma asum_mono: "(\<And>k v. (k, v) \<in> set al \<Longrightarrow> f v \<le> g v) \<Longrightarrow> asum f al \<le> asum g al"
  by (induction al) (fastforce intro: add_mono)+

lemma asum_cong: "(\<And>k v. (k, v) \<in> set al \<Longrightarrow> f v = g v) \<Longrightarrow> asum f al = asum g al"
  by (induction al) fastforce+

lemma asum_nonneg: "(\<And>k v. (k, v) \<in> set al \<Longrightarrow> 0 \<le> f v) \<Longrightarrow> 0 \<le> asum f al"
  using asum_mono [of al "\<lambda>_. 0" f] asum_mult [of 0 "\<lambda>_. 0" al] by simp

lemma asum_member_le:
  "(\<And>k v. (k, v) \<in> set al \<Longrightarrow> 0 \<le> f v) \<Longrightarrow> (k, v) \<in> set al \<Longrightarrow> f v \<le> asum f al"
proof (induction al)
  case (Cons p al)
  have "0 \<le> asum f al" using Cons.prems(1) by (intro asum_nonneg) auto
  moreover have "0 \<le> f (snd p)" using Cons.prems(1) [of "fst p" "snd p"] by simp
  ultimately show ?case using Cons by fastforce
qed simp

lemma count_keys:
  assumes "keyed al" "distinct ks" "set ks \<subseteq> fst ` set al"
  shows "sum_list (map (\<lambda>p. if fst p \<in> set ks then 1 else 0) al) = int (length ks)"
proof -
  have d: "distinct (map fst (filter (\<lambda>p. fst p \<in> set ks) al))" using assms(1) by (simp add: distinct_map_filter)
  have "set (map fst (filter (\<lambda>p. fst p \<in> set ks) al)) = set ks" using assms(3) by auto
  then have "length (map fst (filter (\<lambda>p. fst p \<in> set ks) al)) = length ks"
    using distinct_card [OF d] distinct_card [OF assms(2)] by simp
  then show ?thesis by (simp add: sum_list_map_if_filter)
qed

text \<open>The floors leave over at most one unit per winner.\<close>

lemma floors_left_over:
  assumes w: "\<And>k u. (k, u) \<in> set al \<Longrightarrow> 0 \<le> u_weight u" and W: "0 < asum u_weight al" and lost: "0 \<le> lost"
  defines "R \<equiv> lost - asum (floor_bonus lost (asum u_weight al)) al"
  shows "0 \<le> R \<and> R \<le> int (length (filter (\<lambda>p. u_weight (snd p) \<noteq> 0) al))"
proof -
  let ?W = "asum u_weight al" and ?n = "length (filter (\<lambda>p. u_weight (snd p) \<noteq> 0) al)"
  let ?m = "\<lambda>u. lost * u_weight u mod ?W"
  have split: "lost * u_weight u = ?W * floor_bonus lost ?W u + ?m u" for u
    by (simp add: floor_bonus_def)
  have "lost * ?W = asum (\<lambda>u. ?W * floor_bonus lost ?W u + ?m u) al"
    using split by (simp add: asum_mult [symmetric] cong: asum_cong)
  also have "\<dots> = ?W * asum (floor_bonus lost ?W) al + asum ?m al" by (simp add: asum_add asum_mult)
  finally have WR: "?W * R = asum ?m al" by (simp add: R_def algebra_simps)
  have "asum ?m al \<le> asum (\<lambda>u. if u_weight u \<noteq> 0 then ?W else 0) al"
    using W by (intro asum_mono) (auto simp: less_imp_le)
  also have "\<dots> = int ?n * ?W"
    by (simp add: asum_def sum_list_map_if_filter)
  finally have "?W * R \<le> ?W * int ?n" unfolding WR by (simp add: mult.commute)
  moreover have "0 \<le> ?W * R" unfolding WR using W by (intro asum_nonneg) simp
  ultimately show ?thesis using W by (simp add: zero_le_mult_iff)
qed

lemma keyed_sort: "keyed (filter P al) \<Longrightarrow> keyed (sort_key f (filter P al))"
  by (simp add: distinct_map)

lemma lucky_keys:
  "set (lucky tie lost W al) \<subseteq> fst ` set al" "keyed al \<Longrightarrow> distinct (lucky tie lost W al)"
proof -
  show "set (lucky tie lost W al) \<subseteq> fst ` set al" by (auto simp: lucky_def dest!: in_set_takeD)
  assume "keyed al"
  then show "distinct (lucky tie lost W al)"
    unfolding lucky_def take_map [symmetric] by (intro distinct_take keyed_sort distinct_map_filter)
qed

lemma share_out_returned:
  assumes "keyed al" "\<And>k u. (k, u) \<in> set al \<Longrightarrow> 0 \<le> u_weight u" "0 < asum u_weight al" "0 \<le> lost"
  shows "asum u_returned (share_out tie lost al) = asum u_winning al + lost"
proof -
  let ?W = "asum u_weight al"
  let ?ks = "lucky tie lost ?W al" and ?R = "lost - asum (floor_bonus lost ?W) al"
  have R: "0 \<le> ?R" "?R \<le> int (length (filter (\<lambda>p. u_weight (snd p) \<noteq> 0) al))"
    using floors_left_over [OF assms(2-4)] by auto
  then have len: "int (length ?ks) = ?R" by (simp add: lucky_def)
  have "asum u_returned (share_out tie lost al) =
      sum_list (map (\<lambda>p. u_winning (snd p) + floor_bonus lost ?W (snd p) + (if fst p \<in> set ?ks then 1 else 0)) al)"
    by (simp add: share_out_def asum_def pay_stake_def Let_def comp_def add.assoc)
  also have "\<dots> = asum u_winning al + asum (floor_bonus lost ?W) al
      + sum_list (map (\<lambda>p. if fst p \<in> set ?ks then 1 else 0) al)"
    by (simp add: asum_def sum_list_addf)
  also have "\<dots> = asum u_winning al + lost"
    using count_keys [OF assms(1) lucky_keys(2) [OF assms(1)] lucky_keys(1)] len by simp
  finally show ?thesis .
qed

section \<open>Collecting the stakes\<close>

definition stake_ok :: "stake \<Rightarrow> bool" where
  "stake_ok u \<longleftrightarrow> 0 \<le> u_winning u \<and> u_winning u \<le> u_invested u \<and> u_winning u \<le> u_weight u \<and> (u_winning u = 0 \<longrightarrow> u_weight u = 0)"

definition stakes_ok :: "(uid \<times> stake) list \<Rightarrow> bool" where
  "stakes_ok al \<longleftrightarrow> keyed al \<and> (\<forall>p \<in> set al. stake_ok (snd p))"

definition positive :: "(string \<times> int) list \<Rightarrow> bool" where
  "positive winning \<longleftrightarrow> (\<forall>p \<in> set winning. 0 < snd p)"

lemma positive_weight: "positive winning \<Longrightarrow> 0 \<le> winning_weight winning option"
  by (fastforce simp: winning_weight_def positive_def split: option.split dest: map_of_SomeD)

lemma stakes_okD: "stakes_ok al \<Longrightarrow> (k, u) \<in> set al \<Longrightarrow> stake_ok u" "stakes_ok al \<Longrightarrow> keyed al"
  by (auto simp: stakes_ok_def)

lemma stake_ok_weight: "stake_ok u \<Longrightarrow> 0 \<le> u_weight u"
  by (auto simp: stake_ok_def)

lemma add_stake_ok: "stake_ok u \<Longrightarrow> 1 \<le> a \<Longrightarrow> 0 \<le> w \<Longrightarrow> stake_ok (add_stake a w u)"
proof -
  assume u: "stake_ok u" and a: "1 \<le> a" and w: "0 \<le> w"
  show ?thesis
  proof (cases "w = 0")
    case False
    then have "a * 1 \<le> a * w" using a w by (intro mult_left_mono) auto
    then have "u_winning u + a \<le> u_weight u + a * w" using u by (simp add: stake_ok_def)
    then show ?thesis using False u a by (auto simp: stake_ok_def add_stake_def Let_def)
  qed (use u a in \<open>auto simp: stake_ok_def add_stake_def Let_def\<close>)
qed

lemma set_put: "set (put k v al) \<subseteq> insert (k, v) (set al)"
  by (induction al) auto

lemma put_stakes_ok: "stakes_ok al \<Longrightarrow> stake_ok u \<Longrightarrow> stakes_ok (put k u al)"
  using set_put [of k u al] by (auto simp: stakes_ok_def)

lemma no_stake_ok: "stake_ok no_stake"
  by (simp add: stake_ok_def no_stake_def)

lemma old_stake_ok: "stakes_ok al \<Longrightarrow> stake_ok (case map_of al k of None \<Rightarrow> no_stake | Some u \<Rightarrow> u)"
  by (auto simp: no_stake_ok split: option.split dest: map_of_SomeD stakes_okD)

lemma add_stake_invested [simp]: "u_invested (add_stake a w u) = u_invested u + a"
  by (simp add: add_stake_def Let_def)

lemma collect_stakes_ok:
  "collect_stakes pool winning al bets = Inr users \<Longrightarrow> stakes_ok al \<Longrightarrow> positive winning \<Longrightarrow>
   stakes_ok users \<and> asum u_invested users = asum u_invested al + sum_list (map b_amount bets)"
proof (induction bets arbitrary: al)
  case (Cons b bets)
  let ?w = "winning_weight winning (b_option b)"
  let ?al = "put (b_user b) (add_stake (b_amount b) ?w (case map_of al (b_user b) of None \<Rightarrow> no_stake | Some u \<Rightarrow> u)) al"
  have b: "collect_stakes pool winning ?al bets = Inr users" "1 \<le> b_amount b" using Cons.prems(1) by auto
  have "stakes_ok ?al"
    by (intro put_stakes_ok Cons.prems(2) add_stake_ok old_stake_ok b(2) positive_weight Cons.prems(3))
  note IH = Cons.IH [OF b(1) this Cons.prems(3)]
  have "asum u_invested ?al = asum u_invested al + b_amount b"
    using Cons.prems(2) by (simp add: asum_put stakes_ok_def no_stake_def split: option.split)
  then show ?case using IH by simp
qed simp

definition bets_valid :: "string \<Rightarrow> bet list \<Rightarrow> bool" where
  "bets_valid pool bets \<longleftrightarrow> list_all (\<lambda>b. 1 \<le> b_amount b \<and> b_amount b \<le> MAX_INT \<and> normalize pool (b_option b) \<noteq> Inl InvalidOption) bets"

lemma normalize_Inr: "(\<exists>o'. normalize pool option = Inr o') \<longleftrightarrow> normalize pool option \<noteq> Inl InvalidOption"
  by (auto simp: normalize_def Let_def split: option.splits)

lemma collect_stakes_total:
  "bets_valid pool bets \<Longrightarrow> \<exists>users. collect_stakes pool winning al bets = Inr users"
proof (induction bets arbitrary: al)
  case (Cons b bets)
  then show ?case using normalize_Inr [of pool "b_option b"] by (auto simp: bets_valid_def)
qed simp

section \<open>The winning options\<close>

lemma hits_positive:
  assumes "hits dice = Inr h" "map_of h pool = Some w"
  shows "positive w"
proof -
  have "0 < v" if "(k, v) \<in> set (counter dice)" for k v
  proof -
    have "k \<in> set dice" "v = int (count_list dice k)" using that by (auto simp: counter_def)
    then show ?thesis using count_list_0_iff [of dice k] by (cases "count_list dice k") auto
  qed
  then show ?thesis
    using assms by (auto simp: hits_def Let_def positive_def split: if_splits)
qed

lemma hits_total: "valid_dice dice \<Longrightarrow> pool \<in> fst ` set POOLS \<Longrightarrow> \<exists>h w. hits dice = Inr h \<and> map_of h pool = Some w"
  by (auto simp: hits_def Let_def POOLS_def)

section \<open>One pool\<close>

lemma contested_shares:
  assumes ok: "stakes_ok users" and win: "asum u_winning users \<noteq> 0"
  shows "asum u_returned (share_out tie (asum u_invested users - asum u_winning users) users) = asum u_invested users"
proof -
  have m: "asum u_winning users \<le> asum u_weight users" "asum u_winning users \<le> asum u_invested users"
    using ok by (auto intro!: asum_mono dest!: stakes_okD(1) simp: stake_ok_def)
  have "0 \<le> asum u_winning users" using ok by (auto intro!: asum_nonneg dest!: stakes_okD(1) simp: stake_ok_def)
  then have W: "0 < asum u_weight users" using m(1) win by linarith
  have lost: "0 \<le> asum u_invested users - asum u_winning users" using m(2) by simp
  show ?thesis
    using share_out_returned [OF stakes_okD(2) [OF ok] _ W lost] stake_ok_weight [OF stakes_okD(1) [OF ok]] by simp
qed

definition paid_stakes :: "(uid \<Rightarrow> string) \<Rightarrow> pool_reason \<Rightarrow> (uid \<times> stake) list \<Rightarrow> (uid \<times> stake) list" where
  "paid_stakes tie reason users =
     (if reason \<noteq> Contested then map (\<lambda>(k, u). (k, refund_stake u)) users
      else share_out tie (asum u_invested users - asum u_winning users) users)"

lemma pool_reason_contested:
  "pool_reason_of pool dice force tot win = Contested \<Longrightarrow> win \<noteq> 0 \<and> tot \<noteq> win \<and> tot \<noteq> 0"
  by (auto simp: pool_reason_of_def split: if_splits)

lemma paid_returned:
  assumes "stakes_ok users" "reason = Contested \<Longrightarrow> asum u_winning users \<noteq> 0"
  shows "asum u_returned (paid_stakes tie reason users) = asum u_invested users"
  using assms contested_shares by (simp add: paid_stakes_def asum_map_snd refund_stake_def)

text \<open>C20. A pool of valid bets always settles: the final assertion of the code never fails, the amounts returned add up to the
  amounts staked, for every pool, every draw (or none, after a beacon timeout) and every tie-break.\<close>

theorem pool_settles:
  assumes "pool \<in> fst ` set POOLS" "bets_valid pool bets" "sum_list (map b_amount bets) \<le> MAX_INT"
    and "dice = [] \<or> valid_dice dice"
  shows "\<exists>r. settle_pool tie pool bets dice force_refund = Inr r \<and> a_total r = sum_list (map b_amount bets)
    \<and> asum u_returned (a_users r) = sum_list (map b_amount bets)"
proof -
  obtain w where w: "(if dice = [] then Inr [] else bindR (hits dice) (\<lambda>h.
      case map_of h pool of None \<Rightarrow> Inl UnknownPool | Some w \<Rightarrow> Inr w)) = Inr w" "positive w"
  proof (cases "dice = []")
    case True
    then show ?thesis by (intro that [of "[]"]) (simp_all add: positive_def)
  next
    case False
    then obtain h v where "hits dice = Inr h" "map_of h pool = Some v"
      using hits_total assms(1,4) by blast
    then show ?thesis using False hits_positive by (intro that [of v]) simp_all
  qed
  obtain users where u: "collect_stakes pool w [] bets = Inr users"
    using collect_stakes_total [OF assms(2)] by blast
  have ok: "stakes_ok users" and inv: "asum u_invested users = sum_list (map b_amount bets)"
    using collect_stakes_ok [OF u _ w(2)] by (simp_all add: stakes_ok_def)
  let ?t = "asum u_invested users" and ?reason = "pool_reason_of pool dice force_refund (asum u_invested users) (asum u_winning users)"
  have paid: "asum u_returned (paid_stakes tie ?reason users) = ?t"
    using paid_returned [OF ok] pool_reason_contested by blast
  have "0 \<le> ?t" using ok by (auto intro!: asum_nonneg dest!: stakes_okD(1) simp: stake_ok_def)
  then have i: "integer ?t LQuantity 0 MAX_INT = Inr ?t" using assms(3) inv by (simp add: integer_def)
  have "settle_pool tie pool bets dice force_refund
      = Inr \<lparr>a_total = ?t, a_reason = ?reason, a_users = paid_stakes tie ?reason users\<rparr>"
    unfolding settle_pool_def w(1) using paid by (simp add: u Let_def i paid_stakes_def [symmetric])
  then show ?thesis using paid inv by auto
qed

theorem pool_settles_witness:
  "\<exists>r. settle_pool (\<lambda>u. u) ''total'' [\<lparr>b_ticket = ''t1'', b_user = ''a'', b_option = ''9'', b_amount = 10\<rparr>,
      \<lparr>b_ticket = ''t2'', b_user = ''b'', b_option = ''10'', b_amount = 7\<rparr>] [2, 5, 2] False = Inr r
    \<and> a_total r = 17 \<and> asum u_returned (a_users r) = 17"
proof -
  let ?bets = "[\<lparr>b_ticket = ''t1'', b_user = ''a'', b_option = ''9'', b_amount = 10\<rparr>,
      \<lparr>b_ticket = ''t2'', b_user = ''b'', b_option = ''10'', b_amount = 7\<rparr>]"
  have "bets_valid ''total'' ?bets" by code_simp
  moreover have "''total'' \<in> fst ` set POOLS" "sum_list (map b_amount ?bets) = 17" "17 \<le> MAX_INT" "valid_dice [2, 5, 2]"
    by (simp_all add: POOLS_def MAX_INT_def valid_dice_def)
  ultimately show ?thesis using pool_settles [of "''total''" ?bets "[2, 5, 2]" "\<lambda>u. u" False] by simp
qed

lemma settle_pool_Inr:
  assumes "settle_pool tie pool bets dice force_refund = Inr r"
  obtains users where "stakes_ok users" "a_total r = asum u_invested users"
    "a_reason r = pool_reason_of pool dice force_refund (asum u_invested users) (asum u_winning users)"
    "a_users r = paid_stakes tie (a_reason r) users"
proof -
  from assms obtain w users where w: "(if dice = [] then Inr [] else bindR (hits dice) (\<lambda>h.
      case map_of h pool of None \<Rightarrow> Inl UnknownPool | Some w \<Rightarrow> Inr w)) = Inr w"
    and u: "collect_stakes pool w [] bets = Inr users"
    and r: "r = \<lparr>a_total = asum u_invested users,
        a_reason = pool_reason_of pool dice force_refund (asum u_invested users) (asum u_winning users),
        a_users = paid_stakes tie (pool_reason_of pool dice force_refund (asum u_invested users) (asum u_winning users)) users\<rparr>"
    unfolding settle_pool_def by (auto simp: Let_def paid_stakes_def)
  have "positive w"
  proof (cases "dice = []")
    case False
    with w show ?thesis by (auto split: option.splits intro: hits_positive)
  qed (use w in \<open>simp add: positive_def\<close>)
  then have "stakes_ok users" using collect_stakes_ok [OF u] by (simp add: stakes_ok_def)
  then show ?thesis using r by (intro that) simp_all
qed

lemma share_out_entry:
  assumes "stakes_ok users" "(k, v) \<in> set (share_out tie lost users)"
  obtains u where "(k, u) \<in> set users" "stake_ok u" "u_weight v = u_weight u" "u_winning v = u_winning u"
    "u_extra v \<in> {0, 1}" "u_weight u = 0 \<Longrightarrow> u_extra v = 0"
    "u_returned v = u_winning u + floor_bonus lost (asum u_weight users) u + u_extra v"
proof -
  obtain u where u: "(k, u) \<in> set users" and v: "(k, v) = pay_stake lost (asum u_weight users) (lucky tie lost (asum u_weight users) users) (k, u)"
    using assms(2) by (auto simp: share_out_def Let_def pay_stake_def)
  have "u_extra v = 0" if z: "u_weight u = 0"
  proof -
    have "k \<notin> set (lucky tie lost (asum u_weight users) users)"
    proof
      assume "k \<in> set (lucky tie lost (asum u_weight users) users)"
      then obtain u' where "(k, u') \<in> set users" "u_weight u' \<noteq> 0" by (auto simp: lucky_def dest!: in_set_takeD)
      then show False using u z stakes_okD(2) [OF assms(1)] by (metis eq_key_imp_eq_value)
    qed
    then show ?thesis using v by (simp add: pay_stake_def Let_def)
  qed
  then show ?thesis using u v stakes_okD(1) [OF assms(1) u] by (intro that [OF u]) (auto simp: pay_stake_def Let_def)
qed

lemma share_out_keeps:
  "asum u_weight (share_out tie lost users) = asum u_weight users"
  "asum u_winning (share_out tie lost users) = asum u_winning users"
  by (simp_all add: share_out_def Let_def asum_def pay_stake_def comp_def)

text \<open>In a contested pool everyone who hit gets the winning stake back and a share of the lost stakes proportional to the
  weight, rounded down or up to the next unit; everyone who did not hit gets nothing.\<close>

theorem contested_pool_shares:
  assumes "settle_pool tie pool bets dice force_refund = Inr r" "a_reason r = Contested" "(k, v) \<in> set (a_users r)"
  defines "lost \<equiv> a_total r - asum u_winning (a_users r)" and "W \<equiv> asum u_weight (a_users r)"
  shows "if u_weight v = 0 then u_returned v = 0
    else u_winning v + lost * u_weight v div W \<le> u_returned v \<and> u_returned v \<le> u_winning v + lost * u_weight v div W + 1"
proof -
  obtain users where ok: "stakes_ok users" and r: "a_total r = asum u_invested users" "a_users r = paid_stakes tie (a_reason r) users"
    using assms(1) by (rule settle_pool_Inr)
  let ?lost = "asum u_invested users - asum u_winning users"
  have us: "a_users r = share_out tie ?lost users" using r(2) assms(2) by (simp add: paid_stakes_def)
  then have lw: "lost = ?lost" "W = asum u_weight users" using r(1) by (simp_all add: lost_def W_def share_out_keeps)
  obtain u where "stake_ok u" "u_weight v = u_weight u" "u_winning v = u_winning u" "u_extra v \<in> {0, 1}"
    "u_weight u = 0 \<Longrightarrow> u_extra v = 0" "u_returned v = u_winning u + floor_bonus ?lost (asum u_weight users) u + u_extra v"
    using share_out_entry [OF ok] assms(3) us by metis
  then show ?thesis unfolding lw by (auto simp: floor_bonus_def stake_ok_def)
qed

theorem contested_pool_shares_witness:
  "\<exists>r v. settle_pool (\<lambda>u. u) ''total'' [\<lparr>b_ticket = ''t1'', b_user = ''a'', b_option = ''9'', b_amount = 10\<rparr>,
      \<lparr>b_ticket = ''t2'', b_user = ''b'', b_option = ''10'', b_amount = 7\<rparr>] [2, 5, 2] False = Inr r
    \<and> (''b'', v) \<in> set (a_users r) \<and> u_returned v = 0"
proof -
  let ?s = "settle_pool (\<lambda>u. u) ''total'' [\<lparr>b_ticket = ''t1'', b_user = ''a'', b_option = ''9'', b_amount = 10\<rparr>,
      \<lparr>b_ticket = ''t2'', b_user = ''b'', b_option = ''10'', b_amount = 7\<rparr>] [2, 5, 2] False"
  let ?v = "\<lparr>u_invested = 7, u_winning = 0, u_weight = 0, u_bonus = 0, u_extra = 0, u_returned = 0, u_net = - 7, u_refund = 0\<rparr>"
  let ?r = "\<lparr>a_total = 17, a_reason = Contested, a_users = [(''a'', \<lparr>u_invested = 10, u_winning = 10, u_weight = 10, u_bonus = 7,
      u_extra = 0, u_returned = 17, u_net = 7, u_refund = 0\<rparr>), (''b'', ?v)]\<rparr>"
  have s: "?s = Inr ?r" by code_simp
  have "u_returned ?v = 0" using contested_pool_shares [OF s, of "''b''" ?v] by simp
  then show ?thesis using s by auto
qed

section \<open>The table of winning options\<close>

lemma map_of_inj_keys:
  "inj_on f (insert k (fst ` set al)) \<Longrightarrow> map_of (map (\<lambda>(k, v). (f k, v)) al) (f k) = map_of al k"
  by (induction al) (auto simp: inj_on_def)

lemma map_of_const: "map_of (map (\<lambda>p. (f p, c)) ps) x = (if x \<in> f ` set ps then Some c else None)"
  by (induction ps) auto

lemma set_pairs: "sorted xs \<Longrightarrow> distinct xs \<Longrightarrow> set (pairs xs) = {(a, b). a \<in> set xs \<and> b \<in> set xs \<and> a < b}"
  for xs :: "int list"
  by (induction xs) fastforce+

lemma counter_map: "map_of (counter dice) k = (if k \<in> set dice then Some (int (count_list dice k)) else None)"
  by (auto simp: counter_def map_of_map_restrict)

lemma number_inj_on: "inj_on number {1..18}"
proof -
  have "distinct (map number [1..18])" by code_simp
  then show ?thesis unfolding distinct_map by simp
qed

lemma number_inj: "a \<in> {1..18} \<Longrightarrow> b \<in> {1..18} \<Longrightarrow> number a = number b \<longleftrightarrow> a = b"
  by (rule inj_on_eq_iff [OF number_inj_on])

lemma number_small: "a < 10 \<Longrightarrow> number a = [digit a]"
  by (simp add: number_def)

lemma digit_inj: "a \<in> {1..6} \<Longrightarrow> b \<in> {1..6} \<Longrightarrow> digit a = digit b \<longleftrightarrow> a = b"
  using number_inj [of a b] by (simp add: number_small)

definition weight_in :: "int list \<Rightarrow> string \<Rightarrow> string \<Rightarrow> int" where
  "weight_in dice pool option =
     (case hits dice of Inl _ \<Rightarrow> 0 | Inr h \<Rightarrow> (case map_of h pool of None \<Rightarrow> 0 | Some w \<Rightarrow> winning_weight w option))"

text \<open>The table that \<open>hits\<close> computes is the one the rules state: a single number pays once for every die that shows it, a
  pair when two dice show it, a combination when both numbers are on the dice, and a total only when it is the sum.\<close>

theorem hits_rule:
  assumes "valid_dice dice" "1 \<le> k" "k < l" "l \<le> 6" "3 \<le> t" "t \<le> 18"
  shows "weight_in dice ''single'' (number k) = int (count_list dice k)
    \<and> weight_in dice ''double'' (number k @ number k) = (if 2 \<le> count_list dice k then 1 else 0)
    \<and> weight_in dice ''combo'' (combo (k, l)) = (if k \<in> set dice \<and> l \<in> set dice then 1 else 0)
    \<and> weight_in dice ''total'' (number t) = (if t = sum_list dice then 1 else 0)"
proof -
  have keys: "fst ` set (counter dice) = set dice" by (force simp: counter_def)
  have d16: "set dice \<subseteq> {1..6}" using assms(1) by (auto simp: valid_dice_def list_all_iff)
  have k16: "k \<in> {1..6}" "l \<in> {1..6}" using assms by auto
  have "inj_on number (insert k (fst ` set (counter dice)))"
    unfolding keys by (rule inj_on_subset [OF number_inj_on]) (use d16 k16 in auto)
  then have single: "map_of (map (\<lambda>(k, v). (number k, v)) (counter dice)) (number k)
      = (if k \<in> set dice then Some (int (count_list dice k)) else None)"
    by (subst map_of_inj_keys) (simp_all add: counter_map)
  have dbl: "number k @ number k \<in> (\<lambda>p. number (fst p) @ number (fst p)) ` set (filter (\<lambda>(k, v). 2 \<le> v) (counter dice))
      \<longleftrightarrow> 2 \<le> count_list dice k"
  proof -
    have "number k @ number k = number a @ number a \<longleftrightarrow> k = a" if "a \<in> set dice" for a
      using that d16 k16 digit_inj [of k a] by (auto simp: number_small)
    moreover have "k \<in> set dice" if "2 \<le> count_list dice k"
      using that count_notin [of k dice] by (cases "k \<in> set dice") auto
    ultimately show ?thesis by (force simp: counter_def)
  qed
  have sorted: "sorted (sort (map fst (counter dice)))" "distinct (sort (map fst (counter dice)))"
    by (simp_all add: counter_def comp_def)
  have cmb: "combo (k, l) \<in> combo ` set (pairs (sort (map fst (counter dice)))) \<longleftrightarrow> k \<in> set dice \<and> l \<in> set dice"
  proof -
    have "combo (k, l) = combo (a, b) \<longleftrightarrow> k = a \<and> l = b" if "a \<in> set dice" "b \<in> set dice" for a b
      using that d16 k16 digit_inj [of k a] digit_inj [of l b] by (auto simp: combo_def number_small)
    then show ?thesis using keys assms(3) unfolding set_pairs [OF sorted] by force
  qed
  have "sum_list dice \<in> {1..18}"
  proof -
    obtain a b c where "dice = [a, b, c]" using assms(1) by (auto simp: valid_dice_def length_Suc_conv numeral_3_eq_3)
    then show ?thesis using d16 by auto
  qed
  then have tt: "number t = number (sum_list dice) \<longleftrightarrow> t = sum_list dice" using assms(5,6) number_inj by simp
  have w: "weight_in dice ''single'' (number k) = winning_weight (map (\<lambda>(k, v). (number k, v)) (counter dice)) (number k)"
    "weight_in dice ''double'' (number k @ number k)
      = winning_weight (map (\<lambda>p. (number (fst p) @ number (fst p), 1)) (filter (\<lambda>(k, v). 2 \<le> v) (counter dice))) (number k @ number k)"
    "weight_in dice ''combo'' (combo (k, l)) = winning_weight (map (\<lambda>p. (combo p, 1)) (pairs (sort (map fst (counter dice))))) (combo (k, l))"
    "weight_in dice ''total'' (number t) = winning_weight [(number (sum_list dice), 1)] (number t)"
    using assms(1) by (simp_all add: weight_in_def hits_def Let_def split_def)
  show ?thesis
    unfolding w winning_weight_def map_of_const single
    using dbl cmb tt count_list_0_iff [of dice k] by simp
qed

theorem hits_rule_witness: "weight_in [2, 5, 2] ''combo'' (combo (2, 5)) = 1"
proof -
  have "valid_dice [2, 5, 2]" by (simp add: valid_dice_def)
  then show ?thesis using hits_rule [of "[2, 5, 2]" 2 5 9] by simp
qed

section \<open>A banker round\<close>

definition banker_bets :: "uid \<Rightarrow> bet list \<Rightarrow> bool" where
  "banker_bets house bets \<longleftrightarrow>
     list_all (\<lambda>b. b_user b \<noteq> house \<and> b_option b \<in> {BIG, SMALL} \<and> 1 \<le> b_amount b \<and> b_amount b \<le> MAX_INT) bets"

definition on_side :: "string \<Rightarrow> bet list \<Rightarrow> int" where
  "on_side option bets = sum_list (map b_amount (filter (\<lambda>b. b_option b = option) bets))"

lemma big_small: "BIG \<noteq> SMALL"
  by code_simp

lemma on_side_sum: "banker_bets house bets \<Longrightarrow> on_side BIG bets + on_side SMALL bets = sum_list (map b_amount bets)"
proof (induction bets)
  case (Cons b bets)
  then show ?case using big_small by (auto simp: on_side_def banker_bets_def)
qed (simp add: on_side_def)

lemma on_side_nonneg: "banker_bets house bets \<Longrightarrow> 0 \<le> on_side option bets"
  unfolding on_side_def by (intro sum_list_int_nonneg) (auto simp: banker_bets_def list_all_iff)

lemma collect_sides_ok:
  "banker_bets house bets \<Longrightarrow> keyed al \<Longrightarrow> \<exists>stakes. collect_sides house al bets = Inr stakes \<and> keyed stakes
     \<and> asum on_big stakes = asum on_big al + on_side BIG bets \<and> asum on_small stakes = asum on_small al + on_side SMALL bets"
proof (induction bets arbitrary: al)
  case (Cons b bets)
  let ?al = "put (b_user b) (add_side (b_option b) (b_amount b)
      (case map_of al (b_user b) of None \<Rightarrow> \<lparr>on_big = 0, on_small = 0\<rparr> | Some s \<Rightarrow> s)) al"
  have b: "banker_bets house bets" "b_user b \<noteq> house" "b_option b = BIG \<or> b_option b = SMALL" "1 \<le> b_amount b" "b_amount b \<le> MAX_INT"
    using Cons.prems(1) by (auto simp: banker_bets_def)
  have "keyed ?al" using Cons.prems(2) by simp
  from Cons.IH [OF b(1) this] obtain stakes where st: "collect_sides house ?al bets = Inr stakes" "keyed stakes"
      "asum on_big stakes = asum on_big ?al + on_side BIG bets" "asum on_small stakes = asum on_small ?al + on_side SMALL bets"
    by blast
  have "collect_sides house al (b # bets) = Inr stakes" using b st(1) by (auto simp: integer_def)
  moreover have "asum on_big ?al = asum on_big al + (if b_option b = BIG then b_amount b else 0)"
    "asum on_small ?al = asum on_small al + (if b_option b = SMALL then b_amount b else 0)"
    using b(3) big_small Cons.prems(2) by (auto simp: asum_put add_side_def split: option.split)
  ultimately show ?case using st by (auto simp: on_side_def)
qed (simp add: on_side_def)

lemma asum_split_sides: "asum (\<lambda>s. on_big s + on_small s) al = asum on_big al + asum on_small al"
  by (rule asum_add)

lemma banker_outcome_returned:
  "o_returned (banker_outcome reason winner s) =
     (if reason \<noteq> Contested then on_big s + on_small s
      else case winner of None \<Rightarrow> 0 | Some w \<Rightarrow> 2 * (if w = BIG then on_big s else on_small s))"
  by (simp add: banker_outcome_def Let_def side_of_winner_def split: option.split)

lemma banker_paid:
  "asum o_returned (map (\<lambda>(k, s). (k, banker_outcome reason winner s)) stakes) =
     (if reason \<noteq> Contested then asum on_big stakes + asum on_small stakes
      else case winner of None \<Rightarrow> 0 | Some w \<Rightarrow> 2 * (if w = BIG then asum on_big stakes else asum on_small stakes))"
  unfolding asum_map_snd banker_outcome_returned
  using asum_mult [of 0 "\<lambda>_. 0" stakes]
  by (auto simp: asum_add asum_mult split: option.split)

lemma settle_banker_runs:
  assumes "banker_bets (bank_user b) bets" "1 \<le> bank_capital b"
    and "bank_capital b + sum_list (map b_amount bets) \<le> MAX_INT"
    and "\<bar>on_side BIG bets - on_side SMALL bets\<bar> \<le> bank_capital b"
    and "force_refund \<or> bets = [] \<or> valid_dice dice"
  shows "\<exists>r. settle_banker bets dice b force_refund = Inr r \<and> r_total r = sum_list (map b_amount bets)
    \<and> 0 \<le> o_returned (r_banker r) \<and> asum o_returned (r_users r) + o_returned (r_banker r) = bank_capital b + sum_list (map b_amount bets)"
proof -
  obtain stakes where st: "collect_sides (bank_user b) [] bets = Inr stakes"
      "asum on_big stakes = on_side BIG bets" "asum on_small stakes = on_side SMALL bets"
    using collect_sides_ok [OF assms(1), of "[]"] by auto
  let ?tot = "on_side BIG bets + on_side SMALL bets"
  have tot: "?tot = sum_list (map b_amount bets)" using assms(1) by (rule on_side_sum)
  have nn: "0 \<le> on_side BIG bets" "0 \<le> on_side SMALL bets" using on_side_nonneg [OF assms(1)] by auto
  let ?reason = "if force_refund then BeaconTimeout else if ?tot = 0 then NoStake else Contested"
  have dice: "?reason = Contested \<Longrightarrow> valid_dice dice"
    using assms(5) tot by (auto split: if_splits)
  let ?users = "map (\<lambda>(k, s). (k, banker_outcome ?reason (winner_of ?reason dice) s)) stakes"
  have net: "asum o_returned ?users \<le> bank_capital b + ?tot"
    using nn assms(2,4) by (auto simp: banker_paid st split: option.split)
  have i: "integer (bank_capital b) LCapital 1 MAX_INT = Inr (bank_capital b)"
    "integer (bank_capital b + ?tot) LEscrowTotal 1 MAX_INT = Inr (bank_capital b + ?tot)"
    using assms(2,3) nn tot by (auto simp: integer_def)
  show ?thesis
    unfolding settle_banker_def
    using dice net i assms(4) nn by (auto simp: Let_def st tot [symmetric])
qed

text \<open>C21. A round kept by a banker always settles, on any dice or by refund: nobody is paid with money that was not staked, what
  the players and the banker get back is the capital and all stakes, and the banker never owes more than the capital.\<close>

theorem banker_settles:
  assumes "banker_bets (bank_user b) bets" "1 \<le> bank_capital b"
    and "bank_capital b + sum_list (map b_amount bets) \<le> MAX_INT"
    and "\<bar>on_side BIG bets - on_side SMALL bets\<bar> \<le> bank_capital b"
    and "force_refund \<or> bets = [] \<or> valid_dice dice"
  shows "\<exists>r. settle_banker bets dice b force_refund = Inr r \<and> 0 \<le> o_returned (r_banker r)
    \<and> asum o_returned (r_users r) + o_returned (r_banker r) = bank_capital b + sum_list (map b_amount bets)"
  using settle_banker_runs [OF assms] by blast

theorem banker_settles_witness:
  "\<exists>r. settle_banker [\<lparr>b_ticket = ''t'', b_user = ''a'', b_option = BIG, b_amount = 100\<rparr>] [6, 5, 4]
        \<lparr>bank_user = ''bank'', bank_tg = ''7'', bank_capital = 100\<rparr> False = Inr r \<and> 0 \<le> o_returned (r_banker r)"
proof -
  let ?bets = "[\<lparr>b_ticket = ''t'', b_user = ''a'', b_option = BIG, b_amount = 100\<rparr>]"
  let ?b = "\<lparr>bank_user = ''bank'', bank_tg = ''7'', bank_capital = 100\<rparr>"
  have "banker_bets (bank_user ?b) ?bets" "valid_dice [6, 5, 4]"
    by (simp_all add: banker_bets_def MAX_INT_def valid_dice_def)
  moreover have "on_side BIG ?bets = 100" "on_side SMALL ?bets = 0" using big_small by (simp_all add: on_side_def)
  ultimately show ?thesis using banker_settles [of ?b ?bets False "[6, 5, 4]"] by (auto simp: MAX_INT_def)
qed

end
