(* ===== verification/DiceDraw.thy ===== *)
theory DiceDraw
  imports DiceSettle
begin

text \<open>
  The draw of a dice round: \<^verbatim>\<open>backend/app/modules/dice_quicknet.py\<close> (the beacon round chosen at closing time, its publication
  time, and the three dice read off a hash stream) and \<^verbatim>\<open>dice_config.py\<close>. The verification of the beacon signature is
  elliptic-curve code of a third-party package and a parameter; \<open>blocks counter\<close> stands for the bytes of
  \<open>sha256(seed + counter)\<close>.
\<close>

section \<open>Choosing the beacon round\<close>

definition GENESIS :: int where "GENESIS = 1692803367"
definition PERIOD :: int where "PERIOD = 3"
definition SAFETY_SECONDS :: int where "SAFETY_SECONDS = 2"

definition future_round :: "real \<Rightarrow> int" where
  "future_round closed_at = max 1 (\<lfloor>(closed_at + of_int SAFETY_SECONDS - of_int GENESIS) / of_int PERIOD\<rfloor> + 2)"

definition round_time :: "int \<Rightarrow> int" where
  "round_time n = GENESIS + (n - 1) * PERIOD"

text \<open>\<open>window_seconds\<close> and \<open>pool_multiplier\<close>: a missing setting is None.\<close>

definition window_seconds :: "int option \<Rightarrow> play_error + int" where
  "window_seconds v = integer (case v of None \<Rightarrow> 90 | Some n \<Rightarrow> n) LWindow 30 600"

definition pool_multiplier :: "int option \<Rightarrow> play_error + int" where
  "pool_multiplier v = integer (case v of None \<Rightarrow> 2 | Some n \<Rightarrow> n) LMultiplier 1 10"

section \<open>Dice from bytes\<close>

text \<open>The inner \<open>for\<close> loop over one block; it stops at the third die.\<close>

fun read_block :: "int list \<Rightarrow> int list \<Rightarrow> int list" where
  "read_block dice [] = dice"
| "read_block dice (value # bytes) =
     (if 3 \<le> length dice then dice
      else if value < 252 then read_block (dice @ [value mod 6 + 1]) bytes
      else read_block dice bytes)"

partial_function (option) derive_from :: "(nat \<Rightarrow> int list) \<Rightarrow> nat \<Rightarrow> int list \<Rightarrow> int list option" where
  "derive_from blocks block dice =
     (if 3 \<le> length dice then Some dice else derive_from blocks (block + 1) (read_block dice (blocks block)))"

definition derive :: "(nat \<Rightarrow> int list) \<Rightarrow> int list option" where
  "derive blocks = derive_from blocks 0 []"

section \<open>The draw is open and fair\<close>

text \<open>The beacon round fixed at closing time is published strictly more than the safety margin later, so nobody can know it
  when betting closes, and at most two beacon periods after the margin, so a round never waits long.\<close>

theorem future_round_unpublished:
  assumes "of_int GENESIS \<le> closed_at"
  shows "closed_at + of_int SAFETY_SECONDS < of_int (round_time (future_round closed_at)) \<and>
    of_int (round_time (future_round closed_at)) \<le> closed_at + of_int (SAFETY_SECONDS + PERIOD)"
proof -
  let ?x = "(closed_at + 2 - of_int GENESIS) / 3 :: real"
  have "0 \<le> ?x" using assms by simp
  then have "0 \<le> \<lfloor>?x\<rfloor>" by simp
  then have r: "future_round closed_at = \<lfloor>?x\<rfloor> + 2" by (simp add: future_round_def SAFETY_SECONDS_def PERIOD_def)
  have "of_int \<lfloor>?x\<rfloor> \<le> ?x" "?x < of_int \<lfloor>?x\<rfloor> + 1" by linarith+
  then show ?thesis by (simp add: r round_time_def PERIOD_def SAFETY_SECONDS_def field_simps)
qed

theorem future_round_unpublished_witness:
  "(1700000000 :: real) + 2 < of_int (round_time (future_round 1700000000)) \<and>
   of_int (round_time (future_round 1700000000)) \<le> (1700000000 :: real) + 5"
  using future_round_unpublished [of 1700000000] by (simp add: GENESIS_def SAFETY_SECONDS_def PERIOD_def)

definition faces :: "int list \<Rightarrow> int list" where
  "faces bytes = map (\<lambda>v. v mod 6 + 1) (filter (\<lambda>v. v < 252) bytes)"

lemma faces_Cons: "faces (v # bs) = (if v < 252 then (v mod 6 + 1) # faces bs else faces bs)"
  by (simp add: faces_def)

lemma faces_append: "faces (a @ b) = faces a @ faces b"
  by (simp add: faces_def)

lemma read_block_faces: "length dice \<le> 3 \<Longrightarrow> read_block dice bytes = take 3 (dice @ faces bytes)"
proof (induction bytes arbitrary: dice)
  case (Cons v bytes)
  then show ?case by (cases "3 \<le> length dice") (auto simp: faces_Cons take_Cons')
qed (simp add: faces_def)

lemma derive_from_some:
  "length dice \<le> 3 \<Longrightarrow> 3 \<le> length (dice @ faces (concat (map blocks [c..<c + n]))) \<Longrightarrow>
   derive_from blocks c dice = Some (take 3 (dice @ faces (concat (map blocks [c..<c + n]))))"
proof (induction n arbitrary: c dice)
  case 0
  then show ?case by (subst derive_from.simps) (simp add: faces_def)
next
  case (Suc n)
  show ?case
  proof (cases "3 \<le> length dice")
    case True
    then show ?thesis using Suc.prems by (subst derive_from.simps) (simp add: faces_append)
  next
    case False
    let ?d = "read_block dice (blocks c)"
    have d: "?d = take 3 (dice @ faces (blocks c))" using Suc.prems(1) by (rule read_block_faces)
    have up: "[c..<c + Suc n] = c # [Suc c..<Suc c + n]" by (simp add: upt_rec)
    have all: "take 3 (?d @ faces (concat (map blocks [Suc c..<Suc c + n])))
        = take 3 (dice @ faces (concat (map blocks [c..<c + Suc n])))"
      unfolding up by (simp add: d faces_append del: upt_Suc) (auto simp: min_def take_Cons')
    have "3 \<le> length (?d @ faces (concat (map blocks [Suc c..<Suc c + n])))"
      using Suc.prems(2) unfolding up by (simp add: d faces_append del: upt_Suc)
    then have "derive_from blocks (Suc c) ?d = Some (take 3 (?d @ faces (concat (map blocks [Suc c..<Suc c + n]))))"
      using d by (intro Suc.IH) simp_all
    then show ?thesis using False all by (subst derive_from.simps) simp
  qed
qed

text \<open>As soon as the hash stream has produced three bytes below 252, the loop of \<open>derive\<close> returns, and what it returns is
  three valid dice: the remainders of the first three such bytes.\<close>

theorem derive_returns:
  assumes "3 \<le> length (filter (\<lambda>v. v < 252) (concat (map blocks [0..<n])))"
  shows "derive blocks = Some (take 3 (faces (concat (map blocks [0..<n])))) \<and>
    valid_dice (take 3 (faces (concat (map blocks [0..<n]))))"
proof -
  have "derive blocks = Some (take 3 (faces (concat (map blocks [0..<n]))))"
    using derive_from_some [of "[]" blocks 0 n] assms by (simp add: derive_def faces_def)
  moreover have "1 \<le> d \<and> d \<le> 6" if "d \<in> set (faces bytes)" for d bytes
    using that by (auto simp: faces_def)
  ultimately show ?thesis
    using assms by (auto simp: valid_dice_def list_all_iff faces_def dest!: in_set_takeD)
qed

theorem derive_returns_witness: "derive (\<lambda>n. [255, 13, 251, 252]) = Some [2, 6, 2]"
  using derive_returns [of "\<lambda>n. [255, 13, 251, 252]" 2] by (simp add: upt_rec faces_def)

text \<open>No face is favoured: of the 256 values of a byte, exactly 42 give each face and the other four are drawn again.\<close>

theorem faces_unbiased:
  assumes "1 \<le> face" "face \<le> 6"
  shows "length (filter (\<lambda>v. read_block [] [v] = [face]) [0..255]) = 42"
proof -
  have "list_all (\<lambda>f. length (filter (\<lambda>v. read_block [] [v] = [f]) [0..255]) = 42) [1..6]" by code_simp
  then show ?thesis using assms by (simp add: list_all_iff)
qed

theorem faces_unbiased_witness: "length (filter (\<lambda>v. read_block [] [v] = [6]) [0..255]) = 42"
  by (rule faces_unbiased) simp_all

end
