(* ===== verification/CashMoves.thy ===== *)
theory CashMoves
  imports CashBook
begin

text \<open>
  The \<open>CashBook\<close> operations as the games see them: three views of the tables (what an escrow holds, what a fund holds,
  what a member can spend), when an operation is accepted, and how it changes the views. A game's proof works with these only.
\<close>

text \<open>\<open>int(now)\<close> of a clock reading.\<close>

definition clock_int :: "real \<Rightarrow> int" where
  "clock_int now = \<lfloor>now\<rfloor>"

named_theorems moves \<open>effect of a cash operation on the views\<close>

abbreviation spendable :: "cash \<Rightarrow> uid \<Rightarrow> int" where
  "spendable c \<equiv> balance (points c)"

definition has_escrow :: "cash \<Rightarrow> string \<Rightarrow> string \<Rightarrow> uid \<Rightarrow> bool" where
  "has_escrow c sc ref u \<longleftrightarrow> map_of (escrows c) (sc, ref, u) \<noteq> None"

section \<open>Views\<close>

lemma held_row: "held c sc ref u = a \<Longrightarrow> a \<noteq> 0 \<Longrightarrow> \<exists>row. map_of (escrows c) (sc, ref, u) = Some row \<and> e_amount row = a"
  by (auto simp: held_def split: option.splits)

lemma held_cong: "map_of (escrows c') (sc, ref, u) = map_of (escrows c) (sc, ref, u) \<Longrightarrow> held c' sc ref u = held c sc ref u"
  by (simp add: held_def)

lemma held_event [simp]: "held (cash_event c a b w op n t k) sc ref u = held c sc ref u"
  by (simp add: held_def)

lemma held_none: "\<not> has_escrow c sc ref u \<Longrightarrow> held c sc ref u = 0"
  by (simp add: has_escrow_def held_def)

lemma held_nonneg: "cash_ok c \<Longrightarrow> 0 \<le> held c sc ref u"
  by (auto simp: held_def cash_ok_def escrow_ok_def split: option.split)

lemma fund_nonneg: "cash_ok c \<Longrightarrow> 0 \<le> fund_held c kind ref"
  by (auto simp: fund_held_def cash_ok_def fund_ok_def split: option.split)

lemma fund_event [simp]: "fund_held (cash_event c a b w op n t k) kind ref = fund_held c kind ref"
  by (simp add: fund_held_def)

lemma has_escrow_event [simp]: "has_escrow (cash_event c a b w op n t k) sc ref u = has_escrow c sc ref u"
  by (simp add: has_escrow_def)

lemma cash_apply_total: "0 \<le> d \<or> 0 \<le> spendable c u + d \<Longrightarrow> \<exists>c'. cash_apply c u d reason ref now = Inr c'"
  by (auto simp: cash_apply_def points_apply_def Let_def)

lemma cash_apply_views:
  assumes "cash_apply c u d reason ref now = Inr c'"
  shows "held c' = held c" "fund_held c' = fund_held c" "has_escrow c' = has_escrow c"
    "spendable c' v = spendable c v + (if v = u then d else 0)"
  using cash_apply_frame [OF assms] cash_apply_balance [OF assms] by (auto simp: held_def fund_held_def has_escrow_def fun_eq_iff)

section \<open>Freezing\<close>

lemma reserve_fresh_Inr:
  assumes "reserve c sc ref u a reason now = Inr (c', b)" "\<not> has_escrow c sc ref u"
  obtains c1 where "cash_apply c u (- a) reason (sc @ '':'' @ ref) now = Inr c1" "1 \<le> a" "a \<le> MAX_INT"
    "c' = cash_event (c1\<lparr>escrows := put (sc, ref, u)
        \<lparr>e_amount = a, e_reserved = a, e_spent = 0, e_released = 0, e_created = now\<rparr> (escrows c1)\<rparr>) sc ref u OpReserve a [] now"
  using assms by (auto simp: reserve_def Let_def has_escrow_def)

lemma reserve_views [moves]:
  assumes "reserve c sc ref u a reason now = Inr (c', b)" "\<not> has_escrow c sc ref u"
  shows "held c' s r v = (if (s, r, v) = (sc, ref, u) then a else held c s r v)"
    "has_escrow c' s r v \<longleftrightarrow> (s, r, v) = (sc, ref, u) \<or> has_escrow c s r v"
    "fund_held c' = fund_held c"
    "spendable c' v = spendable c v - (if v = u then a else 0)"
proof -
  obtain c1 where c1: "cash_apply c u (- a) reason (sc @ '':'' @ ref) now = Inr c1"
    and c': "c' = cash_event (c1\<lparr>escrows := put (sc, ref, u)
        \<lparr>e_amount = a, e_reserved = a, e_spent = 0, e_released = 0, e_created = now\<rparr> (escrows c1)\<rparr>) sc ref u OpReserve a [] now"
    using assms by (rule reserve_fresh_Inr)
  note fr = cash_apply_frame [OF c1]
  show "held c' s r v = (if (s, r, v) = (sc, ref, u) then a else held c s r v)"
    "has_escrow c' s r v \<longleftrightarrow> (s, r, v) = (sc, ref, u) \<or> has_escrow c s r v" "fund_held c' = fund_held c"
    using fr by (auto simp: c' held_def has_escrow_def fund_held_def fun_eq_iff)
  show "spendable c' v = spendable c v - (if v = u then a else 0)" using cash_apply_views(4) [OF c1] by (simp add: c')
qed

lemma reserve_total:
  assumes "\<not> has_escrow c sc ref u" "1 \<le> a" "a \<le> MAX_INT" "a \<le> spendable c u"
  shows "\<exists>c'. reserve c sc ref u a reason now = Inr (c', True)"
proof -
  obtain c1 where "cash_apply c u (- a) reason (sc @ '':'' @ ref) now = Inr c1"
    using cash_apply_total [of "- a" c u] assms(4) by force
  then show ?thesis using assms(1-3) by (auto simp: reserve_def Let_def has_escrow_def integer_def)
qed

text \<open>The same on the table of escrows.\<close>

lemma reserve_fresh:
  assumes "reserve c sc ref u a reason now = Inr (c', b)" "map_of (escrows c) (sc, ref, u) = None"
  shows "held c' sc ref u = a" "k \<noteq> (sc, ref, u) \<Longrightarrow> map_of (escrows c') k = map_of (escrows c) k"
proof -
  have "\<not> has_escrow c sc ref u" using assms(2) by (simp add: has_escrow_def)
  then obtain c1 where "cash_apply c u (- a) reason (sc @ '':'' @ ref) now = Inr c1"
    and c': "c' = cash_event (c1\<lparr>escrows := put (sc, ref, u)
        \<lparr>e_amount = a, e_reserved = a, e_spent = 0, e_released = 0, e_created = now\<rparr> (escrows c1)\<rparr>) sc ref u OpReserve a [] now"
    using assms(1) by (metis reserve_fresh_Inr)
  then have "escrows c1 = escrows c" by (auto dest: cash_apply_frame)
  then show "held c' sc ref u = a" "k \<noteq> (sc, ref, u) \<Longrightarrow> map_of (escrows c') k = map_of (escrows c) k"
    by (simp_all add: c' held_def)
qed

section \<open>Taking from an escrow\<close>

lemma take_escrow_all:
  assumes "held c sc ref u = a" "1 \<le> a" "a \<le> MAX_INT"
  shows "\<exists>c'. take_escrow c sc ref u a field = Inr c'"
proof -
  obtain row where "map_of (escrows c) (sc, ref, u) = Some row" "e_amount row = a" using held_row assms(1,2) by force
  then show ?thesis using assms(2,3) by (simp add: take_escrow_def integer_def)
qed

lemma take_escrow_total:
  assumes "a \<le> held c sc ref u" "1 \<le> a" "a \<le> MAX_INT"
  shows "\<exists>c'. take_escrow c sc ref u a field = Inr c'"
proof -
  have "held c sc ref u \<noteq> 0" using assms(1,2) by simp
  then obtain row where "map_of (escrows c) (sc, ref, u) = Some row" "e_amount row = held c sc ref u" using held_row by blast
  then show ?thesis using assms by (simp add: take_escrow_def integer_def)
qed

lemma take_escrow_dom:
  assumes "take_escrow c sc ref u a field = Inr c'"
  shows "map_of (escrows c') k = None \<longleftrightarrow> map_of (escrows c) k = None"
  using assms by (elim take_escrow_Inr) auto

lemma take_escrow_other:
  assumes "take_escrow c sc ref u a field = Inr c'" "k \<noteq> (sc, ref, u)"
  shows "map_of (escrows c') k = map_of (escrows c) k"
  using assms by (elim take_escrow_Inr) simp

lemma take_escrow_views:
  assumes "take_escrow c sc ref u a field = Inr c'"
  shows "held c' s r v = held c s r v - (if (s, r, v) = (sc, ref, u) then a else 0)"
    "has_escrow c' = has_escrow c" "fund_held c' = fund_held c" "points c' = points c"
  using assms by (elim take_escrow_Inr; auto simp: held_def has_escrow_def fund_held_def fun_eq_iff)+

lemma release_Inr:
  assumes "release c sc ref u None reason now = Inr (c', a)"
  obtains "a = 0" "c' = c" "held c sc ref u = 0"
  | c1 c2 where "a = held c sc ref u" "a \<noteq> 0" "take_escrow c sc ref u a Released = Inr c1"
      "cash_apply c1 u a reason (sc @ '':'' @ ref) now = Inr c2" "c' = cash_event c2 sc ref u OpRelease a [] now"
  using assms by (auto simp: release_def split: if_splits)

lemma release_views [moves]:
  assumes "release c sc ref u None reason now = Inr (c', a)"
  shows "a = held c sc ref u" "held c' s r v = (if (s, r, v) = (sc, ref, u) then 0 else held c s r v)"
    "has_escrow c' = has_escrow c" "fund_held c' = fund_held c"
    "spendable c' v = spendable c v + (if v = u then held c sc ref u else 0)"
proof -
  have "a = held c sc ref u \<and> held c' s r v = (if (s, r, v) = (sc, ref, u) then 0 else held c s r v) \<and> has_escrow c' = has_escrow c
    \<and> fund_held c' = fund_held c \<and> spendable c' v = spendable c v + (if v = u then held c sc ref u else 0)"
    using assms
  proof (rule release_Inr)
    fix c1 c2
    assume a: "a = held c sc ref u" and t: "take_escrow c sc ref u a Released = Inr c1"
      and p: "cash_apply c1 u a reason (sc @ '':'' @ ref) now = Inr c2" and c': "c' = cash_event c2 sc ref u OpRelease a [] now"
    note tv = take_escrow_views [OF t] and pv = cash_apply_views [OF p]
    show ?thesis using tv(1) [of s r v] tv(2-4) pv(4) [of v] pv(1-3) a by (simp add: c' fun_eq_iff)
  qed (auto simp: fun_eq_iff)
  then show "a = held c sc ref u" "held c' s r v = (if (s, r, v) = (sc, ref, u) then 0 else held c s r v)"
    "has_escrow c' = has_escrow c" "fund_held c' = fund_held c"
    "spendable c' v = spendable c v + (if v = u then held c sc ref u else 0)" by blast+
qed

lemma release_total:
  assumes "0 \<le> held c sc ref u" "held c sc ref u \<le> MAX_INT"
  shows "\<exists>c'. release c sc ref u None reason now = Inr (c', held c sc ref u)"
proof (cases "held c sc ref u = 0")
  case False
  then obtain c1 where c1: "take_escrow c sc ref u (held c sc ref u) Released = Inr c1" using take_escrow_all assms by force
  obtain c2 where "cash_apply c1 u (held c sc ref u) reason (sc @ '':'' @ ref) now = Inr c2"
    using cash_apply_total [of "held c sc ref u" c1 u] assms(1) by force
  then show ?thesis using c1 False by (simp add: release_def)
qed (simp add: release_def)

lemma release_part_Inr:
  assumes "release c sc ref u (Some a) reason now = Inr (c', b)" "a \<noteq> 0"
  obtains c1 c2 where "b = a" "1 \<le> a" "take_escrow c sc ref u a Released = Inr c1"
      "cash_apply c1 u a reason (sc @ '':'' @ ref) now = Inr c2" "c' = cash_event c2 sc ref u OpRelease a [] now"
  using assms by (auto simp: release_def split: if_splits)

lemma release_part_views [moves]:
  assumes "release c sc ref u (Some a) reason now = Inr (c', b)" "a \<noteq> 0"
  shows "held c' s r v = held c s r v - (if (s, r, v) = (sc, ref, u) then a else 0)"
    "has_escrow c' = has_escrow c" "fund_held c' = fund_held c"
    "spendable c' v = spendable c v + (if v = u then a else 0)"
proof -
  obtain c1 c2 where t: "take_escrow c sc ref u a Released = Inr c1" and p: "cash_apply c1 u a reason (sc @ '':'' @ ref) now = Inr c2"
    and c': "c' = cash_event c2 sc ref u OpRelease a [] now"
    using assms by (rule release_part_Inr)
  note tv = take_escrow_views [OF t] and pv = cash_apply_views [OF p]
  show "held c' s r v = held c s r v - (if (s, r, v) = (sc, ref, u) then a else 0)"
    "has_escrow c' = has_escrow c" "fund_held c' = fund_held c"
    "spendable c' v = spendable c v + (if v = u then a else 0)"
    using tv(1) [of s r v] tv(2-4) pv(4) [of v] pv(1-3) by (simp_all add: c' fun_eq_iff)
qed

lemma release_part_total:
  assumes "a \<le> held c sc ref u" "1 \<le> a" "a \<le> MAX_INT"
  shows "\<exists>c'. release c sc ref u (Some a) reason now = Inr (c', a)"
proof -
  obtain c1 where c1: "take_escrow c sc ref u a Released = Inr c1" using take_escrow_total [OF assms] by blast
  obtain c2 where "cash_apply c1 u a reason (sc @ '':'' @ ref) now = Inr c2"
    using cash_apply_total [of a c1 u] assms(2) by force
  then show ?thesis using c1 assms(2,3) by (simp add: release_def integer_def)
qed

section \<open>Funds\<close>

lemma fund_in_views [simp]:
  "fund_held (fund_in c kind ref a) k r = fund_held c k r + (if (k, r) = (kind, ref) then a else 0)"
  "held (fund_in c kind ref a) = held c" "has_escrow (fund_in c kind ref a) = has_escrow c"
  by (auto simp: fund_in_def fund_held_def held_def has_escrow_def fun_eq_iff split: option.split)

lemma consume_Inr:
  assumes "consume c sc ref u a kind fref now = Inr c'"
  obtains c1 where "kind \<in> {''blackwhite'', ''poker'', ''issuance'', ''fee''}" "take_escrow c sc ref u a Spent = Inr c1"
    "c' = cash_event (fund_in c1 kind fref a) sc ref u OpConsume a (kind @ '':'' @ fref) now"
  using assms by (auto simp: consume_def split: if_splits)

lemma consume_views [moves]:
  assumes "consume c sc ref u a kind fref now = Inr c'"
  shows "held c' s r v = held c s r v - (if (s, r, v) = (sc, ref, u) then a else 0)"
    "has_escrow c' = has_escrow c" "fund_held c' k t = fund_held c k t + (if (k, t) = (kind, fref) then a else 0)"
    "points c' = points c"
proof -
  obtain c1 where t: "take_escrow c sc ref u a Spent = Inr c1"
    and c': "c' = cash_event (fund_in c1 kind fref a) sc ref u OpConsume a (kind @ '':'' @ fref) now"
    using assms by (rule consume_Inr)
  note tv = take_escrow_views [OF t]
  show "held c' s r v = held c s r v - (if (s, r, v) = (sc, ref, u) then a else 0)"
    "has_escrow c' = has_escrow c" "fund_held c' k t = fund_held c k t + (if (k, t) = (kind, fref) then a else 0)"
    "points c' = points c"
    using tv(1) [of s r v] tv(2-4) by (simp_all add: c' fun_eq_iff)
qed

lemma consume_total:
  assumes "a \<le> held c sc ref u" "1 \<le> a" "a \<le> MAX_INT" "kind \<in> {''blackwhite'', ''poker''}"
  shows "\<exists>c'. consume c sc ref u a kind fref now = Inr c'"
  using take_escrow_total [OF assms(1-3)] assms(4) by (auto simp: consume_def)

lemma payout_views [moves]:
  assumes "payout c kind fref u a now = Inr c'"
  shows "held c' = held c" "has_escrow c' = has_escrow c"
    "fund_held c' k t = fund_held c k t - (if (k, t) = (kind, fref) then a else 0)"
    "spendable c' v = spendable c v + (if v = u then a else 0)"
proof -
  obtain c1 c2 where f: "fund_out c kind fref a = Inr c1"
    and p: "cash_apply c1 u a ''play.payout'' (kind @ '':'' @ fref) now = Inr c2"
    and c': "c' = cash_event c2 kind fref u OpPayout a [] now"
    using assms by (rule payout_Inr)
  have f1: "held c1 = held c" "has_escrow c1 = has_escrow c" "points c1 = points c"
    "fund_held c1 k t = fund_held c k t - (if (k, t) = (kind, fref) then a else 0)"
    using f by (elim fund_out_Inr; auto simp: held_def has_escrow_def fund_held_def fun_eq_iff)+
  note p1 = cash_apply_views [OF p]
  show "held c' = held c" "has_escrow c' = has_escrow c"
    "fund_held c' k t = fund_held c k t - (if (k, t) = (kind, fref) then a else 0)"
    "spendable c' v = spendable c v + (if v = u then a else 0)"
    using f1 p1 by (simp_all add: c' fun_eq_iff)
qed

lemma payout_total:
  assumes "a \<le> fund_held c kind fref" "1 \<le> a" "a \<le> MAX_INT" "kind \<in> {''blackwhite'', ''poker''}"
  shows "\<exists>c'. payout c kind fref u a now = Inr c'"
proof -
  have "fund_held c kind fref \<noteq> 0" using assms(1,2) by simp
  then obtain f where "map_of (funds c) (kind, fref) = Some f" "a \<le> f_amount f"
    using assms(1) by (auto simp: fund_held_def split: option.splits)
  then obtain c1 where c1: "fund_out c kind fref a = Inr c1" by (simp add: fund_out_def)
  obtain c2 where "cash_apply c1 u a ''play.payout'' (kind @ '':'' @ fref) now = Inr c2"
    using cash_apply_total [of a c1 u] assms(2) by force
  then show ?thesis using c1 assms(2-4) by (simp add: payout_def integer_def)
qed

section \<open>Paying a list of awards\<close>

text \<open>The loop \<open>for p in players: if amount: payout(...)\<close> of the games.\<close>

fun pay_awards :: "cash \<Rightarrow> string \<Rightarrow> string \<Rightarrow> int \<Rightarrow> (uid \<times> int) list \<Rightarrow> play_error + cash" where
  "pay_awards c kind ref now [] = Inr c"
| "pay_awards c kind ref now ((u, a) # rest) =
     (if a = 0 then pay_awards c kind ref now rest
      else bindR (payout c kind ref u a now) (\<lambda>c1. pay_awards c1 kind ref now rest))"

lemma pay_awards_keeps:
  "pay_awards c kind ref now ps = Inr c' \<Longrightarrow> cash_ok c \<Longrightarrow> cash_ok c' \<and> wealth c' = wealth c"
proof (induction ps arbitrary: c)
  case (Cons p ps)
  obtain u a where p: "p = (u, a)" by (cases p)
  show ?case
  proof (cases "a = 0")
    case False
    with Cons.prems(1) p obtain c1 where c1: "payout c kind ref u a now = Inr c1" and r: "pay_awards c1 kind ref now ps = Inr c'" by auto
    show ?thesis using Cons.IH [OF r] payout_keeps [OF c1 Cons.prems(2)] by simp
  qed (use Cons p in simp)
qed simp

definition awarded :: "uid \<Rightarrow> (uid \<times> int) list \<Rightarrow> int" where
  "awarded u ps = sum_list (map (\<lambda>(v, a). if v = u then a else 0) ps)"

lemma awarded_simps [simp]: "awarded u [] = 0" "awarded u ((v, a) # ps) = (if v = u then a else 0) + awarded u ps"
  by (simp_all add: awarded_def)

lemma pay_awards_views [moves]:
  "pay_awards c kind ref now ps = Inr c' \<Longrightarrow>
   held c' = held c \<and> has_escrow c' = has_escrow c
   \<and> fund_held c' k t = fund_held c k t - (if (k, t) = (kind, ref) then sum_list (map snd ps) else 0)
   \<and> spendable c' v = spendable c v + awarded v ps"
proof (induction ps arbitrary: c)
  case (Cons p ps)
  obtain u a where p: "p = (u, a)" by (cases p)
  show ?case
  proof (cases "a = 0")
    case False
    with Cons.prems(1) p obtain c1 where c1: "payout c kind ref u a now = Inr c1" and r: "pay_awards c1 kind ref now ps = Inr c'" by auto
    show ?thesis using Cons.IH [OF r] payout_views [OF c1] p by auto
  qed (use Cons p in simp)
qed simp

lemma pay_awards_total:
  "kind \<in> {''blackwhite'', ''poker''} \<Longrightarrow> \<forall>p \<in> set ps. 0 \<le> snd p \<Longrightarrow> sum_list (map snd ps) \<le> fund_held c kind ref \<Longrightarrow>
   sum_list (map snd ps) \<le> MAX_INT \<Longrightarrow> \<exists>c'. pay_awards c kind ref now ps = Inr c'"
proof (induction ps arbitrary: c)
  case (Cons p ps)
  obtain u a where p: "p = (u, a)" by (cases p)
  have rest: "0 \<le> sum_list (map snd ps)" using Cons.prems(2) by (intro sum_list_nonneg) auto
  show ?case
  proof (cases "a = 0")
    case False
    then have a: "1 \<le> a" "a \<le> fund_held c kind ref" "a \<le> MAX_INT" using Cons.prems(2-4) rest p by auto
    obtain c1 where c1: "payout c kind ref u a now = Inr c1" using payout_total [OF a(2,1,3) Cons.prems(1)] by blast
    have "sum_list (map snd ps) \<le> fund_held c1 kind ref"
      using payout_views(3) [OF c1, of kind ref] Cons.prems(3) p by simp
    then show ?thesis using Cons.IH [of c1] Cons.prems(1,2,4) a(1) c1 p by auto
  qed (use Cons p in auto)
qed simp

end
