(* ===== verification/DiceRound.thy ===== *)
theory DiceRound
  imports DiceDraw CashMoves
begin

text \<open>
  \<^verbatim>\<open>backend/app/modules/dice.py\<close> and \<^verbatim>\<open>dice_group.py\<close>: the durable rounds of the group dice game, for the rounds
  that \<open>create\<close> opens (a member keeps the bank, one pool, the quicknet draw); the older rule versions are read-only history. One
  row of \<open>dice_rounds\<close> is a \<open>dice_round\<close> with the row of its only pool folded in; each method is one write
  transaction, so an error leaves the old state. Member lookup, the deletion marker, the plug-in settings and the
  SHA-256 ticket number are parameters.
\<close>

section \<open>State\<close>

datatype round_state = Opening | Open | Locked | Fixed | Settled | Refunded | Empty

record dice_round =
  d_chat :: string
  d_thread :: int
  d_command :: int
  d_actor :: uid
  d_state :: round_state
  d_created :: real
  d_deadline :: real
  d_timeout :: real
  d_number :: int
  d_closed :: "real option"
  d_bank :: bank
  d_cap :: int
  d_card :: "int option"
  d_dice :: "int list"
  d_faulty :: bool
  d_held :: int
  d_accepted :: int
  d_result :: "banker_result option"

datatype wager = Amount int | AllIn

record receipt =
  rc_nonce :: string
  rc_user :: uid
  rc_tg :: string
  rc_option :: string
  rc_amount :: int
  rc_all_in :: bool

record dice_world =
  w_cash :: cash
  w_rounds :: "(string \<times> dice_round) list"
  w_bets :: "(string \<times> bet) list"
  w_tickets :: "(string \<times> string \<times> uid \<times> string) list"
  w_receipts :: "((string \<times> int) \<times> receipt) list"

record dice_env =
  v_enabled :: bool
  v_deleting :: "uid \<Rightarrow> bool"
  v_member :: "uid \<Rightarrow> bool"
  v_window :: "int option"
  v_multiplier :: "int option"
  v_ticket :: "string \<Rightarrow> int \<Rightarrow> string"
  v_art :: "int \<Rightarrow> string list"

datatype round_error =
    InDice dice_error | InPlay play_error | Paused | AuditPending | OwnerMismatch | TooSoon | Deleting | BankShort
  | DuplicateRow | NoRound | AlreadyHandled | EarlyCommand | BettingClosed | BoundElsewhere | OwnBet | OverCap
  | NoBalance | SideFull | NoRoom | CapFull | OverExposure | NotEnoughPoints | BadOption | BeaconInvalid | NotDrawnYet
  | DrawTimeout | PoolReconciliation | EscrowReconciliation | BankerReconciliation | AccountMissing

definition in_play :: "play_error + 'a \<Rightarrow> round_error + 'a" where
  "in_play r = (case r of Inl e \<Rightarrow> Inl (InPlay e) | Inr a \<Rightarrow> Inr a)"

definition in_dice :: "dice_error + 'a \<Rightarrow> round_error + 'a" where
  "in_dice r = (case r of Inl e \<Rightarrow> Inl (InDice e) | Inr a \<Rightarrow> Inr a)"

lemma in_play_Inr [simp]: "in_play r = Inr a \<longleftrightarrow> r = Inr a"
  by (cases r) (auto simp: in_play_def)

lemma in_dice_Inr [simp]: "in_dice r = Inr a \<longleftrightarrow> r = Inr a"
  by (cases r) (auto simp: in_dice_def)

lemma in_play_simps [simp]: "in_play (Inr a) = Inr a" "in_play (Inl e) = Inl (InPlay e)"
  by (simp_all add: in_play_def)

lemma in_dice_simps [simp]: "in_dice (Inr a) = Inr a" "in_dice (Inl e) = Inl (InDice e)"
  by (simp_all add: in_dice_def)

definition get_round :: "dice_world \<Rightarrow> string \<Rightarrow> round_error + dice_round" where
  "get_round w nonce = (case map_of (w_rounds w) nonce of None \<Rightarrow> Inl NoRound | Some r \<Rightarrow> Inr r)"

definition put_round :: "string \<Rightarrow> dice_round \<Rightarrow> dice_world \<Rightarrow> dice_world" where
  "put_round nonce r w = w\<lparr>w_rounds := put nonce r (w_rounds w)\<rparr>"

definition running :: "dice_round \<Rightarrow> bool" where
  "running r \<longleftrightarrow> d_state r \<in> {Opening, Open, Locked, Fixed}"

definition active_at :: "dice_world \<Rightarrow> string \<Rightarrow> int \<Rightarrow> (string \<times> dice_round) option" where
  "active_at w chat thread = find (\<lambda>(n, r). d_chat r = chat \<and> d_thread r = thread \<and> running r) (w_rounds w)"

definition round_bets :: "dice_world \<Rightarrow> string \<Rightarrow> bet list" where
  "round_bets w nonce = map snd (filter (\<lambda>p. fst p = nonce) (w_bets w))"

definition banker_ref :: "string \<Rightarrow> string" where
  "banker_ref nonce = nonce @ '':banker''"

definition bet_ref :: "bet \<Rightarrow> string" where
  "bet_ref b = b_ticket b @ '':size:'' @ b_option b"

section \<open>Opening a round\<close>

definition new_round :: "string \<Rightarrow> int \<Rightarrow> int \<Rightarrow> uid \<Rightarrow> string \<Rightarrow> int \<Rightarrow> int \<Rightarrow> int \<Rightarrow> real \<Rightarrow> dice_round" where
  "new_round chat thread mid uid tg capital window cap now =
     \<lparr>d_chat = chat, d_thread = thread, d_command = mid, d_actor = uid, d_state = Opening, d_created = now,
      d_deadline = now + of_int window, d_timeout = now + of_int window + 600, d_number = 0, d_closed = None,
      d_bank = \<lparr>bank_user = uid, bank_tg = tg, bank_capital = capital\<rparr>, d_cap = cap, d_card = None,
      d_dice = [], d_faulty = False, d_held = 0, d_accepted = 0, d_result = None\<rparr>"

definition open_round :: "dice_env \<Rightarrow> dice_world \<Rightarrow> string \<Rightarrow> int \<Rightarrow> int \<Rightarrow> uid \<Rightarrow> string \<Rightarrow> int \<Rightarrow> string \<Rightarrow> real
    \<Rightarrow> round_error + dice_world \<times> string" where
  "open_round v w chat thread mid uid tg capital nonce now =
     bindR (in_play (window_seconds (v_window v))) (\<lambda>window.
     bindR (in_play (pool_multiplier (v_multiplier v))) (\<lambda>multiple.
     bindR (in_play (integer (capital * multiple) LEscrowTotal 1 MAX_INT)) (\<lambda>cap.
     if map_of (w_rounds w) nonce \<noteq> None then Inl DuplicateRow
     else
       bindR (in_play (reserve (w_cash w) ''dice'' (banker_ref nonce) uid capital ''play.reserve'' (clock_int now))) (\<lambda>(c, _).
         Inr (put_round nonce (new_round chat thread mid uid tg capital window cap now) w\<lparr>w_cash := c\<rparr>, nonce)))))"

definition create :: "dice_env \<Rightarrow> dice_world \<Rightarrow> string \<Rightarrow> int \<Rightarrow> int \<Rightarrow> uid \<Rightarrow> string \<Rightarrow> int \<Rightarrow> string \<Rightarrow> real
    \<Rightarrow> round_error + dice_world \<times> string" where
  "create v w chat thread mid uid tg capital nonce now =
     bindR (in_play (integer mid LMessageId 1 MAX_INT)) (\<lambda>_.
     bindR (in_play (integer capital LCapital 1 MAX_INT)) (\<lambda>_.
     if \<not> v_enabled v then Inl Paused
     else if list_ex (\<lambda>(n, r). d_faulty r \<and> d_state r \<in> {Open, Locked, Fixed}) (w_rounds w) then Inl AuditPending
     else case find (\<lambda>(n, r). d_chat r = chat \<and> d_command r = mid) (w_rounds w) of
       Some (n, r) \<Rightarrow>
         if d_actor r \<noteq> uid \<or> d_thread r \<noteq> thread \<or> bank_capital (d_bank r) \<noteq> capital \<or> bank_tg (d_bank r) \<noteq> tg
         then Inl OwnerMismatch else Inr (w, n)
     | None \<Rightarrow> (case active_at w chat thread of
         Some (n, r) \<Rightarrow> Inr (w, n)
       | None \<Rightarrow>
           if list_ex (\<lambda>(n, r). d_actor r = uid \<and> now - 15 < d_created r) (w_rounds w) then Inl TooSoon
           else if v_deleting v uid then Inl Deleting
           else if balance (points (w_cash w)) uid < capital then Inl BankShort
           else open_round v w chat thread mid uid tg capital nonce now)))"

text \<open>The opening card was delivered: the round opens for bets if its deadline has not passed.\<close>

definition card_sent :: "dice_world \<Rightarrow> string \<Rightarrow> int \<Rightarrow> real \<Rightarrow> round_error + dice_world" where
  "card_sent w nonce mid now =
     bindR (get_round w nonce) (\<lambda>r.
       Inr (put_round nonce (r\<lparr>d_card := Some mid,
              d_state := (if d_state r = Opening \<and> now < d_deadline r then Open else d_state r)\<rparr>) w))"

section \<open>Betting\<close>

definition lock_round :: "dice_round \<Rightarrow> real \<Rightarrow> dice_round" where
  "lock_round r now =
     (if d_state r \<notin> {Opening, Open} then r
      else (if d_closed r = None
            then r\<lparr>d_closed := Some now, d_number := future_round now, d_timeout := now + 600\<rparr> else r)
           \<lparr>d_state := Locked\<rparr>)"

definition flip :: "string \<Rightarrow> string" where
  "flip option = (if option = BIG then SMALL else BIG)"

definition bet_target :: "dice_env \<Rightarrow> dice_world \<Rightarrow> string \<Rightarrow> int \<Rightarrow> int option \<Rightarrow> (string \<times> dice_round) option" where
  "bet_target v w chat thread reply =
     (case reply of
        None \<Rightarrow> active_at w chat thread
      | Some mid \<Rightarrow> find (\<lambda>(n, r). d_chat r = chat \<and> d_thread r = thread \<and> (d_card r = Some mid \<or> n \<in> set (v_art v mid))) (w_rounds w))"

definition side_capacity :: "dice_round \<Rightarrow> bet list \<Rightarrow> string \<Rightarrow> int" where
  "side_capacity r bets option = bank_capital (d_bank r) + on_side (flip option) bets - on_side option bets"

text \<open>The amount a wager stands for: an all-in bet is capped by the balance, the side, the round and the pool.\<close>

definition bet_amount :: "dice_world \<Rightarrow> dice_round \<Rightarrow> bet list \<Rightarrow> uid \<Rightarrow> string \<Rightarrow> wager \<Rightarrow> round_error + int" where
  "bet_amount w r bets uid option wager =
     (let capacity = side_capacity r bets option; room = MAX_INT - bank_capital (d_bank r) - d_accepted r;
          pool_room = d_cap r - d_accepted r; bal = balance (points (w_cash w)) uid in
      case wager of
        Amount amount \<Rightarrow> if pool_room < amount then Inl OverCap else Inr amount
      | AllIn \<Rightarrow>
          if bal \<le> 0 then Inl NoBalance
          else if capacity \<le> 0 then Inl SideFull
          else if room \<le> 0 then Inl NoRoom
          else if pool_room \<le> 0 then Inl CapFull
          else Inr (min (min bal capacity) (min room pool_room)))"

definition take_bet :: "dice_env \<Rightarrow> dice_world \<Rightarrow> string \<Rightarrow> dice_round \<Rightarrow> string \<Rightarrow> int \<Rightarrow> uid \<Rightarrow> string \<Rightarrow> string \<Rightarrow> bool \<Rightarrow> int \<Rightarrow> real
    \<Rightarrow> round_error + dice_world" where
  "take_bet v w nonce r chat mid uid tg option all_in amount now =
     (let b = \<lparr>b_ticket = v_ticket v chat mid, b_user = uid, b_option = option, b_amount = amount\<rparr>;
          r1 = r\<lparr>d_held := d_held r + amount, d_accepted := d_accepted r + amount\<rparr>;
          r2 = (if d_accepted r + amount = d_cap r then lock_round r1 now else r1)
      in bindR (in_play (reserve (w_cash w) ''dice'' (bet_ref b) uid amount ''play.reserve'' (clock_int now))) (\<lambda>(c, _).
         if map_of (w_tickets w) (b_ticket b) \<noteq> None then Inl DuplicateRow
         else Inr (put_round nonce r2 (w\<lparr>w_cash := c, w_tickets := put (b_ticket b) (nonce, uid, tg) (w_tickets w),
                w_bets := w_bets w @ [(nonce, b)],
                w_receipts := put (chat, mid) \<lparr>rc_nonce = nonce, rc_user = uid, rc_tg = tg, rc_option = option,
                  rc_amount = amount, rc_all_in = all_in\<rparr> (w_receipts w)\<rparr>))))"

definition place_bet :: "dice_env \<Rightarrow> dice_world \<Rightarrow> string \<Rightarrow> dice_round \<Rightarrow> string \<Rightarrow> int \<Rightarrow> uid \<Rightarrow> string \<Rightarrow> string \<Rightarrow> wager \<Rightarrow> real
    \<Rightarrow> round_error + dice_world" where
  "place_bet v w nonce r chat mid uid tg option wager now =
     (let bets = round_bets w nonce; capital = bank_capital (d_bank r) in
      if v_deleting v uid then Inl Deleting
      else if \<not> v_enabled v \<or> d_state r \<noteq> Open \<or> d_deadline r \<le> now then Inl BettingClosed
      else if list_ex (\<lambda>(t, n, u, g). n = nonce \<and> (u = uid \<or> g = tg) \<and> \<not> (u = uid \<and> g = tg)) (w_tickets w) then Inl BoundElsewhere
      else if uid = bank_user (d_bank r) \<or> tg = bank_tg (d_bank r) then Inl OwnBet
      else
        bindR (bet_amount w r bets uid option wager) (\<lambda>amount.
        bindR (in_play (integer (capital + d_accepted r + amount) LEscrowTotal 1 MAX_INT)) (\<lambda>_.
        if capital < \<bar>on_side option bets + amount - on_side (flip option) bets\<bar> then Inl OverExposure
        else
          bindR (in_play (integer (d_accepted r + amount) LEscrowTotal 1 MAX_INT)) (\<lambda>_.
          if balance (points (w_cash w)) uid < amount then Inl NotEnoughPoints
          else take_bet v w nonce r chat mid uid tg option (wager = AllIn) amount now))))"

definition group_bet :: "dice_env \<Rightarrow> dice_world \<Rightarrow> string \<Rightarrow> int \<Rightarrow> int \<Rightarrow> uid \<Rightarrow> string \<Rightarrow> string \<Rightarrow> wager \<Rightarrow> int option \<Rightarrow> real
    \<Rightarrow> round_error + dice_world" where
  "group_bet v w chat thread mid uid tg option wager reply now =
     bindR (in_play (integer mid LMessageId 1 MAX_INT)) (\<lambda>_.
     bindR (case wager of Amount a \<Rightarrow> in_play (integer a LBetPoints 1 MAX_INT) | AllIn \<Rightarrow> Inr 0) (\<lambda>_.
     if option \<notin> {BIG, SMALL} then Inl BadOption
     else case map_of (w_receipts w) (chat, mid) of
       Some p \<Rightarrow>
         if rc_user p \<noteq> uid \<or> rc_tg p \<noteq> tg \<or> rc_option p \<noteq> option \<or> rc_all_in p \<noteq> (wager = AllIn)
           \<or> (case wager of Amount a \<Rightarrow> rc_amount p \<noteq> a | AllIn \<Rightarrow> False) then Inl AlreadyHandled
         else bindR (get_round w (rc_nonce p)) (\<lambda>r. if d_thread r \<noteq> thread then Inl AlreadyHandled else Inr w)
     | None \<Rightarrow> (case bet_target v w chat thread reply of
         None \<Rightarrow> Inl NoRound
       | Some (nonce, r) \<Rightarrow>
           if reply = None \<and> mid \<le> d_command r then Inl EarlyCommand
           else place_bet v w nonce r chat mid uid tg option wager now)))"

section \<open>Closing, drawing, settling\<close>

definition close_round :: "dice_world \<Rightarrow> string \<Rightarrow> real \<Rightarrow> round_error + dice_world" where
  "close_round w nonce now =
     bindR (get_round w nonce) (\<lambda>r.
       Inr (if d_state r \<in> {Opening, Open} \<and> d_deadline r \<le> now then put_round nonce (lock_round r now) w else w))"

text \<open>\<open>verified\<close> tells whether the beacon's signature was accepted, \<open>drawn\<close> is what \<open>derive\<close> read off it.\<close>

definition fix_round :: "dice_world \<Rightarrow> string \<Rightarrow> bool \<Rightarrow> int list \<Rightarrow> real \<Rightarrow> round_error + dice_world" where
  "fix_round w nonce verified drawn now =
     bindR (get_round w nonce) (\<lambda>r.
       if \<not> verified then Inl BeaconInvalid
       else if d_state r \<in> {Fixed, Settled} then Inr w
       else if d_state r \<noteq> Locked \<or> now < of_int (round_time (d_number r)) then Inl NotDrawnYet
       else if d_timeout r \<le> now then Inl DrawTimeout
       else Inr (put_round nonce (r\<lparr>d_state := Fixed, d_dice := drawn\<rparr>) w))"

fun consume_bets :: "cash \<Rightarrow> string \<Rightarrow> int \<Rightarrow> bet list \<Rightarrow> round_error + cash" where
  "consume_bets c nonce now [] = Inr c"
| "consume_bets c nonce now (b # bets) =
     (if held c ''dice'' (bet_ref b) (b_user b) \<noteq> b_amount b then Inl EscrowReconciliation
      else bindR (in_play (take_escrow c ''dice'' (bet_ref b) (b_user b) (b_amount b) Spent)) (\<lambda>c1.
        consume_bets (cash_event c1 ''dice'' (bet_ref b) (b_user b) OpConsume (b_amount b) (nonce @ '':size'') now) nonce now bets))"

definition consume_bank :: "cash \<Rightarrow> string \<Rightarrow> int \<Rightarrow> bank \<Rightarrow> round_error + cash" where
  "consume_bank c nonce now b =
     (if held c ''dice'' (banker_ref nonce) (bank_user b) \<noteq> bank_capital b then Inl BankerReconciliation
      else bindR (in_play (take_escrow c ''dice'' (banker_ref nonce) (bank_user b) (bank_capital b) Spent)) (\<lambda>c1.
        Inr (cash_event c1 ''dice'' (banker_ref nonce) (bank_user b) OpConsume (bank_capital b) (nonce @ '':size'') now)))"

text \<open>\<open>points._apply\<close> with the actor \<open>dice\<close>.\<close>

definition dice_apply :: "cash \<Rightarrow> uid \<Rightarrow> int \<Rightarrow> string \<Rightarrow> string \<Rightarrow> int \<Rightarrow> play_error + cash" where
  "dice_apply c u delta reason ref now =
     (case points_apply (points c) u delta reason ref ''dice'' now of
        Inl e \<Rightarrow> Inl (FromPoints e)
      | Inr (rows, _) \<Rightarrow> Inr (c\<lparr>points := rows\<rparr>))"

fun pay_recipients :: "dice_env \<Rightarrow> cash \<Rightarrow> string \<Rightarrow> string \<Rightarrow> int \<Rightarrow> (uid \<times> outcome) list \<Rightarrow> round_error + cash" where
  "pay_recipients v c nonce reason now [] = Inr c"
| "pay_recipients v c nonce reason now ((uid, o') # rest) =
     (if \<not> v_member v uid then Inl AccountMissing
      else
        let amount = o_returned o' in
        if amount = 0 then pay_recipients v c nonce reason now rest
        else
          bindR (in_play (integer (balance (points c) uid + amount) LEscrowTotal 0 MAX_INT)) (\<lambda>_.
          bindR (in_play (dice_apply c uid amount reason (nonce @ '':size'') now)) (\<lambda>c1.
          pay_recipients v (cash_event c1 ''dice'' (nonce @ '':size'') uid OpPayout amount [] now) nonce reason now rest)))"

definition settle_due :: "dice_env \<Rightarrow> dice_world \<Rightarrow> string \<Rightarrow> dice_round \<Rightarrow> bool \<Rightarrow> int \<Rightarrow> round_error + dice_world" where
  "settle_due v w nonce r timeout clock =
     bindR (in_dice (settle_banker (round_bets w nonce) (d_dice r) (d_bank r) timeout)) (\<lambda>a.
       if d_held r \<noteq> r_total a \<or> d_accepted r \<noteq> r_total a then Inl PoolReconciliation
       else
         bindR (consume_bets (w_cash w) nonce clock (round_bets w nonce)) (\<lambda>c1.
         bindR (consume_bank c1 nonce clock (d_bank r)) (\<lambda>c2.
         bindR (pay_recipients v c2 nonce (if r_reason a = Contested then ''dice.payout'' else ''dice.refund'') clock
                  (put (bank_user (d_bank r)) (r_banker a) (r_users a))) (\<lambda>c3.
         Inr (put_round nonce (r\<lparr>d_state := (if d_accepted r = 0 then Empty else if timeout then Refunded else Settled),
                d_held := 0, d_result := Some a, d_faulty := timeout\<rparr>) (w\<lparr>w_cash := c3\<rparr>))))))"

definition settle :: "dice_env \<Rightarrow> dice_world \<Rightarrow> string \<Rightarrow> real \<Rightarrow> round_error + dice_world" where
  "settle v w nonce now =
     bindR (get_round w nonce) (\<lambda>r.
       let timeout = (d_state r = Locked \<and> d_timeout r \<le> now) in
       if d_state r \<in> {Settled, Refunded, Empty} then Inr w
       else if d_state r \<noteq> Fixed \<and> \<not> (d_state r = Locked \<and> (timeout \<or> d_accepted r = 0)) then Inr w
       else settle_due v w nonce r timeout (clock_int now))"

section \<open>Runs\<close>

datatype dice_op =
    Create string int int uid string int string
  | CardSent string int
  | Bet string int int uid string string wager "int option"
  | Close string
  | Fix string bool "int list"
  | Settle string

fun dice_step :: "dice_world \<Rightarrow> dice_env \<times> real \<times> dice_op \<Rightarrow> round_error + dice_world" where
  "dice_step w (v, now, Create chat thread mid uid tg capital nonce) =
     bindR (create v w chat thread mid uid tg capital nonce now) (\<lambda>(w', _). Inr w')"
| "dice_step w (v, now, CardSent nonce mid) = card_sent w nonce mid now"
| "dice_step w (v, now, Bet chat thread mid uid tg option wager reply) = group_bet v w chat thread mid uid tg option wager reply now"
| "dice_step w (v, now, Close nonce) = close_round w nonce now"
| "dice_step w (v, now, Fix nonce verified drawn) = fix_round w nonce verified drawn now"
| "dice_step w (v, now, Settle nonce) = settle v w nonce now"

definition empty_world :: "ledger \<Rightarrow> dice_world" where
  "empty_world rows = \<lparr>w_cash = empty_cash rows, w_rounds = [], w_bets = [], w_tickets = [], w_receipts = []\<rparr>"

end
