(* ===== verification/DiceFunds.thy ===== *)
theory DiceFunds
  imports DiceRound
begin

text \<open>
  The money of the group dice game: every accepted step keeps the wealth of the members, whatever the order of commands,
  bets, draws and settlements.
\<close>

section \<open>Moving the escrows of one round\<close>

lemma consume_bets_keeps:
  "consume_bets c nonce now bets = Inr c' \<Longrightarrow> cash_ok c \<Longrightarrow>
   cash_ok c' \<and> wealth c' = wealth c - sum_list (map b_amount bets) \<and> points c' = points c"
proof (induction bets arbitrary: c)
  case (Cons b bets)
  then obtain c1 where t: "take_escrow c ''dice'' (bet_ref b) (b_user b) (b_amount b) Spent = Inr c1"
    and r: "consume_bets (cash_event c1 ''dice'' (bet_ref b) (b_user b) OpConsume (b_amount b) (nonce @ '':size'') now) nonce now bets = Inr c'"
    by (auto split: if_splits)
  show ?case
    using Cons.IH [OF r] take_escrow_ok [OF t Cons.prems(2)] take_escrow_wealth [OF t Cons.prems(2)] take_escrow_frame [OF t]
    by simp
qed simp

lemma consume_bank_keeps:
  assumes "consume_bank c nonce now b = Inr c'" "cash_ok c"
  shows "cash_ok c' \<and> wealth c' = wealth c - bank_capital b \<and> points c' = points c"
proof -
  obtain c1 where t: "take_escrow c ''dice'' (banker_ref nonce) (bank_user b) (bank_capital b) Spent = Inr c1"
    and c': "c' = cash_event c1 ''dice'' (banker_ref nonce) (bank_user b) OpConsume (bank_capital b) (nonce @ '':size'') now"
    using assms(1) by (auto simp: consume_bank_def split: if_splits)
  show ?thesis
    using take_escrow_ok [OF t assms(2)] take_escrow_wealth [OF t assms(2)] take_escrow_frame [OF t] by (simp add: c')
qed

lemma dice_apply_effect:
  assumes "dice_apply c u d reason ref now = Inr c'"
  shows "wealth c' = wealth c + d" "cash_ok c' \<longleftrightarrow> cash_ok c" "escrows c' = escrows c"
    "balance (points c') v = balance (points c) v + (if v = u then d else 0)"
proof -
  obtain rows b where r: "points_apply (points c) u d reason ref ''dice'' now = Inr (rows, b)" and c': "c' = c\<lparr>points := rows\<rparr>"
    using assms by (auto simp: dice_apply_def split: sum.splits prod.splits)
  show "wealth c' = wealth c + d" using apply_tot [OF r] by (simp add: c' wealth_def)
  show "cash_ok c' \<longleftrightarrow> cash_ok c" "escrows c' = escrows c" by (simp_all add: c' cash_ok_def)
  show "balance (points c') v = balance (points c) v + (if v = u then d else 0)" using apply_bal [OF r, of v] by (simp add: c')
qed

lemma pay_recipients_keeps:
  "pay_recipients v c nonce reason now ps = Inr c' \<Longrightarrow> cash_ok c \<Longrightarrow> \<forall>p \<in> set ps. 0 \<le> o_returned (snd p) \<Longrightarrow>
   cash_ok c' \<and> wealth c' = wealth c + asum o_returned ps"
proof (induction ps arbitrary: c)
  case (Cons p ps)
  obtain uid out where p: "p = (uid, out)" by (cases p)
  show ?case
  proof (cases "o_returned out = 0")
    case True
    then show ?thesis using Cons p by (auto split: if_splits)
  next
    case False
    with Cons.prems(1) p obtain c1 where a: "dice_apply c uid (o_returned out) reason (nonce @ '':size'') now = Inr c1"
      and r: "pay_recipients v (cash_event c1 ''dice'' (nonce @ '':size'') uid OpPayout (o_returned out) [] now) nonce reason now ps = Inr c'"
      by (auto simp: Let_def split: if_splits)
    have "0 < o_returned out" using False Cons.prems(3) p by auto
    then show ?thesis
      using Cons.IH [OF r] Cons.prems(2,3) dice_apply_effect(1,2) [OF a] p by simp
  qed
qed simp

section \<open>What a settlement hands out\<close>

lemma collect_sides_valid: "collect_sides house al bets = Inr stakes \<Longrightarrow> banker_bets house bets"
proof (induction bets arbitrary: al)
  case (Cons b bets)
  then show ?case by (auto simp: banker_bets_def split: if_splits)
qed (simp add: banker_bets_def)

definition sides_ok :: "uid \<Rightarrow> (uid \<times> side_stakes) list \<Rightarrow> bool" where
  "sides_ok house al \<longleftrightarrow> keyed al \<and> (\<forall>p \<in> set al. fst p \<noteq> house \<and> 0 \<le> on_big (snd p) \<and> 0 \<le> on_small (snd p))"

lemma sides_ok_put: "sides_ok house al \<Longrightarrow> k \<noteq> house \<Longrightarrow> 0 \<le> on_big s \<Longrightarrow> 0 \<le> on_small s \<Longrightarrow> sides_ok house (put k s al)"
  using set_put [of k s al] by (auto simp: sides_ok_def)

lemma collect_sides_sides: "collect_sides house al bets = Inr stakes \<Longrightarrow> sides_ok house al \<Longrightarrow> sides_ok house stakes"
proof (induction bets arbitrary: al)
  case (Cons b bets)
  let ?old = "case map_of al (b_user b) of None \<Rightarrow> \<lparr>on_big = 0, on_small = 0\<rparr> | Some s \<Rightarrow> s"
  have c: "collect_sides house (put (b_user b) (add_side (b_option b) (b_amount b) ?old) al) bets = Inr stakes"
    "b_user b \<noteq> house" "1 \<le> b_amount b"
    using Cons.prems(1) by (auto split: if_splits)
  have "0 \<le> on_big ?old \<and> 0 \<le> on_small ?old"
    using Cons.prems(2) by (auto simp: sides_ok_def split: option.split dest!: map_of_SomeD)
  then have "0 \<le> on_big (add_side (b_option b) (b_amount b) ?old)" "0 \<le> on_small (add_side (b_option b) (b_amount b) ?old)"
    using c(3) by (auto simp: add_side_def)
  then show ?case using Cons.IH [OF c(1)] sides_ok_put [OF Cons.prems(2) c(2)] by blast
qed simp

lemma settle_banker_Inr:
  assumes "settle_banker bets dice b force_refund = Inr r"
  shows "banker_bets (bank_user b) bets" "r_total r = sum_list (map b_amount bets)" "keyed (r_users r)"
    "asum o_returned (r_users r) + o_returned (r_banker r) = bank_capital b + sum_list (map b_amount bets)"
    "bank_user b \<notin> fst ` set (r_users r)" "\<And>k out. (k, out) \<in> set (r_users r) \<Longrightarrow> 0 \<le> o_returned out"
    "0 \<le> o_returned (r_banker r)" "1 \<le> bank_capital b"
proof -
  obtain stakes where st: "collect_sides (bank_user b) [] bets = Inr stakes" and cap: "1 \<le> bank_capital b"
    using assms by (auto simp: settle_banker_def)
  show bets: "banker_bets (bank_user b) bets" using st by (rule collect_sides_valid)
  show "1 \<le> bank_capital b" by (rule cap)
  have so: "sides_ok (bank_user b) stakes" using collect_sides_sides [OF st] by (simp add: sides_ok_def)
  have sums: "asum on_big stakes + asum on_small stakes = sum_list (map b_amount bets)"
    using collect_sides_ok [OF bets, of "[]"] st on_side_sum [OF bets] by auto
  define reason where "reason = (if force_refund then BeaconTimeout else if asum on_big stakes + asum on_small stakes = 0 then NoStake else Contested)"
  have r: "r_total r = asum on_big stakes + asum on_small stakes"
    "r_users r = map (\<lambda>(k, s). (k, banker_outcome reason (winner_of reason dice) s)) stakes"
    "0 \<le> o_returned (r_banker r)"
    "asum o_returned (r_users r) + o_returned (r_banker r) = bank_capital b + (asum on_big stakes + asum on_small stakes)"
    using assms by (auto simp: settle_banker_def st Let_def reason_def [symmetric] split: if_splits)
  show "r_total r = sum_list (map b_amount bets)" "0 \<le> o_returned (r_banker r)"
    "asum o_returned (r_users r) + o_returned (r_banker r) = bank_capital b + sum_list (map b_amount bets)"
    using r sums by simp_all
  show "keyed (r_users r)" "bank_user b \<notin> fst ` set (r_users r)"
    using so by (auto simp: r(2) sides_ok_def split_def comp_def)
  fix k out assume "(k, out) \<in> set (r_users r)"
  then obtain s where "(k, s) \<in> set stakes" "out = banker_outcome reason (winner_of reason dice) s" by (auto simp: r(2))
  then show "0 \<le> o_returned out"
    using so by (force simp: banker_outcome_returned sides_ok_def split: option.split)
qed

section \<open>Every step keeps the wealth\<close>

lemma put_round_cash [simp]: "w_cash (put_round n r w) = w_cash w"
  by (simp add: put_round_def)

lemma settle_due_Inr:
  assumes "settle_due v w nonce r timeout clock = Inr w'"
  obtains a c1 c2 c3 where "settle_banker (round_bets w nonce) (d_dice r) (d_bank r) timeout = Inr a"
    "consume_bets (w_cash w) nonce clock (round_bets w nonce) = Inr c1"
    "consume_bank c1 nonce clock (d_bank r) = Inr c2"
    "pay_recipients v c2 nonce (if r_reason a = Contested then ''dice.payout'' else ''dice.refund'') clock
       (put (bank_user (d_bank r)) (r_banker a) (r_users a)) = Inr c3"
    "w' = put_round nonce (r\<lparr>d_state := (if d_accepted r = 0 then Empty else if timeout then Refunded else Settled),
       d_held := 0, d_result := Some a, d_faulty := timeout\<rparr>) (w\<lparr>w_cash := c3\<rparr>)"
proof -
  from assms [unfolded settle_due_def] obtain a where a: "in_dice (settle_banker (round_bets w nonce) (d_dice r) (d_bank r) timeout) = Inr a"
    and F: "(if d_held r \<noteq> r_total a \<or> d_accepted r \<noteq> r_total a then Inl PoolReconciliation
       else
         bindR (consume_bets (w_cash w) nonce clock (round_bets w nonce)) (\<lambda>c1.
         bindR (consume_bank c1 nonce clock (d_bank r)) (\<lambda>c2.
         bindR (pay_recipients v c2 nonce (if r_reason a = Contested then ''dice.payout'' else ''dice.refund'') clock
                  (put (bank_user (d_bank r)) (r_banker a) (r_users a))) (\<lambda>c3.
         Inr (put_round nonce (r\<lparr>d_state := (if d_accepted r = 0 then Empty else if timeout then Refunded else Settled),
                d_held := 0, d_result := Some a, d_faulty := timeout\<rparr>) (w\<lparr>w_cash := c3\<rparr>)))))) = Inr w'"
    by (rule bindR_InrE)
  from F [unfolded Inr_if] show ?thesis
    using that a by (elim conjE bindR_InrE) simp
qed

lemma settle_cases:
  assumes "settle v w nonce now = Inr w'"
  obtains "w' = w" | r timeout where "map_of (w_rounds w) nonce = Some r" "running r"
    "settle_due v w nonce r timeout (clock_int now) = Inr w'"
proof -
  obtain r where r: "get_round w nonce = Inr r" using assms by (auto simp: settle_def)
  then have m: "map_of (w_rounds w) nonce = Some r" by (auto simp: get_round_def split: option.splits)
  have "w' = w \<or> (running r \<and> settle_due v w nonce r (d_state r = Locked \<and> d_timeout r \<le> now) (clock_int now) = Inr w')"
    using assms by (auto simp: settle_def r Let_def running_def split: if_splits)
  then show ?thesis using that m by blast
qed

lemma settle_due_keeps:
  assumes "settle_due v w nonce r timeout clock = Inr w'" "cash_ok (w_cash w)"
  shows "cash_ok (w_cash w') \<and> wealth (w_cash w') = wealth (w_cash w)"
proof -
  obtain a c1 c2 c3 where a: "settle_banker (round_bets w nonce) (d_dice r) (d_bank r) timeout = Inr a"
    and c1: "consume_bets (w_cash w) nonce clock (round_bets w nonce) = Inr c1"
    and c2: "consume_bank c1 nonce clock (d_bank r) = Inr c2"
    and c3: "pay_recipients v c2 nonce (if r_reason a = Contested then ''dice.payout'' else ''dice.refund'') clock
        (put (bank_user (d_bank r)) (r_banker a) (r_users a)) = Inr c3" and w': "w_cash w' = c3"
    by (rule settle_due_Inr [OF assms(1)]) simp
  note s = settle_banker_Inr [OF a]
  have pos: "\<forall>p \<in> set (put (bank_user (d_bank r)) (r_banker a) (r_users a)). 0 \<le> o_returned (snd p)"
    using set_put [of "bank_user (d_bank r)" "r_banker a" "r_users a"] s(6,7) by fastforce
  have "map_of (r_users a) (bank_user (d_bank r)) = None" using s(5) by (simp add: map_of_eq_None_iff)
  then have paid: "asum o_returned (put (bank_user (d_bank r)) (r_banker a) (r_users a))
      = bank_capital (d_bank r) + sum_list (map b_amount (round_bets w nonce))"
    using s(3,4) by (simp add: asum_put)
  have k1: "cash_ok c1" "wealth c1 = wealth (w_cash w) - sum_list (map b_amount (round_bets w nonce))"
    using consume_bets_keeps [OF c1 assms(2)] by auto
  have k2: "cash_ok c2" "wealth c2 = wealth c1 - bank_capital (d_bank r)" using consume_bank_keeps [OF c2 k1(1)] by auto
  show ?thesis using pay_recipients_keeps [OF c3 k2(1) pos] k1 k2 paid w' by simp
qed

lemma dice_settle_keeps:
  "settle v w nonce now = Inr w' \<Longrightarrow> cash_ok (w_cash w) \<Longrightarrow> cash_ok (w_cash w') \<and> wealth (w_cash w') = wealth (w_cash w)"
  by (erule settle_cases) (auto dest: settle_due_keeps)

lemma take_bet_keeps:
  assumes "take_bet v w nonce r chat mid uid tg option all_in amount now = Inr w'" "cash_ok (w_cash w)"
  shows "cash_ok (w_cash w') \<and> wealth (w_cash w') = wealth (w_cash w)"
proof -
  let ?b = "\<lparr>b_ticket = v_ticket v chat mid, b_user = uid, b_option = option, b_amount = amount\<rparr>"
  obtain c b where "reserve (w_cash w) ''dice'' (bet_ref ?b) uid amount ''play.reserve'' (clock_int now) = Inr (c, b)" "w_cash w' = c"
    using assms(1) by (auto simp: take_bet_def Let_def split: if_splits)
  then show ?thesis using reserve_keeps assms(2) by blast
qed

lemma place_bet_take:
  assumes "place_bet v w nonce r chat mid uid tg option wager now = Inr w'"
  obtains amount where "take_bet v w nonce r chat mid uid tg option (wager = AllIn) amount now = Inr w'"
    "bet_amount w r (round_bets w nonce) uid option wager = Inr amount"
    "bank_capital (d_bank r) + d_accepted r + amount \<le> MAX_INT"
    "\<bar>on_side option (round_bets w nonce) + amount - on_side (flip option) (round_bets w nonce)\<bar> \<le> bank_capital (d_bank r)"
    "amount \<le> balance (points (w_cash w)) uid" "uid \<noteq> bank_user (d_bank r)" "d_state r = Open"
  using assms by (auto simp: place_bet_def Let_def split: if_splits)

lemma group_bet_place:
  assumes "group_bet v w chat thread mid uid tg option wager reply now = Inr w'" "w' \<noteq> w"
  obtains nonce r where "place_bet v w nonce r chat mid uid tg option wager now = Inr w'" "option \<in> {BIG, SMALL}"
    "(nonce, r) \<in> set (w_rounds w)" "\<forall>a. wager = Amount a \<longrightarrow> 1 \<le> a \<and> a \<le> MAX_INT"
proof -
  have "\<exists>nonce r. bet_target v w chat thread reply = Some (nonce, r) \<and> place_bet v w nonce r chat mid uid tg option wager now = Inr w'
      \<and> option \<in> {BIG, SMALL} \<and> (\<forall>a. wager = Amount a \<longrightarrow> 1 \<le> a \<and> a \<le> MAX_INT)"
    using assms unfolding group_bet_def
    by (cases wager) (auto split: if_splits option.splits)
  then show ?thesis
    using that by (auto simp: bet_target_def active_at_def split: option.splits dest: find_SomeD)
qed

lemma open_round_Inr:
  assumes "open_round v w chat thread mid uid tg capital nonce now = Inr (w', n)"
  obtains c b window cap where "map_of (w_rounds w) nonce = None"
    "reserve (w_cash w) ''dice'' (banker_ref nonce) uid capital ''play.reserve'' (clock_int now) = Inr (c, b)"
    "w' = put_round nonce (new_round chat thread mid uid tg capital window cap now) w\<lparr>w_cash := c\<rparr>"
  using assms by (auto simp: open_round_def split: if_splits)

lemma create_cases:
  assumes "create v w chat thread mid uid tg capital nonce now = Inr (w', n)"
  shows "w' = w \<or> (1 \<le> capital \<and> capital \<le> MAX_INT \<and> open_round v w chat thread mid uid tg capital nonce now = Inr (w', n))"
proof -
  have "1 \<le> capital" "capital \<le> MAX_INT" using assms by (auto simp: create_def)
  then show ?thesis using assms by (auto simp: create_def split: if_splits option.splits)
qed

lemma dice_step_keeps:
  assumes "dice_step w x = Inr w'" "cash_ok (w_cash w)"
  shows "cash_ok (w_cash w') \<and> wealth (w_cash w') = wealth (w_cash w)"
  using assms
proof (induction w x rule: dice_step.induct)
  case (1 w v now chat thread mid uid tg capital nonce)
  then obtain n where "create v w chat thread mid uid tg capital nonce now = Inr (w', n)" by auto
  then consider "w' = w" | "open_round v w chat thread mid uid tg capital nonce now = Inr (w', n)" using create_cases by blast
  then show ?case
  proof cases
    case 2
    then show ?thesis by (rule open_round_Inr) (use reserve_keeps 1 in force)
  qed (use 1 in simp)
next
  case (3 w v now chat thread mid uid tg option wager reply)
  show ?case
  proof (cases "w' = w")
    case False
    then obtain nonce r where "place_bet v w nonce r chat mid uid tg option wager now = Inr w'"
      using group_bet_place 3 by (metis dice_step.simps(3))
    then show ?thesis using 3 by (elim place_bet_take) (rule take_bet_keeps)
  qed (use 3 in simp)
next
  case (6 w v now nonce)
  then show ?case using dice_settle_keeps by simp
qed (auto simp: card_sent_def close_round_def fix_round_def split: if_splits)

interpretation dice: accounting dice_step "\<lambda>w. cash_ok (w_cash w)" "\<lambda>w. wealth (w_cash w)"
  by unfold_locales (auto dest: dice_step_keeps)

end
