(* ===== verification/DicePayable.thy ===== *)
theory DicePayable
  imports DiceFunds
begin

text \<open>
  Every round that took bets can be settled: the escrows of its banker and of its bets are exactly what the round's row
  says, the bets stay within what the banker can lose, and so none of the reconciliation errors of \<open>settle\<close> arises.
\<close>

section \<open>References of escrows\<close>

lemma option_length: "option \<in> {BIG, SMALL} \<Longrightarrow> length option = 3"
  by (auto simp: BIG_def SMALL_def)

lemma bet_ref_inj:
  assumes "bet_ref b = bet_ref b'" "b_option b \<in> {BIG, SMALL}" "b_option b' \<in> {BIG, SMALL}"
  shows "b_ticket b = b_ticket b'"
proof -
  have "length (b_option b) = length (b_option b')" using option_length assms(2,3) by metis
  moreover have "(b_ticket b @ '':size:'') @ b_option b = (b_ticket b' @ '':size:'') @ b_option b'"
    using assms(1) by (simp add: bet_ref_def)
  ultimately have "b_ticket b @ '':size:'' = b_ticket b' @ '':size:''" by (metis append_eq_append_conv)
  then show ?thesis by simp
qed

lemma bet_ref_banker: "b_option b \<in> {BIG, SMALL} \<Longrightarrow> bet_ref b \<noteq> banker_ref n"
proof
  assume o: "b_option b \<in> {BIG, SMALL}" and e: "bet_ref b = banker_ref n"
  have "last (bet_ref b) = last (b_option b)" using o by (auto simp: bet_ref_def BIG_def SMALL_def)
  moreover have "last (banker_ref n) = CHR ''r''" by (simp add: banker_ref_def)
  ultimately show False using o e by (auto simp: BIG_def SMALL_def)
qed

lemma banker_ref_inj: "banker_ref m = banker_ref n \<longleftrightarrow> m = n"
  by (simp add: banker_ref_def)

section \<open>The escrows an operation touches\<close>

lemma consume_bets_frame:
  "consume_bets c nonce now bets = Inr c' \<Longrightarrow>
   (map_of (escrows c') k = None \<longleftrightarrow> map_of (escrows c) k = None) \<and>
   (k \<notin> (\<lambda>b. (''dice'', bet_ref b, b_user b)) ` set bets \<longrightarrow> map_of (escrows c') k = map_of (escrows c) k)"
proof (induction bets arbitrary: c)
  case (Cons b bets)
  then obtain c1 where t: "take_escrow c ''dice'' (bet_ref b) (b_user b) (b_amount b) Spent = Inr c1"
    and r: "consume_bets (cash_event c1 ''dice'' (bet_ref b) (b_user b) OpConsume (b_amount b) (nonce @ '':size'') now) nonce now bets = Inr c'"
    by (auto split: if_splits)
  show ?case using Cons.IH [OF r] take_escrow_dom [OF t, of k] take_escrow_other [OF t, of k] by auto
qed simp

lemma consume_bank_frame:
  assumes "consume_bank c nonce now b = Inr c'"
  shows "(map_of (escrows c') k = None \<longleftrightarrow> map_of (escrows c) k = None) \<and>
   (k \<noteq> (''dice'', banker_ref nonce, bank_user b) \<longrightarrow> map_of (escrows c') k = map_of (escrows c) k)"
proof -
  obtain c1 where t: "take_escrow c ''dice'' (banker_ref nonce) (bank_user b) (bank_capital b) Spent = Inr c1"
    and c': "c' = cash_event c1 ''dice'' (banker_ref nonce) (bank_user b) OpConsume (bank_capital b) (nonce @ '':size'') now"
    using assms by (auto simp: consume_bank_def split: if_splits)
  show ?thesis using take_escrow_dom [OF t, of k] take_escrow_other [OF t, of k] by (simp add: c')
qed

lemma pay_recipients_frame:
  "pay_recipients v c nonce reason now ps = Inr c' \<Longrightarrow> escrows c' = escrows c"
proof (induction ps arbitrary: c)
  case (Cons p ps)
  then show ?case by (cases p) (auto simp: Let_def dest: dice_apply_effect(3) split: if_splits)
qed simp

section \<open>The invariant\<close>

definition round_funded :: "dice_world \<Rightarrow> string \<Rightarrow> dice_round \<Rightarrow> bool" where
  "round_funded w n r \<longleftrightarrow>
     banker_bets (bank_user (d_bank r)) (round_bets w n) \<and> 1 \<le> bank_capital (d_bank r)
     \<and> bank_capital (d_bank r) + sum_list (map b_amount (round_bets w n)) \<le> MAX_INT
     \<and> \<bar>on_side BIG (round_bets w n) - on_side SMALL (round_bets w n)\<bar> \<le> bank_capital (d_bank r)
     \<and> d_held r = sum_list (map b_amount (round_bets w n)) \<and> d_accepted r = sum_list (map b_amount (round_bets w n))
     \<and> (\<forall>b \<in> set (round_bets w n). held (w_cash w) ''dice'' (bet_ref b) (b_user b) = b_amount b)
     \<and> held (w_cash w) ''dice'' (banker_ref n) (bank_user (d_bank r)) = bank_capital (d_bank r)
     \<and> (d_state r = Fixed \<longrightarrow> valid_dice (d_dice r))"

definition known_ref :: "dice_world \<Rightarrow> string \<Rightarrow> bool" where
  "known_ref w ref \<longleftrightarrow> (\<exists>n. map_of (w_rounds w) n \<noteq> None \<and> ref = banker_ref n) \<or> (\<exists>p \<in> set (w_bets w). ref = bet_ref (snd p))"

definition bets_known :: "dice_world \<Rightarrow> bool" where
  "bets_known w \<longleftrightarrow> distinct (map (\<lambda>p. b_ticket (snd p)) (w_bets w))
     \<and> (\<forall>p \<in> set (w_bets w). map_of (w_tickets w) (b_ticket (snd p)) \<noteq> None \<and> b_option (snd p) \<in> {BIG, SMALL}
          \<and> map_of (w_rounds w) (fst p) \<noteq> None)"

definition escrows_known :: "dice_world \<Rightarrow> bool" where
  "escrows_known w \<longleftrightarrow> (\<forall>ref u. map_of (escrows (w_cash w)) (''dice'', ref, u) \<noteq> None \<longrightarrow> known_ref w ref)"

definition world_ok :: "dice_world \<Rightarrow> bool" where
  "world_ok w \<longleftrightarrow> cash_ok (w_cash w) \<and> keyed (w_rounds w) \<and> bets_known w \<and> escrows_known w
     \<and> (\<forall>n r. map_of (w_rounds w) n = Some r \<longrightarrow> running r \<longrightarrow> round_funded w n r)"

text \<open>Only valid dice are ever fixed: what \<open>derive\<close> returns.\<close>

fun op_sound :: "dice_op \<Rightarrow> bool" where
  "op_sound (Fix nonce verified drawn) = valid_dice drawn"
| "op_sound _ = True"

lemma world_okD:
  "world_ok w \<Longrightarrow> cash_ok (w_cash w)" "world_ok w \<Longrightarrow> keyed (w_rounds w)" "world_ok w \<Longrightarrow> bets_known w"
  "world_ok w \<Longrightarrow> escrows_known w"
  "world_ok w \<Longrightarrow> map_of (w_rounds w) n = Some r \<Longrightarrow> running r \<Longrightarrow> round_funded w n r"
  by (auto simp: world_ok_def)

text \<open>A step that leaves bets and the escrows of a round alone keeps it funded.\<close>

lemma round_funded_cong:
  assumes "round_funded w n r" "round_bets w' n = round_bets w n" "d_bank r' = d_bank r" "d_held r' = d_held r"
    "d_accepted r' = d_accepted r" "d_state r' = Fixed \<Longrightarrow> valid_dice (d_dice r')"
    and "\<And>b. b \<in> set (round_bets w n) \<Longrightarrow> held (w_cash w') ''dice'' (bet_ref b) (b_user b) = held (w_cash w) ''dice'' (bet_ref b) (b_user b)"
    and "held (w_cash w') ''dice'' (banker_ref n) (bank_user (d_bank r)) = held (w_cash w) ''dice'' (banker_ref n) (bank_user (d_bank r))"
  shows "round_funded w' n r'"
  using assms unfolding round_funded_def by simp

lemma put_round_simps [simp]:
  "w_bets (put_round n r w) = w_bets w" "w_tickets (put_round n r w) = w_tickets w"
  "w_rounds (put_round n r w) = put n r (w_rounds w)" "round_bets (put_round n r w) m = round_bets w m"
  by (simp_all add: put_round_def round_bets_def)

lemma round_bets_cash [simp]: "round_bets (w\<lparr>w_cash := c\<rparr>) m = round_bets w m"
  by (simp add: round_bets_def)

lemma bets_known_cong:
  assumes "bets_known w" "w_bets w' = w_bets w" "w_tickets w' = w_tickets w"
    "\<And>n. map_of (w_rounds w) n \<noteq> None \<Longrightarrow> map_of (w_rounds w') n \<noteq> None"
  shows "bets_known w'"
  using assms(1,4) unfolding bets_known_def assms(2,3) by blast

lemma known_ref_mono:
  assumes "known_ref w ref" "set (w_bets w) \<subseteq> set (w_bets w')"
    "\<And>n. map_of (w_rounds w) n \<noteq> None \<Longrightarrow> map_of (w_rounds w') n \<noteq> None"
  shows "known_ref w' ref"
  using assms unfolding known_ref_def by blast

lemma escrows_known_cong:
  assumes "escrows_known w" "set (w_bets w) \<subseteq> set (w_bets w')"
    "\<And>n. map_of (w_rounds w) n \<noteq> None \<Longrightarrow> map_of (w_rounds w') n \<noteq> None"
    "\<And>ref u. map_of (escrows (w_cash w')) (''dice'', ref, u) \<noteq> None \<Longrightarrow> map_of (escrows (w_cash w)) (''dice'', ref, u) \<noteq> None"
  shows "escrows_known w'"
  using assms known_ref_mono [OF _ assms(2,3)] unfolding escrows_known_def by blast

text \<open>Changing the row of one round, with its escrows and bets kept.\<close>

lemma update_round_ok:
  assumes ok: "world_ok w" and r: "map_of (w_rounds w) nonce = Some r"
    and r': "d_bank r' = d_bank r" "d_held r' = d_held r" "d_accepted r' = d_accepted r" "running r' \<Longrightarrow> running r"
      "d_state r' = Fixed \<Longrightarrow> valid_dice (d_dice r')"
  shows "world_ok (put_round nonce r' w)"
proof -
  have "bets_known (put_round nonce r' w)" using world_okD(3) [OF ok] by (rule bets_known_cong) (auto split: if_splits)
  moreover have "escrows_known (put_round nonce r' w)"
    using world_okD(4) [OF ok] by (rule escrows_known_cong) (auto split: if_splits)
  moreover have "round_funded (put_round nonce r' w) n q"
    if q: "map_of (w_rounds (put_round nonce r' w)) n = Some q" "running q" for n q
  proof (cases "n = nonce")
    case True
    then have q': "q = r'" using q by simp
    then have f: "round_funded w nonce r" using world_okD(5) [OF ok r] r'(4) q(2) by blast
    show ?thesis unfolding True q' by (rule round_funded_cong [OF f]) (simp_all add: r')
  next
    case False
    then have f: "round_funded w n q" using q world_okD(5) [OF ok] by simp
    then have "d_state q = Fixed \<Longrightarrow> valid_dice (d_dice q)" by (simp add: round_funded_def)
    then show ?thesis by (intro round_funded_cong [OF f]) simp_all
  qed
  ultimately show ?thesis using world_okD(1,2) [OF ok] by (simp add: world_ok_def)
qed

lemma lock_round_simps [simp]:
  "d_bank (lock_round r now) = d_bank r" "d_held (lock_round r now) = d_held r" "d_accepted (lock_round r now) = d_accepted r"
  by (simp_all add: lock_round_def)

lemma lock_round_running: "running r \<Longrightarrow> running (lock_round r now)" "running (lock_round r now) \<Longrightarrow> running r"
  "d_state (lock_round r now) = Fixed \<Longrightarrow> d_state r = Fixed \<and> d_dice (lock_round r now) = d_dice r"
  by (auto simp: lock_round_def running_def split: if_splits)

section \<open>Steps keep the invariant\<close>

lemma fresh_escrow:
  assumes "escrows_known w" "\<not> known_ref w ref"
  shows "map_of (escrows (w_cash w)) (''dice'', ref, u) = None"
  using assms unfolding escrows_known_def by blast

lemma funded_reserve:
  assumes f: "round_funded w n r" and c: "reserve (w_cash w) ''dice'' ref u a reason now = Inr (c, b)"
    "map_of (escrows (w_cash w)) (''dice'', ref, u) = None"
    and w': "w_cash w' = c" "round_bets w' n = round_bets w n"
  shows "round_funded w' n r"
proof -
  have other: "held c ''dice'' ref' u' = held (w_cash w) ''dice'' ref' u'" if "held (w_cash w) ''dice'' ref' u' \<noteq> 0" for ref' u'
  proof -
    have "(''dice'', ref', u') \<noteq> (''dice'', ref, u)" using that c(2) by (auto simp: held_def)
    then show ?thesis by (intro held_cong reserve_fresh(2) [OF c])
  qed
  have bets: "banker_bets (bank_user (d_bank r)) (round_bets w n)" "\<forall>b \<in> set (round_bets w n). held (w_cash w) ''dice'' (bet_ref b) (b_user b) = b_amount b"
    "held (w_cash w) ''dice'' (banker_ref n) (bank_user (d_bank r)) = bank_capital (d_bank r)" "1 \<le> bank_capital (d_bank r)"
    "d_state r = Fixed \<Longrightarrow> valid_dice (d_dice r)"
    using f by (auto simp: round_funded_def)
  show ?thesis
  proof (rule round_funded_cong [OF f w'(2)])
    fix b assume "b \<in> set (round_bets w n)"
    then have "held (w_cash w) ''dice'' (bet_ref b) (b_user b) \<noteq> 0" using bets(1,2) by (fastforce simp: banker_bets_def list_all_iff)
    then show "held (w_cash w') ''dice'' (bet_ref b) (b_user b) = held (w_cash w) ''dice'' (bet_ref b) (b_user b)"
      by (simp add: w'(1) other)
  next
    show "held (w_cash w') ''dice'' (banker_ref n) (bank_user (d_bank r)) = held (w_cash w) ''dice'' (banker_ref n) (bank_user (d_bank r))"
      using other [of "banker_ref n" "bank_user (d_bank r)"] bets(3,4) w'(1) by simp
  qed (use bets(5) in auto)
qed

lemma round_bets_none: "bets_known w \<Longrightarrow> map_of (w_rounds w) n = None \<Longrightarrow> round_bets w n = []"
  by (force simp: bets_known_def round_bets_def filter_empty_conv)

lemma round_bets_in: "b \<in> set (round_bets w n) \<longleftrightarrow> (n, b) \<in> set (w_bets w)"
  by (force simp: round_bets_def)

lemma known_bet_ref:
  assumes "bets_known w" "known_ref w (bet_ref b)" "b_option b \<in> {BIG, SMALL}"
  shows "map_of (w_tickets w) (b_ticket b) \<noteq> None"
proof -
  from assms(2) bet_ref_banker [OF assms(3)] obtain p where p: "p \<in> set (w_bets w)" "bet_ref b = bet_ref (snd p)"
    unfolding known_ref_def by blast
  have "map_of (w_tickets w) (b_ticket (snd p)) \<noteq> None" "b_option (snd p) \<in> {BIG, SMALL}"
    using assms(1) p(1) unfolding bets_known_def by blast+
  then show ?thesis using bet_ref_inj [OF p(2) assms(3)] by simp
qed

lemma open_round_ok:
  assumes o: "open_round v w chat thread mid uid tg capital nonce now = Inr (w', n)" and cap: "1 \<le> capital" "capital \<le> MAX_INT"
    and ok: "world_ok w"
  shows "world_ok w'"
proof -
  from o obtain c b window cap' where new: "map_of (w_rounds w) nonce = None"
    and c: "reserve (w_cash w) ''dice'' (banker_ref nonce) uid capital ''play.reserve'' (clock_int now) = Inr (c, b)"
    and w': "w' = put_round nonce (new_round chat thread mid uid tg capital window cap' now) w\<lparr>w_cash := c\<rparr>"
    by (rule open_round_Inr)
  have nk: "\<not> known_ref w (banker_ref nonce)"
  proof
    assume "known_ref w (banker_ref nonce)"
    then have "\<exists>p \<in> set (w_bets w). banker_ref nonce = bet_ref (snd p)" using new banker_ref_inj unfolding known_ref_def by metis
    then show False using world_okD(3) [OF ok] bet_ref_banker unfolding bets_known_def by metis
  qed
  have fresh: "map_of (escrows (w_cash w)) (''dice'', banker_ref nonce, uid) = None"
    using fresh_escrow [OF world_okD(4) [OF ok] nk] .
  have rounds: "w_rounds w' = put nonce (new_round chat thread mid uid tg capital window cap' now) (w_rounds w)"
    and [simp]: "w_bets w' = w_bets w" "w_tickets w' = w_tickets w" "w_cash w' = c"
    by (simp_all add: w')
  have dom: "map_of (w_rounds w) m \<noteq> None \<Longrightarrow> map_of (w_rounds w') m \<noteq> None" for m by (simp add: rounds)
  have "bets_known w'" by (rule bets_known_cong [OF world_okD(3) [OF ok] _ _ dom]) simp_all
  moreover have "escrows_known w'"
  proof (unfold escrows_known_def, intro allI impI)
    fix ref u assume e: "map_of (escrows (w_cash w')) (''dice'', ref, u) \<noteq> None"
    show "known_ref w' ref"
    proof (cases "(''dice'', ref, u) = (''dice'', banker_ref nonce, uid)")
      case True
      moreover have "map_of (w_rounds w') nonce \<noteq> None" by (simp add: rounds)
      ultimately show ?thesis unfolding known_ref_def by blast
    next
      case False
      then have "map_of (escrows (w_cash w)) (''dice'', ref, u) \<noteq> None" using e reserve_fresh(2) [OF c fresh False] by simp
      then have "known_ref w ref" using world_okD(4) [OF ok] unfolding escrows_known_def by blast
      then show ?thesis by (rule known_ref_mono) (simp_all add: dom)
    qed
  qed
  moreover have "round_funded w' m q" if q: "map_of (w_rounds w') m = Some q" "running q" for m q
  proof (cases "m = nonce")
    case True
    then have qd: "q = new_round chat thread mid uid tg capital window cap' now" using q(1) by (simp add: rounds)
    have "round_bets w' nonce = []" using round_bets_none [OF world_okD(3) [OF ok] new] by (simp add: w')
    then show ?thesis
      using True cap reserve_fresh(1) [OF c fresh]
      by (simp add: round_funded_def qd new_round_def banker_bets_def on_side_def)
  next
    case False
    then have "round_funded w m q" using q world_okD(5) [OF ok] by (simp add: rounds)
    then show ?thesis by (rule funded_reserve [OF _ c fresh]) (simp_all add: w')
  qed
  moreover have "cash_ok c" using reserve_keeps [OF c world_okD(1) [OF ok]] by blast
  ultimately show ?thesis using world_okD(2) [OF ok] by (simp add: world_ok_def rounds)
qed

lemma on_side_snoc: "on_side option (bets @ [b]) = on_side option bets + (if b_option b = option then b_amount b else 0)"
  by (simp add: on_side_def)

lemma banker_bets_snoc: "banker_bets house (bets @ [b]) \<longleftrightarrow> banker_bets house bets \<and> b_user b \<noteq> house \<and> b_option b \<in> {BIG, SMALL} \<and> 1 \<le> b_amount b \<and> b_amount b \<le> MAX_INT"
  by (auto simp: banker_bets_def)

lemma sum_bets_nonneg: "banker_bets house bets \<Longrightarrow> 0 \<le> sum_list (map b_amount bets)"
  by (intro sum_list_int_nonneg) (auto simp: banker_bets_def list_all_iff)

lemma bet_amount_pos:
  "bet_amount w r bets uid option wager = Inr a \<Longrightarrow> (\<And>x. wager = Amount x \<Longrightarrow> 1 \<le> x) \<Longrightarrow> 1 \<le> a"
  by (cases wager) (auto simp: bet_amount_def Let_def split: if_splits)

lemma take_bet_Inr:
  assumes "take_bet v w nonce r chat mid uid tg option all_in amount now = Inr w'"
  defines "b \<equiv> \<lparr>b_ticket = v_ticket v chat mid, b_user = uid, b_option = option, b_amount = amount\<rparr>"
    and "r1 \<equiv> r\<lparr>d_held := d_held r + amount, d_accepted := d_accepted r + amount\<rparr>"
  obtains c fresh where "reserve (w_cash w) ''dice'' (bet_ref b) uid amount ''play.reserve'' (clock_int now) = Inr (c, fresh)"
    "map_of (w_tickets w) (b_ticket b) = None" "w_cash w' = c" "w_tickets w' = put (b_ticket b) (nonce, uid, tg) (w_tickets w)"
    "w_bets w' = w_bets w @ [(nonce, b)]"
    "w_rounds w' = put nonce (if d_accepted r + amount = d_cap r then lock_round r1 now else r1) (w_rounds w)"
proof -
  from assms(1) [unfolded take_bet_def Let_def] obtain x
    where x: "in_play (reserve (w_cash w) ''dice'' (bet_ref b) uid amount ''play.reserve'' (clock_int now)) = Inr x"
    and F: "map_of (w_tickets w) (b_ticket b) = None"
      "w' = put_round nonce (if d_accepted r + amount = d_cap r then lock_round r1 now else r1)
        (w\<lparr>w_cash := fst x, w_tickets := put (b_ticket b) (nonce, uid, tg) (w_tickets w), w_bets := w_bets w @ [(nonce, b)],
           w_receipts := put (chat, mid) \<lparr>rc_nonce = nonce, rc_user = uid, rc_tg = tg, rc_option = option,
             rc_amount = amount, rc_all_in = all_in\<rparr> (w_receipts w)\<rparr>)"
    by (elim bindR_InrE) (auto simp only: b_def r1_def split_def Inr_if Inr_inject not_not)
  show ?thesis by (rule that [of "fst x" "snd x"]) (use x F in \<open>simp_all add: put_round_def\<close>)
qed

lemma place_bet_ok:
  assumes p: "place_bet v w nonce r chat mid uid tg option wager now = Inr w'" and opt: "option \<in> {BIG, SMALL}"
    and pos: "\<And>x. wager = Amount x \<Longrightarrow> 1 \<le> x" and r: "map_of (w_rounds w) nonce = Some r" and ok: "world_ok w"
  shows "world_ok w'"
proof -
  from p obtain amount where t: "take_bet v w nonce r chat mid uid tg option (wager = AllIn) amount now = Inr w'"
    and am: "bet_amount w r (round_bets w nonce) uid option wager = Inr amount"
    and bound: "bank_capital (d_bank r) + d_accepted r + amount \<le> MAX_INT"
    and exp: "\<bar>on_side option (round_bets w nonce) + amount - on_side (flip option) (round_bets w nonce)\<bar> \<le> bank_capital (d_bank r)"
    and uid: "uid \<noteq> bank_user (d_bank r)" and st: "d_state r = Open"
    by (rule place_bet_take)
  have run: "running r" using st by (simp add: running_def)
  have a1: "1 \<le> amount" using bet_amount_pos [OF am] pos by blast
  let ?b = "\<lparr>b_ticket = v_ticket v chat mid, b_user = uid, b_option = option, b_amount = amount\<rparr>"
  let ?r1 = "r\<lparr>d_held := d_held r + amount, d_accepted := d_accepted r + amount\<rparr>"
  let ?r2 = "if d_accepted r + amount = d_cap r then lock_round ?r1 now else ?r1"
  obtain c b where c: "reserve (w_cash w) ''dice'' (bet_ref ?b) uid amount ''play.reserve'' (clock_int now) = Inr (c, b)"
    and tk: "map_of (w_tickets w) (b_ticket ?b) = None"
    and w': "w_cash w' = c" "w_tickets w' = put (b_ticket ?b) (nonce, uid, tg) (w_tickets w)"
      "w_bets w' = w_bets w @ [(nonce, ?b)]" "w_rounds w' = put nonce ?r2 (w_rounds w)"
    using t by (rule take_bet_Inr)
  have nk: "\<not> known_ref w (bet_ref ?b)" using known_bet_ref [OF world_okD(3) [OF ok], of ?b] tk opt by auto
  note fresh = fresh_escrow [OF world_okD(4) [OF ok] nk, of uid]
  have rb: "round_bets w' m = (if m = nonce then round_bets w m @ [?b] else round_bets w m)" for m
    by (simp add: round_bets_def w'(3))
  have dom: "map_of (w_rounds w) m \<noteq> None \<Longrightarrow> map_of (w_rounds w') m \<noteq> None" for m by (simp add: w'(4))
  have "bets_known w'"
  proof -
    have old: "distinct (map (\<lambda>p. b_ticket (snd p)) (w_bets w))"
      "map_of (w_tickets w) (b_ticket (snd p)) \<noteq> None \<and> b_option (snd p) \<in> {BIG, SMALL} \<and> map_of (w_rounds w) (fst p) \<noteq> None"
      if "p \<in> set (w_bets w)" for p
      using world_okD(3) [OF ok] that unfolding bets_known_def by blast+
    have d: "distinct (map (\<lambda>p. b_ticket (snd p)) (w_bets w))" using world_okD(3) [OF ok] unfolding bets_known_def by blast
    have "b_ticket ?b \<notin> (\<lambda>p. b_ticket (snd p)) ` set (w_bets w)" using old(2) tk by force
    moreover have "map_of (w_tickets w') (b_ticket (snd p)) \<noteq> None \<and> b_option (snd p) \<in> {BIG, SMALL} \<and> map_of (w_rounds w') (fst p) \<noteq> None"
      if "p \<in> set (w_bets w')" for p
      using that old(2) [of p] dom [of "fst p"] opt by (auto simp: w'(2,3,4))
    ultimately show ?thesis using d unfolding bets_known_def by (simp add: w'(3))
  qed
  moreover have "escrows_known w'"
  proof (unfold escrows_known_def, intro allI impI)
    fix ref u assume e: "map_of (escrows (w_cash w')) (''dice'', ref, u) \<noteq> None"
    show "known_ref w' ref"
    proof (cases "(''dice'', ref, u) = (''dice'', bet_ref ?b, uid)")
      case True
      then show ?thesis by (auto simp: known_ref_def w'(3))
    next
      case False
      then have "map_of (escrows (w_cash w)) (''dice'', ref, u) \<noteq> None" using e reserve_fresh(2) [OF c fresh False] w'(1) by simp
      then have "known_ref w ref" using world_okD(4) [OF ok] unfolding escrows_known_def by blast
      then show ?thesis by (rule known_ref_mono) (auto simp: w'(3) dom)
    qed
  qed
  moreover have "round_funded w' m q" if q: "map_of (w_rounds w') m = Some q" "running q" for m q
  proof (cases "m = nonce")
    case False
    then have "round_funded w m q" using q world_okD(5) [OF ok] by (simp add: w'(4))
    then show ?thesis by (rule funded_reserve [OF _ c fresh]) (simp_all add: w'(1) rb False)
  next
    case True
    have f: "round_funded w nonce r" by (rule world_okD(5) [OF ok r run])
    have f': "round_funded (w\<lparr>w_cash := c\<rparr>) nonce r" by (rule funded_reserve [OF f c fresh]) simp_all
    have q2: "q = ?r2" using q(1) True by (simp add: w'(4))
    have qq: "d_bank q = d_bank r" "d_held q = d_held r + amount" "d_accepted q = d_accepted r + amount" "d_state q \<noteq> Fixed"
      using st by (auto simp: q2 lock_round_def)
    have bb: "banker_bets (bank_user (d_bank r)) (round_bets w nonce)" using f by (simp add: round_funded_def)
    have am: "amount \<le> MAX_INT"
      using bound f sum_bets_nonneg [OF bb] by (simp add: round_funded_def)
    have sides: "\<bar>on_side BIG (round_bets w' nonce) - on_side SMALL (round_bets w' nonce)\<bar> \<le> bank_capital (d_bank r)"
      using exp opt big_small by (auto simp: rb on_side_snoc flip_def abs_le_iff)
    show ?thesis
      unfolding True round_funded_def qq(1-3)
      using f' sides qq(4) bound uid opt a1 am reserve_fresh(1) [OF c fresh]
      by (simp add: round_funded_def rb banker_bets_snoc w'(1))
  qed
  moreover have "cash_ok c" using reserve_keeps [OF c world_okD(1) [OF ok]] by blast
  ultimately show ?thesis using world_okD(2) [OF ok] by (simp add: world_ok_def w'(1,4))
qed

section \<open>Settlement\<close>

lemma settled_escrows:
  assumes c1: "consume_bets (w_cash w) nonce clock (round_bets w nonce) = Inr c1"
    and c2: "consume_bank c1 nonce clock b = Inr c2"
    and c3: "pay_recipients v c2 nonce reason clock ps = Inr c3"
  shows "map_of (escrows c3) k = None \<longleftrightarrow> map_of (escrows (w_cash w)) k = None"
    "\<forall>b \<in> set (round_bets w nonce). k \<noteq> (''dice'', bet_ref b, b_user b) \<Longrightarrow> k \<noteq> (''dice'', banker_ref nonce, bank_user b) \<Longrightarrow>
     map_of (escrows c3) k = map_of (escrows (w_cash w)) k"
proof -
  note f = consume_bets_frame [OF c1, of k] consume_bank_frame [OF c2, of k] pay_recipients_frame [OF c3]
  show "map_of (escrows c3) k = None \<longleftrightarrow> map_of (escrows (w_cash w)) k = None" using f by simp
  assume "\<forall>b \<in> set (round_bets w nonce). k \<noteq> (''dice'', bet_ref b, b_user b)" "k \<noteq> (''dice'', banker_ref nonce, bank_user b)"
  then show "map_of (escrows c3) k = map_of (escrows (w_cash w)) k" using f by auto
qed

lemma other_ticket:
  assumes "bets_known w" "b \<in> set (round_bets w n)" "b' \<in> set (round_bets w nonce)" "n \<noteq> nonce"
  shows "bet_ref b \<noteq> bet_ref b'"
proof
  assume e: "bet_ref b = bet_ref b'"
  have m: "(n, b) \<in> set (w_bets w)" "(nonce, b') \<in> set (w_bets w)" using assms(2,3) by (simp_all add: round_bets_in)
  have opts: "b_option b \<in> {BIG, SMALL}" "b_option b' \<in> {BIG, SMALL}" and d: "distinct (map (\<lambda>p. b_ticket (snd p)) (w_bets w))"
    using assms(1) m unfolding bets_known_def by fastforce+
  have "b_ticket b = b_ticket b'" using bet_ref_inj [OF e opts] .
  then have "(n, b) = (nonce, b')" using d m unfolding distinct_map inj_on_def by (metis snd_conv)
  then show False using assms(4) by simp
qed

lemma settle_due_ok:
  assumes s: "settle_due v w nonce r timeout clock = Inr w'" and r: "map_of (w_rounds w) nonce = Some r" "running r" and ok: "world_ok w"
  shows "world_ok w'"
proof -
  obtain a c1 c2 c3 where c1: "consume_bets (w_cash w) nonce clock (round_bets w nonce) = Inr c1"
    and c2: "consume_bank c1 nonce clock (d_bank r) = Inr c2"
    and c3: "pay_recipients v c2 nonce (if r_reason a = Contested then ''dice.payout'' else ''dice.refund'') clock
       (put (bank_user (d_bank r)) (r_banker a) (r_users a)) = Inr c3"
    and w': "w' = put_round nonce (r\<lparr>d_state := (if d_accepted r = 0 then Empty else if timeout then Refunded else Settled),
       d_held := 0, d_result := Some a, d_faulty := timeout\<rparr>) (w\<lparr>w_cash := c3\<rparr>)"
    by (rule settle_due_Inr [OF s])
  note esc = settled_escrows [OF c1 c2 c3]
  have [simp]: "w_bets w' = w_bets w" "w_tickets w' = w_tickets w" "w_cash w' = c3" "round_bets w' m = round_bets w m" for m
    by (simp_all add: w')
  have dom: "map_of (w_rounds w) m \<noteq> None \<Longrightarrow> map_of (w_rounds w') m \<noteq> None" for m by (simp add: w')
  have "bets_known w'" by (rule bets_known_cong [OF world_okD(3) [OF ok] _ _ dom]) simp_all
  moreover have "escrows_known w'"
    by (rule escrows_known_cong [OF world_okD(4) [OF ok] _ dom]) (simp_all add: esc(1))
  moreover have "round_funded w' m q" if q: "map_of (w_rounds w') m = Some q" "running q" for m q
  proof -
    have m: "m \<noteq> nonce" using q by (auto simp: w' running_def split: if_splits)
    then have f: "round_funded w m q" using q world_okD(5) [OF ok] by (simp add: w')
    have opts: "b_option b \<in> {BIG, SMALL}" if "b \<in> set (round_bets w n)" for b n
      using that world_okD(3) [OF ok] unfolding bets_known_def round_bets_in by fastforce
    show ?thesis
    proof (rule round_funded_cong [OF f])
      fix b assume b: "b \<in> set (round_bets w m)"
      have "(''dice'', bet_ref b, b_user b) \<noteq> (''dice'', bet_ref b', b_user b')" if "b' \<in> set (round_bets w nonce)" for b'
        using other_ticket [OF world_okD(3) [OF ok] b that m] by simp
      moreover have "(''dice'', bet_ref b, b_user b) \<noteq> (''dice'', banker_ref nonce, bank_user (d_bank r))"
        using bet_ref_banker [OF opts [OF b]] by simp
      ultimately show "held (w_cash w') ''dice'' (bet_ref b) (b_user b) = held (w_cash w) ''dice'' (bet_ref b) (b_user b)"
        using esc(2) [of "(''dice'', bet_ref b, b_user b)"] by (intro held_cong) simp
    next
      let ?k = "(''dice'', banker_ref m, bank_user (d_bank q))"
      have "?k \<noteq> (''dice'', bet_ref b, b_user b)" if "b \<in> set (round_bets w nonce)" for b
        using bet_ref_banker [OF opts [OF that], of m] by simp
      moreover have "?k \<noteq> (''dice'', banker_ref nonce, bank_user (d_bank r))" using m banker_ref_inj by simp
      ultimately show "held (w_cash w') ''dice'' (banker_ref m) (bank_user (d_bank q)) = held (w_cash w) ''dice'' (banker_ref m) (bank_user (d_bank q))"
        using esc(2) [of ?k] by (intro held_cong) simp
    qed (use f in \<open>simp_all add: round_funded_def\<close>)
  qed
  moreover have "cash_ok c3" using settle_due_keeps [OF s world_okD(1) [OF ok]] by simp
  ultimately show ?thesis using world_okD(2) [OF ok] by (simp add: world_ok_def w')
qed

lemma dice_step_ok:
  assumes "dice_step w x = Inr w'" "op_sound (snd (snd x))" "world_ok w"
  shows "world_ok w'"
  using assms
proof (induction w x rule: dice_step.induct)
  case (1 w v now chat thread mid uid tg capital nonce)
  then obtain n where "create v w chat thread mid uid tg capital nonce now = Inr (w', n)" by auto
  then consider "w' = w" | "1 \<le> capital" "capital \<le> MAX_INT" "open_round v w chat thread mid uid tg capital nonce now = Inr (w', n)"
    using create_cases by blast
  then show ?case
  proof cases
    case 2
    show ?thesis by (rule open_round_ok [OF 2(3,1,2) 1(3)])
  qed (use 1(3) in simp)
next
  case (2 w v now nonce mid)
  then obtain r where "map_of (w_rounds w) nonce = Some r"
    and "w' = put_round nonce (r\<lparr>d_card := Some mid, d_state := (if d_state r = Opening \<and> now < d_deadline r then Open else d_state r)\<rparr>) w"
    by (auto simp: card_sent_def get_round_def split: option.splits)
  moreover have "d_state r = Fixed \<Longrightarrow> valid_dice (d_dice r)"
    using world_okD(5) [OF 2(3) \<open>map_of (w_rounds w) nonce = Some r\<close>] by (simp add: running_def round_funded_def)
  ultimately show ?case using 2(3) by (auto intro!: update_round_ok simp: running_def)
next
  case (3 w v now chat thread mid uid tg option wager reply)
  show ?case
  proof (cases "w' = w")
    case False
    have g: "group_bet v w chat thread mid uid tg option wager reply now = Inr w'" using 3(1) by simp
    from g False obtain nonce r where p: "place_bet v w nonce r chat mid uid tg option wager now = Inr w'" "option \<in> {BIG, SMALL}"
      "(nonce, r) \<in> set (w_rounds w)" "\<forall>a. wager = Amount a \<longrightarrow> 1 \<le> a \<and> a \<le> MAX_INT"
      by (rule group_bet_place)
    have "map_of (w_rounds w) nonce = Some r" using p(3) world_okD(2) [OF 3(3)] by simp
    then show ?thesis using place_bet_ok [OF p(1,2) _ _ 3(3)] p(4) by blast
  qed (use 3 in simp)
next
  case (4 w v now nonce)
  then obtain r where r: "map_of (w_rounds w) nonce = Some r"
    and w': "w' = (if d_state r \<in> {Opening, Open} \<and> d_deadline r \<le> now then put_round nonce (lock_round r now) w else w)"
    by (auto simp: close_round_def get_round_def split: option.splits)
  have "world_ok (put_round nonce (lock_round r now) w)" if "d_state r \<in> {Opening, Open}"
    using lock_round_running [of r now] that by (intro update_round_ok [OF 4(3) r]) auto
  then show ?case using w' 4(3) by auto
next
  case (5 w v now nonce verified drawn)
  then obtain r where r: "map_of (w_rounds w) nonce = Some r"
    and w': "w' = w \<or> (d_state r = Locked \<and> w' = put_round nonce (r\<lparr>d_state := Fixed, d_dice := drawn\<rparr>) w)"
    by (auto simp: fix_round_def get_round_def split: option.splits if_splits)
  have "world_ok (put_round nonce (r\<lparr>d_state := Fixed, d_dice := drawn\<rparr>) w)" if "d_state r = Locked"
    using 5(2) that by (intro update_round_ok [OF 5(3) r]) (auto simp: running_def)
  then show ?case using w' 5(3) by blast
next
  case (6 w v now nonce)
  then have "settle v w nonce now = Inr w'" by simp
  then show ?case by (rule settle_cases) (use 6(3) settle_due_ok in auto)
qed

lemma dice_run_ok:
  "runR dice_step w ops = Inr w' \<Longrightarrow> \<forall>x \<in> set ops. op_sound (snd (snd x)) \<Longrightarrow> world_ok w \<Longrightarrow> world_ok w'"
proof (induction ops arbitrary: w)
  case (Cons x ops)
  then obtain u where u: "dice_step w x = Inr u" "runR dice_step u ops = Inr w'" by auto
  have "world_ok u" using dice_step_ok [OF u(1)] Cons.prems(2,3) by simp
  then show ?case using Cons.IH [OF u(2)] Cons.prems(2) by simp
qed simp

lemma empty_world_ok: "world_ok (empty_world rows)"
  by (simp add: world_ok_def empty_world_def empty_cash_def cash_ok_def bets_known_def escrows_known_def)

section \<open>Nothing can block a settlement\<close>

lemma consume_bets_total:
  "distinct (map bet_ref bets) \<Longrightarrow> \<forall>b \<in> set bets. held c ''dice'' (bet_ref b) (b_user b) = b_amount b \<and> 1 \<le> b_amount b \<and> b_amount b \<le> MAX_INT \<Longrightarrow>
   \<exists>c'. consume_bets c nonce now bets = Inr c'"
proof (induction bets arbitrary: c)
  case (Cons b bets)
  obtain c1 where t: "take_escrow c ''dice'' (bet_ref b) (b_user b) (b_amount b) Spent = Inr c1"
    using take_escrow_all [of c "''dice''" "bet_ref b" "b_user b" "b_amount b" Spent] Cons.prems(2) by auto
  let ?c = "cash_event c1 ''dice'' (bet_ref b) (b_user b) OpConsume (b_amount b) (nonce @ '':size'') now"
  have "held ?c ''dice'' (bet_ref b') (b_user b') = held c ''dice'' (bet_ref b') (b_user b')" if "b' \<in> set bets" for b'
  proof -
    have "bet_ref b \<notin> bet_ref ` set bets" using Cons.prems(1) by simp
    then have "bet_ref b' \<noteq> bet_ref b" using that by (metis imageI)
    then have "(''dice'', bet_ref b', b_user b') \<noteq> (''dice'', bet_ref b, b_user b)" by simp
    then show ?thesis unfolding held_event by (intro held_cong take_escrow_other [OF t])
  qed
  then have "\<exists>c'. consume_bets ?c nonce now bets = Inr c'" using Cons.prems by (intro Cons.IH) auto
  then show ?case using Cons.prems(2) t by auto
qed simp

lemma consume_bank_total:
  assumes "held c ''dice'' (banker_ref nonce) (bank_user b) = bank_capital b" "1 \<le> bank_capital b" "bank_capital b \<le> MAX_INT"
  shows "\<exists>c'. consume_bank c nonce now b = Inr c'"
  using take_escrow_all [OF assms, of Spent] assms(1) by (auto simp: consume_bank_def)

text \<open>Whether the code pays a recipient: the account exists and the balance after the payment is a 63-bit number. A check-in may
  leave a balance negative, so the lower end matters.\<close>

fun can_pay :: "dice_env \<Rightarrow> ledger \<Rightarrow> uid \<times> outcome \<Rightarrow> bool" where
  "can_pay v rows (u, out) \<longleftrightarrow> v_member v u
     \<and> (o_returned out = 0 \<or> 0 \<le> balance rows u + o_returned out \<and> balance rows u + o_returned out \<le> MAX_INT)"

definition gets :: "(uid \<times> outcome) list \<Rightarrow> uid \<Rightarrow> int" where
  "gets ps u = (case map_of ps u of None \<Rightarrow> 0 | Some out \<Rightarrow> o_returned out)"

abbreviation payment_refusals :: "(round_error + 'a) set" where
  "payment_refusals \<equiv> {Inl AccountMissing, Inl (InPlay (OutOfRange LEscrowTotal 0 MAX_INT))}"

lemma pay_recipients_exact:
  "keyed ps \<Longrightarrow> \<forall>p \<in> set ps. 0 \<le> o_returned (snd p) \<Longrightarrow>
   (if list_all (can_pay v (points c)) ps
    then \<exists>c'. pay_recipients v c nonce reason now ps = Inr c' \<and> (\<forall>u. balance (points c') u = balance (points c) u + gets ps u)
    else pay_recipients v c nonce reason now ps \<in> payment_refusals)"
proof (induction ps arbitrary: c)
  case (Cons p ps)
  obtain uid out where p: "p = (uid, out)" by (cases p)
  have out: "uid \<notin> fst ` set ps" using Cons.prems(1) p by simp
  have k: "keyed ps" "\<forall>p \<in> set ps. 0 \<le> o_returned (snd p)" using Cons.prems by simp_all
  have g: "gets (p # ps) u = (if u = uid then o_returned out else gets ps u)" for u by (simp add: gets_def p)
  have gu: "gets ps uid = 0" using out by (simp add: gets_def map_of_eq_None_iff [THEN iffD2])
  show ?case
  proof (cases "v_member v uid")
    case member: True
    show ?thesis
    proof (cases "o_returned out = 0")
      case True
      then have "balance (points c) u + gets (p # ps) u = balance (points c) u + gets ps u" for u using g gu by simp
      then show ?thesis using Cons.IH [OF k, of c] True member p by (cases "list_all (can_pay v (points c)) ps") simp_all
    next
      case False
      show ?thesis
      proof (cases "0 \<le> balance (points c) uid + o_returned out \<and> balance (points c) uid + o_returned out \<le> MAX_INT")
        case fits: True
        have "0 \<le> o_returned out" using Cons.prems(2) p by simp
        then obtain c1 where c1: "dice_apply c uid (o_returned out) reason (nonce @ '':size'') now = Inr c1"
          by (auto simp: dice_apply_def points_apply_def Let_def)
        let ?c = "cash_event c1 ''dice'' (nonce @ '':size'') uid OpPayout (o_returned out) [] now"
        have bal: "balance (points ?c) u = balance (points c) u + (if u = uid then o_returned out else 0)" for u
          using dice_apply_effect(4) [OF c1, of u] by simp
        have "can_pay v (points ?c) q = can_pay v (points c) q" if "q \<in> set ps" for q
        proof -
          have "fst q \<noteq> uid" using out that by force
          then show ?thesis using bal [of "fst q"] by (cases q) simp
        qed
        then have la: "list_all (can_pay v (points ?c)) ps = list_all (can_pay v (points c)) ps" by (simp add: list_all_iff)
        have "balance (points ?c) u + gets ps u = balance (points c) u + gets (p # ps) u" for u using bal g gu by simp
        then show ?thesis using Cons.IH [OF k, of ?c] False member fits p c1 la
          by (cases "list_all (can_pay v (points c)) ps") (simp_all add: integer_def)
      qed (use False member p in \<open>auto simp: integer_def in_play_def\<close>)
    qed
  qed (use p in simp)
qed (simp add: gets_def)

lemma tickets_distinct_refs:
  assumes "bets_known w"
  shows "distinct (map bet_ref (round_bets w nonce))"
proof -
  have d: "distinct (map (\<lambda>p. b_ticket (snd p)) (w_bets w))"
    and opts: "\<And>b. b \<in> set (round_bets w nonce) \<Longrightarrow> b_option b \<in> {BIG, SMALL}"
    using assms unfolding bets_known_def round_bets_in by fastforce+
  have "distinct (map b_ticket (round_bets w nonce))"
    using distinct_map_filter [OF d, of "\<lambda>p. fst p = nonce"] by (simp add: round_bets_def comp_def)
  then have "inj_on b_ticket (set (round_bets w nonce))" "distinct (round_bets w nonce)" by (simp_all add: distinct_map)
  then show ?thesis using opts bet_ref_inj unfolding distinct_map inj_on_def by metis
qed

lemma settle_total:
  assumes ok: "world_ok w" and r: "map_of (w_rounds w) nonce = Some r"
    and due: "d_state r = Fixed \<or> d_state r = Locked \<and> d_timeout r \<le> now"
  shows "\<exists>a. settle_banker (round_bets w nonce) (d_dice r) (d_bank r) (d_state r = Locked \<and> d_timeout r \<le> now) = Inr a \<and>
    (let pays = put (bank_user (d_bank r)) (r_banker a) (r_users a) in
     if list_all (can_pay v (points (w_cash w))) pays
     then \<exists>w' r'. settle v w nonce now = Inr w' \<and> map_of (w_rounds w') nonce = Some r' \<and> \<not> running r'
       \<and> (\<forall>u. balance (points (w_cash w')) u = balance (points (w_cash w)) u + gets pays u)
     else settle v w nonce now \<in> payment_refusals)"
proof -
  have run: "running r" using due by (auto simp: running_def)
  note f = world_okD(5) [OF ok r run]
  let ?bets = "round_bets w nonce" and ?timeout = "d_state r = Locked \<and> d_timeout r \<le> now"
  have bb: "banker_bets (bank_user (d_bank r)) ?bets" and cap: "1 \<le> bank_capital (d_bank r)" "bank_capital (d_bank r) + sum_list (map b_amount ?bets) \<le> MAX_INT"
    and exposure: "\<bar>on_side BIG ?bets - on_side SMALL ?bets\<bar> \<le> bank_capital (d_bank r)"
    and acc: "d_held r = sum_list (map b_amount ?bets)" "d_accepted r = sum_list (map b_amount ?bets)"
    using f by (simp_all add: round_funded_def)
  have "?timeout \<or> ?bets = [] \<or> valid_dice (d_dice r)" using due f by (auto simp: round_funded_def)
  then obtain a where a: "settle_banker ?bets (d_dice r) (d_bank r) ?timeout = Inr a"
    using settle_banker_runs [OF bb cap exposure] by blast
  note sa = settle_banker_Inr [OF a]
  have amounts: "\<forall>b \<in> set ?bets. held (w_cash w) ''dice'' (bet_ref b) (b_user b) = b_amount b \<and> 1 \<le> b_amount b \<and> b_amount b \<le> MAX_INT"
    using f bb by (simp add: round_funded_def banker_bets_def list_all_iff)
  obtain c1 where c1: "consume_bets (w_cash w) nonce (clock_int now) ?bets = Inr c1"
    using consume_bets_total [OF tickets_distinct_refs [OF world_okD(3) [OF ok]] amounts] by blast
  let ?k = "(''dice'', banker_ref nonce, bank_user (d_bank r))"
  have "?k \<noteq> (''dice'', bet_ref b, b_user b)" if "b \<in> set ?bets" for b
    using bb that by (auto simp: banker_bets_def list_all_iff)
  then have "?k \<notin> (\<lambda>b. (''dice'', bet_ref b, b_user b)) ` set ?bets" by blast
  then have "held c1 ''dice'' (banker_ref nonce) (bank_user (d_bank r)) = held (w_cash w) ''dice'' (banker_ref nonce) (bank_user (d_bank r))"
    using consume_bets_frame [OF c1, of ?k] by (intro held_cong) blast
  also have "\<dots> = bank_capital (d_bank r)" using f by (simp add: round_funded_def)
  finally have hb: "held c1 ''dice'' (banker_ref nonce) (bank_user (d_bank r)) = bank_capital (d_bank r)" .
  have "bank_capital (d_bank r) \<le> MAX_INT" using cap(2) sum_bets_nonneg [OF bb] by linarith
  then obtain c2 where c2: "consume_bank c1 nonce (clock_int now) (d_bank r) = Inr c2"
    using consume_bank_total [OF hb cap(1)] by blast
  have pts: "points c2 = points (w_cash w)"
    using consume_bets_keeps [OF c1 world_okD(1) [OF ok]] consume_bank_keeps [OF c2] by simp
  let ?ps = "put (bank_user (d_bank r)) (r_banker a) (r_users a)"
  have nonneg: "\<forall>p \<in> set ?ps. 0 \<le> o_returned (snd p)"
  proof
    fix p assume "p \<in> set ?ps"
    then have "p = (bank_user (d_bank r), r_banker a) \<or> p \<in> set (r_users a)" using set_put by fastforce
    then show "0 \<le> o_returned (snd p)" using sa(6) [of "fst p" "snd p"] sa(7) by auto
  qed
  let ?why = "if r_reason a = Contested then ''dice.payout'' else ''dice.refund''"
  note pay = pay_recipients_exact [OF keyed_put [OF sa(3)] nonneg, of v c2 nonce ?why "clock_int now"]
  have step: "settle v w nonce now = bindR (pay_recipients v c2 nonce ?why (clock_int now) ?ps) (\<lambda>c3.
      Inr (put_round nonce (r\<lparr>d_state := (if d_accepted r = 0 then Empty else if ?timeout then Refunded else Settled),
             d_held := 0, d_result := Some a, d_faulty := ?timeout\<rparr>) (w\<lparr>w_cash := c3\<rparr>)))"
    using due by (auto simp: settle_def get_round_def r Let_def settle_due_def a acc sa(2) c1 c2)
  show ?thesis
  proof (intro exI [of _ a] conjI a)
    show "let pays = ?ps in if list_all (can_pay v (points (w_cash w))) pays
      then \<exists>w' r'. settle v w nonce now = Inr w' \<and> map_of (w_rounds w') nonce = Some r' \<and> \<not> running r'
        \<and> (\<forall>u. balance (points (w_cash w')) u = balance (points (w_cash w)) u + gets pays u)
      else settle v w nonce now \<in> payment_refusals"
    proof (cases "list_all (can_pay v (points (w_cash w))) ?ps")
      case True
      then obtain c3 where c3: "pay_recipients v c2 nonce ?why (clock_int now) ?ps = Inr c3"
        "\<forall>u. balance (points c3) u = balance (points (w_cash w)) u + gets ?ps u" using pay unfolding pts by auto
      then show ?thesis using True by (simp add: step running_def Let_def)
    next
      case False
      then have "pay_recipients v c2 nonce ?why (clock_int now) ?ps \<in> payment_refusals" using pay unfolding pts by simp
      then show ?thesis using False by (auto simp: step Let_def)
    qed
  qed
qed

section \<open>Properties\<close>

text \<open>C5. Whatever happens in the group dice game (rounds opened, cards sent, bets typed or repeated, rounds closed, drawn, settled or
  refunded, in any order), the members' points together with what is held in escrow stay the same, and the account tables keep
  their constraints.\<close>

theorem dice_conserves:
  assumes "runR dice_step (empty_world rows) ops = Inr w"
  shows "wealth (w_cash w) = ledger_total rows \<and> cash_ok (w_cash w)"
proof -
  have "cash_ok (w_cash (empty_world rows))" "wealth (w_cash (empty_world rows)) = ledger_total rows"
    by (simp_all add: empty_world_def empty_cash_def cash_ok_def wealth_def)
  then show ?thesis using dice.run_worth [OF assms] dice.run_ok [OF assms] by simp
qed

definition demo_env :: dice_env where
  "demo_env = \<lparr>v_enabled = True, v_deleting = (\<lambda>_. False), v_member = (\<lambda>_. True), v_window = None, v_multiplier = None,
     v_ticket = (\<lambda>chat mid. chat @ ''#'' @ number (mid mod 100)), v_art = (\<lambda>_. [])\<rparr>"

definition demo_points :: ledger where
  "demo_points = map (\<lambda>u. \<lparr>l_user = u, l_delta = 500, l_after = 500, l_reason = ''grant'', l_ref = [], l_actor = [], l_at = 0\<rparr>)
     [''bank'', ''ann'', ''bob'']"

definition demo_dice :: "(dice_env \<times> real \<times> dice_op) list" where
  "demo_dice = map (\<lambda>(t, x). (demo_env, t, x))
     [(1700000000, Create ''c'' 0 10 ''bank'' ''1'' 100 ''n''), (1700000001, CardSent ''n'' 11),
      (1700000002, Bet ''c'' 0 12 ''ann'' ''2'' BIG (Amount 60) None), (1700000003, Bet ''c'' 0 13 ''bob'' ''3'' SMALL AllIn None),
      (1700000091, Close ''n''), (1700000100, Fix ''n'' True [6, 5, 4])]"

definition demo_end :: dice_world where
  "demo_end = (case runR dice_step (empty_world demo_points) demo_dice of Inl _ \<Rightarrow> empty_world [] | Inr w \<Rightarrow> w)"

lemma demo_dice_run: "runR dice_step (empty_world demo_points) demo_dice = Inr demo_end"
proof -
  have "case runR dice_step (empty_world demo_points) demo_dice of Inl _ \<Rightarrow> False | Inr _ \<Rightarrow> True" by code_simp
  then show ?thesis by (simp add: demo_end_def split: sum.splits)
qed

theorem dice_conserves_witness: "wealth (w_cash demo_end) = 1500"
proof -
  have "ledger_total demo_points = 1500" by code_simp
  then show ?thesis using dice_conserves [OF demo_dice_run] by simp
qed

text \<open>C4. What can block a round that is due, and what cannot: after any history of commands whose fixed dice are valid ones, a round
  that is drawn or past its deadline is always reconciled (no pool, escrow, banker or exposure error), and it settles, paying every
  recipient exactly what the banker rules give, unless a recipient's account is missing or a payment would leave a balance
  that is negative (a check-in can overdraw an account) or out of the 63-bit range; then it is refused with that very error.\<close>

theorem dice_round_settles:
  assumes "runR dice_step (empty_world rows) ops = Inr w" "\<forall>x \<in> set ops. op_sound (snd (snd x))"
    and "map_of (w_rounds w) nonce = Some r" "d_state r = Fixed \<or> d_state r = Locked \<and> d_timeout r \<le> now"
  shows "\<exists>a. settle_banker (round_bets w nonce) (d_dice r) (d_bank r) (d_state r = Locked \<and> d_timeout r \<le> now) = Inr a \<and>
    (let pays = put (bank_user (d_bank r)) (r_banker a) (r_users a) in
     if list_all (can_pay v (points (w_cash w))) pays
     then \<exists>w' r'. settle v w nonce now = Inr w' \<and> map_of (w_rounds w') nonce = Some r' \<and> \<not> running r'
       \<and> (\<forall>u. balance (points (w_cash w')) u = balance (points (w_cash w)) u + gets pays u)
     else settle v w nonce now \<in> payment_refusals)"
  using settle_total [OF dice_run_ok [OF assms(1,2) empty_world_ok] assms(3,4)] .

definition demo_broke :: dice_env where
  "demo_broke = demo_env\<lparr>v_member := (\<lambda>_. False)\<rparr>"

theorem dice_round_settles_witness:
  "(\<exists>w' r'. settle demo_env demo_end ''n'' 1700000101 = Inr w' \<and> map_of (w_rounds w') ''n'' = Some r' \<and> \<not> running r')
   \<and> settle demo_broke demo_end ''n'' 1700000101 \<in> payment_refusals"
proof -
  have "case map_of (w_rounds demo_end) ''n'' of None \<Rightarrow> False | Some r \<Rightarrow> d_state r = Fixed
      \<and> (case settle_banker (round_bets demo_end ''n'') (d_dice r) (d_bank r) False of Inl _ \<Rightarrow> False
         | Inr a \<Rightarrow> list_all (can_pay demo_env (points (w_cash demo_end))) (put (bank_user (d_bank r)) (r_banker a) (r_users a))
             \<and> \<not> list_all (can_pay demo_broke (points (w_cash demo_end))) (put (bank_user (d_bank r)) (r_banker a) (r_users a)))" by code_simp
  then obtain r a where r: "map_of (w_rounds demo_end) ''n'' = Some r" "d_state r = Fixed"
    "settle_banker (round_bets demo_end ''n'') (d_dice r) (d_bank r) False = Inr a"
    "list_all (can_pay demo_env (points (w_cash demo_end))) (put (bank_user (d_bank r)) (r_banker a) (r_users a))"
    "\<not> list_all (can_pay demo_broke (points (w_cash demo_end))) (put (bank_user (d_bank r)) (r_banker a) (r_users a))"
    by (auto split: option.splits sum.splits)
  have sound: "\<forall>x \<in> set demo_dice. op_sound (snd (snd x))" by (auto simp: demo_dice_def valid_dice_def)
  note due = dice_round_settles [OF demo_dice_run sound r(1) disjI1 [OF r(2)], where now = 1700000101]
  show ?thesis using due [of demo_env] due [of demo_broke] r(2-5) by (simp add: Let_def) blast
qed

end
