(* ===== verification/Scheduler.thy ===== *)
theory Scheduler
  imports Prelude
begin

text \<open>
  \<^verbatim>\<open>backend/app/modules/scheduler.py\<close>: the dispatcher that picks the streaming node of a playback request. A dict of node
  states is an association list in insertion order; the identity of a \<open>NodeState\<close> object is a serial number; a bounded
  deque is a list cut from the left. The SHA-256 key of the hash ring, the probe and the clock are parameters, and the rounding
  of the displayed utilisation is left out.
\<close>

section \<open>Nodes\<close>

datatype policy = Affinity | LeastLoad

record stream_node =
  n_name :: string
  n_probe_url :: string
  n_capacity :: real
  n_enabled :: bool

record node_state =
  st_id :: nat
  st_node :: stream_node
  st_ok :: bool
  st_active :: int
  st_egress :: real
  st_last_probe :: real
  st_failures :: nat
  st_disabled :: bool
  st_last_success :: real
  st_error :: "string option"

definition utilisation :: "node_state \<Rightarrow> real" where
  "utilisation s = of_int (st_active s) / max (n_capacity (st_node s)) 1"

definition available :: "node_state \<Rightarrow> bool" where
  "available s \<longleftrightarrow> n_enabled (st_node s) \<and> \<not> st_disabled s \<and> st_ok s \<and> st_failures s < 3"

text \<open>A number of a probe payload: absent, not a number, not finite, or finite.\<close>

datatype number = Missing | NotANumber | NotFinite | Finite real

fun nonnegative :: "number \<Rightarrow> real option" where
  "nonnegative (Finite x) = (if 0 \<le> x then Some x else None)"
| "nonnegative Missing = None"
| "nonnegative NotANumber = None"
| "nonnegative NotFinite = None"

fun sample_time :: "number \<Rightarrow> real \<Rightarrow> real \<times> string" where
  "sample_time Missing received = (received, ''probe_received'')"
| "sample_time (Finite stamp) received =
     (if 0 < stamp \<and> stamp \<le> received + 5 then (stamp, ''collector'') else (0, ''invalid''))"
| "sample_time NotANumber received = (0, ''invalid'')"
| "sample_time NotFinite received = (0, ''invalid'')"

section \<open>The scheduler\<close>

record sample =
  h_ts :: real
  h_ok :: bool
  h_active :: "int option"

record dispatch =
  l_ts :: real
  l_node :: "string option"
  l_utilisation :: "real option"
  l_candidates :: nat
  l_policy :: policy
  l_reason :: string
  l_context :: string

record scheduler =
  sc_policy :: policy
  sc_threshold :: real
  sc_states :: "(string \<times> node_state) list"
  sc_history :: "(string \<times> sample list) list"
  sc_log :: "dispatch list"
  sc_serial :: nat

definition HISTORY_MAX :: nat where "HISTORY_MAX = 3600"
definition DISPATCH_MAX :: nat where "DISPATCH_MAX = 1000"
definition SPREAD_MARGIN :: real where "SPREAD_MARGIN = 15 / 100"

text \<open>\<open>deque.append\<close> with \<open>maxlen\<close>, and \<open>list(entries)[-k:]\<close> for a positive \<open>k\<close>.\<close>

definition push :: "nat \<Rightarrow> 'a list \<Rightarrow> 'a \<Rightarrow> 'a list" where
  "push maxlen xs x = (let ys = xs @ [x] in drop (length ys - maxlen) ys)"

definition newest :: "nat \<Rightarrow> 'a list \<Rightarrow> 'a list" where
  "newest k xs = drop (length xs - k) xs"

definition new_state :: "nat \<Rightarrow> stream_node \<Rightarrow> node_state" where
  "new_state i node = \<lparr>st_id = i, st_node = node, st_ok = False, st_active = 0, st_egress = 0, st_last_probe = 0,
     st_failures = 0, st_disabled = False, st_last_success = 0, st_error = None\<rparr>"

fun add_nodes :: "stream_node list \<Rightarrow> scheduler \<Rightarrow> scheduler" where
  "add_nodes [] sc = sc"
| "add_nodes (node # nodes) sc =
     add_nodes nodes (case map_of (sc_states sc) (n_name node) of
         Some s \<Rightarrow> sc\<lparr>sc_states := put (n_name node) (s\<lparr>st_node := node\<rparr>) (sc_states sc)\<rparr>
       | None \<Rightarrow> sc\<lparr>sc_states := put (n_name node) (new_state (sc_serial sc) node) (sc_states sc),
                   sc_history := put (n_name node) [] (sc_history sc), sc_serial := sc_serial sc + 1\<rparr>)"

definition reconfigure :: "scheduler \<Rightarrow> stream_node list \<Rightarrow> scheduler" where
  "reconfigure sc nodes =
     (let seen = map n_name nodes; sc' = add_nodes nodes sc in
      sc'\<lparr>sc_states := filter (\<lambda>p. fst p \<in> set seen) (sc_states sc'),
          sc_history := filter (\<lambda>p. fst p \<in> set seen) (sc_history sc')\<rparr>)"

text \<open>An unknown policy name falls back to affinity when the scheduler is built and is ignored later.\<close>

definition policy_of :: "string \<Rightarrow> policy option" where
  "policy_of name = (if name = ''affinity'' then Some Affinity else if name = ''least-load'' then Some LeastLoad else None)"

definition new_scheduler :: "stream_node list \<Rightarrow> string \<Rightarrow> real \<Rightarrow> scheduler" where
  "new_scheduler nodes name threshold =
     reconfigure \<lparr>sc_policy = (case policy_of name of None \<Rightarrow> Affinity | Some p \<Rightarrow> p), sc_threshold = threshold,
       sc_states = [], sc_history = [], sc_log = [], sc_serial = 0\<rparr> nodes"

definition set_policy :: "scheduler \<Rightarrow> string \<Rightarrow> real option \<Rightarrow> scheduler" where
  "set_policy sc name threshold =
     sc\<lparr>sc_policy := (case policy_of name of None \<Rightarrow> sc_policy sc | Some p \<Rightarrow> p),
        sc_threshold := (case threshold of None \<Rightarrow> sc_threshold sc | Some t \<Rightarrow> max 0 t)\<rparr>"

section \<open>Probing\<close>

record payload =
  pp_ok :: bool
  pp_active :: number
  pp_error :: string

text \<open>What the probe returned, with every failure (exception, not a dict, invalid stream count) already turned into the error
  \<open>probe_failed\<close>: the number of active streams, or the error text.\<close>

definition probe_result :: "payload option \<Rightarrow> string + int" where
  "probe_result data =
     (case data of
        None \<Rightarrow> Inl ''probe_failed''
      | Some d \<Rightarrow>
          if pp_ok d then
            (case nonnegative (if pp_active d = Missing then Finite 0 else pp_active d) of
               None \<Rightarrow> Inl ''probe_failed'' | Some x \<Rightarrow> Inr \<lfloor>x\<rfloor>)
          else Inl (if pp_error d = [] then ''probe_failed'' else pp_error d))"

definition probed :: "node_state \<Rightarrow> string + int \<Rightarrow> real \<Rightarrow> node_state" where
  "probed s result now =
     (case result of
        Inr active \<Rightarrow> s\<lparr>st_last_probe := now, st_ok := True, st_last_success := now, st_failures := 0, st_active := active,
                       st_egress := 0, st_error := None\<rparr>
      | Inl err \<Rightarrow> s\<lparr>st_last_probe := now, st_ok := False, st_failures := st_failures s + 1, st_error := Some err\<rparr>)"

text \<open>\<open>_refresh_node\<close>: the answer of a node that was removed meanwhile (another object under its name, or none) is dropped.\<close>

definition refresh_node :: "scheduler \<Rightarrow> string \<Rightarrow> nat \<Rightarrow> payload option \<Rightarrow> real \<Rightarrow> scheduler" where
  "refresh_node sc name i data now =
     (case map_of (sc_states sc) name of
        None \<Rightarrow> sc
      | Some s \<Rightarrow>
          if st_id s \<noteq> i then sc
          else
            let t = probed s (probe_result data) now;
                past = (case map_of (sc_history sc) name of None \<Rightarrow> [] | Some h \<Rightarrow> h) in
            sc\<lparr>sc_states := put name t (sc_states sc),
               sc_history := put name (push HISTORY_MAX past
                 \<lparr>h_ts = now, h_ok = st_ok t, h_active = (if st_ok t then Some (st_active t) else None)\<rparr>) (sc_history sc)\<rparr>)"

definition set_disabled :: "scheduler \<Rightarrow> string \<Rightarrow> bool \<Rightarrow> scheduler \<times> bool" where
  "set_disabled sc name disabled =
     (case map_of (sc_states sc) name of
        None \<Rightarrow> (sc, False)
      | Some s \<Rightarrow> (sc\<lparr>sc_states := put name (s\<lparr>st_disabled := disabled\<rparr>) (sc_states sc)\<rparr>, True))"

section \<open>Selection\<close>

text \<open>\<open>sorted(..., reverse=True)\<close> keeps the order of equal keys.\<close>

definition affinity_order :: "(string \<Rightarrow> string \<Rightarrow> string) \<Rightarrow> string \<Rightarrow> node_state list \<Rightarrow> node_state list" where
  "affinity_order ring path candidates = rev (sort_key (\<lambda>s. ring path (n_name (st_node s))) (rev candidates))"

definition load_key :: "node_state \<Rightarrow> real \<times> real" where
  "load_key s = (utilisation s, st_egress s)"

definition lightest :: "node_state list \<Rightarrow> node_state" where
  "lightest candidates = arg_min_list load_key candidates"

definition preferred :: "(string \<Rightarrow> string \<Rightarrow> string) \<Rightarrow> real \<Rightarrow> string \<Rightarrow> node_state list \<Rightarrow> node_state option" where
  "preferred ring threshold path candidates = find (\<lambda>s. utilisation s \<le> threshold) (affinity_order ring path candidates)"

definition select :: "(string \<Rightarrow> string \<Rightarrow> string) \<Rightarrow> scheduler \<Rightarrow> string \<Rightarrow> node_state list \<Rightarrow> node_state option \<times> string" where
  "select ring sc ctx candidates =
     (if candidates = [] then (None, ''none-available'')
      else if sc_policy sc = Affinity \<and> ctx \<noteq> [] then
        (case preferred ring (sc_threshold sc) ctx candidates of
           None \<Rightarrow> (Some (lightest candidates), ''affinity-overflow'')
         | Some p \<Rightarrow>
             if SPREAD_MARGIN < utilisation p - utilisation (lightest candidates)
             then (Some (lightest candidates), ''affinity-spread'') else (Some p, ''affinity''))
      else (Some (lightest candidates), ''least-load''))"

definition candidates :: "scheduler \<Rightarrow> (node_state \<Rightarrow> bool) option \<Rightarrow> node_state list" where
  "candidates sc predicate =
     (let cs = filter available (map snd (sc_states sc)) in
      case predicate of None \<Rightarrow> cs | Some p \<Rightarrow> filter p cs)"

definition pick :: "(string \<Rightarrow> string \<Rightarrow> string) \<Rightarrow> scheduler \<Rightarrow> bool \<Rightarrow> string \<Rightarrow> (node_state \<Rightarrow> bool) option \<Rightarrow> real
    \<Rightarrow> scheduler \<times> node_state option" where
  "pick ring sc record_it ctx predicate now =
     (let cs = candidates sc predicate; (chosen, reason) = select ring sc ctx cs in
      (if record_it then
         sc\<lparr>sc_log := push DISPATCH_MAX (sc_log sc)
           \<lparr>l_ts = now, l_node = map_option (\<lambda>s. n_name (st_node s)) chosen, l_utilisation = map_option utilisation chosen,
            l_candidates = length cs, l_policy = sc_policy sc, l_reason = reason, l_context = take 200 ctx\<rparr>\<rparr>
       else sc, chosen))"

text \<open>\<open>history\<close> raises KeyError on an unknown node (None).\<close>

definition history :: "scheduler \<Rightarrow> string \<Rightarrow> int \<Rightarrow> sample list option" where
  "history sc name limit = map_option (newest (nat (max 1 (min limit (int HISTORY_MAX))))) (map_of (sc_history sc) name)"

definition dispatch_log :: "scheduler \<Rightarrow> int \<Rightarrow> dispatch list" where
  "dispatch_log sc limit = newest (nat (max 1 (min limit (int DISPATCH_MAX)))) (sc_log sc)"

section \<open>The choice\<close>

lemma sort_key_rev_filter: "filter P (affinity_order ring path cs) = affinity_order ring path (filter P cs)"
  by (simp add: affinity_order_def rev_filter filter_sort [symmetric])

lemma set_affinity_order [simp]: "set (affinity_order ring path cs) = set cs"
  by (simp add: affinity_order_def)

lemma lightest_in: "cs \<noteq> [] \<Longrightarrow> lightest cs \<in> set cs"
  by (simp add: lightest_def arg_min_list_in)

lemma lightest_load: "c \<in> set cs \<Longrightarrow> utilisation (lightest cs) \<le> utilisation c"
proof -
  assume c: "c \<in> set cs"
  then have "load_key (lightest cs) = Min (load_key ` set cs)"
    unfolding lightest_def by (intro f_arg_min_list_f) auto
  also have "\<dots> \<le> load_key c" using c by simp
  finally show ?thesis by (auto simp: load_key_def less_eq_prod_def)
qed

lemma select_in: "fst (select ring sc path cs) = Some s \<Longrightarrow> s \<in> set cs"
  using lightest_in [of cs] set_affinity_order [of ring path cs]
  by (auto simp: select_def preferred_def split: if_splits option.splits dest: find_SomeD)

lemma select_light:
  assumes "fst (select ring sc path cs) = Some s" "c \<in> set cs"
  shows "utilisation s \<le> utilisation c + SPREAD_MARGIN"
  using assms lightest_load [OF assms(2)]
  by (auto simp: select_def SPREAD_MARGIN_def split: if_splits option.splits)

lemma select_None: "fst (select ring sc path cs) = None \<longleftrightarrow> cs = []"
  by (auto simp: select_def split: option.splits)

lemma candidates_iff:
  "c \<in> set (candidates sc predicate) \<longleftrightarrow>
     c \<in> snd ` set (sc_states sc) \<and> available c \<and> (case predicate of None \<Rightarrow> True | Some p \<Rightarrow> p c)"
  by (auto simp: candidates_def Let_def split: option.split)

lemma pick_snd: "snd (pick ring sc rec path predicate now) = fst (select ring sc path (candidates sc predicate))"
  by (simp add: pick_def Let_def split_def)

text \<open>C24. A request is refused only when no node can serve it; otherwise it goes to a node that is enabled, healthy and allowed by the
  caller's predicate, and that is never more than the spread margin busier than any other such node: affinity never wins over load.\<close>

theorem pick_available_and_light:
  shows "case snd (pick ring sc rec path predicate now) of
      None \<Rightarrow> candidates sc predicate = []
    | Some s \<Rightarrow> s \<in> snd ` set (sc_states sc) \<and> available s \<and> (case predicate of None \<Rightarrow> True | Some p \<Rightarrow> p s)
        \<and> (\<forall>c \<in> set (candidates sc predicate). utilisation s \<le> utilisation c + SPREAD_MARGIN)"
proof (cases "snd (pick ring sc rec path predicate now)")
  case None
  then show ?thesis using select_None [of ring sc path "candidates sc predicate"] by (simp add: pick_snd)
next
  case (Some s)
  then have c: "fst (select ring sc path (candidates sc predicate)) = Some s" by (simp add: pick_snd)
  show ?thesis using select_in [OF c] select_light [OF c] Some by (simp add: candidates_iff)
qed

definition demo_node :: "string \<Rightarrow> stream_node" where
  "demo_node name = \<lparr>n_name = name, n_probe_url = [], n_capacity = 10, n_enabled = True\<rparr>"

definition demo_scheduler :: scheduler where
  "demo_scheduler =
     (let p = (\<lambda>n. Some \<lparr>pp_ok = True, pp_active = Finite n, pp_error = []\<rparr>);
          sc = new_scheduler (map demo_node [''a'', ''b'', ''c'']) ''affinity'' (8 / 10) in
      refresh_node (refresh_node (refresh_node sc ''a'' 0 (p 9) 1) ''b'' 1 (p 3) 1) ''c'' 2 None 1)"

theorem pick_available_and_light_witness:
  "\<exists>s. snd (pick (\<lambda>_ n. n) demo_scheduler True ''film'' None 2) = Some s \<and> n_name (st_node s) = ''b'' \<and>
     (\<forall>c \<in> set (candidates demo_scheduler None). utilisation s \<le> utilisation c + SPREAD_MARGIN)"
proof -
  have "case snd (pick (\<lambda>_ n. n) demo_scheduler True ''film'' None 2) of None \<Rightarrow> False | Some s \<Rightarrow> n_name (st_node s) = ''b''"
    by code_simp
  then show ?thesis
    using pick_available_and_light [where ring = "\<lambda>_ n. n" and sc = demo_scheduler and rec = True and path = "''film''" and predicate = None and now = 2] by (auto split: option.splits)
qed

text \<open>Rendezvous hashing keeps caches warm: when nodes leave (or become unavailable), a file whose preferred node stays keeps that
  node, and every file is preferred on a node whose load is at most the threshold.\<close>

theorem affinity_stable:
  assumes "preferred ring threshold path cs = Some s" "keep s"
  shows "preferred ring threshold path (filter keep cs) = Some s \<and> utilisation s \<le> threshold"
proof -
  have "find P (filter keep xs) = Some s" if "find P xs = Some s" for P and xs :: "node_state list"
    using that assms(2) by (induction xs) (auto split: if_splits)
  then show ?thesis
    using assms(1) unfolding preferred_def sort_key_rev_filter [symmetric] by (auto dest: find_SomeD)
qed

theorem affinity_stable_witness:
  "\<exists>s. preferred (\<lambda>_ n. n) (8 / 10) ''film'' (filter (\<lambda>s. n_name (st_node s) \<noteq> ''a'') (candidates demo_scheduler None)) = Some s
     \<and> n_name (st_node s) = ''b''"
proof -
  have "case preferred (\<lambda>_ n. n) (8 / 10) ''film'' (candidates demo_scheduler None) of None \<Rightarrow> False
      | Some s \<Rightarrow> n_name (st_node s) = ''b''" by code_simp
  then obtain s where s: "preferred (\<lambda>_ n. n) (8 / 10) ''film'' (candidates demo_scheduler None) = Some s" "n_name (st_node s) = ''b''"
    by (auto split: option.splits)
  then show ?thesis using affinity_stable [OF s(1), of "\<lambda>s. n_name (st_node s) \<noteq> ''a''"] by simp
qed

section \<open>Bounded memory, live state kept\<close>

definition sc_ok :: "scheduler \<Rightarrow> bool" where
  "sc_ok sc \<longleftrightarrow> keyed (sc_states sc) \<and> keyed (sc_history sc) \<and> fst ` set (sc_history sc) = fst ` set (sc_states sc)
     \<and> (\<forall>p \<in> set (sc_states sc). n_name (st_node (snd p)) = fst p)
     \<and> (\<forall>p \<in> set (sc_history sc). length (snd p) \<le> HISTORY_MAX) \<and> length (sc_log sc) \<le> DISPATCH_MAX"

lemma length_push [simp]: "length (push n xs x) \<le> n"
  by (simp add: push_def Let_def)

lemma sc_ok_state:
  "sc_ok sc \<Longrightarrow> name \<in> fst ` set (sc_states sc) \<Longrightarrow> n_name (st_node s) = name \<Longrightarrow> sc_ok (sc\<lparr>sc_states := put name s (sc_states sc)\<rparr>)"
  by (auto simp: sc_ok_def put_keys dest!: put_members)

lemma sc_ok_name: "sc_ok sc \<Longrightarrow> map_of (sc_states sc) name = Some s \<Longrightarrow> n_name (st_node s) = name"
  by (fastforce simp: sc_ok_def dest: map_of_SomeD)

lemma add_nodes_ok: "sc_ok sc \<Longrightarrow> sc_ok (add_nodes nodes sc)"
proof (induction nodes arbitrary: sc)
  case (Cons node nodes)
  show ?case
  proof (cases "map_of (sc_states sc) (n_name node)")
    case None
    have "sc_ok (sc\<lparr>sc_states := put (n_name node) (new_state (sc_serial sc) node) (sc_states sc),
        sc_history := put (n_name node) [] (sc_history sc), sc_serial := sc_serial sc + 1\<rparr>)"
      using Cons.prems by (auto simp: sc_ok_def put_keys new_state_def dest!: put_members)
    then show ?thesis using Cons.IH None by simp
  next
    case (Some s)
    have "sc_ok (sc\<lparr>sc_states := put (n_name node) (s\<lparr>st_node := node\<rparr>) (sc_states sc)\<rparr>)"
      using map_of_key [OF Some] by (intro sc_ok_state Cons.prems) simp_all
    then show ?thesis using Cons.IH Some by simp
  qed
qed simp

lemma filter_keys: "fst ` {p \<in> A. fst p \<in> S} = fst ` A \<inter> S"
  by auto

lemma reconfigure_ok: "sc_ok sc \<Longrightarrow> sc_ok (reconfigure sc nodes)"
  using add_nodes_ok [of sc nodes]
  by (simp add: sc_ok_def reconfigure_def Let_def distinct_map_filter filter_keys)

lemma new_scheduler_ok: "sc_ok (new_scheduler nodes name threshold)"
  unfolding new_scheduler_def by (rule reconfigure_ok) (simp add: sc_ok_def)

lemma refresh_node_ok: "sc_ok sc \<Longrightarrow> sc_ok (refresh_node sc name i data now)"
proof (cases "map_of (sc_states sc) name")
  case (Some s)
  assume ok: "sc_ok sc"
  let ?t = "probed s (probe_result data) now"
  have "n_name (st_node ?t) = name" using sc_ok_name [OF ok Some] by (simp add: probed_def split: sum.split)
  then have st: "sc_ok (sc\<lparr>sc_states := put name ?t (sc_states sc)\<rparr>)" by (rule sc_ok_state [OF ok map_of_key [OF Some]])
  have "sc_ok (sc\<lparr>sc_states := put name ?t (sc_states sc), sc_history := put name (push HISTORY_MAX h x) (sc_history sc)\<rparr>)" for h x
    using st map_of_key [OF Some] by (auto simp: sc_ok_def put_keys insert_absorb dest!: put_members)
  then show ?thesis using ok Some by (simp add: refresh_node_def Let_def)
qed (simp add: refresh_node_def)

lemma set_disabled_ok: "sc_ok sc \<Longrightarrow> sc_ok (fst (set_disabled sc name d))"
  by (auto simp: set_disabled_def split: option.split intro!: sc_ok_state dest: map_of_key sc_ok_name)

lemma pick_ok: "sc_ok sc \<Longrightarrow> sc_ok (fst (pick ring sc rec path predicate now))"
  by (simp add: pick_def Let_def split_def sc_ok_def)

datatype sched_op =
    Reconfigure "stream_node list" | SetPolicy string "real option" | Refresh string nat "payload option" real
  | Disable string bool | Pick bool string "(node_state \<Rightarrow> bool) option" real

fun sched_step :: "(string \<Rightarrow> string \<Rightarrow> string) \<Rightarrow> scheduler \<Rightarrow> sched_op \<Rightarrow> scheduler" where
  "sched_step ring sc (Reconfigure nodes) = reconfigure sc nodes"
| "sched_step ring sc (SetPolicy name t) = set_policy sc name t"
| "sched_step ring sc (Refresh name i data now) = refresh_node sc name i data now"
| "sched_step ring sc (Disable name d) = fst (set_disabled sc name d)"
| "sched_step ring sc (Pick rec path predicate now) = fst (pick ring sc rec path predicate now)"

lemma sched_step_ok: "sc_ok sc \<Longrightarrow> sc_ok (sched_step ring sc x)"
proof (cases x)
  case (SetPolicy name t)
  then show "sc_ok sc \<Longrightarrow> ?thesis" by (simp add: set_policy_def sc_ok_def)
qed (auto intro: reconfigure_ok refresh_node_ok set_disabled_ok pick_ok)

text \<open>The node list in force: the one of the last edit, or the one the dispatcher was built with. Of two records with one name the
  later counts.\<close>

fun configured :: "stream_node list \<Rightarrow> sched_op list \<Rightarrow> stream_node list" where
  "configured nodes [] = nodes"
| "configured nodes (Reconfigure ns # ops) = configured ns ops"
| "configured nodes (_ # ops) = configured nodes ops"

definition node_named :: "stream_node list \<Rightarrow> string \<Rightarrow> stream_node option" where
  "node_named nodes name = find (\<lambda>n. n_name n = name) (rev nodes)"

definition node_of :: "scheduler \<Rightarrow> string \<Rightarrow> stream_node option" where
  "node_of sc name = map_option st_node (map_of (sc_states sc) name)"

lemma find_append: "find P (xs @ ys) = (case find P xs of None \<Rightarrow> find P ys | Some x \<Rightarrow> Some x)"
  by (induction xs) auto

lemma node_named_simps [simp]:
  "node_named [] name = None"
  "node_named (n # nodes) name = (case node_named nodes name of None \<Rightarrow> if n_name n = name then Some n else None | Some m \<Rightarrow> Some m)"
  by (simp_all add: node_named_def find_append split: option.split)

lemma node_named_None: "node_named nodes name = None \<longleftrightarrow> name \<notin> set (map n_name nodes)"
  by (auto simp: node_named_def find_None_iff)

lemma add_nodes_node:
  "node_of (add_nodes nodes sc) name = (case node_named nodes name of None \<Rightarrow> node_of sc name | Some n \<Rightarrow> Some n)"
  by (induction nodes arbitrary: sc) (auto simp: node_of_def new_state_def split: option.split)

lemma map_of_filter_key: "map_of (filter (\<lambda>p. fst p \<in> S) al) k = (if k \<in> S then map_of al k else None)"
  by (induction al) auto

lemma reconfigure_node: "node_of (reconfigure sc nodes) name = node_named nodes name"
  using add_nodes_node [of nodes sc name] node_named_None [of nodes name]
  by (auto simp: reconfigure_def Let_def node_of_def map_of_filter_key split: option.splits)

lemma sched_step_node:
  assumes "node_of sc = node_named nodes"
  shows "node_of (sched_step ring sc x) = node_named (configured nodes [x])"
proof (cases x)
  case (Reconfigure ns)
  then show ?thesis by (simp add: reconfigure_node fun_eq_iff)
next
  case (Refresh name i data now)
  have "node_of (refresh_node sc name i data now) = node_of sc"
    by (auto simp: refresh_node_def node_of_def probed_def Let_def fun_eq_iff split: option.split sum.split)
  then show ?thesis using Refresh assms by simp
next
  case (Disable name d)
  have "node_of (fst (set_disabled sc name d)) = node_of sc"
    by (auto simp: set_disabled_def node_of_def fun_eq_iff split: option.split)
  then show ?thesis using Disable assms by simp
next
  case (Pick rec path predicate now)
  have "node_of (fst (pick ring sc rec path predicate now)) = node_of sc" by (simp add: pick_def Let_def split_def node_of_def fun_eq_iff)
  then show ?thesis using Pick assms by simp
qed (use assms in \<open>simp add: set_policy_def node_of_def fun_eq_iff\<close>)

lemma sched_run_node:
  "node_of sc = node_named nodes \<Longrightarrow> node_of (foldl (sched_step ring) sc ops) = node_named (configured nodes ops)"
proof (induction ops arbitrary: sc nodes)
  case (Cons x ops)
  have "configured nodes (x # ops) = configured (configured nodes [x]) ops" by (cases x) simp_all
  then show ?case using Cons.IH [OF sched_step_node [OF Cons.prems]] by simp
qed simp

text \<open>C25. However long the dispatcher runs (operators editing nodes, probes arriving in any order, requests), it has a state for
  exactly the nodes of the list in force, each with the record of that list, one history for each of them with at most
  3600 samples, and at most 1000 logged decisions.\<close>

theorem scheduler_bounded:
  "let sc = foldl (sched_step ring) (new_scheduler nodes name threshold) ops in
   sc_ok sc \<and> node_of sc = node_named (configured nodes ops) \<and> set (map fst (sc_states sc)) = set (map n_name (configured nodes ops))"
proof -
  let ?sc = "foldl (sched_step ring) (new_scheduler nodes name threshold) ops"
  have "sc_ok s \<Longrightarrow> sc_ok (foldl (sched_step ring) s ops)" for s
    by (induction ops arbitrary: s) (simp_all add: sched_step_ok)
  moreover have n: "node_of ?sc = node_named (configured nodes ops)"
    by (rule sched_run_node) (simp add: new_scheduler_def reconfigure_node fun_eq_iff)
  moreover have "x \<in> set (map fst (sc_states ?sc)) \<longleftrightarrow> node_of ?sc x \<noteq> None" for x
    using map_of_eq_None_iff [of "sc_states ?sc" x] by (auto simp: node_of_def)
  then have "set (map fst (sc_states ?sc)) = set (map n_name (configured nodes ops))"
    unfolding n using node_named_None by blast
  ultimately show ?thesis using new_scheduler_ok by (simp add: Let_def)
qed

end
