(* ===== verification/Streams.thy ===== *)
theory Streams
  imports Prelude
begin

text \<open>
  \<^verbatim>\<open>backend/app/modules/streams.py\<close>: admission of playback sessions under a per-member limit, with durable leases. The
  table \<open>stream_leases\<close> is an association list keyed by user and session; every method runs under the user's lock, so it is
  one atomic step. A snapshot is what the media server reported, None when it could not be fetched or has the wrong shape;
  the member table, the server's own policy flag and the clock are parameters. Text fields of a client profile are compared after
  the parameter \<open>fold\<close> (\<open>str.casefold\<close>).
\<close>

section \<open>Sessions\<close>

record session =
  s_id :: string
  s_user :: string
  s_device :: string
  s_item :: "string option"
  s_paused :: bool
  s_play :: string
  s_start :: string
  s_profile :: "(string \<times> string) list"

definition busy :: "session \<Rightarrow> bool" where
  "busy s \<longleftrightarrow> s_item s \<noteq> None"

definition is_playing :: "session \<Rightarrow> bool" where
  "is_playing s \<longleftrightarrow> busy s \<and> \<not> s_paused s"

definition stream_key :: "session \<Rightarrow> string" where
  "stream_key s = (if s_id s = [] then [] else ''sid:'' @ s_id s)"

definition occupied_keys :: "session list \<Rightarrow> string \<Rightarrow> string set" where
  "occupied_keys sessions user = set (map stream_key (filter (\<lambda>s. busy s \<and> s_user s = user \<and> s_id s \<noteq> []) sessions))"

definition overflow_session_ids :: "session list \<Rightarrow> string \<Rightarrow> int \<Rightarrow> string list" where
  "overflow_session_ids sessions user cap =
     (let rows = filter (\<lambda>s. is_playing s \<and> s_user s = user) sessions; ordered = sort_key s_start rows in
      if cap \<le> 0 \<or> int (length rows) \<le> cap \<or> \<not> list_all (\<lambda>s. s_start s \<noteq> []) rows then []
      else if \<not> distinct (map s_start ordered) then []
      else map s_id (filter (\<lambda>s. s_id s \<noteq> []) (drop (nat cap) ordered)))"

definition profile_field :: "session \<Rightarrow> string \<Rightarrow> string" where
  "profile_field s key = (case map_of (s_profile s) key of None \<Rightarrow> [] | Some v \<Rightarrow> v)"

definition matching_sessions :: "(string \<Rightarrow> string) \<Rightarrow> session list \<Rightarrow> string \<Rightarrow> string \<Rightarrow> string \<Rightarrow> (string \<times> string) list
    \<Rightarrow> session list" where
  "matching_sessions fold_text rows uid device sid profile =
     (let matches = filter (\<lambda>s. s_user s = uid \<and> (device = [] \<or> s_device s = device) \<and> (sid = [] \<or> s_id s = sid)) rows;
          hints = map (\<lambda>(k, v). (k, fold_text (py_strip v)))
            (filter (\<lambda>(k, v). k \<in> {''Client'', ''ApplicationVersion'', ''DeviceName''} \<and> py_strip v \<noteq> []) profile) in
      if sid \<noteq> [] \<or> length matches \<le> 1 then matches
      else if hints = [] then matches
      else filter (\<lambda>s. list_all (\<lambda>(k, v). fold_text (py_strip (profile_field s k)) = v) hints) matches)"

text \<open>A snapshot with two sessions of one identity, or a playing session without one, is refused.\<close>

definition sound_session :: "session \<Rightarrow> bool" where
  "sound_session s \<longleftrightarrow> (busy s \<longrightarrow> s_id s \<noteq> [] \<and> s_user s \<noteq> [] \<and> s_item s \<noteq> Some [])"

definition validate_snapshot :: "session list option \<Rightarrow> session list option" where
  "validate_snapshot rows =
     (case rows of
        None \<Rightarrow> None
      | Some rs \<Rightarrow> if distinct (filter (\<lambda>i. i \<noteq> []) (map s_id rs)) \<and> list_all sound_session rs then Some rs else None)"

section \<open>Leases and admissions\<close>

record lease =
  l_observed :: bool
  l_play :: string
  l_pending :: real
  l_guard :: bool

record playback =
  p_session :: string
  p_device :: string
  p_item :: string
  p_issued :: real
  p_closed :: real

record streams =
  leases :: "((string \<times> string) \<times> lease) list"
  playbacks :: "((string \<times> string) \<times> playback) list"

record member =
  m_max_streams :: int
  m_admin :: bool

record member_table =
  mt_get :: "string \<Rightarrow> member option"
  mt_blocked :: "string \<Rightarrow> string \<Rightarrow> bool"

datatype reason = SessionsUnavailable | Unresolved | NoMember | DeviceBlocked | AdminExempt | Unlimited | SessionUnresolved
  | SamePlay | OverLimit | Granted

record admission =
  a_allowed :: bool
  a_reason :: reason
  a_user :: string
  a_session :: string
  a_device :: string
  a_cap :: int
  a_playing :: int
  a_paused :: int
  a_pending :: int
  a_punishable :: bool
  a_snapshot_at :: real
  a_live :: "string list"

definition PENDING_START_SECONDS :: real where
  "PENDING_START_SECONDS = 45"

definition plain :: "bool \<Rightarrow> reason \<Rightarrow> admission" where
  "plain allowed why = \<lparr>a_allowed = allowed, a_reason = why, a_user = [], a_session = [], a_device = [], a_cap = 0, a_playing = 0,
     a_paused = 0, a_pending = 0, a_punishable = False, a_snapshot_at = 0, a_live = []\<rparr>"

definition verdict :: "bool \<Rightarrow> reason \<Rightarrow> admission \<Rightarrow> admission" where
  "verdict allowed why facts = facts\<lparr>a_allowed := allowed, a_reason := why\<rparr>"

text \<open>The sessions of the user that hold a seat, in table order.\<close>

definition seats :: "streams \<Rightarrow> string \<Rightarrow> string list" where
  "seats st uid = map (snd \<circ> fst) (filter (\<lambda>p. fst (fst p) = uid) (leases st))"

definition own_rows :: "session list \<Rightarrow> string \<Rightarrow> session list" where
  "own_rows sessions uid = filter (\<lambda>s. s_user s = uid \<and> s_id s \<noteq> []) sessions"

definition live_ids :: "session list \<Rightarrow> string list" where
  "live_ids rows = map s_id (filter busy rows)"

definition paused_ids :: "session list \<Rightarrow> string list" where
  "paused_ids rows = map s_id (filter (\<lambda>s. busy s \<and> s_paused s) rows)"

text \<open>A lease ends with its session, when an observed play goes idle, or when an unobserved start is too old.\<close>

definition stale :: "session list \<Rightarrow> real \<Rightarrow> string \<Rightarrow> lease \<Rightarrow> bool" where
  "stale rows now sid l \<longleftrightarrow>
     sid \<notin> set (map s_id rows)
     \<or> (sid \<notin> set (live_ids rows) \<and> (l_observed l \<or> PENDING_START_SECONDS \<le> now - l_pending l))"

definition reap :: "session list \<Rightarrow> real \<Rightarrow> string \<Rightarrow> streams \<Rightarrow> streams" where
  "reap rows now uid st = st\<lparr>leases := filter (\<lambda>((u, sid), l). \<not> (u = uid \<and> stale rows now sid l)) (leases st)\<rparr>"

definition snapshot_play :: "session list \<Rightarrow> string \<Rightarrow> string" where
  "snapshot_play rows sid = (case find (\<lambda>s. s_id s = sid) rows of None \<Rightarrow> [] | Some s \<Rightarrow> s_play s)"

text \<open>A live session with a seat is observed; one without is given a seat only if all of them fit under the limit.\<close>

definition adopt :: "session list \<Rightarrow> real \<Rightarrow> string \<Rightarrow> int \<Rightarrow> string list \<Rightarrow> string \<Rightarrow> streams \<Rightarrow> streams" where
  "adopt rows now uid cap held_ids sid st =
     (if sid \<in> set held_ids then
        (case map_of (leases st) (uid, sid) of
           None \<Rightarrow> st
         | Some l \<Rightarrow>
             if \<not> l_guard l \<or> (l_play l \<noteq> [] \<and> snapshot_play rows sid = l_play l)
             then st\<lparr>leases := put (uid, sid) (l\<lparr>l_observed := True, l_guard := False\<rparr>) (leases st)\<rparr> else st)
      else if int (card (set (live_ids rows) \<union> set held_ids)) \<le> cap
      then st\<lparr>leases := put (uid, sid) \<lparr>l_observed = True, l_play = [], l_pending = now, l_guard = False\<rparr> (leases st)\<rparr>
      else st)"

definition refresh_seats :: "session list \<Rightarrow> real \<Rightarrow> string \<Rightarrow> int \<Rightarrow> streams \<Rightarrow> streams" where
  "refresh_seats rows now uid cap st =
     (let st1 = reap rows now uid st in fold (adopt rows now uid cap (seats st1 uid)) (live_ids rows) st1)"

text \<open>The transaction at the end of \<open>_admit\<close>: seat the resolved session, or refuse it.\<close>

definition seat_session :: "session list \<Rightarrow> real \<Rightarrow> string \<Rightarrow> int \<Rightarrow> string \<Rightarrow> session \<Rightarrow> admission \<Rightarrow> streams \<Rightarrow> streams \<times> admission" where
  "seat_session rows now uid cap device s facts st =
     (let st1 = refresh_seats rows now uid cap st; occupied = set (seats st1 uid); live = set (live_ids rows); sid = s_id s;
          facts1 = facts\<lparr>a_pending := int (card (occupied - live))\<rparr> in
      if sid \<in> occupied then (st1, verdict True SamePlay facts1)
      else if cap \<le> int (card (occupied \<union> live)) then
        (st1, (verdict False OverLimit facts1)\<lparr>a_punishable :=
           device \<noteq> [] \<and> s_device s \<noteq> [] \<and> sid \<notin> live \<and> int (card live) = cap \<and> live \<subseteq> occupied\<rparr>)
      else
        (st1\<lparr>leases := put (uid, sid) \<lparr>l_observed = False, l_play = [], l_pending = now, l_guard = False\<rparr> (leases st1)\<rparr>,
         verdict True Granted (facts1\<lparr>a_pending := a_pending facts1 + 1\<rparr>)))"

text \<open>The session a play identifier is bound to: by its lease, or by the record of its issuance on this device.\<close>

definition bound_session :: "streams \<Rightarrow> string \<Rightarrow> string \<Rightarrow> string \<Rightarrow> string" where
  "bound_session st uid device play_id =
     (let by_lease = map (snd \<circ> fst) (filter (\<lambda>((u, sid), l). u = uid \<and> l_play l = play_id) (leases st));
          by_issue = map (\<lambda>(k, p). p_session p) (filter (\<lambda>((u, q), p). u = uid \<and> q = play_id \<and> p_device p = device) (playbacks st));
          bound = (if length by_lease \<noteq> 1 \<and> device \<noteq> [] then by_issue else by_lease) in
      if play_id \<noteq> [] \<and> length bound = 1 then hd bound else [])"

definition resolve_and_seat :: "(string \<Rightarrow> string) \<Rightarrow> member_table \<Rightarrow> streams \<Rightarrow> string \<Rightarrow> int \<Rightarrow> string \<Rightarrow> string \<Rightarrow> session list \<Rightarrow> string
    \<Rightarrow> (string \<times> string) list \<Rightarrow> admission \<Rightarrow> real \<Rightarrow> streams \<times> admission" where
  "resolve_and_seat fold_text mt st uid cap device session_id rows play_id profile facts now =
     (let bound = bound_session st uid device play_id in
      if bound \<noteq> [] \<and> session_id \<noteq> [] \<and> session_id \<noteq> bound then (st, verdict False SessionUnresolved facts)
      else
        let sid = (if bound \<noteq> [] then bound else session_id) in
        if device = [] \<and> bound = [] then (st, verdict False SessionUnresolved facts)
        else
          (case matching_sessions fold_text rows uid device sid profile of
             [s] \<Rightarrow>
               let facts1 = facts\<lparr>a_session := s_id s, a_device := s_device s\<rparr> in
               if s_device s \<noteq> [] \<and> mt_blocked mt uid (s_device s) then (st, verdict False DeviceBlocked facts1)
               else seat_session rows now uid cap device s facts1 st
           | _ \<Rightarrow> (st, verdict False SessionUnresolved facts)))"

definition admit :: "(string \<Rightarrow> string) \<Rightarrow> member_table \<Rightarrow> streams \<Rightarrow> string \<Rightarrow> string \<Rightarrow> string \<Rightarrow> session list \<Rightarrow> string
    \<Rightarrow> (string \<times> string) list \<Rightarrow> real \<Rightarrow> streams \<times> admission" where
  "admit fold_text mt st user device session_id sessions play_id profile now =
     (let uid = py_strip user in
      if uid = [] then (st, plain False Unresolved)
      else case mt_get mt uid of
        None \<Rightarrow> (st, (plain True NoMember)\<lparr>a_user := uid\<rparr>)
      | Some m \<Rightarrow>
          let cap = m_max_streams m; rows = own_rows sessions uid; live = live_ids rows; paused = paused_ids rows;
              facts = (plain False Unresolved)\<lparr>a_user := uid, a_cap := cap, a_playing := int (card (set live - set paused)),
                a_paused := int (card (set paused)), a_snapshot_at := now, a_live := sort live\<rparr> in
          if device \<noteq> [] \<and> mt_blocked mt uid device then (st, verdict False DeviceBlocked facts)
          else if m_admin m then (st, verdict True AdminExempt facts)
          else if cap \<le> 0 then (st, verdict True Unlimited facts)
          else resolve_and_seat fold_text mt st uid cap device session_id rows play_id profile facts now)"

text \<open>\<open>native\<close> is the media server's own administrator flag, None when it could not be read safely.\<close>

definition native_exemption :: "bool option \<Rightarrow> admission \<Rightarrow> admission" where
  "native_exemption native a =
     (if a_allowed a \<or> a_reason a \<noteq> OverLimit then a
      else case native of
        Some True \<Rightarrow> a\<lparr>a_allowed := True, a_reason := AdminExempt, a_punishable := False\<rparr>
      | None \<Rightarrow> a\<lparr>a_punishable := False\<rparr>
      | Some False \<Rightarrow> a)"

definition inspect :: "(string \<Rightarrow> string) \<Rightarrow> member_table \<Rightarrow> bool option \<Rightarrow> streams \<Rightarrow> string \<Rightarrow> string \<Rightarrow> string \<Rightarrow> string
    \<Rightarrow> (string \<times> string) list \<Rightarrow> session list option \<Rightarrow> real \<Rightarrow> streams \<times> admission" where
  "inspect fold_text mt native st user device session_id play_id profile snapshot now =
     (case validate_snapshot snapshot of
        None \<Rightarrow> (st, plain False SessionsUnavailable)
      | Some sessions \<Rightarrow>
          let (st', a) = admit fold_text mt st user device session_id sessions play_id profile now
          in (st', native_exemption native a))"

section \<open>Issuing, reporting and stopping a play\<close>

definition drop_lease :: "string \<Rightarrow> string \<Rightarrow> streams \<Rightarrow> streams" where
  "drop_lease uid sid st = st\<lparr>leases := filter (\<lambda>p. fst p \<noteq> (uid, sid)) (leases st)\<rparr>"

text \<open>What the upstream PlaybackInfo call answered: it raised, or a status code and a play identifier (empty when absent).\<close>

datatype upstream = Raised | Answered int string

definition success :: "int \<Rightarrow> bool" where
  "success code \<longleftrightarrow> 200 \<le> code \<and> code < 300"

definition bind_play :: "streams \<Rightarrow> string \<Rightarrow> session \<Rightarrow> string \<Rightarrow> string \<Rightarrow> real \<Rightarrow> streams" where
  "bind_play st uid s play item now =
     (let key = (uid, s_id s);
          st1 = (if item \<noteq> [] \<and> s_device s \<noteq> [] \<and> map_of (playbacks st) (uid, play) = None
                 then st\<lparr>playbacks := put (uid, play) \<lparr>p_session = s_id s, p_device = s_device s, p_item = item, p_issued = now,
                        p_closed = 0\<rparr> (playbacks st)\<rparr> else st) in
      case map_of (leases st1) key of
        None \<Rightarrow> st1
      | Some l \<Rightarrow>
          let replacement = (l_play l \<noteq> [] \<or> busy s) in
          if l_play l = play then st1
          else st1\<lparr>leases := put key \<lparr>l_observed = False, l_play = play, l_pending = now, l_guard = replacement\<rparr> (leases st1)\<rparr>)"

text \<open>The result is None when the snapshot or the upstream call raised; a failed start gives back the seat this request took.\<close>

definition issue_info :: "(string \<Rightarrow> string) \<Rightarrow> member_table \<Rightarrow> bool option \<Rightarrow> streams \<Rightarrow> string \<Rightarrow> string \<Rightarrow> string
    \<Rightarrow> (string \<times> string) list \<Rightarrow> session list option \<Rightarrow> upstream \<Rightarrow> string \<Rightarrow> real \<Rightarrow> streams \<times> (admission \<times> int) option" where
  "issue_info fold_text mt native st uid device session_id profile snapshot answer item now =
     (case validate_snapshot snapshot of
        None \<Rightarrow> (st, None)
      | Some sessions \<Rightarrow>
          let (st1, a0) = admit fold_text mt st uid device session_id sessions [] profile now;
              a = native_exemption native a0 in
          if \<not> a_allowed a then (st1, Some (a, 403))
          else
            let matches = matching_sessions fold_text sessions uid device session_id profile;
                undo = (\<lambda>st. case matches of [s] \<Rightarrow> if a_reason a = Granted then drop_lease uid (s_id s) st else st | _ \<Rightarrow> st) in
            (case answer of
               Raised \<Rightarrow> (undo st1, None)
             | Answered code play \<Rightarrow>
                 if \<not> success code then (undo st1, Some (a, code))
                 else
                   ((case matches of [s] \<Rightarrow> if play \<noteq> [] then bind_play st1 uid s play item now else st1 | _ \<Rightarrow> st1),
                    Some (a, code))))"

definition lease_of_play :: "streams \<Rightarrow> string \<Rightarrow> string \<Rightarrow> string list" where
  "lease_of_play st uid play = map (snd \<circ> fst) (filter (\<lambda>((u, sid), l). u = uid \<and> l_play l = play) (leases st))"

text \<open>A progress report accepted upstream observes the play it names, never another one.\<close>

definition report_activity :: "streams \<Rightarrow> string \<Rightarrow> string \<Rightarrow> string \<Rightarrow> int \<Rightarrow> streams" where
  "report_activity st uid play session_id code =
     (if \<not> success code \<or> play = [] then st
      else case lease_of_play st uid play of
        [sid] \<Rightarrow>
          if session_id \<noteq> [] \<and> session_id \<noteq> sid then st
          else (case map_of (leases st) (uid, sid) of
                  None \<Rightarrow> st
                | Some l \<Rightarrow> st\<lparr>leases := put (uid, sid) (l\<lparr>l_observed := True, l_guard := False\<rparr>) (leases st)\<rparr>)
      | _ \<Rightarrow> st)"

definition close_playback :: "streams \<Rightarrow> string \<Rightarrow> string \<Rightarrow> string \<Rightarrow> real \<Rightarrow> streams" where
  "close_playback st uid play device now =
     (case map_of (playbacks st) (uid, play) of
        None \<Rightarrow> st
      | Some p \<Rightarrow> if p_device p = device then st\<lparr>playbacks := put (uid, play) (p\<lparr>p_closed := now\<rparr>) (playbacks st)\<rparr> else st)"

definition stop_target :: "streams \<Rightarrow> string \<Rightarrow> string \<Rightarrow> string \<Rightarrow> string" where
  "stop_target st uid play session_id =
     (if play \<noteq> [] \<and> session_id = [] then (case lease_of_play st uid play of [sid] \<Rightarrow> sid | _ \<Rightarrow> session_id) else session_id)"

text \<open>\<open>code\<close> is the media server's answer to the forwarded report; None when the snapshot raised.\<close>

definition report_stopped :: "(string \<Rightarrow> string) \<Rightarrow> streams \<Rightarrow> string \<Rightarrow> string \<Rightarrow> string \<Rightarrow> string \<Rightarrow> session list option \<Rightarrow> int \<Rightarrow> real
    \<Rightarrow> streams option" where
  "report_stopped fold_text st uid device play session_id snapshot code now =
     (case validate_snapshot snapshot of
        None \<Rightarrow> None
      | Some rows \<Rightarrow>
          let matches = matching_sessions fold_text rows uid device (stop_target st uid play session_id) [];
              st1 = (if success code \<and> play \<noteq> [] then close_playback st uid play device now else st) in
          Some (case matches of
              [s] \<Rightarrow>
                if success code \<and> map_option l_play (map_of (leases st1) (uid, s_id s)) = Some play
                then drop_lease uid (s_id s) st1 else st1
            | _ \<Rightarrow> st1))"

section \<open>Proof of a violation\<close>

record violation =
  v_user :: string
  v_session :: string
  v_device :: string
  v_playing :: bool
  v_cap :: int
  v_live :: "string list"
  v_others :: int
  v_paused_count :: int
  v_pending_count :: int

text \<open>The member must still be limited to the same number of streams and not exempt: checked before and after the network reads.\<close>

definition still_limited :: "member_table \<Rightarrow> admission \<Rightarrow> bool" where
  "still_limited mt a =
     (case mt_get mt (a_user a) of
        None \<Rightarrow> False
      | Some m \<Rightarrow> \<not> m_admin m \<and> m_max_streams m = a_cap a \<and> \<not> mt_blocked mt (a_user a) (a_device a))"

definition confirm_violation :: "(string \<Rightarrow> string) \<Rightarrow> member_table \<Rightarrow> member_table \<Rightarrow> bool option \<Rightarrow> streams \<Rightarrow> admission
    \<Rightarrow> session list option \<Rightarrow> real \<Rightarrow> violation option" where
  "confirm_violation fold_text before after native st a snapshot now =
     (if a_allowed a \<or> a_reason a \<noteq> OverLimit \<or> \<not> a_punishable a \<or> a_user a = [] \<or> a_session a = [] \<or> a_device a = []
         \<or> a_cap a \<le> 0 \<or> int (length (a_live a)) \<noteq> a_cap a then None
      else if \<not> still_limited before a \<or> native \<noteq> Some False then None
      else case validate_snapshot snapshot of
        None \<Rightarrow> None
      | Some sessions \<Rightarrow>
          if \<not> still_limited after a then None
          else
            (case matching_sessions fold_text sessions (a_user a) (a_device a) (a_session a) [] of
               [s] \<Rightarrow>
                 let rows = own_rows sessions (a_user a); live = live_ids rows; others = removeAll (a_session a) live in
                 if map_of (leases st) (a_user a, a_session a) \<noteq> None then None
                 else if int (length others) < a_cap a \<or> \<not> set (a_live a) \<subseteq> set others then None
                 else
                   Some \<lparr>v_user = a_user a, v_session = a_session a, v_device = a_device a, v_playing = busy s, v_cap = a_cap a,
                     v_live = sort live, v_others = int (length others), v_paused_count = int (length (paused_ids rows)),
                     v_pending_count = int (length (filter (\<lambda>((u, sid), l). u = a_user a \<and> sid \<in> set (map s_id rows)
                       \<and> sid \<notin> set live \<and> \<not> l_observed l \<and> now - l_pending l < PENDING_START_SECONDS) (leases st)))\<rparr>
             | _ \<Rightarrow> None))"

end
