(* ===== verification/StreamsRules.thy ===== *)
theory StreamsRules
  imports Streams
begin

text \<open>
  What stream admission guarantees: no user ever holds more seats than the limit, whoever is let in under a limit holds a
  seat, only a proven surplus session is ever reported for punishment, and abandoned starts do not lock anybody out.
\<close>

section \<open>Seats\<close>

lemma seats_iff: "sid \<in> set (seats st uid) \<longleftrightarrow> map_of (leases st) (uid, sid) \<noteq> None"
  by (force simp: seats_def map_of_eq_None_iff)

lemma seats_put:
  "set (seats (st\<lparr>leases := put (u, sid) l (leases st)\<rparr>) uid) = (if u = uid then insert sid (set (seats st uid)) else set (seats st uid))"
  by (auto simp: seats_iff split: if_splits)

lemma map_of_filter_keyed: "keyed al \<Longrightarrow> map_of (filter P al) k = (case map_of al k of None \<Rightarrow> None | Some v \<Rightarrow> if P (k, v) then Some v else None)"
proof (induction al)
  case (Cons p al)
  then show ?case
    by (cases p) (auto split: option.split simp: map_of_eq_None_iff dest!: map_of_SomeD)
qed simp

lemma reap_seats: "set (seats (reap rows now uid st) u) \<subseteq> set (seats st u)"
  by (auto simp: seats_def reap_def)

lemma adopt_seats:
  "set (seats (adopt rows now uid cap held sid st) u) =
     (if u = uid \<and> sid \<notin> set held \<and> int (card (set (live_ids rows) \<union> set held)) \<le> cap
      then insert sid (set (seats st u)) else set (seats st u))"
  unfolding adopt_def by (auto simp: seats_put seats_iff split: option.splits)

lemma fold_adopt_seats:
  "set (seats (fold (adopt rows now uid cap held) sids st) u) =
     (if u = uid \<and> int (card (set (live_ids rows) \<union> set held)) \<le> cap
      then set (seats st u) \<union> (set sids - set held) else set (seats st u))"
  by (induction sids arbitrary: st) (auto simp: adopt_seats)

lemma refresh_seats_cap:
  assumes "int (card (set (seats st uid))) \<le> cap"
  shows "int (card (set (seats (refresh_seats rows now uid cap st) uid))) \<le> cap"
proof -
  let ?held = "set (seats (reap rows now uid st) uid)" and ?live = "set (live_ids rows)"
  have h: "int (card ?held) \<le> cap"
    using card_mono [OF finite_set reap_seats [of rows now uid st uid]] assms by linarith
  show ?thesis
  proof (cases "int (card (?live \<union> ?held)) \<le> cap")
    case True
    have "set (seats (refresh_seats rows now uid cap st) uid) \<subseteq> ?live \<union> ?held"
      by (auto simp: refresh_seats_def Let_def fold_adopt_seats)
    then show ?thesis using card_mono [of "?live \<union> ?held" "set (seats (refresh_seats rows now uid cap st) uid)"] True by simp
  qed (use h in \<open>simp add: refresh_seats_def Let_def fold_adopt_seats\<close>)
qed

lemma refresh_seats_other: "u \<noteq> uid \<Longrightarrow> set (seats (refresh_seats rows now uid cap st) u) = set (seats st u)"
  by (auto simp: refresh_seats_def Let_def fold_adopt_seats) (auto simp: seats_def reap_def)

lemma seat_session_cap:
  assumes "int (card (set (seats st uid))) \<le> cap" "seat_session rows now uid cap device s facts st = (st', a)"
  shows "int (card (set (seats st' uid))) \<le> cap"
proof -
  let ?st1 = "refresh_seats rows now uid cap st"
  have c: "int (card (set (seats ?st1 uid))) \<le> cap" using assms(1) by (rule refresh_seats_cap)
  have "int (card (insert (s_id s) (set (seats ?st1 uid)))) \<le> cap"
    if "\<not> cap \<le> int (card (set (seats ?st1 uid) \<union> set (live_ids rows)))"
  proof -
    have "card (set (seats ?st1 uid)) \<le> card (set (seats ?st1 uid) \<union> set (live_ids rows))" by (intro card_mono) auto
    moreover have "card (insert (s_id s) (set (seats ?st1 uid))) \<le> Suc (card (set (seats ?st1 uid)))" by (simp add: card_insert_if)
    ultimately show ?thesis using that by linarith
  qed
  then show ?thesis using assms(2) c by (auto simp: seat_session_def Let_def seats_put split: if_splits)
qed

lemma seat_session_other:
  "seat_session rows now uid cap device s facts st = (st', a) \<Longrightarrow> u \<noteq> uid \<Longrightarrow> set (seats st' u) = set (seats st u)"
  by (auto simp: seat_session_def Let_def seats_put refresh_seats_other split: if_splits)

section \<open>Limits\<close>

definition limited :: "member_table \<Rightarrow> streams \<Rightarrow> bool" where
  "limited mt st \<longleftrightarrow> (\<forall>uid m. mt_get mt uid = Some m \<longrightarrow> 0 < m_max_streams m \<longrightarrow> int (card (set (seats st uid))) \<le> m_max_streams m)"

lemma limitedI: "(\<And>uid m. mt_get mt uid = Some m \<Longrightarrow> 0 < m_max_streams m \<Longrightarrow> int (card (set (seats st uid))) \<le> m_max_streams m) \<Longrightarrow> limited mt st"
  by (auto simp: limited_def)

lemma limitedD: "limited mt st \<Longrightarrow> mt_get mt uid = Some m \<Longrightarrow> 0 < m_max_streams m \<Longrightarrow> int (card (set (seats st uid))) \<le> m_max_streams m"
  by (auto simp: limited_def)

lemma limited_mono:
  assumes "limited mt st" "\<And>u. set (seats st' u) \<subseteq> set (seats st u)"
  shows "limited mt st'"
proof (rule limitedI)
  fix uid m assume "mt_get mt uid = Some m" "0 < m_max_streams m"
  then show "int (card (set (seats st' uid))) \<le> m_max_streams m"
    using limitedD [OF assms(1)] card_mono [OF finite_set assms(2)] by (meson le_trans of_nat_mono order_trans)
qed

lemma resolve_and_seat_cases:
  assumes "resolve_and_seat f mt st uid cap device session_id rows play_id profile facts now = (st', a)"
  obtains "st' = st" "\<not> a_allowed a" "a_reason a \<noteq> OverLimit"
  | s facts1 where "s \<in> set rows" "s_user s = uid" "facts1 = facts\<lparr>a_session := s_id s, a_device := s_device s\<rparr>"
      "seat_session rows now uid cap device s facts1 st = (st', a)"
proof -
  have m: "s \<in> set rows \<and> s_user s = uid" if "matching_sessions f rows uid device sid profile = [s]" for s sid
  proof -
    have "s \<in> set (matching_sessions f rows uid device sid profile)" using that by simp
    then show ?thesis by (auto simp: matching_sessions_def Let_def split: if_splits)
  qed
  show ?thesis
    using assms that m by (auto simp: resolve_and_seat_def Let_def verdict_def split: if_splits list.splits)
qed

lemma admit_cases:
  assumes "admit f mt st user device session_id sessions play_id profile now = (st', a)"
  obtains "st' = st" "a_reason a \<noteq> OverLimit" "a_allowed a \<Longrightarrow> a_reason a \<in> {NoMember, AdminExempt, Unlimited}" "\<not> a_punishable a"
  | m s facts where "mt_get mt (py_strip user) = Some m" "\<not> m_admin m" "0 < m_max_streams m"
      "s \<in> set (own_rows sessions (py_strip user))" "a_user facts = py_strip user" "a_session facts = s_id s" "a_device facts = s_device s"
      "a_cap facts = m_max_streams m" "set (a_live facts) = set (live_ids (own_rows sessions (py_strip user)))" "\<not> a_punishable facts"
      "seat_session (own_rows sessions (py_strip user)) now (py_strip user) (m_max_streams m) device s facts st = (st', a)"
proof (cases "py_strip user = [] \<or> mt_get mt (py_strip user) = None")
  case True
  then consider "py_strip user = []" | "py_strip user \<noteq> []" "mt_get mt (py_strip user) = None" by auto
  then show ?thesis
  proof cases
    case 1
    then show ?thesis using assms that(1) by (auto simp: admit_def plain_def)
  next
    case 2
    then show ?thesis using assms that(1) by (auto simp: admit_def Let_def plain_def)
  qed
next
  case False
  then obtain m where m: "mt_get mt (py_strip user) = Some m" by auto
  define rows where "rows = own_rows sessions (py_strip user)"
  define facts where "facts = (plain False Unresolved)\<lparr>a_user := py_strip user, a_cap := m_max_streams m,
     a_playing := int (card (set (live_ids rows) - set (paused_ids rows))),
     a_paused := int (card (set (paused_ids rows))), a_snapshot_at := now, a_live := sort (live_ids rows)\<rparr>"
  have a: "(if device \<noteq> [] \<and> mt_blocked mt (py_strip user) device then (st, verdict False DeviceBlocked facts)
      else if m_admin m then (st, verdict True AdminExempt facts)
      else if m_max_streams m \<le> 0 then (st, verdict True Unlimited facts)
      else resolve_and_seat f mt st (py_strip user) (m_max_streams m) device session_id rows play_id profile facts now) = (st', a)"
    using assms False m unfolding admit_def Let_def rows_def facts_def by simp
  show ?thesis
  proof (cases "(device \<noteq> [] \<and> mt_blocked mt (py_strip user) device) \<or> m_admin m \<or> m_max_streams m \<le> 0")
    case True
    then show ?thesis using a that(1) by (auto simp: verdict_def facts_def plain_def split: if_splits)
  next
    case False
    then have r: "resolve_and_seat f mt st (py_strip user) (m_max_streams m) device session_id rows play_id profile facts now = (st', a)"
      using a by (auto split: if_splits)
    have p: "\<not> a_punishable facts" by (simp add: facts_def plain_def)
    from r show ?thesis
    proof (rule resolve_and_seat_cases)
      assume "st' = st" "\<not> a_allowed a" "a_reason a \<noteq> OverLimit"
      moreover have "\<not> a_punishable a"
        using r p \<open>a_reason a \<noteq> OverLimit\<close>
        by (auto simp: resolve_and_seat_def seat_session_def Let_def verdict_def split: if_splits list.splits)
      ultimately show ?thesis using that(1) by blast
    next
      fix s facts1 assume "s \<in> set rows" "s_user s = py_strip user" "facts1 = facts\<lparr>a_session := s_id s, a_device := s_device s\<rparr>"
        "seat_session rows now (py_strip user) (m_max_streams m) device s facts1 st = (st', a)"
      then show ?thesis using that(2) [of m s facts1] m False p by (simp add: facts_def rows_def)
    qed
  qed
qed

lemma admit_limited:
  assumes "admit f mt st user device session_id sessions play_id profile now = (st', a)" "limited mt st"
  shows "limited mt st'"
  using assms(1)
proof (rule admit_cases)
  fix m s facts
  assume m: "mt_get mt (py_strip user) = Some m" "0 < m_max_streams m"
    and s: "seat_session (own_rows sessions (py_strip user)) now (py_strip user) (m_max_streams m) device s facts st = (st', a)"
  show "limited mt st'"
  proof (rule limitedI)
    fix u q assume u: "mt_get mt u = Some q" "0 < m_max_streams q"
    show "int (card (set (seats st' u))) \<le> m_max_streams q"
    proof (cases "u = py_strip user")
      case True
      then show ?thesis using seat_session_cap [OF limitedD [OF assms(2) m] s] m u by simp
    next
      case False
      then show ?thesis using seat_session_other [OF s False] limitedD [OF assms(2) u] by simp
    qed
  qed
qed (use assms(2) in simp_all)

lemma drop_lease_seats: "set (seats (drop_lease uid sid st) u) \<subseteq> set (seats st u)"
  by (auto simp: seats_def drop_lease_def)

lemma bind_play_seats: "set (seats (bind_play st uid s play item now) u) = set (seats st u)"
proof -
  have "seats (st\<lparr>playbacks := x\<rparr>) u = seats st u" for x by (simp add: seats_def)
  then show ?thesis by (auto simp: bind_play_def Let_def seats_iff split: option.splits if_splits)
qed

lemma report_activity_seats: "set (seats (report_activity st uid play sid code) u) = set (seats st u)"
  by (auto simp: report_activity_def seats_put seats_iff split: list.splits option.splits)

lemma close_playback_seats: "seats (close_playback st uid play device now) u = seats st u"
  by (simp add: close_playback_def seats_def split: option.split)

lemma report_stopped_seats:
  "report_stopped f st uid device play sid snapshot code now = Some st' \<Longrightarrow> set (seats st' u) \<subseteq> set (seats st u)"
  using drop_lease_seats [of uid _ "close_playback st uid play device now" u] drop_lease_seats [of uid _ st u]
  by (auto simp: report_stopped_def Let_def close_playback_seats split: option.splits list.splits if_splits)

datatype stream_op =
    Inspect string string string string "(string \<times> string) list" "session list option" "bool option"
  | Issue string string string "(string \<times> string) list" "session list option" "bool option" upstream string
  | Activity string string string int
  | Stopped string string string string "session list option" int

text \<open>A step of the service at a given time; a call that raised leaves the tables as they are.\<close>

fun stream_step :: "(string \<Rightarrow> string) \<Rightarrow> member_table \<Rightarrow> streams \<Rightarrow> real \<times> stream_op \<Rightarrow> streams" where
  "stream_step f mt st (now, Inspect user device sid play profile snapshot native) =
     fst (inspect f mt native st user device sid play profile snapshot now)"
| "stream_step f mt st (now, Issue uid device sid profile snapshot native answer item) =
     fst (issue_info f mt native st uid device sid profile snapshot answer item now)"
| "stream_step f mt st (now, Activity uid play sid code) = report_activity st uid play sid code"
| "stream_step f mt st (now, Stopped uid device play sid snapshot code) =
     (case report_stopped f st uid device play sid snapshot code now of None \<Rightarrow> st | Some st' \<Rightarrow> st')"

lemma issue_info_limited: "limited mt st \<Longrightarrow> limited mt (fst (issue_info f mt native st uid device sid profile snapshot answer item now))"
proof (cases "validate_snapshot snapshot")
  case (Some sessions)
  assume w: "limited mt st"
  obtain st1 a0 where a: "admit f mt st uid device sid sessions [] profile now = (st1, a0)" by fastforce
  have w1: "limited mt st1" using admit_limited [OF a w] .
  have "limited mt (drop_lease uid s st1)" for s by (rule limited_mono [OF w1 drop_lease_seats])
  moreover have "limited mt (bind_play st1 uid s play item now)" for s play by (rule limited_mono [OF w1]) (simp add: bind_play_seats)
  ultimately show ?thesis
    using w1 by (auto simp: issue_info_def Some a Let_def split: upstream.split list.split)
qed (simp add: issue_info_def)

lemma stream_step_limited: "limited mt st \<Longrightarrow> limited mt (stream_step f mt st x)"
proof (induction f mt st x rule: stream_step.induct)
  case (1 f mt st now user device sid play profile snapshot native)
  then show ?case by (auto simp: inspect_def split: option.split prod.split intro: admit_limited)
next
  case (2 f mt st now uid device sid profile snapshot native answer item)
  then show ?case by (simp add: issue_info_limited)
next
  case (3 f mt st now uid play sid code)
  then show ?case by (auto intro: limited_mono simp: report_activity_seats)
next
  case (4 f mt st now uid device play sid snapshot code)
  then show ?case by (auto split: option.split intro: limited_mono dest: report_stopped_seats)
qed

text \<open>C6. Whatever requests, progress reports and stop reports arrive, in any order and with any snapshot (stale, wrong, unavailable),
  no limited member ever holds more seats than the limit.\<close>

theorem streams_within_limit:
  "limited mt (foldl (stream_step fold_text mt) \<lparr>leases = [], playbacks = []\<rparr> ops)"
proof -
  have "limited mt st \<Longrightarrow> limited mt (foldl (stream_step fold_text mt) st ops)" for st
    by (induction ops arbitrary: st) (simp_all add: stream_step_limited)
  moreover have "limited mt \<lparr>leases = [], playbacks = []\<rparr>" by (simp add: limited_def seats_def)
  ultimately show ?thesis by blast
qed

section \<open>Whoever is let in holds a seat\<close>

lemma seat_session_seat:
  assumes "seat_session rows now uid cap device s facts st = (st', a)" "a_allowed a"
  shows "s_id s \<in> set (seats st' uid)"
  using assms by (auto simp: seat_session_def Let_def verdict_def seats_put split: if_splits)

lemma seat_session_facts:
  assumes "seat_session rows now uid cap device s facts st = (st', a)"
  shows "a_session a = a_session facts" "a_user a = a_user facts" "a_cap a = a_cap facts" "a_live a = a_live facts"
    "a_device a = a_device facts" "a_reason a \<in> {SamePlay, OverLimit, Granted}"
  using assms by (auto simp: seat_session_def Let_def verdict_def split: if_splits)

lemma seat_session_punish:
  assumes "seat_session rows now uid cap device s facts st = (st', a)" "a_punishable a" "\<not> a_punishable facts"
  shows "\<not> a_allowed a \<and> s_id s \<notin> set (live_ids rows) \<and> int (card (set (live_ids rows))) = cap
    \<and> set (live_ids rows) \<subseteq> set (seats st' uid) \<and> s_id s \<notin> set (seats st' uid)"
  using assms by (auto simp: seat_session_def Let_def verdict_def split: if_splits)

lemma inspect_cases:
  assumes "inspect f mt native st user device sid play profile snapshot now = (st', a)"
  obtains "validate_snapshot snapshot = None" "\<not> a_allowed a" "\<not> a_punishable a"
  | rows a0 where "validate_snapshot snapshot = Some rows"
      "admit f mt st user device sid rows play profile now = (st', a0)" "a = native_exemption native a0"
proof (cases "validate_snapshot snapshot")
  case None
  then show ?thesis using assms that(1) by (auto simp: inspect_def plain_def)
next
  case (Some rows)
  show ?thesis
  proof (cases "admit f mt st user device sid rows play profile now")
    case (Pair x y)
    then show ?thesis using assms that(2) Some by (simp add: inspect_def)
  qed
qed

lemma exemption_allowed:
  "a_allowed (native_exemption native a) \<Longrightarrow> a_reason (native_exemption native a) \<noteq> AdminExempt \<Longrightarrow> native_exemption native a = a"
  by (simp add: native_exemption_def split: if_splits option.splits bool.splits)

text \<open>The sessions a request can mean: those of the user on the device it names, with the identity it names or, when it names
  none, with the client, version and device name of its profile.\<close>

definition meant :: "(string \<Rightarrow> string) \<Rightarrow> string \<Rightarrow> string \<Rightarrow> string \<Rightarrow> (string \<times> string) list \<Rightarrow> session \<Rightarrow> bool" where
  "meant fold_text uid device sid profile t \<longleftrightarrow> s_user t = uid \<and> (device = [] \<or> s_device t = device) \<and>
     (if sid \<noteq> [] then s_id t = sid
      else list_all (\<lambda>(k, v). k \<notin> {''Client'', ''ApplicationVersion'', ''DeviceName''} \<or> py_strip v = []
        \<or> fold_text (py_strip (profile_field t k)) = fold_text (py_strip v)) profile)"

lemma meant_matches: "t \<in> set rows \<Longrightarrow> meant f uid device sid profile t \<Longrightarrow> t \<in> set (matching_sessions f rows uid device sid profile)"
  by (auto simp: matching_sessions_def Let_def meant_def list_all_iff split: if_splits)

lemma matching_props:
  assumes "matching_sessions f rows uid device sid profile = [s]"
  shows "s \<in> set rows" "s_user s = uid" "device = [] \<or> s_device s = device" "sid = [] \<or> s_id s = sid"
    "t \<in> set rows \<Longrightarrow> meant f uid device sid profile t \<Longrightarrow> t = s"
proof -
  have "s \<in> set (matching_sessions f rows uid device sid profile)" using assms by simp
  then show "s \<in> set rows" "s_user s = uid" "device = [] \<or> s_device s = device" "sid = [] \<or> s_id s = sid"
    by (auto simp: matching_sessions_def Let_def split: if_splits)
  show "t \<in> set rows \<Longrightarrow> meant f uid device sid profile t \<Longrightarrow> t = s" using meant_matches [of t rows f uid device sid profile] assms by simp
qed

text \<open>The identity the request ends up with: the session its play is bound to, or the one it names.\<close>

definition asked :: "streams \<Rightarrow> string \<Rightarrow> string \<Rightarrow> string \<Rightarrow> string \<Rightarrow> string" where
  "asked st uid device play sid = (if bound_session st uid device play \<noteq> [] then bound_session st uid device play else sid)"

lemma resolve_seated:
  assumes "resolve_and_seat f mt st uid cap device sid rows play profile facts now = (st', a)" "a_allowed a"
  obtains s where "matching_sessions f rows uid device (asked st uid device play sid) profile = [s]"
    "device \<noteq> [] \<or> bound_session st uid device play \<noteq> []" "sid = [] \<or> sid = asked st uid device play sid"
    "s_device s = [] \<or> \<not> mt_blocked mt uid (s_device s)"
    "seat_session rows now uid cap device s (facts\<lparr>a_session := s_id s, a_device := s_device s\<rparr>) st = (st', a)"
  using assms by (auto simp: resolve_and_seat_def Let_def verdict_def asked_def split: if_splits list.splits)

lemma seat_session_granted:
  assumes "seat_session rows now uid cap device s facts st = (st', a)" "a_reason a = Granted"
  shows "int (card (set (seats st' uid) \<union> set (live_ids rows))) \<le> cap"
proof -
  let ?o = "set (seats (refresh_seats rows now uid cap st) uid) \<union> set (live_ids rows)"
  have "set (seats st' uid) \<union> set (live_ids rows) = insert (s_id s) ?o" "int (card ?o) < cap"
    using assms by (auto simp: seat_session_def Let_def verdict_def seats_put split: if_splits)
  moreover have "card (insert (s_id s) ?o) \<le> Suc (card ?o)" by (simp add: card_insert_if)
  ultimately show ?thesis by simp
qed

text \<open>C23. Admission fails closed: when the answer is yes for a reason other than the three exemptions (an unknown member, an
  administrator, no limit), the snapshot was sound, neither the device of the request nor that of the session is blocked, the
  request named a device or a play that is bound to a session and did not contradict that binding, exactly one session of the user
  is meant, that session holds a seat, and the seats of the member are within the limit; a new seat is granted only when the
  seats and the playing sessions together still fit.\<close>

theorem inspect_fail_closed:
  assumes "inspect fold_text mt native st user device sid play profile snapshot now = (st', a)" "a_allowed a"
    and "a_reason a \<notin> {NoMember, AdminExempt, Unlimited}" "limited mt st"
  shows "\<exists>rows m s. validate_snapshot snapshot = Some rows \<and> mt_get mt (py_strip user) = Some m \<and> \<not> m_admin m
    \<and> {t \<in> set (own_rows rows (py_strip user)). meant fold_text (py_strip user) device (asked st (py_strip user) device play sid) profile t} \<subseteq> {s}
    \<and> s \<in> set (own_rows rows (py_strip user)) \<and> asked st (py_strip user) device play sid \<in> {[], s_id s} \<and> sid \<in> {[], s_id s}
    \<and> device \<in> {[], s_device s} \<and> (device \<noteq> [] \<or> bound_session st (py_strip user) device play \<noteq> [])
    \<and> (s_device s = [] \<or> \<not> mt_blocked mt (py_strip user) (s_device s))
    \<and> a_session a = s_id s \<and> s_id s \<in> set (seats st' (py_strip user)) \<and> int (card (set (seats st' (py_strip user)))) \<le> m_max_streams m
    \<and> (if a_reason a = Granted
       then int (card (set (seats st' (py_strip user)) \<union> set (live_ids (own_rows rows (py_strip user))))) \<le> m_max_streams m
       else a_reason a = SamePlay)"
proof -
  let ?u = "py_strip user"
  obtain rows a0 where v: "validate_snapshot snapshot = Some rows"
    and ad: "admit fold_text mt st user device sid rows play profile now = (st', a0)" and a: "a = native_exemption native a0"
    by (rule inspect_cases [OF assms(1)]) (use assms(2) in simp)
  have ok: "a = a0" using exemption_allowed a assms(2,3) by simp
  have ad: "admit fold_text mt st user device sid rows play profile now = (st', a)" using ad ok by simp
  obtain m facts where m: "mt_get mt ?u = Some m" "\<not> m_admin m" "0 < m_max_streams m"
    and r: "resolve_and_seat fold_text mt st ?u (m_max_streams m) device sid (own_rows rows ?u) play profile facts now = (st', a)"
    using ad assms(2,3) by (auto simp: admit_def Let_def plain_def verdict_def split: if_splits option.splits)
  obtain s where s: "matching_sessions fold_text (own_rows rows ?u) ?u device (asked st ?u device play sid) profile = [s]"
    "device \<noteq> [] \<or> bound_session st ?u device play \<noteq> []" "sid = [] \<or> sid = asked st ?u device play sid"
    "s_device s = [] \<or> \<not> mt_blocked mt ?u (s_device s)"
    "seat_session (own_rows rows ?u) now ?u (m_max_streams m) device s (facts\<lparr>a_session := s_id s, a_device := s_device s\<rparr>) st = (st', a)"
    by (rule resolve_seated [OF r assms(2)])
  note q = matching_props [OF s(1)]
  have "{t \<in> set (own_rows rows ?u). meant fold_text ?u device (asked st ?u device play sid) profile t} \<subseteq> {s}" using q(5) by auto
  moreover have "a_reason a \<in> {SamePlay, Granted}"
    using s(5) assms(2) by (auto simp: seat_session_def Let_def verdict_def split: if_splits)
  moreover have "sid \<in> {[], s_id s}" "asked st ?u device play sid \<in> {[], s_id s}" "device \<in> {[], s_device s}" using s(3) q(3,4) by auto
  moreover have "int (card (set (seats st' ?u))) \<le> m_max_streams m"
    by (rule limitedD [OF admit_limited [OF ad assms(4)] m(1,3)])
  moreover note seat_session_granted [OF s(5)] seat_session_seat [OF s(5) assms(2)] seat_session_facts(1) [OF s(5)] q(1) s(2,4) m v
  ultimately show ?thesis by (intro exI [of _ rows] exI [of _ m] exI [of _ s]) auto
qed

definition demo_session :: "string \<Rightarrow> string \<Rightarrow> string option \<Rightarrow> session" where
  "demo_session i device item = \<lparr>s_id = i, s_user = ''u'', s_device = device, s_item = item, s_paused = False, s_play = [],
     s_start = [], s_profile = []\<rparr>"

definition demo_members :: member_table where
  "demo_members = \<lparr>mt_get = (\<lambda>uid. if uid = ''u'' then Some \<lparr>m_max_streams = 1, m_admin = False\<rparr> else None), mt_blocked = (\<lambda>_ _. False)\<rparr>"

definition demo_snapshot :: "session list option" where
  "demo_snapshot = Some [demo_session ''s1'' ''tv'' (Some ''film''), demo_session ''s2'' ''phone'' None]"

definition demo_seat :: streams where
  "demo_seat = fst (inspect id demo_members None \<lparr>leases = [], playbacks = []\<rparr> ''u'' ''tv'' [] [] [] demo_snapshot 100)"

definition demo_refusal :: admission where
  "demo_refusal = snd (inspect id demo_members (Some False) demo_seat ''u'' ''phone'' [] [] [] demo_snapshot 101)"

theorem inspect_fail_closed_witness:
  "''s1'' \<in> set (seats demo_seat ''u'') \<and> card (set (seats demo_seat ''u'')) = 1"
proof -
  obtain st' a where i: "inspect id demo_members None \<lparr>leases = [], playbacks = []\<rparr> ''u'' ''tv'' [] [] [] demo_snapshot 100 = (st', a)"
    by fastforce
  have a: "case snd (inspect id demo_members None \<lparr>leases = [], playbacks = []\<rparr> ''u'' ''tv'' [] [] [] demo_snapshot 100) of
      a \<Rightarrow> a_allowed a \<and> a_reason a = SamePlay \<and> a_session a = ''s1''" by code_simp
  have u: "py_strip ''u'' = ''u''" by code_simp
  have w: "limited demo_members \<lparr>leases = [], playbacks = []\<rparr>" by (simp add: limited_def seats_def)
  have m: "mt_get demo_members ''u'' = Some m \<Longrightarrow> m_max_streams m = 1" for m by (auto simp: demo_members_def)
  have ok: "a_allowed a" "a_reason a \<notin> {NoMember, AdminExempt, Unlimited}" "a_session a = ''s1''" using a i by simp_all
  from inspect_fail_closed [OF i ok(1,2) w] show ?thesis
  proof (elim exE conjE)
    fix rows n s
    assume "mt_get demo_members (py_strip ''u'') = Some n" "a_session a = s_id s" "s_id s \<in> set (seats st' (py_strip ''u''))"
      "int (card (set (seats st' (py_strip ''u'')))) \<le> m_max_streams n"
    then have s: "''s1'' \<in> set (seats st' ''u'')" and c: "card (set (seats st' ''u'')) \<le> 1" using ok(3) m [of n] u by simp_all
    have "0 < card (set (seats st' ''u''))" using s by (simp only: card_gt_0_iff) auto
    with c s have "''s1'' \<in> set (seats st' ''u'') \<and> card (set (seats st' ''u'')) = 1" by linarith
    moreover have "demo_seat = st'" using i by (simp add: demo_seat_def)
    ultimately show ?thesis by simp
  qed
qed

section \<open>Only a proven surplus is punished\<close>

lemma inspect_punishable:
  assumes "inspect f mt native st user device sid play profile snapshot now = (st', a)" "a_punishable a"
  shows "\<exists>rows. validate_snapshot snapshot = Some rows \<and> a_user a = py_strip user \<and> \<not> a_allowed a
    \<and> a_session a \<notin> set (a_live a) \<and> set (a_live a) = set (live_ids (own_rows rows (py_strip user)))
    \<and> int (card (set (a_live a))) = a_cap a \<and> set (a_live a) \<subseteq> set (seats st' (py_strip user))
    \<and> a_session a \<notin> set (seats st' (py_strip user)) \<and> native = Some False"
proof -
  obtain rows a0 where v: "validate_snapshot snapshot = Some rows"
    and ad: "admit f mt st user device sid rows play profile now = (st', a0)" and a: "a = native_exemption native a0"
    by (rule inspect_cases [OF assms(1)]) (use assms(2) in simp)
  from ad show ?thesis
  proof (rule admit_cases)
    assume "\<not> a_punishable a0"
    then have False using a assms(2) by (auto simp: native_exemption_def split: if_splits option.splits bool.splits)
    then show ?thesis ..
  next
    fix m s facts
    assume m: "a_user facts = py_strip user" "a_session facts = s_id s" "a_cap facts = m_max_streams m"
      "set (a_live facts) = set (live_ids (own_rows rows (py_strip user)))" "\<not> a_punishable facts"
      and s: "seat_session (own_rows rows (py_strip user)) now (py_strip user) (m_max_streams m) device s facts st = (st', a0)"
    have p: "a_punishable a0" using a assms(2) by (auto simp: native_exemption_def split: if_splits option.splits bool.splits)
    note q = seat_session_punish [OF s p m(5)] seat_session_facts [OF s]
    have "a_reason a0 = OverLimit" using q(1) q(7) s by (auto simp: seat_session_def Let_def verdict_def split: if_splits)
    then have "native = Some False" "a = a0"
      using a assms(2) q(1) by (auto simp: native_exemption_def split: option.splits bool.splits)
    then show ?thesis using q m v by simp
  qed
qed

text \<open>A violation is confirmed only on proof: an admission marked punishable names an idle session without a seat while exactly as
  many other sessions of the user as the limit play on seats of their own; and the confirmation, on a fresh snapshot, still
  finds all of them playing, the session still without a seat, the limit unchanged and the user no administrator.\<close>

theorem violation_proven:
  assumes "inspect fold_text mt native st user device sid play profile snapshot now = (st', a)"
    and "confirm_violation fold_text before after native2 st2 a snapshot2 later = Some v"
  shows "\<not> a_allowed a \<and> a_session a \<notin> set (seats st' (a_user a)) \<and> int (card (set (a_live a))) = a_cap a
    \<and> set (a_live a) \<subseteq> set (seats st' (a_user a)) \<and> a_session a \<notin> set (a_live a)
    \<and> v_user v = a_user a \<and> v_session v = a_session a \<and> v_session v \<notin> set (seats st2 (v_user v))
    \<and> set (a_live a) \<subseteq> set (v_live v) - {v_session v} \<and> native2 = Some False \<and> still_limited after a"
proof -
  have p: "a_punishable a" using assms(2) by (auto simp: confirm_violation_def split: if_splits)
  have c: "v_user v = a_user a \<and> v_session v = a_session a \<and> map_of (leases st2) (a_user a, a_session a) = None
      \<and> set (a_live a) \<subseteq> set (v_live v) - {a_session a} \<and> native2 = Some False \<and> still_limited after a"
    using assms(2) by (auto simp: confirm_violation_def Let_def split: if_splits option.splits list.splits)
  show ?thesis using inspect_punishable [OF assms(1) p] c by (auto simp: seats_iff)
qed

theorem violation_proven_witness:
  "\<exists>v. confirm_violation id demo_members demo_members (Some False) demo_seat demo_refusal demo_snapshot 102 = Some v
     \<and> v_session v = ''s2'' \<and> ''s2'' \<notin> set (seats demo_seat (v_user v))"
proof -
  obtain st' where i: "inspect id demo_members (Some False) demo_seat ''u'' ''phone'' [] [] [] demo_snapshot 101 = (st', demo_refusal)"
    by (simp add: demo_refusal_def) (metis prod.collapse)
  have "case confirm_violation id demo_members demo_members (Some False) demo_seat demo_refusal demo_snapshot 102 of
      None \<Rightarrow> False | Some v \<Rightarrow> v_session v = ''s2''" by code_simp
  then obtain v where v: "confirm_violation id demo_members demo_members (Some False) demo_seat demo_refusal demo_snapshot 102 = Some v"
    "v_session v = ''s2''" by (auto split: option.splits)
  then show ?thesis using violation_proven [OF i v(1)] by auto
qed

section \<open>Abandoned starts do not lock anybody out\<close>

lemma put_new: "map_of al k = None \<Longrightarrow> put k v al = al @ [(k, v)]"
  by (induction al) (auto split: if_splits)

lemma reap_all:
  assumes "live_ids rows = []" "\<And>sid l. map_of (leases st) (uid, sid) = Some l \<Longrightarrow> l_observed l \<or> PENDING_START_SECONDS \<le> now - l_pending l"
    and "keyed (leases st)"
  shows "seats (refresh_seats rows now uid cap st) uid = []"
proof -
  have "stale rows now sid l" if "((uid, sid), l) \<in> set (leases st)" for sid l
    using assms(1,2) map_of_is_SomeI [OF assms(3) that] by (simp add: stale_def)
  then have "filter (\<lambda>p. fst (fst p) = uid) (leases (reap rows now uid st)) = []"
    by (auto simp: reap_def filter_empty_conv)
  then show ?thesis by (simp add: refresh_seats_def Let_def assms(1) seats_def)
qed

text \<open>C22. Seats come back: if nothing of the user plays and every seat is an observed play that ended or a start older than the grace
  period, the next request of a resolved session is granted, whatever was abandoned before.\<close>

theorem seats_recovered:
  assumes "mt_get mt (py_strip user) = Some m" "\<not> m_admin m" "0 < m_max_streams m" "py_strip user \<noteq> []"
    and "validate_snapshot snapshot = Some rows" "live_ids (own_rows rows (py_strip user)) = []" "keyed (leases st)"
    and "\<forall>sid l. map_of (leases st) (py_strip user, sid) = Some l \<longrightarrow> l_observed l \<or> PENDING_START_SECONDS \<le> now - l_pending l"
    and "device \<noteq> []" "matching_sessions fold_text (own_rows rows (py_strip user)) (py_strip user) device sid profile = [s]"
    and "\<forall>d. \<not> mt_blocked mt (py_strip user) d"
  shows "\<exists>st' a. inspect fold_text mt native st user device sid [] profile snapshot now = (st', a) \<and> a_allowed a \<and> a_reason a = Granted
    \<and> seats st' (py_strip user) = [s_id s]"
proof -
  let ?uid = "py_strip user" and ?rows = "own_rows rows (py_strip user)"
  let ?st1 = "refresh_seats ?rows now ?uid (m_max_streams m) st"
  have none: "seats ?st1 ?uid = []" using reap_all [OF assms(6) _ assms(7)] assms(8) by blast
  have bound: "bound_session st ?uid device [] = []" by (simp add: bound_session_def Let_def)
  have one: "seats (?st1\<lparr>leases := put (?uid, s_id s) l (leases ?st1)\<rparr>) ?uid = [s_id s]" for l
  proof -
    have free: "filter (\<lambda>p. fst (fst p) = ?uid) (leases ?st1) = []" using none by (simp add: seats_def)
    then have "map_of (leases ?st1) (?uid, s_id s) = None" by (force simp: map_of_eq_None_iff filter_empty_conv)
    then have "put (?uid, s_id s) l (leases ?st1) = leases ?st1 @ [((?uid, s_id s), l)]" by (rule put_new)
    then show ?thesis using free by (simp add: seats_def)
  qed
  show ?thesis
    using assms none one
    by (simp add: inspect_def admit_def Let_def resolve_and_seat_def bound seat_session_def verdict_def native_exemption_def plain_def)
qed

definition abandoned :: streams where
  "abandoned = \<lparr>leases = [((''u'', ''s2''), \<lparr>l_observed = False, l_play = ''p'', l_pending = 0, l_guard = False\<rparr>)], playbacks = []\<rparr>"

definition idle_snapshot :: "session list option" where
  "idle_snapshot = Some [demo_session ''s2'' ''tv'' None, demo_session ''s3'' ''phone'' None]"

theorem seats_recovered_witness:
  "\<exists>st' a. inspect id demo_members None abandoned ''u'' ''phone'' [] [] [] idle_snapshot 100 = (st', a) \<and> a_reason a = Granted
    \<and> seats st' ''u'' = [''s3'']"
proof -
  have u: "py_strip ''u'' = ''u''" by code_simp
  let ?rows = "[demo_session ''s2'' ''tv'' None, demo_session ''s3'' ''phone'' None]"
  have "validate_snapshot idle_snapshot = Some ?rows" by code_simp
  moreover have "live_ids (own_rows ?rows ''u'') = []" by code_simp
  moreover have "matching_sessions id (own_rows ?rows ''u'') ''u'' ''phone'' [] [] = [demo_session ''s3'' ''phone'' None]" by code_simp
  moreover have "keyed (leases abandoned)" by (simp add: abandoned_def)
  moreover have "\<forall>sid l. map_of (leases abandoned) (''u'', sid) = Some l \<longrightarrow> l_observed l \<or> PENDING_START_SECONDS \<le> 100 - l_pending l"
    by (simp add: abandoned_def PENDING_START_SECONDS_def)
  ultimately have "\<exists>st' a. inspect id demo_members None abandoned ''u'' ''phone'' [] [] [] idle_snapshot 100 = (st', a) \<and> a_allowed a
      \<and> a_reason a = Granted \<and> seats st' ''u'' = [s_id (demo_session ''s3'' ''phone'' None)]"
    using seats_recovered [of demo_members "''u''" "\<lparr>m_max_streams = 1, m_admin = False\<rparr>" idle_snapshot ?rows abandoned 100 "''phone''"
        id "[]" "[]" "demo_session ''s3'' ''phone'' None" None]
    by (simp add: u demo_members_def)
  then show ?thesis by (auto simp: demo_session_def)
qed

end
