(* ===== verification/IpAddress.thy ===== *)
theory IpAddress
  imports Prelude
begin

text \<open>
  What the code uses of Python's \<open>ipaddress\<close>: parsing of IPv4 and IPv6 addresses and networks (\<open>strict=False\<close>), membership,
  and the printed form of an IPv4 /24 and an IPv6 /48 network. An address is its version with its integer value.
\<close>

section \<open>Text\<close>

fun split_on :: "char \<Rightarrow> string \<Rightarrow> string list" where
  "split_on sep [] = [[]]"
| "split_on sep (c # cs) =
     (if c = sep then [] # split_on sep cs
      else (case split_on sep cs of [] \<Rightarrow> [[c]] | w # ws \<Rightarrow> (c # w) # ws))"

definition is_digit :: "char \<Rightarrow> bool" where
  "is_digit c \<longleftrightarrow> c \<in> set ''0123456789''"

definition all_digits :: "string \<Rightarrow> bool" where
  "all_digits s \<longleftrightarrow> s \<noteq> [] \<and> list_all is_digit s"

fun position_in :: "char \<Rightarrow> string \<Rightarrow> nat" where
  "position_in c [] = 0"
| "position_in c (d # ds) = (if c = d then 0 else Suc (position_in c ds))"

definition decimal :: "string \<Rightarrow> int" where
  "decimal s = foldl (\<lambda>n c. 10 * n + int (position_in c ''0123456789'')) 0 s"

definition hex_value :: "char \<Rightarrow> nat" where
  "hex_value c = (let k = position_in c ''0123456789abcdefABCDEF'' in if 16 \<le> k then k - 6 else k)"

definition hexadecimal :: "string \<Rightarrow> int" where
  "hexadecimal s = foldl (\<lambda>n c. 16 * n + int (hex_value c)) 0 s"

text \<open>\<open>str\<close> and \<open>'%x' %\<close> of a number below 1000 and below 65536.\<close>

definition nat_text :: "int \<Rightarrow> string" where
  "nat_text n =
     (let ds = dropWhile (\<lambda>d. d = 0) [n div 100, n div 10 mod 10] @ [n mod 10] in map (\<lambda>d. ''0123456789'' ! nat d) ds)"

definition hex_text :: "int \<Rightarrow> string" where
  "hex_text n =
     (let ds = dropWhile (\<lambda>d. d = 0) [n div 4096, n div 256 mod 16, n div 16 mod 16] @ [n mod 16] in
      map (\<lambda>d. ''0123456789abcdef'' ! nat d) ds)"

section \<open>Addresses\<close>

datatype version = V4 | V6

type_synonym address = "version \<times> int"

definition octet :: "string \<Rightarrow> int option" where
  "octet s =
     (if \<not> all_digits s \<or> 3 < length s \<or> (s \<noteq> ''0'' \<and> hd s = CHR ''0'') \<or> 255 < decimal s then None else Some (decimal s))"

fun sequence :: "'a option list \<Rightarrow> 'a list option" where
  "sequence [] = Some []"
| "sequence (x # xs) = (case x of None \<Rightarrow> None | Some a \<Rightarrow> map_option (\<lambda>as. a # as) (sequence xs))"

definition join_digits :: "int \<Rightarrow> int list \<Rightarrow> int" where
  "join_digits base ds = foldl (\<lambda>n d. base * n + d) 0 ds"

definition parse_v4 :: "string \<Rightarrow> int option" where
  "parse_v4 s =
     (let parts = split_on (CHR ''.'') s in
      if length parts \<noteq> 4 then None else map_option (join_digits 256) (sequence (map octet parts)))"

definition hextet :: "string \<Rightarrow> int option" where
  "hextet s = (if s = [] \<or> 4 < length s \<or> \<not> list_all (\<lambda>c. c \<in> set ''0123456789abcdefABCDEF'') s then None else Some (hexadecimal s))"

text \<open>The colon-separated parts, an embedded IPv4 address replaced by two hextets.\<close>

definition v6_parts :: "string \<Rightarrow> string list option" where
  "v6_parts s =
     (let parts = split_on (CHR '':'') s in
      if length parts < 3 then None
      else if CHR ''.'' \<in> set (last parts)
      then map_option (\<lambda>n. butlast parts @ [hex_text (n div 65536), hex_text (n mod 65536)]) (parse_v4 (last parts))
      else Some parts)"

definition skips :: "string list \<Rightarrow> nat list" where
  "skips parts = filter (\<lambda>i. parts ! i = []) [1..<length parts - 1]"

definition v6_number :: "string list \<Rightarrow> int option" where
  "v6_number parts =
     (case skips parts of
        [] \<Rightarrow> if length parts \<noteq> 8 then None else map_option (join_digits 65536) (sequence (map hextet parts))
      | [k] \<Rightarrow>
          let hi = (if hd parts = [] then k - 1 else k); lo = (let n = length parts - k - 1 in if last parts = [] then n - 1 else n) in
          if (hd parts = [] \<and> hi \<noteq> 0) \<or> (last parts = [] \<and> lo \<noteq> 0) \<or> 7 < hi + lo then None
          else map_option (\<lambda>ds. join_digits 65536 ds)
            (sequence (map hextet (take hi parts) @ replicate (8 - (hi + lo)) (Some 0) @ map hextet (drop (length parts - lo) parts)))
      | _ \<Rightarrow> None)"

definition parse_v6 :: "string \<Rightarrow> int option" where
  "parse_v6 s =
     (case split_on (CHR ''%'') s of
        [text] \<Rightarrow> Option.bind (v6_parts text) (\<lambda>ps. if 9 < length ps then None else v6_number ps)
      | [text, scope] \<Rightarrow>
          if scope = [] then None else Option.bind (v6_parts text) (\<lambda>ps. if 9 < length ps then None else v6_number ps)
      | _ \<Rightarrow> None)"

definition ip_address :: "string \<Rightarrow> address option" where
  "ip_address s =
     (if CHR ''/'' \<in> set s then None
      else case parse_v4 s of
        Some n \<Rightarrow> Some (V4, n)
      | None \<Rightarrow> map_option (\<lambda>n. (V6, n)) (parse_v6 s))"

section \<open>Networks\<close>

fun width :: "version \<Rightarrow> nat" where
  "width V4 = 32"
| "width V6 = 128"

type_synonym network = "version \<times> int \<times> nat"

text \<open>Clearing the host bits.\<close>

definition network_of :: "version \<Rightarrow> nat \<Rightarrow> int \<Rightarrow> network" where
  "network_of v prefix n = (let k = 2 ^ (width v - prefix) in (v, n div k * k, prefix))"

definition prefix_number :: "version \<Rightarrow> string \<Rightarrow> nat option" where
  "prefix_number v s =
     (if all_digits s \<and> decimal s \<le> int (width v) then Some (nat (decimal s))
      else if v = V6 \<or> all_digits s then None
      else case parse_v4 s of
        None \<Rightarrow> None
      | Some m \<Rightarrow>
          (case find (\<lambda>p. m = 2 ^ 32 - 2 ^ (32 - p)) [0..<33] of
             Some p \<Rightarrow> Some p
           | None \<Rightarrow> find (\<lambda>p. m = 2 ^ (32 - p) - 1) [0..<33]))"

definition network_in :: "version \<Rightarrow> (string \<Rightarrow> int option) \<Rightarrow> string \<Rightarrow> network option" where
  "network_in v parse s =
     (case split_on (CHR ''/'') s of
        [text] \<Rightarrow> map_option (network_of v (width v)) (parse text)
      | [text, bits] \<Rightarrow>
          Option.bind (parse text) (\<lambda>n. map_option (\<lambda>p. network_of v p n) (prefix_number v bits))
      | _ \<Rightarrow> None)"

definition ip_network :: "string \<Rightarrow> network option" where
  "ip_network s = (case network_in V4 parse_v4 s of Some n \<Rightarrow> Some n | None \<Rightarrow> network_in V6 parse_v6 s)"

definition in_network :: "address \<Rightarrow> network \<Rightarrow> bool" where
  "in_network a net = (fst a = fst net \<and> network_of (fst a) (snd (snd net)) (snd a) = net)"

text \<open>\<open>str\<close> of the /24 of an IPv4 address and of the /48 of an IPv6 address, whose trailing zero hextets are written \<open>::\<close>.\<close>

definition v4_text :: "int \<Rightarrow> string" where
  "v4_text n = nat_text (n div 2 ^ 24 mod 256) @ ''.'' @ nat_text (n div 2 ^ 16 mod 256) @ ''.'' @ nat_text (n div 2 ^ 8 mod 256)
     @ ''.'' @ nat_text (n mod 256)"

definition v6_site_text :: "int \<Rightarrow> string" where
  "v6_site_text n =
     (let hs = rev (dropWhile (\<lambda>h. h = 0) (rev [n div 2 ^ 112 mod 65536, n div 2 ^ 96 mod 65536, n div 2 ^ 80 mod 65536])) in
      (case map hex_text hs of
         [] \<Rightarrow> '':'' | [a] \<Rightarrow> a @ '':'' | [a, b] \<Rightarrow> a @ '':'' @ b @ '':'' | a # b # c # _ \<Rightarrow> a @ '':'' @ b @ '':'' @ c @ '':'') @ '':'')"

text \<open>The network of an address. A scope identifier is dropped; the code keeps it only when every bit after the prefix is zero.\<close>

definition place_text :: "address \<Rightarrow> string" where
  "place_text a =
     (case fst a of
        V4 \<Rightarrow> v4_text (snd a div 256 * 256) @ ''/24''
      | V6 \<Rightarrow> v6_site_text (snd a) @ ''/48'')"

text \<open>\<open>s.strip()\<close>, then the port that Emby appends: \<open>addr:port\<close> or \<open>[addr]:port\<close>.\<close>

definition strip_port :: "string \<Rightarrow> string" where
  "strip_port ip =
     (let raw = py_strip ip in
      if raw = [] then []
      else if hd raw = CHR ''['' then hd (split_on (CHR '']'') (tl raw))
      else if count_list raw (CHR '':'') = 1 then hd (split_on (CHR '':'') raw)
      else raw)"

end
