(* ===== verification/Access.thy ===== *)
theory Access
  imports IpAddress
begin

text \<open>
  \<^verbatim>\<open>backend/app/modules/access.py\<close>: the rules that decide who gets a signed playback URL. The table \<open>access_rules\<close> is the
  list of its rows in id order. Regular expressions are a parameter: \<open>search pattern text\<close> is None when the pattern does not
  compile, and tells otherwise whether it matches (ignoring case).
\<close>

datatype rule_kind = Client | Network | OtherKind string
datatype rule_action = Deny | Allow | OtherAction string

record rule =
  r_id :: int
  r_kind :: rule_kind
  r_pattern :: string
  r_action :: rule_action
  r_note :: string
  r_enabled :: bool
  r_created :: int

record block =
  k_user :: string
  k_agent :: string
  k_ip :: string
  k_reason :: string
  k_rule :: "int option"
  k_item :: string
  k_at :: int

record access =
  rules :: "rule list"
  blocks :: "block list"

datatype access_error = BadAction | EmptyPattern | BadRegex | BadNetwork | BadKind

type_synonym regex = "string \<Rightarrow> string \<Rightarrow> bool option"

definition compiles :: "regex \<Rightarrow> string \<Rightarrow> bool" where
  "compiles search pattern \<longleftrightarrow> search pattern [] \<noteq> None"

definition validate_pattern :: "regex \<Rightarrow> rule_kind \<Rightarrow> string \<Rightarrow> access_error + string" where
  "validate_pattern search kind pattern =
     (let p = py_strip pattern in
      if p = [] then Inl EmptyPattern
      else case kind of
        Client \<Rightarrow> if compiles search p then Inr p else Inl BadRegex
      | Network \<Rightarrow> if ip_network p \<noteq> None then Inr p else Inl BadNetwork
      | OtherKind _ \<Rightarrow> Inl BadKind)"

definition add_rule :: "regex \<Rightarrow> access \<Rightarrow> rule_kind \<Rightarrow> string \<Rightarrow> rule_action \<Rightarrow> string \<Rightarrow> bool \<Rightarrow> int \<Rightarrow> int \<Rightarrow> access_error + access" where
  "add_rule search db kind pattern action note enabled rid now =
     (if action \<notin> {Deny, Allow} then Inl BadAction
      else bindR (validate_pattern search kind pattern) (\<lambda>p.
        Inr (db\<lparr>rules := rules db @ [\<lparr>r_id = rid, r_kind = kind, r_pattern = p, r_action = action, r_note = py_strip note,
               r_enabled = enabled, r_created = now\<rparr>]\<rparr>)))"

definition remove_rule :: "access \<Rightarrow> int \<Rightarrow> access \<times> bool" where
  "remove_rule db rid =
     (if rid \<notin> r_id ` set (rules db) then (db, False) else (db\<lparr>rules := filter (\<lambda>r. r_id r \<noteq> rid) (rules db)\<rparr>, True))"

definition set_enabled :: "access \<Rightarrow> int \<Rightarrow> bool \<Rightarrow> access \<times> bool" where
  "set_enabled db rid enabled =
     (if rid \<notin> r_id ` set (rules db) then (db, False)
      else (db\<lparr>rules := map (\<lambda>r. if r_id r = rid then r\<lparr>r_enabled := enabled\<rparr> else r) (rules db)\<rparr>, True))"

definition matches :: "regex \<Rightarrow> rule \<Rightarrow> string \<Rightarrow> address option \<Rightarrow> bool" where
  "matches search r agent parsed =
     (case r_kind r of
        Client \<Rightarrow> agent \<noteq> [] \<and> search (r_pattern r) agent = Some True
      | Network \<Rightarrow>
          (case parsed of
             None \<Rightarrow> False
           | Some a \<Rightarrow> (case ip_network (r_pattern r) of None \<Rightarrow> False | Some net \<Rightarrow> in_network a net))
      | OtherKind _ \<Rightarrow> False)"

datatype verdict = Excluded | NoRules | NoMatch | AllowedBy int | DeniedBy int rule_kind string

definition allowed :: "verdict \<Rightarrow> bool" where
  "allowed v = (case v of DeniedBy _ _ _ \<Rightarrow> False | _ \<Rightarrow> True)"

text \<open>\<open>self.list()\<close> orders by kind, then id; the kinds are compared as strings.\<close>

fun kind_name :: "rule_kind \<Rightarrow> string" where
  "kind_name Client = ''client''"
| "kind_name Network = ''network''"
| "kind_name (OtherKind s) = s"

definition listed :: "access \<Rightarrow> rule list" where
  "listed db = sort_key (\<lambda>r. kind_name (r_kind r)) (rules db)"

definition evaluate :: "regex \<Rightarrow> access \<Rightarrow> string \<Rightarrow> string \<Rightarrow> string \<Rightarrow> string set \<Rightarrow> verdict" where
  "evaluate search db agent remote_ip username excluded =
     (if username \<noteq> [] \<and> username \<in> excluded then Excluded
      else
        let active = filter r_enabled (listed db) in
        if active = [] then NoRules
        else
          let address = strip_port remote_ip; parsed = (if address = [] then None else ip_address address);
              hits = filter (\<lambda>r. matches search r agent parsed) active in
          (case find (\<lambda>r. r_action r = Allow) hits of
             Some r \<Rightarrow> AllowedBy (r_id r)
           | None \<Rightarrow>
               (case find (\<lambda>r. r_action r = Deny) hits of
                  Some r \<Rightarrow> DeniedBy (r_id r) (r_kind r) (r_pattern r)
                | None \<Rightarrow> NoMatch)))"

definition record_block :: "access \<Rightarrow> string \<Rightarrow> string \<Rightarrow> string \<Rightarrow> string \<Rightarrow> int option \<Rightarrow> string \<Rightarrow> int \<Rightarrow> access" where
  "record_block db username agent remote_ip why rid item now =
     db\<lparr>blocks := blocks db @ [\<lparr>k_user = username, k_agent = take 300 agent, k_ip = strip_port remote_ip, k_reason = why,
        k_rule = rid, k_item = item, k_at = now\<rparr>]\<rparr>"

definition recent_blocks :: "access \<Rightarrow> int \<Rightarrow> block list" where
  "recent_blocks db limit = take (nat (clamp 1 500 limit)) (sort_key (\<lambda>b. - k_at b) (blocks db))"

section \<open>What a verdict means\<close>

text \<open>C26. A request is denied exactly when its user is not excluded, some enabled rule that matches it says deny, and no enabled rule that
  matches it says allow: an allow rule always wins, a rule that is off, broken or of an unknown kind never denies.\<close>

theorem denied_iff:
  "\<not> allowed (evaluate search db agent remote_ip username excluded) \<longleftrightarrow>
     \<not> (username \<noteq> [] \<and> username \<in> excluded)
     \<and> (\<exists>r \<in> set (rules db). r_enabled r \<and> r_action r = Deny \<and> matches search r agent (ip_address (strip_port remote_ip)))
     \<and> \<not> (\<exists>r \<in> set (rules db). r_enabled r \<and> r_action r = Allow \<and> matches search r agent (ip_address (strip_port remote_ip)))"
proof -
  have e: "ip_address [] = None" by code_simp
  have p: "(if strip_port remote_ip = [] then None else ip_address (strip_port remote_ip)) = ip_address (strip_port remote_ip)"
    using e by simp
  let ?hits = "filter (\<lambda>r. matches search r agent (ip_address (strip_port remote_ip))) (filter r_enabled (listed db))"
  have hits: "r \<in> set ?hits \<longleftrightarrow> r \<in> set (rules db) \<and> r_enabled r \<and> matches search r agent (ip_address (strip_port remote_ip))" for r
    by (auto simp: listed_def)
  have v: "evaluate search db agent remote_ip username excluded =
      (if username \<noteq> [] \<and> username \<in> excluded then Excluded
       else if filter r_enabled (listed db) = [] then NoRules
       else (case find (\<lambda>r. r_action r = Allow) ?hits of
             Some r \<Rightarrow> AllowedBy (r_id r)
           | None \<Rightarrow> (case find (\<lambda>r. r_action r = Deny) ?hits of
                  Some r \<Rightarrow> DeniedBy (r_id r) (r_kind r) (r_pattern r) | None \<Rightarrow> NoMatch)))"
    unfolding evaluate_def Let_def p by (rule refl)
  have a: "(\<exists>r \<in> set ?hits. r_action r = Allow) \<longleftrightarrow> find (\<lambda>r. r_action r = Allow) ?hits \<noteq> None"
    and d: "(\<exists>r \<in> set ?hits. r_action r = Deny) \<longleftrightarrow> find (\<lambda>r. r_action r = Deny) ?hits \<noteq> None"
    unfolding find_None_iff by blast+
  have "\<not> allowed (evaluate search db agent remote_ip username excluded) \<longleftrightarrow>
      \<not> (username \<noteq> [] \<and> username \<in> excluded) \<and> (\<exists>r \<in> set ?hits. r_action r = Deny) \<and> \<not> (\<exists>r \<in> set ?hits. r_action r = Allow)"
  proof (cases "filter r_enabled (listed db) = []")
    case True
    then show ?thesis unfolding v by (simp add: allowed_def)
  next
    case False
    then show ?thesis unfolding v a d
      by (cases "find (\<lambda>r. r_action r = Allow) ?hits"; cases "find (\<lambda>r. r_action r = Deny) ?hits") (simp_all add: allowed_def del: filter_filter)
  qed
  then show ?thesis unfolding Bex_def hits by blast
qed

end
