(* ===== verification/Sharing.thy ===== *)
theory Sharing
  imports IpAddress
begin

text \<open>
  \<^verbatim>\<open>backend/app/modules/sharing.py\<close>: detection of one account watched from several networks at once. The dicts
  \<open>_seen\<close> and \<open>_last_reported\<close> are association lists; a sampling tick is one step.
\<close>

section \<open>Places\<close>

definition network_key :: "string \<Rightarrow> string" where
  "network_key ip =
     (let raw = strip_port ip in
      if py_strip ip = [] then []
      else case ip_address raw of None \<Rightarrow> raw | Some a \<Rightarrow> place_text a)"

section \<open>The detector\<close>

record finding =
  fi_user :: string
  fi_networks :: "string list"
  fi_count :: nat
  fi_at :: int

record detector =
  min_seconds :: real
  cooldown :: real
  seen :: "(string \<times> (string \<times> real) list) list"
  last_reported :: "(string \<times> real) list"

definition places_of :: "(string \<times> (string \<times> real) list) list \<Rightarrow> string \<Rightarrow> (string \<times> real) list" where
  "places_of s user = (case map_of s user of None \<Rightarrow> [] | Some nets \<Rightarrow> nets)"

text \<open>Folding the live sessions (user, address) into the new table; a place keeps the time it was first seen.\<close>

fun sample :: "detector \<Rightarrow> real \<Rightarrow> (string \<times> string) list \<Rightarrow> (string \<times> (string \<times> real) list) list
    \<Rightarrow> (string \<times> (string \<times> real) list) list" where
  "sample d now [] current = current"
| "sample d now ((user, ip) # sessions) current =
     (let key = network_key ip in
      if user = [] \<or> key = [] then sample d now sessions current
      else
        let first = (case map_of (places_of (seen d) user) key of None \<Rightarrow> now | Some t \<Rightarrow> t) in
        sample d now sessions (put user (put key first (places_of current user)) current))"

definition established :: "detector \<Rightarrow> real \<Rightarrow> (string \<times> real) list \<Rightarrow> string list" where
  "established d now nets = map fst (filter (\<lambda>(key, since). min_seconds d \<le> now - since) nets)"

fun report :: "detector \<Rightarrow> real \<Rightarrow> (string \<times> (string \<times> real) list) list \<Rightarrow> detector \<times> finding list" where
  "report d now [] = (d, [])"
| "report d now ((user, nets) # rest) =
     (let est = established d now nets in
      if length est < 2 then report d now rest
      else if (case map_of (last_reported d) user of None \<Rightarrow> False | Some t \<Rightarrow> now - t < cooldown d) then report d now rest
      else
        let (d', fs) = report (d\<lparr>last_reported := put user now (last_reported d)\<rparr>) now rest in
        (d', \<lparr>fi_user = user, fi_networks = sort est, fi_count = length est, fi_at = \<lfloor>now\<rfloor>\<rparr> # fs))"

definition observe :: "detector \<Rightarrow> (string \<times> string) list \<Rightarrow> real \<Rightarrow> detector \<times> finding list" where
  "observe d sessions now = (let current = sample d now sessions [] in report (d\<lparr>seen := current\<rparr>) now current)"

definition tracked_accounts :: "detector \<Rightarrow> nat" where
  "tracked_accounts d = length (seen d)"

definition multi_network_now :: "detector \<Rightarrow> nat" where
  "multi_network_now d = length (filter (\<lambda>(u, nets). 2 \<le> length nets) (seen d))"

text \<open>The table \<open>sharing_findings\<close>: the networks are stored as one text, joined with commas, and split when they are listed.\<close>

record finding_row =
  fr_user :: string
  fr_username :: string
  fr_networks :: string
  fr_count :: nat
  fr_at :: int

fun join_comma :: "string list \<Rightarrow> string" where
  "join_comma [] = []"
| "join_comma [w] = w"
| "join_comma (w # ws) = w @ CHR '','' # join_comma ws"

definition record_finding :: "finding_row list \<Rightarrow> finding \<Rightarrow> string \<Rightarrow> finding_row list" where
  "record_finding table f username =
     table @ [\<lparr>fr_user = fi_user f, fr_username = username, fr_networks = join_comma (fi_networks f), fr_count = fi_count f, fr_at = fi_at f\<rparr>]"

definition recent :: "finding_row list \<Rightarrow> int \<Rightarrow> (finding_row \<times> string list) list" where
  "recent table limit =
     map (\<lambda>r. (r, filter (\<lambda>n. n \<noteq> []) (split_on (CHR '','') (fr_networks r))))
       (take (nat (max 1 (min limit 500))) (sort_key (\<lambda>r. - fr_at r) table))"

section \<open>Ticks\<close>

text \<open>The detector after a history of sampling ticks, and what a place seen since \<open>t\<close> means: it was playing at every tick from
  \<open>t\<close> on.\<close>

definition run :: "detector \<Rightarrow> (real \<times> (string \<times> string) list) list \<Rightarrow> detector" where
  "run d history = foldl (\<lambda>d (now, sessions). fst (observe d sessions now)) d history"

definition plays_at :: "(string \<times> string) list \<Rightarrow> string \<Rightarrow> string \<Rightarrow> bool" where
  "plays_at sessions user key \<longleftrightarrow> (\<exists>s \<in> set sessions. fst s = user \<and> network_key (snd s) = key)"

definition playing_since :: "(real \<times> (string \<times> string) list) list \<Rightarrow> string \<Rightarrow> string \<Rightarrow> real \<Rightarrow> bool" where
  "playing_since history user key t \<longleftrightarrow>
     (\<exists>before after. history = before @ after \<and> after \<noteq> [] \<and> fst (hd after) = t \<and> (\<forall>tick \<in> set after. plays_at (snd tick) user key))"

lemma report_seen: "seen (fst (report d now cur)) = seen d \<and> min_seconds (fst (report d now cur)) = min_seconds d"
  by (induction d now cur rule: report.induct) (auto simp: Let_def split_def split: option.splits)

lemma observe_seen: "seen (fst (observe d sessions now)) = sample d now sessions []" "min_seconds (fst (observe d sessions now)) = min_seconds d"
  using report_seen by (simp_all add: observe_def Let_def)

definition nets_keyed :: "(string \<times> (string \<times> real) list) list \<Rightarrow> bool" where
  "nets_keyed current \<longleftrightarrow> keyed current \<and> (\<forall>p \<in> set current. keyed (snd p))"

lemma places_keyed: "nets_keyed current \<Longrightarrow> keyed (places_of current u)"
  by (fastforce simp: nets_keyed_def places_of_def split: option.split dest: map_of_SomeD)

lemma sample_keyed: "nets_keyed current \<Longrightarrow> nets_keyed (sample d now sessions current)"
proof (induction d now sessions current rule: sample.induct)
  case (2 d now user ip sessions current)
  have "nets_keyed (put user (put k v (places_of current user)) current)" for k v
    using 2(3) places_keyed [OF 2(3), of user] by (auto simp: nets_keyed_def dest!: put_members)
  then show ?case using 2 by (simp add: Let_def)
qed simp

lemma sample_place:
  "(user, nets) \<in> set (sample d now sessions current) \<Longrightarrow> (key, t) \<in> set nets \<Longrightarrow>
   (\<exists>ns. (user, ns) \<in> set current \<and> (key, t) \<in> set ns)
   \<or> (plays_at sessions user key \<and> t = (case map_of (places_of (seen d) user) key of None \<Rightarrow> now | Some t0 \<Rightarrow> t0))"
proof (induction d now sessions current arbitrary: nets rule: sample.induct)
  case (2 d now u ip sessions current)
  let ?k = "network_key ip"
  have mono: "plays_at sessions user key \<Longrightarrow> plays_at ((u, ip) # sessions) user key" by (auto simp: plays_at_def)
  show ?case
  proof (cases "u = [] \<or> ?k = []")
    case True
    then have "sample d now ((u, ip) # sessions) current = sample d now sessions current" by (auto simp: Let_def)
    then show ?thesis using 2(1) [OF refl True] 2(3,4) mono by auto
  next
    case False
    let ?first = "case map_of (places_of (seen d) u) ?k of None \<Rightarrow> now | Some t \<Rightarrow> t"
    let ?cur = "put u (put ?k ?first (places_of current u)) current"
    have "sample d now ((u, ip) # sessions) current = sample d now sessions ?cur" using False by (simp add: Let_def)
    then have "(\<exists>ns. (user, ns) \<in> set ?cur \<and> (key, t) \<in> set ns)
      \<or> (plays_at sessions user key \<and> t = (case map_of (places_of (seen d) user) key of None \<Rightarrow> now | Some t0 \<Rightarrow> t0))"
      using 2(2) [OF refl False refl] 2(3,4) by simp
    then show ?thesis
    proof
      assume "\<exists>ns. (user, ns) \<in> set ?cur \<and> (key, t) \<in> set ns"
      then obtain ns where ns: "(user, ns) \<in> set ?cur" "(key, t) \<in> set ns" by blast
      from put_members [OF ns(1)] show ?thesis
      proof
        assume e: "(user, ns) = (u, put ?k ?first (places_of current u))"
        then have "(key, t) \<in> set (put ?k ?first (places_of current u))" using ns(2) by simp
        from put_members [OF this] show ?thesis
        proof
          assume "(key, t) = (?k, ?first)"
          then show ?thesis using e by (auto simp: plays_at_def)
        next
          assume "(key, t) \<in> set (places_of current u)"
          then show ?thesis using e by (auto simp: places_of_def split: option.splits dest: map_of_SomeD)
        qed
      qed (use ns(2) in blast)
    qed (use mono in blast)
  qed
qed auto

lemma run_snoc: "run d (history @ [(now, sessions)]) = fst (observe (run d history) sessions now)"
  by (simp add: run_def)

lemma seen_playing:
  "(user, nets) \<in> set (seen (run \<lparr>min_seconds = m, cooldown = c, seen = [], last_reported = []\<rparr> history)) \<Longrightarrow> (key, t) \<in> set nets \<Longrightarrow>
   playing_since history user key t"
proof (induction history arbitrary: nets t rule: rev_induct)
  case Nil
  then show ?case by (simp add: run_def)
next
  case (snoc tick history)
  obtain now sessions where tick: "tick = (now, sessions)" by (cases tick)
  let ?d = "run \<lparr>min_seconds = m, cooldown = c, seen = [], last_reported = []\<rparr> history"
  have "(user, nets) \<in> set (sample ?d now sessions [])" using snoc.prems(1) by (simp add: tick run_snoc observe_seen)
  from sample_place [OF this snoc.prems(2)]
  have p: "plays_at sessions user key" and t: "t = (case map_of (places_of (seen ?d) user) key of None \<Rightarrow> now | Some t0 \<Rightarrow> t0)"
    by auto
  show ?case
  proof (cases "map_of (places_of (seen ?d) user) key")
    case None
    then show ?thesis unfolding playing_since_def using p t tick by (intro exI [of _ history] exI [of _ "[(now, sessions)]"]) simp
  next
    case (Some t0)
    then obtain ns where "map_of (seen ?d) user = Some ns" "map_of ns key = Some t0" by (auto simp: places_of_def split: option.splits)
    then have "playing_since history user key t" using snoc.IH t Some by (auto dest: map_of_SomeD)
    then obtain before after where h: "history = before @ after" "after \<noteq> []" "fst (hd after) = t" "\<forall>tick \<in> set after. plays_at (snd tick) user key"
      unfolding playing_since_def by blast
    then show ?thesis unfolding playing_since_def using p tick by (intro exI [of _ before] exI [of _ "after @ [(now, sessions)]"]) auto
  qed
qed

lemma report_finding:
  "f \<in> set (snd (report d now cur)) \<Longrightarrow> \<exists>nets. (fi_user f, nets) \<in> set cur \<and> fi_networks f = sort (established d now nets)
     \<and> 2 \<le> length (fi_networks f)"
proof (induction d now cur rule: report.induct)
  case (2 d now user nets rest)
  have e: "established (d\<lparr>last_reported := x\<rparr>) now ns = established d now ns" for x ns by (simp add: established_def)
  show ?case
    using 2 by (auto simp: Let_def split_def e split: if_splits option.splits)
qed simp

lemma split_on_word: "sep \<notin> set w \<Longrightarrow> split_on sep (w @ sep # rest) = w # split_on sep rest"
  by (induction w) auto

lemma split_on_single: "sep \<notin> set w \<Longrightarrow> split_on sep w = [w]"
  by (induction w) auto

lemma networks_listed:
  "\<forall>w \<in> set ws. w \<noteq> [] \<and> CHR '','' \<notin> set w \<Longrightarrow> filter (\<lambda>n. n \<noteq> []) (split_on (CHR '','') (join_comma ws)) = ws"
  by (induction ws rule: join_comma.induct) (simp_all add: split_on_word split_on_single)

text \<open>C27. A finding is no false alarm by construction: it names at least two different networks, and each of them was playing for that
  account at every sampling tick over at least the minimum time. A handover or a short overlap never produces one.\<close>

theorem finding_sound:
  assumes "observe (run \<lparr>min_seconds = m, cooldown = c, seen = [], last_reported = []\<rparr> history) sessions now = (d', findings)"
    and "f \<in> set findings" "key \<in> set (fi_networks f)"
  shows "distinct (fi_networks f) \<and> 2 \<le> length (fi_networks f) \<and>
    (\<exists>t. m \<le> now - t \<and> playing_since (history @ [(now, sessions)]) (fi_user f) key t)"
proof -
  let ?d = "run \<lparr>min_seconds = m, cooldown = c, seen = [], last_reported = []\<rparr> history"
  let ?cur = "sample ?d now sessions []"
  have "f \<in> set (snd (report (?d\<lparr>seen := ?cur\<rparr>) now ?cur))" using assms(1,2) by (simp add: observe_def Let_def)
  from report_finding [OF this] obtain nets where n: "(fi_user f, nets) \<in> set ?cur"
    "fi_networks f = sort (established (?d\<lparr>seen := ?cur\<rparr>) now nets)" "2 \<le> length (fi_networks f)" by blast
  have m: "min_seconds ?d = m"
    by (induction history rule: rev_induct) (simp_all add: run_def split_def observe_seen)
  have "keyed nets" using sample_keyed [of "[]" ?d now sessions] n(1) by (fastforce simp: nets_keyed_def)
  then have "distinct (fi_networks f)" by (simp add: n(2) established_def distinct_map_filter)
  moreover obtain t where t: "(key, t) \<in> set nets" "m \<le> now - t" using assms(3) by (auto simp: n(2) established_def m)
  have "(fi_user f, nets) \<in> set (seen (run \<lparr>min_seconds = m, cooldown = c, seen = [], last_reported = []\<rparr> (history @ [(now, sessions)])))"
    using n(1) by (simp add: run_snoc observe_seen)
  from seen_playing [OF this t(1)] have "playing_since (history @ [(now, sessions)]) (fi_user f) key t" .
  ultimately show ?thesis using n(3) t(2) by blast
qed

definition two_homes :: "(string \<times> string) list" where
  "two_homes = [(''u'', ''1.2.3.4:50''), (''u'', ''[2001:db8::1]:60'')]"

theorem finding_sound_witness:
  "\<exists>t. 90 \<le> (120 :: real) - t \<and> playing_since [(0, two_homes), (60, two_homes), (120, two_homes)] ''u'' ''1.2.3.0/24'' t"
proof -
  let ?d = "run \<lparr>min_seconds = 90, cooldown = 3600, seen = [], last_reported = []\<rparr> [(0, two_homes), (60, two_homes)]"
  let ?f = "\<lparr>fi_user = ''u'', fi_networks = [''1.2.3.0/24'', ''2001:db8::/48''], fi_count = 2, fi_at = 120\<rparr>"
  have "snd (observe ?d two_homes 120) = [?f]" by code_simp
  then obtain d' where "observe ?d two_homes 120 = (d', [?f])" by (metis prod.collapse)
  from finding_sound [OF this, of ?f "''1.2.3.0/24''"] show ?thesis by simp
qed

end
