(* ===== verification/PlayRooms.thy ===== *)
theory PlayRooms
  imports CashMoves RoundCards PotSplit
begin

text \<open>
  What the group games share: who may act (\<open>reliable_user\<close> of \<^verbatim>\<open>backend/app/modules/group_points.py\<close>,
  \<open>PlayAccess.actor\<close> of \<^verbatim>\<open>play_rounds.py\<close>), the user names of \<^verbatim>\<open>game_mentions.py\<close> and the errors of the
  games. The member table and the plug-in switch are inputs of an operation; display names are captured as they come.
\<close>

section \<open>Errors\<close>

datatype room_error =
    InCard card_error | InCash play_error | InSplit split_error | Unreliable | BadUserId | NotMember
  | GameClosed | OtherIntent | RoomTaken | BalanceShort | RowRefused | NoRoom | BindingChanged | ChoiceLocked | RoomOver
  | BusyElsewhere | RoomFull | BadOperation | NoHandle | HandleUnknown | BotTarget | TargetInvalid | SelfDuel | ActorBusy | TargetBusy
  | TargetShort | NotYours | OnlyTarget | WaitTarget | TooFewPlayers | OnlyHost | OldRoomOpen | Unsafe

text \<open>The failures the code raises as plain \<open>ValueError\<close> or \<open>RuntimeError\<close>, not as \<open>PlayError\<close>: the caller undoes the game instead of telling the member.\<close>

fun plain_error :: "room_error \<Rightarrow> bool" where
  "plain_error Unsafe = True"
| "plain_error (InCash (FromPoints _)) = True"
| "plain_error (InCash UnknownFund) = True"
| "plain_error (InCash SinkCannotPay) = True"
| "plain_error (InSplit _) = True"
| "plain_error _ = False"

definition in_card :: "card_error + 'a \<Rightarrow> room_error + 'a" where
  "in_card r = (case r of Inl e \<Rightarrow> Inl (InCard e) | Inr a \<Rightarrow> Inr a)"

definition in_cash :: "play_error + 'a \<Rightarrow> room_error + 'a" where
  "in_cash r = (case r of Inl e \<Rightarrow> Inl (InCash e) | Inr a \<Rightarrow> Inr a)"

definition in_split :: "split_error + 'a \<Rightarrow> room_error + 'a" where
  "in_split r = (case r of Inl e \<Rightarrow> Inl (InSplit e) | Inr a \<Rightarrow> Inr a)"

text \<open>\<open>except ValueError: raise PlayError(...)\<close>\<close>

definition or_else :: "'e + 'a \<Rightarrow> room_error \<Rightarrow> room_error + 'a" where
  "or_else r e = (case r of Inl _ \<Rightarrow> Inl e | Inr a \<Rightarrow> Inr a)"

lemma lifted_Inr [simp]:
  "in_card r = Inr a \<longleftrightarrow> r = Inr a" "in_cash s = Inr b \<longleftrightarrow> s = Inr b" "in_split t = Inr c \<longleftrightarrow> t = Inr c"
  "or_else u e = Inr d \<longleftrightarrow> u = Inr d"
  by (auto simp: in_card_def in_cash_def in_split_def or_else_def split: sum.splits)

lemma lifted_ok [simp]: "in_card (Inr a) = Inr a" "in_cash (Inr b) = Inr b" "in_split (Inr c) = Inr c" "or_else (Inr d) e = Inr d"
  by simp_all

section \<open>Members\<close>

record person =
  p_id :: "int option"
  p_bot :: "bool option"
  p_name :: string
  p_first :: string
  p_username :: string

text \<open>\<open>{'id': tg, 'is_bot': False}\<close>\<close>

definition plain_person :: "int \<Rightarrow> person" where
  "plain_person tg = \<lparr>p_id = Some tg, p_bot = Some False, p_name = [], p_first = [], p_username = []\<rparr>"

record member_row =
  mb_user :: uid
  mb_tg :: "int option"
  mb_username :: string
  mb_display :: string
  mb_active :: bool
  mb_missing :: bool
  mb_expires :: "real option"

definition reliable_user :: "person \<Rightarrow> room_error + int" where
  "reliable_user p =
     (if p_bot p \<noteq> Some False then Inl Unreliable
      else case p_id p of None \<Rightarrow> Inl BadUserId | Some i \<Rightarrow> if i \<le> 0 then Inl BadUserId else Inr i)"

definition find_by_telegram :: "member_row list \<Rightarrow> int \<Rightarrow> member_row option" where
  "find_by_telegram table tg = find (\<lambda>m. mb_tg m = Some tg) table"

definition play_actor :: "member_row list \<Rightarrow> person \<Rightarrow> real \<Rightarrow> room_error + int \<times> member_row" where
  "play_actor table p clock =
     bindR (reliable_user p) (\<lambda>tg.
     case find_by_telegram table tg of
       None \<Rightarrow> Inl NotMember
     | Some m \<Rightarrow>
         if \<not> mb_active m \<or> mb_missing m \<or> (case mb_expires m of None \<Rightarrow> False | Some t \<Rightarrow> t \<le> clock) then Inl NotMember
         else Inr (tg, m))"

definition handle_chars :: string where
  "handle_chars = ''ABCDEFGHIJKLMNOPQRSTUVWXYZabcdefghijklmnopqrstuvwxyz0123456789_''"

definition telegram_username :: "string \<Rightarrow> string" where
  "telegram_username value =
     (let v = dropWhile (\<lambda>c. c = CHR ''@'') (py_strip value) in
      if 1 \<le> length v \<and> length v \<le> 32 \<and> list_all (\<lambda>c. c \<in> set handle_chars) v then v else [])"

text \<open>The settings an operation reads: the Bot's own id, the authorised groups, the plug-in switch and the member table.\<close>

record room_env =
  e_bot :: int
  e_allowed :: "message \<Rightarrow> bool"
  e_on :: bool
  e_members :: "member_row list"

text \<open>A callback or command whose checks ran against the current group card.\<close>

definition card_of :: "string \<Rightarrow> int \<Rightarrow> int \<Rightarrow> int \<Rightarrow> int \<Rightarrow> real \<Rightarrow> card" where
  "card_of kind me chat thread mid now =
     \<lparr>c_bot = me, c_kind = kind, c_chat = chat, c_thread = thread, c_command = mid, c_message = None, c_send = SPending,
      c_revision = 0, c_rendered = -1, c_token = [], c_lease = 0, c_next = 0, c_error = NoNote, c_created = now\<rparr>"

lemma card_context_scope:
  "card_context me allowed q m data = Inr q' \<Longrightarrow>
   c_bot q' = c_bot q \<and> c_kind q' = c_kind q \<and> c_chat q' = c_chat q \<and> c_thread q' = c_thread q
   \<and> c_command q' = c_command q \<and> c_revision q' = c_revision q"
  by (auto simp: card_context_def split: option.splits if_splits)

end
