(* ===== verification/Blackwhite.thy ===== *)
theory Blackwhite
  imports PlayRooms
begin

text \<open>
  \<^verbatim>\<open>backend/app/modules/blackwhite.py\<close>: five equal stakes, sealed choices, the smaller side takes the pot. The rows of
  \<open>play_rounds\<close> and \<open>play_players\<close> of this game are association lists (players in the order of their ids); the
  card of a row is the record of \<open>RoundCards\<close>. Each write transaction is a function with an error value; an operation that
  first expires the room in a transaction of its own keeps that part when the rest fails, so it returns the state beside the
  answer. \<open>secrets\<close> and the HMAC digest are inputs.
\<close>

section \<open>State\<close>

datatype bw_state = Lobby | Settled | Expired | Cancelled

datatype bw_mode = Same | Won string | Timeout | Disabled

record bw_round =
  b_card :: card
  b_tg :: int
  b_actor :: uid
  b_name :: string
  b_stake :: int
  b_secret :: string
  b_state :: bw_state
  b_expires :: real
  b_result :: "(bw_mode \<times> int \<times> int) option"

record bw_player =
  q_user :: uid
  q_tg :: int
  q_name :: string
  q_choice :: string
  q_joined :: real
  q_result :: int

record bw_world =
  bw_cash :: cash
  bw_rounds :: "(string \<times> bw_round) list"
  bw_players :: "(string \<times> bw_player) list"

record bw_config =
  default_stake :: int
  min_stake :: int
  lobby_seconds :: int

definition players_of :: "bw_world \<Rightarrow> string \<Rightarrow> bw_player list" where
  "players_of w nonce = map snd (filter (\<lambda>p. fst p = nonce) (bw_players w))"

definition put_bw :: "string \<Rightarrow> bw_round \<Rightarrow> bw_world \<Rightarrow> bw_world" where
  "put_bw nonce r w = w\<lparr>bw_rounds := put nonce r (bw_rounds w)\<rparr>"

section \<open>Settlement\<close>

definition award_of :: "(uid \<times> int) list \<Rightarrow> uid \<Rightarrow> int" where
  "award_of aw u = (case map_of aw u of None \<Rightarrow> 0 | Some a \<Rightarrow> a)"

text \<open>\<open>why\<close> is the reason of a refund.\<close>

definition bw_awards :: "(string \<Rightarrow> uid \<Rightarrow> string) \<Rightarrow> bw_round \<Rightarrow> bw_player list \<Rightarrow> bw_mode option
    \<Rightarrow> room_error + (uid \<times> int) list \<times> bw_mode" where
  "bw_awards mac r ps why =
     (let black = length (filter (\<lambda>p. q_choice p = ''black'') ps) in
      if why \<noteq> None \<or> black \<in> {0, 5} then
        Inr (map (\<lambda>p. (q_user p, b_stake r)) ps, (case why of None \<Rightarrow> Same | Some m \<Rightarrow> m))
      else
        let winning = (if int black < 5 - int black then ''black'' else ''white'');
            winners = map q_user (filter (\<lambda>p. q_choice p = winning) ps) in
        bindR (in_split (fair_split (mac (b_secret r)) (b_stake r * 5) winners)) (\<lambda>aw. Inr (aw, Won winning)))"

definition state_after :: "bw_mode option \<Rightarrow> bw_state" where
  "state_after why = (if why = Some Timeout then Expired else if why = Some Disabled then Cancelled else Settled)"

definition settled_world :: "string \<Rightarrow> bw_round \<Rightarrow> bw_mode option \<Rightarrow> (uid \<times> int) list \<Rightarrow> bw_mode \<Rightarrow> cash \<Rightarrow> bw_world \<Rightarrow> bw_world" where
  "settled_world nonce r why aw mode c w =
     (let n = int (length (players_of w nonce)) in
      put_bw nonce (r\<lparr>b_state := state_after why, b_result := Some (mode, n, b_stake r * n), b_card := bump (b_card r)\<rparr>)
        (w\<lparr>bw_cash := c,
           bw_players := map (\<lambda>(m, p). (m, if m = nonce then p\<lparr>q_result := award_of aw (q_user p)\<rparr> else p)) (bw_players w)\<rparr>))"

definition bw_settle :: "(string \<Rightarrow> uid \<Rightarrow> string) \<Rightarrow> bw_world \<Rightarrow> string \<Rightarrow> bw_round \<Rightarrow> bw_mode option \<Rightarrow> real
    \<Rightarrow> room_error + bw_world" where
  "bw_settle mac w nonce r why now =
     (if b_state r \<noteq> Lobby then Inr w
      else
        let ps = players_of w nonce in
        bindR (bw_awards mac r ps why) (\<lambda>(aw, mode).
        bindR (in_cash (pay_awards (bw_cash w) ''blackwhite'' nonce (clock_int now)
                 (map (\<lambda>p. (q_user p, award_of aw (q_user p))) ps))) (\<lambda>c.
        Inr (settled_world nonce r why aw mode c w))))"

definition bw_expire :: "(string \<Rightarrow> uid \<Rightarrow> string) \<Rightarrow> room_env \<Rightarrow> bw_world \<Rightarrow> string \<Rightarrow> real \<Rightarrow> room_error + bw_world" where
  "bw_expire mac v w nonce now =
     (case map_of (bw_rounds w) nonce of
        None \<Rightarrow> Inr w
      | Some r \<Rightarrow>
          if b_state r = Lobby \<and> (b_expires r \<le> now \<or> \<not> e_on v)
          then bw_settle mac w nonce r (Some (if b_expires r \<le> now then Timeout else Disabled)) now
          else Inr w)"

text \<open>One transaction per room: a failure stops the loop and leaves the rooms before it expired.\<close>

fun expire_all :: "(string \<Rightarrow> uid \<Rightarrow> string) \<Rightarrow> room_env \<Rightarrow> real \<Rightarrow> string list \<Rightarrow> bw_world \<Rightarrow> bw_world \<times> room_error option" where
  "expire_all mac v now [] w = (w, None)"
| "expire_all mac v now (n # ns) w =
     (case bw_expire mac v w n now of Inl e \<Rightarrow> (w, Some e) | Inr w' \<Rightarrow> expire_all mac v now ns w')"

definition bw_expire_due :: "(string \<Rightarrow> uid \<Rightarrow> string) \<Rightarrow> room_env \<Rightarrow> bw_world \<Rightarrow> real \<Rightarrow> bw_world \<times> room_error option" where
  "bw_expire_due mac v w now =
     expire_all mac v now
       (take 100 (map fst (filter (\<lambda>(n, r). b_state r = Lobby \<and> (e_on v \<longrightarrow> b_expires r \<le> now)) (bw_rounds w)))) w"

section \<open>Opening a room\<close>

definition bw_new_round :: "room_env \<Rightarrow> bw_config \<Rightarrow> int \<Rightarrow> int \<Rightarrow> int \<Rightarrow> int \<Rightarrow> uid \<Rightarrow> string \<Rightarrow> int \<Rightarrow> string \<Rightarrow> real \<Rightarrow> bw_round" where
  "bw_new_round v cfg chat thread mid tg user name stake secret now =
     \<lparr>b_card = card_of ''blackwhite'' (e_bot v) chat thread mid now, b_tg = tg, b_actor = user, b_name = name, b_stake = stake,
      b_secret = secret, b_state = Lobby, b_expires = now + of_int (lobby_seconds cfg), b_result = None\<rparr>"

definition bw_open :: "room_env \<Rightarrow> bw_config \<Rightarrow> bw_world \<Rightarrow> int \<Rightarrow> int \<Rightarrow> int \<Rightarrow> person \<Rightarrow> int option \<Rightarrow> string \<Rightarrow> string \<Rightarrow> real
    \<Rightarrow> room_error + bw_world \<times> string" where
  "bw_open v cfg w chat thread mid p asked nonce secret now =
     bindR (play_actor (e_members v) p now) (\<lambda>(tg, m).
     if \<not> e_on v then Inl GameClosed
     else
       let stake = (case asked of None \<Rightarrow> default_stake cfg | Some a \<Rightarrow> a) in
       bindR (in_cash (integer stake LStakePoints (min_stake cfg) (MAX_INT div 5))) (\<lambda>_.
       case find (\<lambda>(n, r). c_bot (b_card r) = e_bot v \<and> c_chat (b_card r) = chat \<and> c_command (b_card r) = mid) (bw_rounds w) of
         Some (n, r) \<Rightarrow>
           if c_thread (b_card r) \<noteq> thread \<or> b_tg r \<noteq> tg \<or> b_actor r \<noteq> mb_user m \<or> b_stake r \<noteq> stake then Inl OtherIntent
           else Inr (w, n)
       | None \<Rightarrow>
           if list_ex (\<lambda>(n, r). c_bot (b_card r) = e_bot v \<and> c_chat (b_card r) = chat \<and> c_thread (b_card r) = thread \<and> b_state r = Lobby)
                (bw_rounds w) then Inl RoomTaken
           else if spendable (bw_cash w) (mb_user m) < stake then Inl BalanceShort
           else if map_of (bw_rounds w) nonce \<noteq> None \<or> stake \<le> 0 then Inl RowRefused
           else Inr (put_bw nonce (bw_new_round v cfg chat thread mid tg (mb_user m) (p_name p) stake secret now) w, nonce)))"

definition bw_create_tx :: "room_env \<Rightarrow> bw_config \<Rightarrow> bw_world \<Rightarrow> message \<Rightarrow> person \<Rightarrow> int option \<Rightarrow> string \<Rightarrow> string \<Rightarrow> real
    \<Rightarrow> room_error + bw_world \<times> string" where
  "bw_create_tx v cfg w m p asked nonce secret now =
     bindR (in_card (group_scope (e_allowed v) m)) (\<lambda>(chat, thread).
     bindR (case m_id m of None \<Rightarrow> Inl (InCash (OutOfRange LMessageId 1 MAX_INT))
                         | Some mid \<Rightarrow> in_cash (integer mid LMessageId 1 MAX_INT)) (\<lambda>mid.
     bw_open v cfg w chat thread mid p asked nonce secret now))"

definition bw_create :: "(string \<Rightarrow> uid \<Rightarrow> string) \<Rightarrow> room_env \<Rightarrow> bw_config \<Rightarrow> bw_world \<Rightarrow> message \<Rightarrow> person \<Rightarrow> int option
    \<Rightarrow> string \<Rightarrow> string \<Rightarrow> real \<Rightarrow> bw_world \<times> (room_error + string)" where
  "bw_create mac v cfg w m p asked nonce secret now =
     (case bw_expire_due mac v w now of
        (w1, Some e) \<Rightarrow> (w1, Inl e)
      | (w1, None) \<Rightarrow>
          (case bw_create_tx v cfg w1 m p asked nonce secret now of
             Inl e \<Rightarrow> (w1, Inl e)
           | Inr (w2, n) \<Rightarrow> (w2, Inr n)))"

section \<open>Joining\<close>

definition bw_data :: "string \<Rightarrow> string \<Rightarrow> string" where
  "bw_data nonce choice = ''bw:'' @ nonce @ '':'' @ choice"

definition bw_take_seat :: "(string \<Rightarrow> uid \<Rightarrow> string) \<Rightarrow> bw_world \<Rightarrow> string \<Rightarrow> bw_round \<Rightarrow> int \<Rightarrow> uid \<Rightarrow> string \<Rightarrow> string \<Rightarrow> real
    \<Rightarrow> room_error + bw_world" where
  "bw_take_seat mac w nonce r tg user name choice now =
     bindR (in_cash (reserve (bw_cash w) ''blackwhite'' nonce user (b_stake r) ''play.reserve'' (clock_int now))) (\<lambda>(c1, _).
     bindR (in_cash (consume c1 ''blackwhite'' nonce user (b_stake r) ''blackwhite'' nonce (clock_int now))) (\<lambda>c2.
     let r1 = r\<lparr>b_card := bump (b_card r)\<rparr>;
         w1 = put_bw nonce r1 (w\<lparr>bw_cash := c2, bw_players := bw_players w @
                [(nonce, \<lparr>q_user = user, q_tg = tg, q_name = name, q_choice = choice, q_joined = now, q_result = 0\<rparr>)]\<rparr>) in
     if length (players_of w nonce) + 1 = 5 then bw_settle mac w1 nonce r1 None now else Inr w1))"

definition bw_enter :: "(string \<Rightarrow> uid \<Rightarrow> string) \<Rightarrow> room_env \<Rightarrow> bw_world \<Rightarrow> string \<Rightarrow> person \<Rightarrow> message \<Rightarrow> string \<Rightarrow> real
    \<Rightarrow> room_error + bw_world \<times> bool" where
  "bw_enter mac v w nonce p m choice now =
     (case map_of (bw_rounds w) nonce of
        None \<Rightarrow> Inl NoRoom
      | Some r0 \<Rightarrow>
          bindR (in_card (card_context (e_bot v) (e_allowed v) (b_card r0) m (bw_data nonce choice))) (\<lambda>card.
          bindR (play_actor (e_members v) p now) (\<lambda>(tg, mb).
          let r = r0\<lparr>b_card := card\<rparr>; w0 = put_bw nonce r w; user = mb_user mb; ps = players_of w nonce in
          case find (\<lambda>q. q_user q = user \<or> q_tg q = tg) ps of
            Some q \<Rightarrow>
              if q_user q \<noteq> user \<or> q_tg q \<noteq> tg then Inl BindingChanged
              else if q_choice q \<noteq> choice then Inl ChoiceLocked
              else Inr (w0, True)
          | None \<Rightarrow>
              if b_state r \<noteq> Lobby then Inl RoomOver
              else if \<not> e_on v then Inl GameClosed
              else if list_ex (\<lambda>(n, q). (q_user q = user \<or> q_tg q = tg)
                     \<and> (case map_of (bw_rounds w) n of None \<Rightarrow> False | Some r' \<Rightarrow> b_state r' = Lobby)) (bw_players w) then Inl BusyElsewhere
              else if 5 \<le> length ps then Inl RoomFull
              else bindR (bw_take_seat mac w0 nonce r tg user (p_name p) choice now) (\<lambda>w1. Inr (w1, False)))))"

definition bw_join :: "(string \<Rightarrow> uid \<Rightarrow> string) \<Rightarrow> room_env \<Rightarrow> bw_world \<Rightarrow> string \<Rightarrow> person \<Rightarrow> message \<Rightarrow> string \<Rightarrow> real
    \<Rightarrow> bw_world \<times> (room_error + bool)" where
  "bw_join mac v w nonce p m choice now =
     (if choice \<notin> {''black'', ''white''} then (w, Inl BadOperation)
      else case bw_expire mac v w nonce now of
        Inl e \<Rightarrow> (w, Inl e)
      | Inr w1 \<Rightarrow>
          (case bw_enter mac v w1 nonce p m choice now of
             Inl e \<Rightarrow> (w1, Inl e)
           | Inr (w2, already) \<Rightarrow> (w2, Inr already)))"

section \<open>Histories\<close>

text \<open>Publication of the card interleaves with the game; it changes the card of a row only.\<close>

definition bw_card :: "string \<Rightarrow> (card \<Rightarrow> card) \<Rightarrow> bw_world \<Rightarrow> bw_world" where
  "bw_card nonce f w =
     (case map_of (bw_rounds w) nonce of None \<Rightarrow> w | Some r \<Rightarrow> put_bw nonce (r\<lparr>b_card := f (b_card r)\<rparr>) w)"

datatype bw_op =
    BwCreate bw_config message person "int option" string string
  | BwJoin string person message string
  | BwExpire string
  | BwExpireDue
  | BwBegin string string
  | BwPublished string card int
  | BwFailed string card bool int

fun bw_step :: "(string \<Rightarrow> uid \<Rightarrow> string) \<Rightarrow> bw_world \<Rightarrow> room_env \<times> real \<times> bw_op \<Rightarrow> room_error + bw_world" where
  "bw_step mac w (v, now, BwCreate cfg m p asked nonce secret) = Inr (fst (bw_create mac v cfg w m p asked nonce secret now))"
| "bw_step mac w (v, now, BwJoin nonce p m choice) = Inr (fst (bw_join mac v w nonce p m choice now))"
| "bw_step mac w (v, now, BwExpire nonce) = bw_expire mac v w nonce now"
| "bw_step mac w (v, now, BwExpireDue) = Inr (fst (bw_expire_due mac v w now))"
| "bw_step mac w (v, now, BwBegin nonce token) = Inr (bw_card nonce (\<lambda>c. fst (begin_publish (e_bot v) now token c)) w)"
| "bw_step mac w (v, now, BwPublished nonce job mid) = Inr (bw_card nonce (\<lambda>c. fst (published c job mid)) w)"
| "bw_step mac w (v, now, BwFailed nonce job retry after) = Inr (bw_card nonce (\<lambda>c. publish_failed c job retry after now) w)"

definition bw_empty :: "ledger \<Rightarrow> bw_world" where
  "bw_empty rows = \<lparr>bw_cash = empty_cash rows, bw_rounds = [], bw_players = []\<rparr>"

end
