(* ===== verification/RoomDemo.thy ===== *)
theory RoomDemo
  imports PlayRooms
begin

text \<open>
  Concrete members, messages and balances for the witnesses of the game theories: five members with 50 points each, one
  authorised group (chat 5) with its Bot 99, a command and the Bot's card with its buttons.
\<close>

definition demo_member :: "string \<Rightarrow> int \<Rightarrow> member_row" where
  "demo_member u i = \<lparr>mb_user = u, mb_tg = Some i, mb_username = u, mb_display = u, mb_active = True, mb_missing = False, mb_expires = None\<rparr>"

definition demo_person :: "string \<Rightarrow> int \<Rightarrow> person" where
  "demo_person u i = \<lparr>p_id = Some i, p_bot = Some False, p_name = u, p_first = u, p_username = u\<rparr>"

definition demo_names :: "string list" where
  "demo_names = [''ann'', ''bob'', ''cat'', ''dan'', ''eve'']"

definition demo_room_env :: room_env where
  "demo_room_env = \<lparr>e_bot = 99, e_allowed = (\<lambda>_. True), e_on = True,
     e_members = map (\<lambda>(i, u). demo_member u (int i)) (List.enumerate 1 demo_names)\<rparr>"

definition demo_room_points :: ledger where
  "demo_room_points = map (\<lambda>u. \<lparr>l_user = u, l_delta = 50, l_after = 50, l_reason = ''grant'', l_ref = [], l_actor = [], l_at = 0\<rparr>) demo_names"

text \<open>A message of the authorised group: the command, and the Bot's card with its buttons.\<close>

definition demo_command :: "int \<Rightarrow> message" where
  "demo_command i = \<lparr>m_chat_type = ''supergroup'', m_chat_id = Some 5, m_sender_chat = False, m_auto_forward = False,
     m_forward_origin = False, m_forward_date = False, m_thread = 0, m_topic = False, m_from_bot = False, m_from_id = 1, m_id = Some i,
     m_actions = [], m_reply_to = None\<rparr>"

definition demo_card :: "string list \<Rightarrow> message" where
  "demo_card actions = (demo_command 11)\<lparr>m_from_bot := True, m_from_id := 99, m_actions := actions\<rparr>"

end
