(* ===== verification/BlackwhiteRules.thy ===== *)
theory BlackwhiteRules
  imports Blackwhite RoomDemo
begin

text \<open>
  The money of a room: while it waits for players its fund holds exactly their stakes, so every refund and every settlement can be
  paid, and what a settled room pays out is what was staked.
\<close>

section \<open>The awards of a room\<close>

lemma award_of_map: "p \<in> set ps \<Longrightarrow> award_of (map (\<lambda>p. (q_user p, a)) ps) (q_user p) = a"
  by (induction ps) (auto simp: award_of_def)

lemma fair_share:
  assumes "fair_split mac t ws = Inr aw" "(u, a) \<in> set aw"
  shows "a = t div int (length ws) \<or> a = t div int (length ws) + 1"
proof -
  have "a \<in> set (map snd aw)" using assms(2) by force
  then show ?thesis unfolding snd_fair_split [OF assms(1)] by auto
qed

definition on_colour :: "string \<Rightarrow> bw_player list \<Rightarrow> bw_player list" where
  "on_colour c ps = filter (\<lambda>p. q_choice p = c) ps"

definition smaller_side :: "bw_player list \<Rightarrow> string" where
  "smaller_side ps = (if length (on_colour ''black'' ps) < length (on_colour ''white'' ps) then ''black'' else ''white'')"

text \<open>What the rules promise: everything staked is paid out; one colour only means a draw; otherwise the smaller side shares the pot
  to within one point and the others get nothing.\<close>

definition paid_by_rules :: "int \<Rightarrow> (bw_player \<Rightarrow> int) \<Rightarrow> bw_player list \<Rightarrow> bool" where
  "paid_by_rules stake pay ps \<longleftrightarrow>
     sum_list (map pay ps) = stake * int (length ps) \<and>
     (if length (on_colour ''black'' ps) \<in> {0, length ps} then \<forall>p \<in> set ps. pay p = stake
      else \<forall>p \<in> set ps.
        let n = int (length (on_colour (smaller_side ps) ps)); share = stake * int (length ps) div n in
        if q_choice p = smaller_side ps then pay p = share \<or> pay p = share + 1 else pay p = 0)"

lemma colours_split:
  "\<forall>p \<in> set ps. q_choice p \<in> {''black'', ''white''} \<Longrightarrow>
   length (on_colour ''black'' ps) + length (on_colour ''white'' ps) = length ps"
  by (induction ps) (auto simp: on_colour_def)

lemma smaller_side_nonempty:
  assumes "\<forall>p \<in> set ps. q_choice p \<in> {''black'', ''white''}" "length (on_colour ''black'' ps) \<notin> {0, length ps}"
  shows "on_colour (smaller_side ps) ps \<noteq> []"
  using assms colours_split [OF assms(1)] by (auto simp: smaller_side_def)

lemma awards_refund:
  assumes "why \<noteq> None \<or> length (on_colour ''black'' ps) \<in> {0, 5}"
  shows "\<exists>mode. bw_awards mac r ps why = Inr (map (\<lambda>p. (q_user p, b_stake r)) ps, mode)"
  using assms by (auto simp: bw_awards_def Let_def on_colour_def)

lemma refund_pays:
  "sum_list (map (\<lambda>p. award_of (map (\<lambda>p. (q_user p, a)) ps) (q_user p)) ps) = a * int (length ps)"
proof -
  have "map (\<lambda>p. award_of (map (\<lambda>p. (q_user p, a)) ps) (q_user p)) ps = replicate (length ps) a"
    using award_of_map [of _ ps a] by (simp add: map_replicate_const [symmetric] cong: map_cong)
  then show ?thesis by (simp add: sum_list_replicate mult.commute)
qed

text \<open>The contested case: the split among the winners pays out the pot.\<close>

lemma awards_contested:
  assumes five: "length ps = 5" and ch: "\<forall>p \<in> set ps. q_choice p \<in> {''black'', ''white''}"
    and d: "distinct (map q_user ps)" and c: "length (on_colour ''black'' ps) \<notin> {0, 5}"
  obtains aw where "bw_awards mac r ps None = Inr (aw, Won (smaller_side ps))"
    "fair_split (mac (b_secret r)) (b_stake r * 5) (map q_user (on_colour (smaller_side ps) ps)) = Inr aw"
proof -
  let ?ws = "map q_user (on_colour (smaller_side ps) ps)"
  have "?ws \<noteq> []" using smaller_side_nonempty [OF ch] c five by simp
  then obtain aw where aw: "fair_split (mac (b_secret r)) (b_stake r * 5) ?ws = Inr aw" using fair.split_ok by blast
  have "int (length (on_colour ''black'' ps)) < 5 - int (length (on_colour ''black'' ps))
      \<longleftrightarrow> length (on_colour ''black'' ps) < length (on_colour ''white'' ps)"
    using colours_split [OF ch] five by linarith
  then have w: "(if int (length (on_colour ''black'' ps)) < 5 - int (length (on_colour ''black'' ps)) then ''black'' else ''white'') = smaller_side ps"
    by (simp add: smaller_side_def)
  have "bw_awards mac r ps None = Inr (aw, Won (smaller_side ps))"
    using c aw w unfolding bw_awards_def Let_def on_colour_def by auto
  then show ?thesis using that aw by blast
qed

lemma contested_pays:
  assumes aw: "fair_split mac t (map q_user (filter sel ps)) = Inr aw" and d: "distinct (map q_user ps)" and p: "p \<in> set ps"
  shows "if sel p then award_of aw (q_user p) = t div int (length (filter sel ps)) \<or> award_of aw (q_user p) = t div int (length (filter sel ps)) + 1
    else award_of aw (q_user p) = 0"
proof (cases "sel p")
  case True
  have "q_user p \<in> fst ` set aw" using fair.split_set [OF aw] True p by auto
  then obtain a where a: "map_of aw (q_user p) = Some a" by (cases "map_of aw (q_user p)") (auto simp: map_of_eq_None_iff)
  show ?thesis using fair_share [OF aw map_of_SomeD [OF a]] a True by (simp add: award_of_def)
next
  case False
  have "q_user p \<notin> q_user ` set (filter sel ps)" using d p False by (auto simp: distinct_map inj_on_def)
  then have "q_user p \<notin> fst ` set aw" using fair.split_set [OF aw] by simp
  then have "map_of aw (q_user p) = None" by (simp add: map_of_eq_None_iff)
  then show ?thesis using False by (simp add: award_of_def)
qed

lemma contested_sum:
  assumes aw: "fair_split mac t (map q_user (filter sel ps)) = Inr aw" and d: "distinct (map q_user ps)"
  shows "sum_list (map (\<lambda>p. award_of aw (q_user p)) ps) = t"
proof -
  have "distinct (map q_user (filter sel ps))" using d by (simp add: distinct_map_filter)
  moreover have "set (map q_user (filter sel ps)) \<subseteq> set (map q_user ps)" by auto
  ultimately have "sum_list (map (\<lambda>u. case map_of aw u of None \<Rightarrow> 0 | Some a \<Rightarrow> a) (map q_user ps)) = t"
    using fair.awards_total [OF aw _ d] by blast
  then show ?thesis by (simp add: award_of_def comp_def)
qed

lemma awards_ok:
  assumes d: "distinct (map q_user ps)" and s: "0 \<le> b_stake r"
    and ch: "\<forall>p \<in> set ps. q_choice p \<in> {''black'', ''white''}" and why: "why = None \<Longrightarrow> length ps = 5"
  obtains aw mode where "bw_awards mac r ps why = Inr (aw, mode)"
    "sum_list (map (\<lambda>p. award_of aw (q_user p)) ps) = b_stake r * int (length ps)"
    "\<forall>p \<in> set ps. 0 \<le> award_of aw (q_user p)"
    "why \<noteq> None \<Longrightarrow> \<forall>p \<in> set ps. award_of aw (q_user p) = b_stake r"
    "why = None \<Longrightarrow> paid_by_rules (b_stake r) (\<lambda>p. award_of aw (q_user p)) ps"
proof (cases "why \<noteq> None \<or> length (on_colour ''black'' ps) \<in> {0, 5}")
  case True
  let ?aw = "map (\<lambda>p. (q_user p, b_stake r)) ps"
  obtain mode where m: "bw_awards mac r ps why = Inr (?aw, mode)" using awards_refund [OF True] by blast
  have each: "\<forall>p \<in> set ps. award_of ?aw (q_user p) = b_stake r" using award_of_map by blast
  have "paid_by_rules (b_stake r) (\<lambda>p. award_of ?aw (q_user p)) ps" if "why = None"
    using True that why each refund_pays [of "b_stake r" ps] by (simp add: paid_by_rules_def)
  then show ?thesis using that [OF m refund_pays] each s by auto
next
  case False
  then have n: "why = None" and c: "length (on_colour ''black'' ps) \<notin> {0, 5}" by auto
  have five: "length ps = 5" by (rule why [OF n])
  obtain aw where aw: "bw_awards mac r ps None = Inr (aw, Won (smaller_side ps))"
    and f: "fair_split (mac (b_secret r)) (b_stake r * 5) (map q_user (on_colour (smaller_side ps) ps)) = Inr aw"
    using awards_contested [OF five ch d c] by blast
  note pay = contested_pays [OF f [unfolded on_colour_def] d]
  have sum: "sum_list (map (\<lambda>p. award_of aw (q_user p)) ps) = b_stake r * int (length ps)"
    using contested_sum [OF f [unfolded on_colour_def] d] five by simp
  have share: "0 \<le> b_stake r * 5 div int (length (on_colour (smaller_side ps) ps))"
    using s smaller_side_nonempty [OF ch] c five by (simp add: pos_imp_zdiv_nonneg_iff)
  have nn: "\<forall>p \<in> set ps. 0 \<le> award_of aw (q_user p)"
  proof
    fix p assume "p \<in> set ps"
    from pay [OF this] show "0 \<le> award_of aw (q_user p)" using share by (auto simp: on_colour_def split: if_splits)
  qed
  have "paid_by_rules (b_stake r) (\<lambda>p. award_of aw (q_user p)) ps"
    using sum c five pay by (simp add: paid_by_rules_def Let_def on_colour_def)
  then show ?thesis using that [OF _ sum nn] aw n by blast
qed

section \<open>Rooms and books\<close>

lemma players_simps [simp]:
  "players_of (put_bw n r w) m = players_of w m" "players_of (w\<lparr>bw_cash := c\<rparr>) m = players_of w m"
  "bw_cash (put_bw n r w) = bw_cash w" "bw_players (put_bw n r w) = bw_players w" "bw_rounds (put_bw n r w) = put n r (bw_rounds w)"
  by (simp_all add: players_of_def put_bw_def)

lemma players_added [simp]:
  "players_of (w\<lparr>bw_cash := c, bw_players := bw_players w @ [(n, p)]\<rparr>) m = players_of w m @ (if m = n then [p] else [])"
  by (simp add: players_of_def)

lemma players_settled [simp]:
  "players_of (settled_world n r why aw mode c w) m =
     (if m = n then map (\<lambda>p. p\<lparr>q_result := award_of aw (q_user p)\<rparr>) (players_of w m) else players_of w m)"
  by (auto simp: players_of_def settled_world_def put_bw_def Let_def filter_map comp_def case_prod_beta intro!: map_cong filter_cong)

lemma settled_simps [simp]:
  "bw_cash (settled_world n r why aw mode c w) = c"
  "fst ` set (bw_players (settled_world n r why aw mode c w)) = fst ` set (bw_players w)"
  "bw_rounds (settled_world n r why aw mode c w) = put n (r\<lparr>b_state := state_after why,
     b_result := Some (mode, int (length (players_of w n)), b_stake r * int (length (players_of w n))), b_card := bump (b_card r)\<rparr>) (bw_rounds w)"
  by (force simp: settled_world_def put_bw_def Let_def image_def)+

definition room_core :: "bw_world \<Rightarrow> string \<Rightarrow> bw_round \<Rightarrow> bool" where
  "room_core w n r \<longleftrightarrow>
     1 \<le> b_stake r \<and> b_stake r * 5 \<le> MAX_INT \<and> length (players_of w n) \<le> 5
     \<and> distinct (map q_user (players_of w n)) \<and> (\<forall>p \<in> set (players_of w n). q_choice p \<in> {''black'', ''white''})
     \<and> (b_state r = Lobby \<longrightarrow> fund_held (bw_cash w) ''blackwhite'' n = b_stake r * int (length (players_of w n)))
     \<and> (b_state r \<noteq> Lobby \<longrightarrow> fund_held (bw_cash w) ''blackwhite'' n = 0)
     \<and> (b_state r = Settled \<longrightarrow> length (players_of w n) = 5 \<and> paid_by_rules (b_stake r) q_result (players_of w n))
     \<and> (b_state r \<in> {Expired, Cancelled} \<longrightarrow> (\<forall>p \<in> set (players_of w n). q_result p = b_stake r))"

definition room_ok :: "bw_world \<Rightarrow> string \<Rightarrow> bw_round \<Rightarrow> bool" where
  "room_ok w n r \<longleftrightarrow> room_core w n r \<and> (b_state r = Lobby \<longrightarrow> length (players_of w n) < 5)"

definition books_ok :: "bw_world \<Rightarrow> bool" where
  "books_ok w \<longleftrightarrow> cash_ok (bw_cash w) \<and> keyed (bw_rounds w)
     \<and> (\<forall>n \<in> fst ` set (bw_players w). map_of (bw_rounds w) n \<noteq> None)
     \<and> (\<forall>n u. has_escrow (bw_cash w) ''blackwhite'' n u \<longrightarrow> u \<in> q_user ` set (players_of w n))
     \<and> (\<forall>n. map_of (bw_rounds w) n = None \<longrightarrow> fund_held (bw_cash w) ''blackwhite'' n = 0)"

definition bw_ok :: "bw_world \<Rightarrow> bool" where
  "bw_ok w \<longleftrightarrow> books_ok w \<and> (\<forall>n r. map_of (bw_rounds w) n = Some r \<longrightarrow> room_ok w n r)"

lemma bw_okD: "bw_ok w \<Longrightarrow> books_ok w" "bw_ok w \<Longrightarrow> map_of (bw_rounds w) n = Some r \<Longrightarrow> room_ok w n r"
  by (simp_all add: bw_ok_def)

lemma books_okD:
  "books_ok w \<Longrightarrow> cash_ok (bw_cash w)" "books_ok w \<Longrightarrow> keyed (bw_rounds w)"
  "books_ok w \<Longrightarrow> has_escrow (bw_cash w) ''blackwhite'' n u \<Longrightarrow> u \<in> q_user ` set (players_of w n)"
  "books_ok w \<Longrightarrow> map_of (bw_rounds w) n = None \<Longrightarrow> fund_held (bw_cash w) ''blackwhite'' n = 0"
  "books_ok w \<Longrightarrow> map_of (bw_rounds w) n = None \<Longrightarrow> players_of w n = []"
  by (auto simp: books_ok_def players_of_def filter_empty_conv)

lemma paid_by_rules_cong:
  assumes "map q_choice qs = map q_choice ps" "map f qs = map g ps"
  shows "paid_by_rules s f qs \<longleftrightarrow> paid_by_rules s g ps"
proof -
  have l: "length qs = length ps" using assms(1) map_eq_imp_length_eq by blast
  have c: "length (on_colour k qs) = length (on_colour k ps)" for k
  proof -
    have "length (on_colour k xs) = length (filter (\<lambda>c. c = k) (map q_choice xs))" for xs
      by (simp add: on_colour_def filter_map comp_def)
    then show ?thesis by (simp only: assms(1))
  qed
  have side: "smaller_side qs = smaller_side ps" by (simp add: smaller_side_def c)
  have at: "q_choice (qs ! i) = q_choice (ps ! i)" "f (qs ! i) = g (ps ! i)" if "i < length ps" for i
    using that assms l by (metis nth_map)+
  show ?thesis
    unfolding paid_by_rules_def side c l assms(2) Let_def all_set_conv_all_nth using at l by (auto split: if_splits)
qed

lemma room_core_cong:
  assumes "room_core w n r" "players_of w' n = players_of w n" "b_stake r' = b_stake r" "b_state r' = b_state r"
    "fund_held (bw_cash w') ''blackwhite'' n = fund_held (bw_cash w) ''blackwhite'' n"
  shows "room_core w' n r'"
  using assms by (simp add: room_core_def)

lemma room_ok_cong:
  assumes "room_ok w n r" "players_of w' n = players_of w n" "b_stake r' = b_stake r" "b_state r' = b_state r"
    "fund_held (bw_cash w') ''blackwhite'' n = fund_held (bw_cash w) ''blackwhite'' n"
  shows "room_ok w' n r'"
proof -
  have "room_core w n r" using assms(1) by (simp add: room_ok_def)
  from room_core_cong [OF this assms(2-5)] show ?thesis using assms(1,2,4) by (simp add: room_ok_def)
qed

section \<open>What every member won or lost\<close>

text \<open>A seat costs the stake when it is taken and brings its recorded result when the room closes.\<close>

definition seat_gain :: "bw_round option \<Rightarrow> bw_player \<Rightarrow> int" where
  "seat_gain room p = (case room of None \<Rightarrow> 0 | Some r \<Rightarrow> (if b_state r = Lobby then 0 else q_result p) - b_stake r)"

fun seats_gain :: "(string \<Rightarrow> bw_round option) \<Rightarrow> uid \<Rightarrow> (string \<times> bw_player) list \<Rightarrow> int" where
  "seats_gain R u [] = 0"
| "seats_gain R u ((n, p) # ps) = (if q_user p = u then seat_gain (R n) p else 0) + seats_gain R u ps"

definition bw_gain :: "bw_world \<Rightarrow> uid \<Rightarrow> int" where
  "bw_gain w u = seats_gain (map_of (bw_rounds w)) u (bw_players w)"

definition bw_own :: "bw_world \<Rightarrow> uid \<Rightarrow> int" where
  "bw_own w u = spendable (bw_cash w) u - bw_gain w u"

lemma seats_gain_cong:
  "\<forall>n \<in> fst ` set ps. \<forall>p. seat_gain (R n) p = seat_gain (S n) p \<Longrightarrow> seats_gain R u ps = seats_gain S u ps"
  by (induction ps) auto

lemma seats_gain_append: "seats_gain R u (ps @ qs) = seats_gain R u ps + seats_gain R u qs"
  by (induction ps) auto

lemma seats_gain_settled:
  assumes "R n = Some r" "b_state r = Lobby" "b_stake q = b_stake r" "b_state q \<noteq> Lobby"
  shows "seats_gain (R(n \<mapsto> q)) u (map (\<lambda>(m, p). (m, if m = n then p\<lparr>q_result := f (q_user p)\<rparr> else p)) ps) =
    seats_gain R u ps + awarded u (map (\<lambda>p. (q_user p, f (q_user p))) (map snd (filter (\<lambda>p. fst p = n) ps)))"
proof (induction ps)
  case (Cons x ps)
  obtain m p where x: "x = (m, p)" by (cases x)
  show ?case using Cons.IH assms by (simp add: x seat_gain_def)
qed simp

lemma bw_gain_put:
  assumes "nonce \<in> fst ` set (bw_players w) \<Longrightarrow> \<exists>r. map_of (bw_rounds w) nonce = Some r \<and> b_stake q = b_stake r \<and> b_state q = b_state r"
  shows "bw_gain (put_bw nonce q w) u = bw_gain w u"
proof -
  have "\<forall>n \<in> fst ` set (bw_players w). \<forall>p. seat_gain (map_of (bw_rounds (put_bw nonce q w)) n) p = seat_gain (map_of (bw_rounds w) n) p"
  proof (intro ballI allI)
    fix n p assume "n \<in> fst ` set (bw_players w)"
    then show "seat_gain (map_of (bw_rounds (put_bw nonce q w)) n) p = seat_gain (map_of (bw_rounds w) n) p"
      using assms by (cases "n = nonce") (auto simp: seat_gain_def)
  qed
  from seats_gain_cong [OF this] show ?thesis by (simp only: bw_gain_def players_simps)
qed

section \<open>Settling and expiring\<close>

lemma settle_effect:
  assumes core: "room_core w nonce r" and lobby: "b_state r = Lobby" and why: "why = None \<Longrightarrow> length (players_of w nonce) = 5"
  obtains aw mode c where "bw_settle mac w nonce r why now = Inr (settled_world nonce r why aw mode c w)"
    "pay_awards (bw_cash w) ''blackwhite'' nonce (clock_int now) (map (\<lambda>p. (q_user p, award_of aw (q_user p))) (players_of w nonce)) = Inr c"
    "sum_list (map (\<lambda>p. award_of aw (q_user p)) (players_of w nonce)) = b_stake r * int (length (players_of w nonce))"
    "why \<noteq> None \<longrightarrow> (\<forall>p \<in> set (players_of w nonce). award_of aw (q_user p) = b_stake r)"
    "why = None \<longrightarrow> paid_by_rules (b_stake r) (\<lambda>p. award_of aw (q_user p)) (players_of w nonce)"
proof -
  let ?ps = "players_of w nonce"
  have c: "1 \<le> b_stake r" "b_stake r * 5 \<le> MAX_INT" "length ?ps \<le> 5" "distinct (map q_user ?ps)"
    "\<forall>p \<in> set ?ps. q_choice p \<in> {''black'', ''white''}"
    "fund_held (bw_cash w) ''blackwhite'' nonce = b_stake r * int (length ?ps)"
    using core lobby by (auto simp: room_core_def)
  have "0 \<le> b_stake r" using c(1) by simp
  then obtain aw mode where a: "bw_awards mac r ?ps why = Inr (aw, mode)"
    "sum_list (map (\<lambda>p. award_of aw (q_user p)) ?ps) = b_stake r * int (length ?ps)"
    "\<forall>p \<in> set ?ps. 0 \<le> award_of aw (q_user p)"
    "why \<noteq> None \<Longrightarrow> \<forall>p \<in> set ?ps. award_of aw (q_user p) = b_stake r"
    "why = None \<Longrightarrow> paid_by_rules (b_stake r) (\<lambda>p. award_of aw (q_user p)) ?ps"
    using awards_ok [where why = why and mac = mac, OF c(4) _ c(5) why] by blast
  let ?due = "map (\<lambda>p. (q_user p, award_of aw (q_user p))) ?ps"
  have s: "sum_list (map snd ?due) = b_stake r * int (length ?ps)" using a(2) by (simp add: comp_def)
  have "b_stake r * int (length ?ps) \<le> b_stake r * 5" using c(1,3) by (intro mult_left_mono) auto
  then have "sum_list (map snd ?due) \<le> MAX_INT" using s c(2) by linarith
  moreover have "\<forall>p \<in> set ?due. 0 \<le> snd p" using a(3) by auto
  moreover have "sum_list (map snd ?due) \<le> fund_held (bw_cash w) ''blackwhite'' nonce" using s c(6) by simp
  ultimately obtain c' where p: "pay_awards (bw_cash w) ''blackwhite'' nonce (clock_int now) ?due = Inr c'"
    using pay_awards_total [of "''blackwhite''" ?due "bw_cash w" nonce "clock_int now"] by auto
  have "bw_settle mac w nonce r why now = Inr (settled_world nonce r why aw mode c' w)"
    using lobby a(1) p by (simp add: bw_settle_def Let_def)
  then show ?thesis using that p a(2,4,5) by blast
qed

lemma settle_keeps_ok:
  assumes books: "books_ok w" and r: "map_of (bw_rounds w) nonce = Some r" and core: "room_core w nonce r"
    and others: "\<And>n q. n \<noteq> nonce \<Longrightarrow> map_of (bw_rounds w) n = Some q \<Longrightarrow> room_ok w n q"
    and lobby: "b_state r = Lobby" and why: "why = None \<Longrightarrow> length (players_of w nonce) = 5"
      "why \<in> {None, Some Timeout, Some Disabled}"
  obtains w' q aw where "bw_settle mac w nonce r why now = Inr w'" "bw_ok w'" "wealth (bw_cash w') = wealth (bw_cash w)"
    "map_of (bw_rounds w') nonce = Some q" "b_state q = state_after why" "b_stake q = b_stake r" "b_result q \<noteq> None"
    "players_of w' nonce = map (\<lambda>p. p\<lparr>q_result := award_of aw (q_user p)\<rparr>) (players_of w nonce)"
    "\<forall>u. spendable (bw_cash w') u = spendable (bw_cash w) u + awarded u (map (\<lambda>p. (q_user p, award_of aw (q_user p))) (players_of w nonce))"
    "why \<noteq> None \<longrightarrow> (\<forall>p \<in> set (players_of w nonce). award_of aw (q_user p) = b_stake r)" "bw_own w' = bw_own w"
proof -
  let ?ps = "players_of w nonce"
  obtain aw mode c where a: "bw_settle mac w nonce r why now = Inr (settled_world nonce r why aw mode c w)"
    and pay: "pay_awards (bw_cash w) ''blackwhite'' nonce (clock_int now) (map (\<lambda>p. (q_user p, award_of aw (q_user p))) ?ps) = Inr c"
    and s: "sum_list (map (\<lambda>p. award_of aw (q_user p)) ?ps) = b_stake r * int (length ?ps)"
    and refund: "why \<noteq> None \<longrightarrow> (\<forall>p \<in> set ?ps. award_of aw (q_user p) = b_stake r)"
    and paid: "why = None \<longrightarrow> paid_by_rules (b_stake r) (\<lambda>p. award_of aw (q_user p)) ?ps"
    by (rule settle_effect [OF core lobby why(1)])
  let ?w = "settled_world nonce r why aw mode c w"
  have k: "cash_ok c" "wealth c = wealth (bw_cash w)" using pay_awards_keeps [OF pay books_okD(1) [OF books]] by auto
  have views: "held c = held (bw_cash w)" "has_escrow c = has_escrow (bw_cash w)"
    "spendable c u = spendable (bw_cash w) u + awarded u (map (\<lambda>p. (q_user p, award_of aw (q_user p))) ?ps)"
    "fund_held c ''blackwhite'' n = fund_held (bw_cash w) ''blackwhite'' n - (if n = nonce then b_stake r * int (length ?ps) else 0)"
    for u n using pay_awards_views [OF pay, of "''blackwhite''" n u] s by (auto simp: comp_def)
  have st: "state_after why \<noteq> Lobby" using why(2) by (auto simp: state_after_def)
  have books': "books_ok ?w"
    using books r k(1) unfolding books_ok_def by (auto simp: views(2,4) image_image)
  have "room_ok ?w n q" if q: "map_of (bw_rounds ?w) n = Some q" for n q
  proof (cases "n = nonce")
    case True
    let ?qs = "map (\<lambda>p. p\<lparr>q_result := award_of aw (q_user p)\<rparr>) ?ps"
    have q': "b_stake q = b_stake r" "b_state q = state_after why" using q True by auto
    have "paid_by_rules (b_stake r) q_result ?qs = paid_by_rules (b_stake r) (\<lambda>p. award_of aw (q_user p)) ?ps"
      by (rule paid_by_rules_cong) simp_all
    note facts = this core st q' lobby True
    show ?thesis
    proof (cases why)
      case None
      then show ?thesis using facts paid why(1) by (simp add: room_ok_def room_core_def comp_def views(4) state_after_def)
    next
      case (Some m)
      then have "state_after why \<in> {Expired, Cancelled}" using why(2) by (auto simp: state_after_def)
      then have "state_after why \<noteq> Settled" "state_after why \<noteq> Lobby" by auto
      then show ?thesis using facts refund Some by (simp add: room_ok_def room_core_def comp_def views(4))
    qed
  next
    case False
    then have "map_of (bw_rounds w) n = Some q" using q by simp
    from room_ok_cong [OF others [OF False this]] False show ?thesis by (simp add: views(4))
  qed
  then have ok: "bw_ok ?w" using books' by (simp add: bw_ok_def)
  let ?q = "r\<lparr>b_state := state_after why, b_result := Some (mode, int (length ?ps), b_stake r * int (length ?ps)), b_card := bump (b_card r)\<rparr>"
  have at: "map_of (bw_rounds ?w) nonce = Some ?q" by simp
  have rounds: "map_of (bw_rounds ?w) = (map_of (bw_rounds w))(nonce \<mapsto> ?q)" by (simp add: fun_eq_iff)
  have seats: "bw_players ?w = map (\<lambda>(m, p). (m, if m = nonce then p\<lparr>q_result := award_of aw (q_user p)\<rparr> else p)) (bw_players w)"
    by (simp add: settled_world_def Let_def)
  have "bw_gain ?w u = bw_gain w u + awarded u (map (\<lambda>p. (q_user p, award_of aw (q_user p))) ?ps)" for u
    unfolding bw_gain_def rounds seats players_of_def by (rule seats_gain_settled [where R = "map_of (bw_rounds w)" and n = nonce, OF r lobby]) (simp_all add: st)
  then have "bw_own ?w = bw_own w" by (simp add: bw_own_def fun_eq_iff views(3))
  then show ?thesis using that [OF a ok, of ?q aw] at k(2) views(3) refund by simp
qed

section \<open>Every step keeps rooms and books\<close>

definition bw_keeps :: "bw_world \<Rightarrow> bw_world \<Rightarrow> bool" where
  "bw_keeps w w' \<longleftrightarrow> bw_ok w' \<and> wealth (bw_cash w') = wealth (bw_cash w) \<and> bw_own w' = bw_own w"

lemma bw_keeps_trans: "bw_keeps u v \<Longrightarrow> bw_keeps v w \<Longrightarrow> bw_keeps u w"
  by (simp add: bw_keeps_def)

lemma bw_keeps_refl: "bw_ok w \<Longrightarrow> bw_keeps w w"
  by (simp add: bw_keeps_def)

lemma room_okD: "room_ok w n r \<Longrightarrow> room_core w n r" "room_ok w n r \<Longrightarrow> b_state r = Lobby \<Longrightarrow> length (players_of w n) < 5"
  by (simp_all add: room_ok_def)

lemma expire_effect:
  assumes ok: "bw_ok w" and r: "map_of (bw_rounds w) nonce = Some r" "b_state r = Lobby" "b_expires r \<le> now \<or> \<not> e_on v"
  obtains w' q where "bw_expire mac v w nonce now = Inr w'" "bw_keeps w w'" "map_of (bw_rounds w') nonce = Some q" "b_state q \<noteq> Lobby"
    "\<forall>u. spendable (bw_cash w') u = spendable (bw_cash w) u + (if u \<in> q_user ` set (players_of w nonce) then b_stake r else 0)"
proof -
  let ?ps = "players_of w nonce" and ?why = "Some (if b_expires r \<le> now then Timeout else Disabled)"
  note room = room_okD [OF bw_okD(2) [OF ok r(1)]]
  obtain w' q aw where w': "bw_settle mac w nonce r ?why now = Inr w'" "bw_ok w'" "wealth (bw_cash w') = wealth (bw_cash w)"
    and q: "map_of (bw_rounds w') nonce = Some q" "b_state q = state_after ?why"
    and sp: "\<forall>u. spendable (bw_cash w') u = spendable (bw_cash w) u + awarded u (map (\<lambda>p. (q_user p, award_of aw (q_user p))) ?ps)"
    and aw: "?why \<noteq> None \<longrightarrow> (\<forall>p \<in> set ?ps. award_of aw (q_user p) = b_stake r)" and own: "bw_own w' = bw_own w"
    by (rule settle_keeps_ok [OF bw_okD(1) [OF ok] r(1) room(1) bw_okD(2) [OF ok] r(2), of ?why mac now]) auto
  have pays: "awarded u (map (\<lambda>p. (q_user p, award_of aw (q_user p))) ps) = (if u \<in> q_user ` set ps then b_stake r else 0)"
    if "distinct (map q_user ps)" "\<forall>p \<in> set ps. award_of aw (q_user p) = b_stake r" for u ps
    using that by (induction ps) auto
  have "distinct (map q_user ?ps)" using room(1) by (simp add: room_core_def)
  then have each: "awarded u (map (\<lambda>p. (q_user p, award_of aw (q_user p))) ?ps) = (if u \<in> q_user ` set ?ps then b_stake r else 0)" for u
    using aw pays [of ?ps u] by simp
  have "bw_expire mac v w nonce now = Inr w'" using r w'(1) by (simp add: bw_expire_def)
  moreover have "b_state q \<noteq> Lobby" using q(2) by (auto simp: state_after_def)
  ultimately show ?thesis using that w'(2,3) q(1) sp each own by (simp add: bw_keeps_def)
qed

lemma expire_keeps:
  assumes "bw_ok w"
  shows "\<exists>w'. bw_expire mac v w nonce now = Inr w' \<and> bw_keeps w w'"
proof (cases "\<exists>r. map_of (bw_rounds w) nonce = Some r \<and> b_state r = Lobby \<and> (b_expires r \<le> now \<or> \<not> e_on v)")
  case True
  then show ?thesis using expire_effect [OF assms] by metis
next
  case False
  then have "bw_expire mac v w nonce now = Inr w" by (auto simp: bw_expire_def split: option.split)
  then show ?thesis using bw_keeps_refl [OF assms] by blast
qed

lemma expire_all_keeps: "bw_ok w \<Longrightarrow> \<exists>w'. expire_all mac v now ns w = (w', None) \<and> bw_keeps w w'"
proof (induction ns arbitrary: w)
  case (Cons n ns)
  obtain w1 where w1: "bw_expire mac v w n now = Inr w1" "bw_keeps w w1" using expire_keeps [OF Cons.prems] by blast
  obtain w2 where "expire_all mac v now ns w1 = (w2, None)" "bw_keeps w1 w2"
    using Cons.IH [of w1] w1(2) unfolding bw_keeps_def by blast
  then show ?case using w1 bw_keeps_trans by auto
qed (simp add: bw_keeps_refl)

lemma card_keeps:
  assumes ok: "bw_ok w" and r: "map_of (bw_rounds w) nonce = Some r" and q: "b_stake q = b_stake r" "b_state q = b_state r"
  shows "bw_keeps w (put_bw nonce q w)"
proof -
  have "room_ok (put_bw nonce q w) n s" if "map_of (bw_rounds (put_bw nonce q w)) n = Some s" for n s
  proof (cases "n = nonce")
    case True
    have "room_ok (put_bw nonce q w) nonce q" by (rule room_ok_cong [OF bw_okD(2) [OF ok r]]) (simp_all add: q)
    then show ?thesis using that True by simp
  next
    case False
    then have "map_of (bw_rounds w) n = Some s" using that by simp
    from room_ok_cong [OF bw_okD(2) [OF ok this]] show ?thesis by simp
  qed
  moreover have "books_ok (put_bw nonce q w)"
    using bw_okD(1) [OF ok] r unfolding books_ok_def by (auto split: if_splits)
  moreover have "bw_own (put_bw nonce q w) = bw_own w"
    using bw_gain_put [of nonce w q] r q by (simp add: bw_own_def fun_eq_iff)
  ultimately show ?thesis by (simp add: bw_keeps_def bw_ok_def)
qed

lemma bw_card_keeps: "bw_ok w \<Longrightarrow> bw_keeps w (bw_card nonce f w)"
  by (cases "map_of (bw_rounds w) nonce") (simp_all add: bw_card_def bw_keeps_refl card_keeps)

lemma bw_open_keeps:
  assumes ok: "bw_ok w" and open_it: "bw_open v cfg w chat thread mid p asked nonce secret now = Inr (w', n)"
  shows "bw_keeps w w'"
proof -
  obtain tg m where m: "play_actor (e_members v) p now = Inr (tg, m)" using open_it by (auto simp: bw_open_def split: if_splits)
  let ?stake = "case asked of None \<Rightarrow> default_stake cfg | Some a \<Rightarrow> a"
  let ?r = "bw_new_round v cfg chat thread mid tg (mb_user m) (p_name p) ?stake secret now"
  have "w' = w \<or> (w' = put_bw nonce ?r w \<and> map_of (bw_rounds w) nonce = None \<and> 1 \<le> ?stake \<and> ?stake \<le> MAX_INT div 5)"
    using open_it by (auto simp: bw_open_def m Let_def split: if_splits option.splits)
  then show ?thesis
  proof
    assume "w' = put_bw nonce ?r w \<and> map_of (bw_rounds w) nonce = None \<and> 1 \<le> ?stake \<and> ?stake \<le> MAX_INT div 5"
    then have 2: "w' = put_bw nonce ?r w" "map_of (bw_rounds w) nonce = None" "1 \<le> ?stake" "?stake \<le> MAX_INT div 5" by simp_all
    note none = books_okD(4,5) [OF bw_okD(1) [OF ok] 2(2)]
    have "?stake * 5 \<le> MAX_INT" using 2(4) by (simp add: MAX_INT_def)
    then have new: "room_ok w' nonce ?r" using none 2(1,3) by (simp add: room_ok_def room_core_def bw_new_round_def)
    have "room_ok w' n s" if "map_of (bw_rounds w') n = Some s" for n s
    proof (cases "n = nonce")
      case True
      then show ?thesis using that new 2(1) by simp
    next
      case False
      then have "map_of (bw_rounds w) n = Some s" using that 2(1) by simp
      from room_ok_cong [OF bw_okD(2) [OF ok this]] show ?thesis by (simp add: 2(1))
    qed
    moreover have "books_ok w'"
      using bw_okD(1) [OF ok] unfolding books_ok_def 2(1) by (auto split: if_splits)
    moreover have "nonce \<notin> fst ` set (bw_players w)" using bw_okD(1) [OF ok] 2(2) by (auto simp: books_ok_def)
    then have "bw_own w' = bw_own w" using bw_gain_put [of nonce w ?r] by (simp add: 2(1) bw_own_def fun_eq_iff)
    ultimately show ?thesis by (simp add: bw_keeps_def bw_ok_def 2(1))
  qed (simp add: bw_keeps_refl [OF ok])
qed

text \<open>Taking a seat: once the stake is frozen it moves to the room's fund, and a full room settles.\<close>

lemma take_seat_effect:
  assumes ok: "bw_ok w" and r: "map_of (bw_rounds w) nonce = Some r" "b_state r = Lobby" and len: "length (players_of w nonce) < 5"
    and new: "user \<notin> q_user ` set (players_of w nonce)" and ch: "choice \<in> {''black'', ''white''}"
    and res: "reserve (bw_cash w) ''blackwhite'' nonce user (b_stake r) ''play.reserve'' (clock_int now) = Inr (c1, fresh)"
  obtains w' q where "bw_take_seat mac w nonce r tg user name choice now = Inr w'" "bw_keeps w w'"
    "map_of (bw_rounds w') nonce = Some q" "length (players_of w' nonce) = length (players_of w nonce) + 1"
    "b_state q = (if length (players_of w nonce) = 4 then Settled else Lobby)"
proof -
  let ?ps = "players_of w nonce"
  note books = bw_okD(1) [OF ok] and core = room_okD(1) [OF bw_okD(2) [OF ok r(1)]]
  have none: "\<not> has_escrow (bw_cash w) ''blackwhite'' nonce user" using books_okD(3) [OF books] new by blast
  note v1 = reserve_views [OF res none] and k1 = reserve_keeps [OF res books_okD(1) [OF books]]
  have st: "1 \<le> b_stake r" "b_stake r \<le> MAX_INT" using core by (auto simp: room_core_def)
  obtain c2 where c2: "consume c1 ''blackwhite'' nonce user (b_stake r) ''blackwhite'' nonce (clock_int now) = Inr c2"
    using consume_total [of "b_stake r" c1 "''blackwhite''" nonce user "''blackwhite''" nonce "clock_int now"] v1(1) st by auto
  note v2 = consume_views [OF c2] and k2 = consume_keeps [OF c2]
  have esc: "has_escrow c2 ''blackwhite'' n u \<longleftrightarrow> (n = nonce \<and> u = user) \<or> has_escrow (bw_cash w) ''blackwhite'' n u" for n u
    using v1(2) [of "''blackwhite''" n u] v2(2) by auto
  have fund: "fund_held c2 ''blackwhite'' n = fund_held (bw_cash w) ''blackwhite'' n + (if n = nonce then b_stake r else 0)" for n
    using v1(3) v2(3) [of "''blackwhite''" n] by simp
  let ?p = "\<lparr>q_user = user, q_tg = tg, q_name = name, q_choice = choice, q_joined = now, q_result = 0\<rparr>"
  let ?r1 = "r\<lparr>b_card := bump (b_card r)\<rparr>"
  let ?w1 = "put_bw nonce ?r1 (w\<lparr>bw_cash := c2, bw_players := bw_players w @ [(nonce, ?p)]\<rparr>)"
  have cash: "cash_ok c2" "wealth c2 = wealth (bw_cash w)" using k1 k2 by auto
  have b1: "books_ok ?w1"
    using books cash(1) r(1) unfolding books_ok_def by (auto simp: esc fund image_Un)
  have c1': "room_core ?w1 nonce ?r1"
    using core r(2) len new ch unfolding room_core_def by (auto simp: fund distrib_left)
  have others: "room_ok ?w1 n q" if "n \<noteq> nonce" "map_of (bw_rounds ?w1) n = Some q" for n q
  proof -
    have "map_of (bw_rounds w) n = Some q" using that by simp
    from room_ok_cong [OF bw_okD(2) [OF ok this]] that(1) show ?thesis by (simp add: fund)
  qed
  have gain: "bw_gain ?w1 u = bw_gain w u - (if u = user then b_stake r else 0)" for u
  proof -
    have "bw_gain ?w1 u = bw_gain (w\<lparr>bw_cash := c2, bw_players := bw_players w @ [(nonce, ?p)]\<rparr>) u"
      by (rule bw_gain_put) (use r in auto)
    then show ?thesis using r by (simp add: bw_gain_def seats_gain_append seat_gain_def)
  qed
  have own: "bw_own ?w1 = bw_own w" using gain v1(4) v2(4) by (simp add: bw_own_def fun_eq_iff)
  have at: "map_of (bw_rounds ?w1) nonce = Some ?r1" and len1: "length (players_of ?w1 nonce) = length ?ps + 1" by simp_all
  show ?thesis
  proof (cases "length ?ps = 4")
    case True
    have five: "length (players_of ?w1 nonce) = 5" using True by simp
    have l1: "b_state ?r1 = Lobby" using r(2) by simp
    obtain w' q aw where w': "bw_settle mac ?w1 nonce ?r1 None now = Inr w'" "bw_ok w'" "wealth (bw_cash w') = wealth (bw_cash ?w1)"
      "map_of (bw_rounds w') nonce = Some q" "b_state q = state_after None"
      "players_of w' nonce = map (\<lambda>p. p\<lparr>q_result := award_of aw (q_user p)\<rparr>) (players_of ?w1 nonce)" "bw_own w' = bw_own ?w1"
      by (rule settle_keeps_ok [OF b1 at c1' others l1, of None mac now]) (use five in blast)+
    have "bw_take_seat mac w nonce r tg user name choice now = Inr w'"
      using res c2 True w'(1) by (simp add: bw_take_seat_def Let_def)
    then show ?thesis using that [OF _ _ w'(4)] w'(2,3,5,6,7) own cash(2) True by (simp add: bw_keeps_def state_after_def)
  next
    case False
    then have "room_ok ?w1 nonce ?r1" using c1' len by (simp add: room_ok_def)
    then have "bw_ok ?w1" using b1 others by (auto simp: bw_ok_def split: if_splits)
    moreover have "bw_take_seat mac w nonce r tg user name choice now = Inr ?w1"
      using res c2 False by (simp add: bw_take_seat_def Let_def)
    ultimately show ?thesis using that [of ?w1 ?r1] at len1 cash(2) own False r(2) by (simp add: bw_keeps_def)
  qed
qed

lemma put_put_bw [simp]: "put_bw n q (put_bw n r w) = put_bw n q w"
  by (simp add: put_bw_def)

lemma enter_cases:
  assumes "bw_enter mac v w nonce p m choice now = Inr (w', already)"
  obtains r0 card tg mb where "map_of (bw_rounds w) nonce = Some r0"
    "card_context (e_bot v) (e_allowed v) (b_card r0) m (bw_data nonce choice) = Inr card"
    "play_actor (e_members v) p now = Inr (tg, mb)"
    "(already \<and> w' = put_bw nonce (r0\<lparr>b_card := card\<rparr>) w)
     \<or> (\<not> already \<and> b_state r0 = Lobby \<and> mb_user mb \<notin> q_user ` set (players_of w nonce) \<and> length (players_of w nonce) < 5
        \<and> bw_take_seat mac (put_bw nonce (r0\<lparr>b_card := card\<rparr>) w) nonce (r0\<lparr>b_card := card\<rparr>) tg (mb_user mb) (p_name p) choice now = Inr w')"
proof -
  obtain r0 where r0: "map_of (bw_rounds w) nonce = Some r0" using assms by (auto simp: bw_enter_def split: option.splits)
  obtain card tg mb where c: "card_context (e_bot v) (e_allowed v) (b_card r0) m (bw_data nonce choice) = Inr card"
    and a: "play_actor (e_members v) p now = Inr (tg, mb)"
    using assms by (auto simp: bw_enter_def r0)
  have "(already \<and> w' = put_bw nonce (r0\<lparr>b_card := card\<rparr>) w)
     \<or> (\<not> already \<and> b_state r0 = Lobby \<and> find (\<lambda>q. q_user q = mb_user mb \<or> q_tg q = tg) (players_of w nonce) = None
        \<and> length (players_of w nonce) < 5
        \<and> bw_take_seat mac (put_bw nonce (r0\<lparr>b_card := card\<rparr>) w) nonce (r0\<lparr>b_card := card\<rparr>) tg (mb_user mb) (p_name p) choice now = Inr w')"
    using assms unfolding bw_enter_def
    by (auto simp: r0 c a Let_def split: option.splits if_splits)
  moreover have "find (\<lambda>q. q_user q = mb_user mb \<or> q_tg q = tg) ps = None \<Longrightarrow> mb_user mb \<notin> q_user ` set ps" for ps
    by (auto simp: find_None_iff)
  ultimately show ?thesis using that [OF r0 c a] by blast
qed

lemma enter_keeps:
  assumes ok: "bw_ok w" and e: "bw_enter mac v w nonce p m choice now = Inr (w', already)" and ch: "choice \<in> {''black'', ''white''}"
  shows "bw_keeps w w'"
  using e
proof (rule enter_cases)
  fix r0 card tg mb
  assume r0: "map_of (bw_rounds w) nonce = Some r0"
    and how: "(already \<and> w' = put_bw nonce (r0\<lparr>b_card := card\<rparr>) w)
     \<or> (\<not> already \<and> b_state r0 = Lobby \<and> mb_user mb \<notin> q_user ` set (players_of w nonce) \<and> length (players_of w nonce) < 5
        \<and> bw_take_seat mac (put_bw nonce (r0\<lparr>b_card := card\<rparr>) w) nonce (r0\<lparr>b_card := card\<rparr>) tg (mb_user mb) (p_name p) choice now = Inr w')"
  let ?r = "r0\<lparr>b_card := card\<rparr>"
  let ?w0 = "put_bw nonce ?r w"
  have k0: "bw_keeps w ?w0" by (rule card_keeps [OF ok r0]) simp_all
  show ?thesis
  proof (cases already)
    case True
    then show ?thesis using how k0 by simp
  next
    case False
    then have s: "b_state r0 = Lobby" "mb_user mb \<notin> q_user ` set (players_of w nonce)" "length (players_of w nonce) < 5"
      and t: "bw_take_seat mac ?w0 nonce ?r tg (mb_user mb) (p_name p) choice now = Inr w'" using how by auto
    obtain c1 b where c1: "reserve (bw_cash ?w0) ''blackwhite'' nonce (mb_user mb) (b_stake ?r) ''play.reserve'' (clock_int now) = Inr (c1, b)"
      using t by (auto simp: bw_take_seat_def)
    have ok0: "bw_ok ?w0" using k0 by (simp add: bw_keeps_def)
    obtain w2 where "bw_take_seat mac ?w0 nonce ?r tg (mb_user mb) (p_name p) choice now = Inr w2" "bw_keeps ?w0 w2"
      by (rule take_seat_effect [OF ok0, of nonce ?r "mb_user mb" choice now c1 b mac tg "p_name p"]) (use s c1 ch in simp_all)
    then show ?thesis using bw_keeps_trans [OF k0] t by simp
  qed
qed

lemma join_keeps:
  assumes "bw_ok w"
  shows "bw_keeps w (fst (bw_join mac v w nonce p m choice now))"
proof (cases "choice \<in> {''black'', ''white''}")
  case True
  obtain w1 where w1: "bw_expire mac v w nonce now = Inr w1" "bw_keeps w w1" using expire_keeps [OF assms] by blast
  have ok1: "bw_ok w1" using w1(2) by (simp add: bw_keeps_def)
  show ?thesis
  proof (cases "bw_enter mac v w1 nonce p m choice now")
    case (Inl e)
    then show ?thesis using w1 True by (simp add: bw_join_def)
  next
    case (Inr x)
    obtain w2 al where x: "x = (w2, al)" by (cases x)
    from bw_keeps_trans [OF w1(2) enter_keeps [OF ok1 Inr [unfolded x] True]] show ?thesis
      using w1(1) True Inr x by (simp add: bw_join_def)
  qed
qed (simp add: bw_join_def bw_keeps_refl [OF assms])

lemma expire_due_keeps: "bw_ok w \<Longrightarrow> \<exists>w'. bw_expire_due mac v w now = (w', None) \<and> bw_keeps w w'"
  unfolding bw_expire_due_def by (rule expire_all_keeps)

lemma create_keeps:
  assumes "bw_ok w"
  shows "bw_keeps w (fst (bw_create mac v cfg w m p asked nonce secret now))"
proof -
  obtain w1 where w1: "bw_expire_due mac v w now = (w1, None)" "bw_keeps w w1"
    using expire_due_keeps [OF assms] by blast
  have ok1: "bw_ok w1" using w1(2) by (simp add: bw_keeps_def)
  show ?thesis
  proof (cases "bw_create_tx v cfg w1 m p asked nonce secret now")
    case (Inl e)
    then show ?thesis using w1 by (simp add: bw_create_def)
  next
    case (Inr x)
    obtain w2 n where x: "x = (w2, n)" by (cases x)
    obtain chat thread mid where "bw_open v cfg w1 chat thread mid p asked nonce secret now = Inr (w2, n)"
      using Inr x by (auto simp: bw_create_tx_def split: option.splits)
    from bw_keeps_trans [OF w1(2) bw_open_keeps [OF ok1 this]] show ?thesis
      using w1(1) Inr x by (simp add: bw_create_def)
  qed
qed

lemma bw_step_keeps:
  assumes "bw_ok w" "bw_step mac w x = Inr w'"
  shows "bw_keeps w w'"
  using assms
proof (induction mac w x rule: bw_step.induct)
  case (3 mac w v now nonce)
  then show ?case using expire_keeps [of w mac v nonce now] by auto
next
  case (4 mac w v now)
  then show ?case using expire_due_keeps [of w mac v now] by auto
qed (auto simp: create_keeps join_keeps bw_card_keeps)

interpretation blackwhite: accounting "bw_step mac" bw_ok "\<lambda>w. wealth (bw_cash w)" for mac
  by unfold_locales (auto dest: bw_step_keeps simp: bw_keeps_def)

interpretation bw_member: accounting "bw_step mac" bw_ok "\<lambda>w. bw_own w u" for mac u
  by unfold_locales (auto dest: bw_step_keeps simp: bw_keeps_def)

lemma bw_empty_ok: "bw_ok (bw_empty rows)"
  by (simp add: bw_ok_def books_ok_def bw_empty_def empty_cash_def cash_ok_def has_escrow_def fund_held_def)

lemma bw_run_ok: "runR (bw_step mac) (bw_empty rows) ops = Inr w \<Longrightarrow> bw_ok w"
  by (rule blackwhite.run_ok [OF _ bw_empty_ok])

section \<open>A played room\<close>

definition demo_join :: "string \<Rightarrow> int \<Rightarrow> string \<Rightarrow> bw_op" where
  "demo_join u i choice = BwJoin ''n'' (demo_person u i) (demo_card [bw_data ''n'' choice]) choice"

definition demo_bw_ops :: "(room_env \<times> real \<times> bw_op) list" where
  "demo_bw_ops = map (\<lambda>(t, x). (demo_room_env, t, x))
     [(100, BwCreate \<lparr>default_stake = 10, min_stake = 10, lobby_seconds = 600\<rparr> (demo_command 10) (demo_person ''ann'' 1) None ''n'' ''s''),
      (101, BwBegin ''n'' ''t''),
      (102, BwPublished ''n'' ((card_of ''blackwhite'' 99 5 0 10 100)\<lparr>c_token := ''t''\<rparr>) 11),
      (103, demo_join ''ann'' 1 ''black''), (104, demo_join ''bob'' 2 ''white''),
      (106, demo_join ''cat'' 3 ''white''), (107, demo_join ''dan'' 4 ''black''), (108, demo_join ''eve'' 5 ''white'')]"

text \<open>The whole game, and the room after its owner joined.\<close>

lemma demo_bw_full:
  obtains w r where "runR (bw_step (\<lambda>s u. u)) (bw_empty demo_room_points) demo_bw_ops = Inr w"
    "map_of (bw_rounds w) ''n'' = Some r" "b_state r = Settled" "b_stake r = 10"
proof -
  have "case runR (bw_step (\<lambda>s u. u)) (bw_empty demo_room_points) demo_bw_ops of Inl _ \<Rightarrow> False
      | Inr w \<Rightarrow> (case map_of (bw_rounds w) ''n'' of None \<Rightarrow> False | Some r \<Rightarrow> b_state r = Settled \<and> b_stake r = 10)" by code_simp
  then show ?thesis using that by (auto split: sum.splits option.splits)
qed

lemma demo_bw_open:
  obtains w r where "runR (bw_step (\<lambda>s u. u)) (bw_empty demo_room_points) (take 4 demo_bw_ops) = Inr w"
    "map_of (bw_rounds w) ''n'' = Some r" "b_state r = Lobby" "b_stake r = 10" "b_expires r \<le> 900"
    "''ann'' \<in> q_user ` set (players_of w ''n'')"
proof -
  have "case runR (bw_step (\<lambda>s u. u)) (bw_empty demo_room_points) (take 4 demo_bw_ops) of Inl _ \<Rightarrow> False
      | Inr w \<Rightarrow> (case map_of (bw_rounds w) ''n'' of None \<Rightarrow> False
          | Some r \<Rightarrow> b_state r = Lobby \<and> b_stake r = 10 \<and> b_expires r \<le> 900 \<and> ''ann'' \<in> q_user ` set (players_of w ''n''))" by code_simp
  then show ?thesis using that by (auto split: sum.splits option.splits)
qed

section \<open>Properties\<close>

text \<open>C28. After any history of black and white (rooms opened, cards published, members joining twice or late, deadlines passing, the game
  switched off), a settled room had five players and its results are exactly the five stakes: everybody drew on one colour, else the
  smaller side shares the pot to within a point and the larger side gets nothing; a room that expired or was cancelled gave every
  player the stake back. The results are what was paid: the fund of a closed room is empty, and what a member can spend is the
  balance before the first room plus, for every seat taken, its result when the room is closed, less its stake.\<close>

theorem blackwhite_pays_by_rules:
  assumes "runR (bw_step mac) (bw_empty rows) ops = Inr w" "map_of (bw_rounds w) nonce = Some r"
  shows "(b_state r = Settled \<longrightarrow> length (players_of w nonce) = 5 \<and> paid_by_rules (b_stake r) q_result (players_of w nonce))
    \<and> (b_state r \<in> {Expired, Cancelled} \<longrightarrow> (\<forall>p \<in> set (players_of w nonce). q_result p = b_stake r))
    \<and> fund_held (bw_cash w) ''blackwhite'' nonce = (if b_state r = Lobby then b_stake r * int (length (players_of w nonce)) else 0)
    \<and> spendable (bw_cash w) u = balance rows u + bw_gain w u
    \<and> wealth (bw_cash w) = ledger_total rows"
proof -
  have "room_core w nonce r" using room_okD(1) [OF bw_okD(2) [OF bw_run_ok [OF assms(1)] assms(2)]] .
  moreover have "wealth (bw_cash w) = ledger_total rows"
    using blackwhite.run_worth [OF assms(1) bw_empty_ok] by (simp add: bw_empty_def empty_cash_def wealth_def)
  moreover have "spendable (bw_cash w) u = balance rows u + bw_gain w u"
    using bw_member.run_worth [OF assms(1) bw_empty_ok, of u] by (simp add: bw_own_def bw_gain_def bw_empty_def empty_cash_def)
  ultimately show ?thesis by (simp add: room_core_def)
qed

theorem blackwhite_pays_by_rules_witness:
  "\<exists>w. runR (bw_step (\<lambda>s u. u)) (bw_empty demo_room_points) demo_bw_ops = Inr w
     \<and> length (players_of w ''n'') = 5 \<and> paid_by_rules 10 q_result (players_of w ''n'')
     \<and> fund_held (bw_cash w) ''blackwhite'' ''n'' = 0 \<and> spendable (bw_cash w) ''ann'' = balance demo_room_points ''ann'' + bw_gain w ''ann''"
proof (rule demo_bw_full)
  fix w r
  assume w: "runR (bw_step (\<lambda>s u. u)) (bw_empty demo_room_points) demo_bw_ops = Inr w"
    and r: "map_of (bw_rounds w) ''n'' = Some r" "b_state r = Settled" "b_stake r = 10"
  show ?thesis using blackwhite_pays_by_rules [OF w r(1), of "''ann''"] w r(2,3) by auto
qed

text \<open>No stake is ever locked: after any history, expiring an open room whose deadline passed (or while the game is off) succeeds,
  closes the room and returns every player exactly the stake, nobody else anything.\<close>

theorem blackwhite_refunds:
  assumes "runR (bw_step mac) (bw_empty rows) ops = Inr w" "map_of (bw_rounds w) nonce = Some r" "b_state r = Lobby"
    and "b_expires r \<le> now \<or> \<not> e_on v"
  shows "\<exists>w' q. bw_expire mac v w nonce now = Inr w' \<and> map_of (bw_rounds w') nonce = Some q \<and> b_state q \<noteq> Lobby
    \<and> (\<forall>u. spendable (bw_cash w') u = spendable (bw_cash w) u + (if u \<in> q_user ` set (players_of w nonce) then b_stake r else 0))"
  by (rule expire_effect [OF bw_run_ok [OF assms(1)] assms(2-4)]) blast

theorem blackwhite_refunds_witness:
  "\<exists>w w'. bw_expire (\<lambda>s u. u) demo_room_env w ''n'' 900 = Inr w' \<and> spendable (bw_cash w') ''ann'' = spendable (bw_cash w) ''ann'' + 10"
proof (rule demo_bw_open)
  fix w r
  assume w: "runR (bw_step (\<lambda>s u. u)) (bw_empty demo_room_points) (take 4 demo_bw_ops) = Inr w"
    and r: "map_of (bw_rounds w) ''n'' = Some r" "b_state r = Lobby" "b_stake r = 10" "b_expires r \<le> 900"
      "''ann'' \<in> q_user ` set (players_of w ''n'')"
  obtain w' where w': "bw_expire (\<lambda>s u. u) demo_room_env w ''n'' 900 = Inr w'"
    and all: "\<forall>u. spendable (bw_cash w') u = spendable (bw_cash w) u + (if u \<in> q_user ` set (players_of w ''n'') then b_stake r else 0)"
    using blackwhite_refunds [OF w r(1,2), of 900 demo_room_env] r(4) by blast
  have "spendable (bw_cash w') ''ann'' = spendable (bw_cash w) ''ann'' + 10" using spec [OF all, of "''ann''"] r(3,5) by simp
  then show ?thesis using w' by blast
qed

end
