(* ===== verification/Pk.thy ===== *)
theory Pk
  imports PlayRooms
begin

text \<open>
  \<^verbatim>\<open>backend/app/modules/pk.py\<close>: a duel of two members with Telegram dice. A row of \<open>pk_rounds\<close> is a
  \<open>pk_round\<close>; both stakes are escrows of the \<open>CashBook\<close>. The Bot throws one die at a time: it claims a throw
  (\<open>begin_roll\<close>), sends it, and records the value or the failure. Every write transaction is a function with an error value;
  an operation that commits one transaction before another fails returns the state beside the answer. The clock of
  \<open>_opponent\<close> is the clock of the operation.
\<close>

section \<open>State\<close>

datatype side = Challenger | Challenged

datatype pk_state = Pending | Rolling | Settled | Declined | Withdrawn | Expired | Cancelled

datatype roll_state = Unset | Ready | Sending

datatype pk_reason = NoReason | ActorGone | UnsafeAccept | ThrowUnconfirmed | ThrowTimeout | ThrowNotSent | SwitchedOff | Other string

record roll =
  ro_round :: int
  ro_side :: side
  ro_value :: int
  ro_message :: int

datatype pk_result = NoResult | Closed pk_reason int "roll list" | Decided "side option" int

record pk_round =
  k_card :: card
  k_tg :: int
  k_actor :: uid
  k_name :: string
  k_username :: string
  k_target_tg :: int
  k_target :: uid
  k_target_name :: string
  k_target_username :: string
  k_stake :: int
  k_state :: pk_state
  k_expires :: real
  k_result :: pk_result
  k_rolls :: "roll list"
  k_roll :: roll_state
  k_token :: string
  k_lease :: real
  k_attempts :: int
  k_due :: real
  k_accepted :: real
  k_settled :: real

record pk_world =
  k_cash :: cash
  k_rounds :: "(string \<times> pk_round) list"

record pk_claim =
  cl_nonce :: string
  cl_token :: string
  cl_rolls :: "roll list"
  cl_side :: side
  cl_round :: int

record pk_target =
  t_tg :: "int option"
  t_user :: person
  t_username :: string

definition MAX_ROUNDS :: int where "MAX_ROUNDS = 3"
definition MAX_STAKE :: int where "MAX_STAKE = MAX_INT div 4"
definition ROLL_LEASE_SECONDS :: real where "ROLL_LEASE_SECONDS = 60"
definition ROLL_STALE_SECONDS :: real where "ROLL_STALE_SECONDS = 600"
definition ROLL_RETRIES :: int where "ROLL_RETRIES = 5"

definition active :: "pk_round \<Rightarrow> bool" where
  "active r \<longleftrightarrow> k_state r = Pending \<or> k_state r = Rolling"

fun pk_ref :: "string \<Rightarrow> side \<Rightarrow> string" where
  "pk_ref nonce Challenger = nonce @ '':actor''"
| "pk_ref nonce Challenged = nonce @ '':target''"

fun player :: "pk_round \<Rightarrow> side \<Rightarrow> uid" where
  "player r Challenger = k_actor r"
| "player r Challenged = k_target r"

definition put_pk :: "string \<Rightarrow> pk_round \<Rightarrow> pk_world \<Rightarrow> pk_world" where
  "put_pk nonce r w = w\<lparr>k_rounds := put nonce r (k_rounds w)\<rparr>"

definition bumped :: "pk_round \<Rightarrow> pk_round" where
  "bumped r = r\<lparr>k_card := bump (k_card r)\<rparr>"

section \<open>Records of past duels\<close>

record standing =
  sd_wins :: int
  sd_losses :: int
  sd_draws :: int
  sd_net :: int
  sd_streak :: int
  sd_best :: int
  sd_tg :: int
  sd_name :: string
  sd_username :: string

definition winner_of :: "pk_round \<Rightarrow> side option" where
  "winner_of r = (case k_result r of Decided w _ \<Rightarrow> w | _ \<Rightarrow> None)"

definition count_side :: "pk_round \<Rightarrow> side \<Rightarrow> (uid \<times> standing) list \<Rightarrow> (uid \<times> standing) list" where
  "count_side r s stats =
     (let u = player r s;
          old = (case map_of stats u of
                   None \<Rightarrow> \<lparr>sd_wins = 0, sd_losses = 0, sd_draws = 0, sd_net = 0, sd_streak = 0, sd_best = 0, sd_tg = 0, sd_name = [], sd_username = []\<rparr>
                 | Some x \<Rightarrow> x);
          handle = (case s of Challenger \<Rightarrow> k_username r | Challenged \<Rightarrow> k_target_username r);
          x = old\<lparr>sd_tg := (case s of Challenger \<Rightarrow> k_tg r | Challenged \<Rightarrow> k_target_tg r),
                  sd_name := (case s of Challenger \<Rightarrow> k_name r | Challenged \<Rightarrow> k_target_name r),
                  sd_username := (if handle = [] then sd_username old else handle)\<rparr>
      in put u
        (case winner_of r of
           None \<Rightarrow> x\<lparr>sd_draws := sd_draws x + 1\<rparr>
         | Some w \<Rightarrow>
             if w = s then x\<lparr>sd_wins := sd_wins x + 1, sd_net := sd_net x + k_stake r, sd_streak := sd_streak x + 1,
                              sd_best := max (sd_best x) (sd_streak x + 1)\<rparr>
             else x\<lparr>sd_losses := sd_losses x + 1, sd_net := sd_net x - k_stake r, sd_streak := 0\<rparr>) stats)"

definition standings :: "pk_round list \<Rightarrow> (uid \<times> standing) list" where
  "standings rows = foldl (\<lambda>stats r. count_side r Challenged (count_side r Challenger stats)) [] rows"

text \<open>\<open>ORDER BY settled_at,created_at\<close>\<close>

definition settled_rows :: "pk_world \<Rightarrow> pk_round list" where
  "settled_rows w = sort_key (\<lambda>r. (k_settled r, c_created (k_card r))) (filter (\<lambda>r. k_state r = Settled) (map snd (k_rounds w)))"

definition winning_streak :: "pk_world \<Rightarrow> uid \<Rightarrow> int" where
  "winning_streak w u =
     (case map_of (standings (filter (\<lambda>r. k_actor r = u \<or> k_target r = u) (settled_rows w))) u of
        None \<Rightarrow> 0 | Some x \<Rightarrow> sd_streak x) + 1"

section \<open>Closing and settling\<close>

definition refund_sides :: "cash \<Rightarrow> string \<Rightarrow> pk_round \<Rightarrow> int \<Rightarrow> room_error + cash \<times> int" where
  "refund_sides c nonce r now =
     bindR (in_cash (release c ''pk'' (pk_ref nonce Challenger) (k_actor r) None ''play.release'' now)) (\<lambda>(c1, a).
     bindR (in_cash (release c1 ''pk'' (pk_ref nonce Challenged) (k_target r) None ''play.release'' now)) (\<lambda>(c2, b).
     Inr (c2, a + b)))"

definition closed_round :: "pk_round \<Rightarrow> pk_state \<Rightarrow> pk_reason \<Rightarrow> int \<Rightarrow> pk_round" where
  "closed_round r st why refunded =
     bumped (r\<lparr>k_state := st, k_result := Closed why refunded (k_rolls r), k_roll := Unset, k_token := [], k_lease := 0\<rparr>)"

definition close_pk :: "pk_world \<Rightarrow> string \<Rightarrow> pk_round \<Rightarrow> pk_state \<Rightarrow> pk_reason \<Rightarrow> real \<Rightarrow> room_error + pk_world" where
  "close_pk w nonce r st why now =
     (if \<not> active r then Inr w
      else
        bindR (if k_stake r \<noteq> 0 then refund_sides (k_cash w) nonce r (clock_int now) else Inr (k_cash w, 0)) (\<lambda>(c, refunded).
        Inr (put_pk nonce (closed_round r st why refunded) (w\<lparr>k_cash := c\<rparr>))))"

definition pay_winner :: "cash \<Rightarrow> string \<Rightarrow> pk_round \<Rightarrow> side option \<Rightarrow> int \<Rightarrow> room_error + cash" where
  "pay_winner c nonce r winner now =
     (case winner of
        None \<Rightarrow> bindR (refund_sides c nonce r now) (\<lambda>(c1, _). Inr c1)
      | Some s \<Rightarrow>
          bindR (in_cash (consume c ''pk'' (pk_ref nonce Challenger) (k_actor r) (k_stake r) ''poker'' (''pk:'' @ nonce) now)) (\<lambda>c1.
          bindR (in_cash (consume c1 ''pk'' (pk_ref nonce Challenged) (k_target r) (k_stake r) ''poker'' (''pk:'' @ nonce) now)) (\<lambda>c2.
          in_cash (payout c2 ''poker'' (''pk:'' @ nonce) (player r s) (2 * k_stake r) now))))"

definition finished_round :: "pk_round \<Rightarrow> side option \<Rightarrow> int \<Rightarrow> real \<Rightarrow> pk_round" where
  "finished_round r winner streak now =
     bumped (r\<lparr>k_state := Settled, k_result := Decided winner streak, k_settled := now, k_roll := Unset\<rparr>)"

definition finish_pk :: "pk_world \<Rightarrow> string \<Rightarrow> pk_round \<Rightarrow> side option \<Rightarrow> real \<Rightarrow> room_error + pk_world" where
  "finish_pk w nonce r winner now =
     bindR (if k_stake r \<noteq> 0 then pay_winner (k_cash w) nonce r winner (clock_int now) else Inr (k_cash w)) (\<lambda>c.
       let streak = (case winner of None \<Rightarrow> 0 | Some s \<Rightarrow> winning_streak w (player r s)) in
       Inr (put_pk nonce (finished_round r winner streak now) (w\<lparr>k_cash := c\<rparr>)))"

definition pk_expire :: "room_env \<Rightarrow> pk_world \<Rightarrow> string \<Rightarrow> real \<Rightarrow> room_error + pk_world" where
  "pk_expire v w nonce now =
     (case map_of (k_rounds w) nonce of
        None \<Rightarrow> Inr w
      | Some r \<Rightarrow>
          if k_state r = Pending \<and> (k_expires r \<le> now \<or> \<not> e_on v) then
            (if k_expires r \<le> now then close_pk w nonce r Expired NoReason now else close_pk w nonce r Cancelled SwitchedOff now)
          else if k_state r = Rolling \<and> k_roll r = Sending \<and> k_lease r \<le> now then close_pk w nonce r Cancelled ThrowUnconfirmed now
          else if k_state r = Rolling \<and> k_accepted r + ROLL_STALE_SECONDS \<le> now then close_pk w nonce r Cancelled ThrowTimeout now
          else Inr w)"

fun pk_expire_all :: "room_env \<Rightarrow> real \<Rightarrow> string list \<Rightarrow> pk_world \<Rightarrow> pk_world \<times> room_error option" where
  "pk_expire_all v now [] w = (w, None)"
| "pk_expire_all v now (n # ns) w =
     (case pk_expire v w n now of Inl e \<Rightarrow> (w, Some e) | Inr w' \<Rightarrow> pk_expire_all v now ns w')"

definition pk_expire_due :: "room_env \<Rightarrow> pk_world \<Rightarrow> real \<Rightarrow> pk_world \<times> room_error option" where
  "pk_expire_due v w now = pk_expire_all v now (map fst (filter (\<lambda>(n, r). active r) (k_rounds w))) w"

section \<open>Challenging\<close>

definition lower :: "char \<Rightarrow> char" where
  "lower c = (let n = of_char c :: nat in if 65 \<le> n \<and> n \<le> 90 then char_of (n + 32) else c)"

definition same_handle :: "string \<Rightarrow> string \<Rightarrow> bool" where
  "same_handle stored handle \<longleftrightarrow> map lower (dropWhile (\<lambda>c. c = CHR ''@'') stored) = map lower handle"

definition target_id :: "member_row list \<Rightarrow> pk_target \<Rightarrow> room_error + int \<times> person" where
  "target_id table t =
     (if t_tg t \<notin> {None, Some 0} then Inr (the (t_tg t), t_user t)
      else
          let handle = telegram_username (t_username t) in
          if handle = [] then Inl NoHandle
          else (case filter (\<lambda>m. mb_tg m \<noteq> None \<and> same_handle (mb_username m) handle) table of
                  [m] \<Rightarrow> Inr (the (mb_tg m), (plain_person 0)\<lparr>p_username := handle\<rparr>)
                | _ \<Rightarrow> Inl HandleUnknown))"

definition opponent :: "room_env \<Rightarrow> pk_target \<Rightarrow> real \<Rightarrow> room_error + int \<times> member_row \<times> string \<times> string" where
  "opponent v t now =
     bindR (target_id (e_members v) t) (\<lambda>(tg, user).
     if p_bot user = Some True then Inl BotTarget
     else
       bindR (or_else (play_actor (e_members v) (plain_person tg) now) TargetInvalid) (\<lambda>(tg', m).
       Inr (tg', m,
            (if p_first user \<noteq> [] then p_name user else take 128 (mb_display m)),
            telegram_username (if p_username user \<noteq> [] then p_username user else mb_username m))))"

definition pk_busy :: "pk_world \<Rightarrow> uid \<Rightarrow> bool" where
  "pk_busy w u \<longleftrightarrow> list_ex (\<lambda>(n, r). active r \<and> (k_actor r = u \<or> k_target r = u)) (k_rounds w)"

definition new_duel :: "room_env \<Rightarrow> int \<Rightarrow> int \<Rightarrow> int \<Rightarrow> int \<Rightarrow> member_row \<Rightarrow> person \<Rightarrow> int \<times> member_row \<times> string \<times> string \<Rightarrow> int
    \<Rightarrow> int \<Rightarrow> real \<Rightarrow> pk_round" where
  "new_duel v chat thread mid tg m p = (\<lambda>(target_tg, target, target_name, target_username) stake wait now.
     \<lparr>k_card = card_of ''pk'' (e_bot v) chat thread mid now, k_tg = tg, k_actor = mb_user m, k_name = p_name p,
      k_username = telegram_username (p_username p), k_target_tg = target_tg, k_target = mb_user target, k_target_name = target_name,
      k_target_username = target_username, k_stake = stake, k_state = Pending, k_expires = now + of_int wait, k_result = NoResult,
      k_rolls = [], k_roll = Unset, k_token = [], k_lease = 0, k_attempts = 0, k_due = 0, k_accepted = 0, k_settled = 0\<rparr>)"

definition challenge :: "room_env \<Rightarrow> pk_world \<Rightarrow> int \<Rightarrow> int \<Rightarrow> int \<Rightarrow> person \<Rightarrow> pk_target \<Rightarrow> int \<Rightarrow> int \<Rightarrow> string \<Rightarrow> real
    \<Rightarrow> room_error + pk_world \<times> string" where
  "challenge v w chat thread mid p t stake wait nonce now =
     bindR (play_actor (e_members v) p now) (\<lambda>(tg, m).
     case find (\<lambda>(n, r). c_bot (k_card r) = e_bot v \<and> c_chat (k_card r) = chat \<and> c_command (k_card r) = mid) (k_rounds w) of
       Some (n, r) \<Rightarrow> if k_actor r \<noteq> mb_user m \<or> k_stake r \<noteq> stake then Inl OtherIntent else Inr (w, n)
     | None \<Rightarrow>
         if \<not> e_on v then Inl GameClosed
         else
           bindR (opponent v t now) (\<lambda>(ttg, tm, tname, tusername).
           if ttg = tg \<or> mb_user tm = mb_user m then Inl SelfDuel
           else if pk_busy w (mb_user m) then Inl ActorBusy
           else if pk_busy w (mb_user tm) then Inl TargetBusy
           else if stake \<noteq> 0 \<and> spendable (k_cash w) (mb_user tm) < stake then Inl TargetShort
           else if map_of (k_rounds w) nonce \<noteq> None then Inl RowRefused
           else
             let r = new_duel v chat thread mid tg m p (ttg, tm, tname, tusername) stake wait now in
             if stake = 0 then Inr (put_pk nonce r w, nonce)
             else
               bindR (or_else (reserve (k_cash w) ''pk'' (pk_ref nonce Challenger) (mb_user m) stake ''play.reserve'' (clock_int now)) BalanceShort)
                 (\<lambda>(c, _). Inr (put_pk nonce r (w\<lparr>k_cash := c\<rparr>), nonce))))"

definition pk_create_tx :: "room_env \<Rightarrow> pk_world \<Rightarrow> message \<Rightarrow> person \<Rightarrow> pk_target \<Rightarrow> int \<Rightarrow> int \<Rightarrow> string \<Rightarrow> real
    \<Rightarrow> room_error + pk_world \<times> string" where
  "pk_create_tx v w m p t stake wait nonce now =
     bindR (in_card (group_scope (e_allowed v) m)) (\<lambda>(chat, thread).
     bindR (case m_id m of None \<Rightarrow> Inl (InCash (OutOfRange LMessageId 1 MAX_INT))
                         | Some mid \<Rightarrow> in_cash (integer mid LMessageId 1 MAX_INT)) (\<lambda>mid.
     bindR (if stake = 0 then Inr 0 else in_cash (integer stake LStakePoints 1 MAX_STAKE)) (\<lambda>s.
     challenge v w chat thread mid p t s wait nonce now)))"

definition pk_create :: "room_env \<Rightarrow> pk_world \<Rightarrow> message \<Rightarrow> person \<Rightarrow> pk_target \<Rightarrow> int \<Rightarrow> int \<Rightarrow> string \<Rightarrow> real
    \<Rightarrow> pk_world \<times> (room_error + string)" where
  "pk_create v w m p t stake wait nonce now =
     (case pk_expire_due v w now of
        (w1, Some e) \<Rightarrow> (w1, Inl e)
      | (w1, None) \<Rightarrow>
          (case pk_create_tx v w1 m p t stake wait nonce now of Inl e \<Rightarrow> (w1, Inl e) | Inr (w2, n) \<Rightarrow> (w2, Inr n)))"

section \<open>Answering\<close>

definition accept_pk :: "room_env \<Rightarrow> pk_world \<Rightarrow> string \<Rightarrow> pk_round \<Rightarrow> real \<Rightarrow> room_error + pk_world" where
  "accept_pk v w nonce r now =
     (if (case play_actor (e_members v) (plain_person (k_tg r)) now of Inl _ \<Rightarrow> True | Inr (_, m) \<Rightarrow> mb_user m \<noteq> k_actor r)
      then close_pk w nonce r Cancelled ActorGone now
      else
        bindR (if k_stake r = 0 then Inr (k_cash w)
               else if held (k_cash w) ''pk'' (pk_ref nonce Challenger) (k_actor r) \<noteq> k_stake r then Inl Unsafe
               else bindR (or_else (reserve (k_cash w) ''pk'' (pk_ref nonce Challenged) (k_target r) (k_stake r) ''play.reserve'' (clock_int now))
                      BalanceShort) (\<lambda>(c, _). Inr c)) (\<lambda>c.
        Inr (put_pk nonce (bumped (r\<lparr>k_state := Rolling, k_roll := Ready, k_rolls := [], k_due := 0, k_accepted := now\<rparr>))
               (w\<lparr>k_cash := c\<rparr>))))"

definition pk_data :: "string \<Rightarrow> string \<Rightarrow> string" where
  "pk_data nonce op = ''pk:'' @ nonce @ '':'' @ op"

definition answer_member :: "room_env \<Rightarrow> pk_world \<Rightarrow> string \<Rightarrow> pk_round \<Rightarrow> int \<Rightarrow> uid \<Rightarrow> string \<Rightarrow> real \<Rightarrow> room_error + pk_world" where
  "answer_member v w nonce r tg uid op now =
     (let is_target = (tg = k_target_tg r \<and> uid = k_target r); is_actor = (tg = k_tg r \<and> uid = k_actor r) in
      if op = ''decline'' then
        (if \<not> is_target \<and> \<not> is_actor then Inl NotYours
         else close_pk w nonce r (if is_target then Declined else Withdrawn) NoReason now)
      else if \<not> is_target then Inl (if is_actor then WaitTarget else OnlyTarget)
      else if \<not> e_on v then Inl GameClosed
      else accept_pk v w nonce r now)"

definition answer :: "room_env \<Rightarrow> pk_world \<Rightarrow> string \<Rightarrow> person \<Rightarrow> message \<Rightarrow> string \<Rightarrow> real \<Rightarrow> room_error + pk_world" where
  "answer v w nonce p m op now =
     (case map_of (k_rounds w) nonce of
        None \<Rightarrow> Inl NoRoom
      | Some r0 \<Rightarrow>
          bindR (in_card (card_context (e_bot v) (e_allowed v) (k_card r0) m (pk_data nonce op))) (\<lambda>card.
          let r = r0\<lparr>k_card := card\<rparr>; w0 = put_pk nonce r w in
          if k_state r \<noteq> Pending then Inr w0
          else bindR (play_actor (e_members v) p now) (\<lambda>(tg, mb). answer_member v w0 nonce r tg (mb_user mb) op now)))"

text \<open>A failure that is no answer to the member (\<open>except (ValueError, RuntimeError)\<close>) cancels the duel in a transaction of its own.\<close>

definition respond :: "room_env \<Rightarrow> pk_world \<Rightarrow> string \<Rightarrow> person \<Rightarrow> message \<Rightarrow> string \<Rightarrow> real \<Rightarrow> pk_world \<times> room_error option" where
  "respond v w nonce p m op now =
     (case pk_expire v w nonce now of
        Inl e \<Rightarrow> (w, Some e)
      | Inr w1 \<Rightarrow>
          if op \<notin> {''accept'', ''decline''} then (w1, Some BadOperation)
          else (case answer v w1 nonce p m op now of
            Inr w2 \<Rightarrow> (w2, None)
          | Inl e \<Rightarrow>
              if \<not> plain_error e then (w1, Some e)
              else (case map_of (k_rounds w1) nonce of
                  None \<Rightarrow> (w1, None)
                | Some r \<Rightarrow> (case close_pk w1 nonce r Cancelled UnsafeAccept now of Inl e' \<Rightarrow> (w1, Some e') | Inr w2 \<Rightarrow> (w2, None)))))"

section \<open>Telegram dice\<close>

definition next_side :: "roll list \<Rightarrow> side" where
  "next_side rolls = (if length rolls mod 2 = 0 then Challenger else Challenged)"

definition begin_roll :: "room_env \<Rightarrow> pk_world \<Rightarrow> string \<Rightarrow> string \<Rightarrow> real \<Rightarrow> room_error + pk_world \<times> pk_claim option" where
  "begin_roll v w nonce token now =
     (case map_of (k_rounds w) nonce of
        None \<Rightarrow> Inr (w, None)
      | Some r \<Rightarrow>
          if c_bot (k_card r) \<noteq> e_bot v \<or> k_state r \<noteq> Rolling \<or> c_message (k_card r) = None then Inr (w, None)
          else if k_roll r = Sending then
            (if k_lease r \<le> now then bindR (close_pk w nonce r Cancelled ThrowUnconfirmed now) (\<lambda>w'. Inr (w', None)) else Inr (w, None))
          else if k_roll r \<noteq> Ready \<or> now < k_due r then Inr (w, None)
          else
            Inr (put_pk nonce (r\<lparr>k_roll := Sending, k_token := token, k_lease := now + ROLL_LEASE_SECONDS, k_attempts := k_attempts r + 1\<rparr>) w,
                 Some \<lparr>cl_nonce = nonce, cl_token = token, cl_rolls = k_rolls r, cl_side = next_side (k_rolls r),
                       cl_round = int (length (k_rolls r) div 2) + 1\<rparr>))"

definition throw_of :: "pk_claim \<Rightarrow> int \<Rightarrow> int \<Rightarrow> roll" where
  "throw_of cl value mid = \<lparr>ro_round = cl_round cl, ro_side = cl_side cl, ro_value = value, ro_message = mid\<rparr>"

definition after_throw :: "pk_world \<Rightarrow> string \<Rightarrow> pk_round \<Rightarrow> pk_claim \<Rightarrow> real \<Rightarrow> room_error + pk_world" where
  "after_throw w nonce r cl now =
     (let rolls = k_rolls r; n = length rolls in
      if n mod 2 \<noteq> 0 then Inr w
      else
        let first = ro_value (rolls ! (n - 2)); second = ro_value (rolls ! (n - 1)) in
        if first \<noteq> second then finish_pk w nonce r (Some (if second < first then Challenger else Challenged)) now
        else if MAX_ROUNDS \<le> cl_round cl then finish_pk w nonce r None now
        else Inr (put_pk nonce (bumped r) w))"

definition record_roll :: "pk_world \<Rightarrow> pk_claim \<Rightarrow> int \<Rightarrow> int \<Rightarrow> real \<Rightarrow> room_error + pk_world" where
  "record_roll w cl value mid now =
     bindR (in_cash (integer value LQuantity 1 6)) (\<lambda>_.
     case map_of (k_rounds w) (cl_nonce cl) of
       None \<Rightarrow> Inr w
     | Some r \<Rightarrow>
         if k_state r \<noteq> Rolling \<or> k_roll r \<noteq> Sending \<or> k_token r \<noteq> cl_token cl \<or> length (k_rolls r) \<noteq> length (cl_rolls cl) then Inr w
         else
           let r1 = r\<lparr>k_rolls := cl_rolls cl @ [throw_of cl value mid], k_roll := Ready, k_token := [], k_lease := 0, k_attempts := 0\<rparr> in
           after_throw (put_pk (cl_nonce cl) r1 w) (cl_nonce cl) r1 cl now)"

definition roll_failed :: "pk_world \<Rightarrow> pk_claim \<Rightarrow> bool \<Rightarrow> int \<Rightarrow> real \<Rightarrow> room_error + pk_world" where
  "roll_failed w cl retry retry_after now =
     (case map_of (k_rounds w) (cl_nonce cl) of
        None \<Rightarrow> Inr w
      | Some r \<Rightarrow>
          if k_state r \<noteq> Rolling \<or> k_token r \<noteq> cl_token cl then Inr w
          else if retry \<and> k_attempts r < ROLL_RETRIES then
            Inr (put_pk (cl_nonce cl) (r\<lparr>k_roll := Ready, k_token := [], k_lease := 0, k_due := now + of_int (max 3 retry_after)\<rparr>) w)
          else close_pk w (cl_nonce cl) r Cancelled ThrowNotSent now)"

definition cancel_unsent :: "pk_world \<Rightarrow> string \<Rightarrow> string \<Rightarrow> real \<Rightarrow> room_error + pk_world" where
  "cancel_unsent w nonce why now =
     (case map_of (k_rounds w) nonce of
        None \<Rightarrow> Inr w
      | Some r \<Rightarrow> if c_message (k_card r) = None then close_pk w nonce r Cancelled (Other why) now else Inr w)"

definition rolling :: "room_env \<Rightarrow> pk_world \<Rightarrow> real \<Rightarrow> string list" where
  "rolling v w now =
     map fst (take 50 (sort_key (\<lambda>(n, r). k_accepted r)
       (filter (\<lambda>(n, r). c_bot (k_card r) = e_bot v \<and> k_state r = Rolling \<and> k_roll r = Ready \<and> k_due r \<le> now) (k_rounds w))))"

section \<open>Histories\<close>

text \<open>
  Workers report on the claims they were handed, late, twice or never; the claims are kept beside the rows. Publication changes the
  card of a row only.
\<close>

definition pk_card :: "string \<Rightarrow> (card \<Rightarrow> card) \<Rightarrow> pk_world \<Rightarrow> pk_world" where
  "pk_card nonce f w =
     (case map_of (k_rounds w) nonce of None \<Rightarrow> w | Some r \<Rightarrow> put_pk nonce (r\<lparr>k_card := f (k_card r)\<rparr>) w)"

datatype pk_op =
    PkCreate message person pk_target int int string
  | PkRespond string person message string
  | PkBegin string string
  | PkRecord pk_claim int int
  | PkFailed pk_claim bool int
  | PkExpire string
  | PkExpireDue
  | PkUnsent string string
  | PkPublish string string
  | PkPublished string card int
  | PkPublishFailed string card bool int

type_synonym pk_conf = "pk_world \<times> pk_claim list"

definition keep_claims :: "pk_claim list \<Rightarrow> room_error + pk_world \<Rightarrow> room_error + pk_conf" where
  "keep_claims cls r = bindR r (\<lambda>w. Inr (w, cls))"

fun pk_step :: "pk_conf \<Rightarrow> room_env \<times> real \<times> pk_op \<Rightarrow> room_error + pk_conf" where
  "pk_step (w, cls) (v, now, PkCreate m p t stake wait nonce) = Inr (fst (pk_create v w m p t stake wait nonce now), cls)"
| "pk_step (w, cls) (v, now, PkRespond nonce p m op) = Inr (fst (respond v w nonce p m op now), cls)"
| "pk_step (w, cls) (v, now, PkBegin nonce token) =
     bindR (begin_roll v w nonce token now) (\<lambda>(w', cl). Inr (w', (case cl of None \<Rightarrow> cls | Some c \<Rightarrow> c # cls)))"
| "pk_step (w, cls) (v, now, PkRecord cl value mid) =
     (if cl \<in> set cls then keep_claims cls (record_roll w cl value mid now) else Inr (w, cls))"
| "pk_step (w, cls) (v, now, PkFailed cl retry after) =
     (if cl \<in> set cls then keep_claims cls (roll_failed w cl retry after now) else Inr (w, cls))"
| "pk_step (w, cls) (v, now, PkExpire nonce) = keep_claims cls (pk_expire v w nonce now)"
| "pk_step (w, cls) (v, now, PkExpireDue) = Inr (fst (pk_expire_due v w now), cls)"
| "pk_step (w, cls) (v, now, PkUnsent nonce why) = keep_claims cls (cancel_unsent w nonce why now)"
| "pk_step (w, cls) (v, now, PkPublish nonce token) = Inr (pk_card nonce (\<lambda>c. fst (begin_publish (e_bot v) now token c)) w, cls)"
| "pk_step (w, cls) (v, now, PkPublished nonce job mid) = Inr (pk_card nonce (\<lambda>c. fst (published c job mid)) w, cls)"
| "pk_step (w, cls) (v, now, PkPublishFailed nonce job retry after) =
     Inr (pk_card nonce (\<lambda>c. publish_failed c job retry after now) w, cls)"

definition pk_empty :: "ledger \<Rightarrow> pk_conf" where
  "pk_empty rows = (\<lparr>k_cash = empty_cash rows, k_rounds = []\<rparr>, [])"

end
