(* ===== verification/PkRules.thy ===== *)
theory PkRules
  imports Pk RoomDemo
begin

text \<open>
  The duel refines a single function of the thrown values: \<open>duel\<close> compares them in pairs, three draws end it. The invariant ties
  the stored protocol to that function and the escrows to the state of the row; every step keeps it and the members' wealth.
\<close>

section \<open>The abstract duel\<close>

fun duel :: "nat \<Rightarrow> int list \<Rightarrow> side option option" where
  "duel 0 vs = Some None"
| "duel (Suc n) (x # y # vs) = (if y < x then Some (Some Challenger) else if x < y then Some (Some Challenged) else duel n vs)"
| "duel (Suc n) vs = None"

lemma duel_open_even:
  "duel n vs = None \<Longrightarrow> length vs < 2 * n"
  by (induction n vs rule: duel.induct) (auto split: if_splits)

lemma duel_open_half: "length vs < 2 * n \<Longrightarrow> duel n vs = None \<Longrightarrow> odd (length (vs @ [x])) \<Longrightarrow> duel n (vs @ [x]) = None"
proof (induction n vs rule: duel.induct)
  case (2 n x' y' vs)
  then show ?case by (auto split: if_splits)
qed (auto simp: numeral_2_eq_2 elim: duel.elims)

lemma duel_nil: "duel n [] = (if n = 0 then Some None else None)"
  by (cases n) simp_all

lemma duel_pair:
  "duel n vs = None \<Longrightarrow> even (length vs) \<Longrightarrow>
   duel n (vs @ [x, y]) = (if y < x then Some (Some Challenger) else if x < y then Some (Some Challenged)
     else if length vs + 2 = 2 * n then Some None else None)"
  by (induction n vs rule: duel.induct) (auto simp: duel_nil split: if_splits)

section \<open>The invariant\<close>

definition stake_of :: "cash \<Rightarrow> string \<Rightarrow> pk_round \<Rightarrow> side \<Rightarrow> int" where
  "stake_of c n r s = held c ''pk'' (pk_ref n s) (player r s)"

definition rolls_wf :: "roll list \<Rightarrow> bool" where
  "rolls_wf rolls \<longleftrightarrow> (\<forall>i < length rolls. ro_side (rolls ! i) = (if even i then Challenger else Challenged)
     \<and> ro_round (rolls ! i) = int (i div 2) + 1 \<and> 1 \<le> ro_value (rolls ! i) \<and> ro_value (rolls ! i) \<le> 6)"

definition pk_values :: "pk_round \<Rightarrow> int list" where
  "pk_values r = map ro_value (k_rolls r)"

definition duel_ok :: "cash \<Rightarrow> string \<Rightarrow> pk_round \<Rightarrow> bool" where
  "duel_ok c n r \<longleftrightarrow>
     0 \<le> k_stake r \<and> k_stake r \<le> MAX_STAKE \<and> k_actor r \<noteq> k_target r \<and> rolls_wf (k_rolls r)
     \<and> (k_state r = Pending \<longrightarrow> stake_of c n r Challenger = k_stake r \<and> \<not> has_escrow c ''pk'' (pk_ref n Challenged) (k_target r) \<and> k_rolls r = [])
     \<and> (k_state r = Rolling \<longrightarrow> stake_of c n r Challenger = k_stake r \<and> stake_of c n r Challenged = k_stake r \<and> duel 3 (pk_values r) = None)
     \<and> (\<not> active r \<longrightarrow> stake_of c n r Challenger = 0 \<and> stake_of c n r Challenged = 0)
     \<and> (k_state r = Settled \<longrightarrow> duel 3 (pk_values r) = Some (winner_of r))"

definition claim_ok :: "pk_world \<Rightarrow> pk_claim \<Rightarrow> bool" where
  "claim_ok w cl \<longleftrightarrow> (\<exists>r later. map_of (k_rounds w) (cl_nonce cl) = Some r \<and> k_rolls r = cl_rolls cl @ later)
     \<and> cl_side cl = next_side (cl_rolls cl) \<and> cl_round cl = int (length (cl_rolls cl) div 2) + 1"

definition pk_ok :: "pk_conf \<Rightarrow> bool" where
  "pk_ok conf \<longleftrightarrow> (case conf of (w, cls) \<Rightarrow>
     cash_ok (k_cash w) \<and> keyed (k_rounds w)
     \<and> (\<forall>n s u. map_of (k_rounds w) n = None \<longrightarrow> \<not> has_escrow (k_cash w) ''pk'' (pk_ref n s) u)
     \<and> (\<forall>n r. map_of (k_rounds w) n = Some r \<longrightarrow> duel_ok (k_cash w) n r)
     \<and> (\<forall>cl \<in> set cls. claim_ok w cl))"

lemma pk_okD:
  "pk_ok (w, cls) \<Longrightarrow> cash_ok (k_cash w)" "pk_ok (w, cls) \<Longrightarrow> keyed (k_rounds w)"
  "pk_ok (w, cls) \<Longrightarrow> map_of (k_rounds w) n = None \<Longrightarrow> \<not> has_escrow (k_cash w) ''pk'' (pk_ref n s) u"
  "pk_ok (w, cls) \<Longrightarrow> map_of (k_rounds w) n = Some r \<Longrightarrow> duel_ok (k_cash w) n r"
  "pk_ok (w, cls) \<Longrightarrow> cl \<in> set cls \<Longrightarrow> claim_ok w cl"
  by (auto simp: pk_ok_def)

lemma last_pk_ref: "last (pk_ref n s) = (case s of Challenger \<Rightarrow> CHR ''r'' | Challenged \<Rightarrow> CHR ''t'')"
  by (cases s) simp_all

lemma pk_ref_inj [simp]: "pk_ref n s = pk_ref m t \<longleftrightarrow> n = m \<and> s = t"
proof
  assume e: "pk_ref n s = pk_ref m t"
  then have "last (pk_ref n s) = last (pk_ref m t)" by simp
  then have "s = t" unfolding last_pk_ref by (simp split: side.splits)
  then show "n = m \<and> s = t" using e by (cases t) simp_all
qed simp

declare pk_ref.simps [simp del]

text \<open>An operation on the money of one duel leaves the escrows of the others alone.\<close>

definition elsewhere :: "string \<Rightarrow> cash \<Rightarrow> cash \<Rightarrow> bool" where
  "elsewhere n c c' \<longleftrightarrow> (\<forall>m s u. m \<noteq> n \<longrightarrow> held c' ''pk'' (pk_ref m s) u = held c ''pk'' (pk_ref m s) u
     \<and> has_escrow c' ''pk'' (pk_ref m s) u = has_escrow c ''pk'' (pk_ref m s) u)"

lemma elsewhereI:
  "(\<And>m s u. m \<noteq> n \<Longrightarrow> held c' ''pk'' (pk_ref m s) u = held c ''pk'' (pk_ref m s) u) \<Longrightarrow>
   (\<And>m s u. m \<noteq> n \<Longrightarrow> has_escrow c' ''pk'' (pk_ref m s) u = has_escrow c ''pk'' (pk_ref m s) u) \<Longrightarrow> elsewhere n c c'"
  by (simp add: elsewhere_def)

lemma elsewhere_refl [simp]: "elsewhere n c c"
  by (simp add: elsewhere_def)

lemma elsewhere_trans: "elsewhere n a b \<Longrightarrow> elsewhere n b c \<Longrightarrow> elsewhere n a c"
  by (simp add: elsewhere_def)

lemma duel_ok_elsewhere: "duel_ok c m r \<Longrightarrow> elsewhere n c c' \<Longrightarrow> m \<noteq> n \<Longrightarrow> duel_ok c' m r"
  by (simp add: duel_ok_def stake_of_def elsewhere_def)

lemma put_pk_simps [simp]:
  "k_cash (put_pk n r w) = k_cash w" "k_rounds (put_pk n r w) = put n r (k_rounds w)"
  "put_pk n r (put_pk n q w) = put_pk n r w" "(put_pk n r w)\<lparr>k_cash := c\<rparr> = put_pk n r (w\<lparr>k_cash := c\<rparr>)"
  by (simp_all add: put_pk_def)

lemma claim_ok_put:
  assumes "claim_ok w cl" "\<And>q. map_of (k_rounds w) n = Some q \<Longrightarrow> \<exists>later. k_rolls r = k_rolls q @ later"
  shows "claim_ok (put_pk n r (w\<lparr>k_cash := c\<rparr>)) cl"
proof (cases "cl_nonce cl = n")
  case True
  with assms(1) obtain q later where q: "map_of (k_rounds w) n = Some q" "k_rolls q = cl_rolls cl @ later" by (auto simp: claim_ok_def)
  obtain more where "k_rolls r = k_rolls q @ more" using assms(2) [OF q(1)] by blast
  then show ?thesis using assms(1) True q(2) by (auto simp: claim_ok_def)
qed (use assms(1) in \<open>auto simp: claim_ok_def\<close>)

lemma update_pk_ok:
  assumes ok: "pk_ok (w, cls)" and c: "cash_ok c" "elsewhere n (k_cash w) c" and r: "duel_ok c n r"
    and ext: "\<And>q. map_of (k_rounds w) n = Some q \<Longrightarrow> \<exists>later. k_rolls r = k_rolls q @ later"
  shows "pk_ok (put_pk n r (w\<lparr>k_cash := c\<rparr>), cls)"
proof -
  have "duel_ok c m q" if "map_of (k_rounds (put_pk n r (w\<lparr>k_cash := c\<rparr>))) m = Some q" for m q
    using that r duel_ok_elsewhere [OF pk_okD(4) [OF ok] c(2)] by (auto split: if_splits)
  moreover have "\<not> has_escrow c ''pk'' (pk_ref m s) u" if "map_of (k_rounds (put_pk n r (w\<lparr>k_cash := c\<rparr>))) m = None" for m s u
  proof -
    have "m \<noteq> n" "map_of (k_rounds w) m = None" using that by (auto split: if_splits)
    then show ?thesis using pk_okD(3) [OF ok] c(2) by (simp add: elsewhere_def)
  qed
  ultimately show ?thesis
    using ok c(1) claim_ok_put [OF pk_okD(5) [OF ok] ext] by (simp add: pk_ok_def)
qed

definition pk_keeps :: "pk_conf \<Rightarrow> pk_conf \<Rightarrow> bool" where
  "pk_keeps x y \<longleftrightarrow> pk_ok y \<and> wealth (k_cash (fst y)) = wealth (k_cash (fst x))"

lemma pk_keeps_refl: "pk_ok x \<Longrightarrow> pk_keeps x x"
  by (simp add: pk_keeps_def)

lemma pk_keeps_trans: "pk_keeps x y \<Longrightarrow> pk_keeps y z \<Longrightarrow> pk_keeps x z"
  by (simp add: pk_keeps_def)

section \<open>Closing\<close>

lemma stakes_bounded: "duel_ok c n r \<Longrightarrow> 0 \<le> k_stake r \<and> k_stake r \<le> MAX_INT \<and> 2 * k_stake r \<le> MAX_INT"
  by (auto simp: duel_ok_def MAX_STAKE_def MAX_INT_def)

lemma stake_held: "duel_ok c n r \<Longrightarrow> cash_ok c \<Longrightarrow> 0 \<le> stake_of c n r s \<and> stake_of c n r s \<le> MAX_INT"
proof -
  assume d: "duel_ok c n r" and c: "cash_ok c"
  have "stake_of c n r s \<le> k_stake r"
  proof (cases "k_state r")
    case Pending
    then have "stake_of c n r Challenged = 0" using d held_none by (simp add: duel_ok_def stake_of_def)
    then show ?thesis using d Pending by (cases s) (simp_all add: duel_ok_def)
  qed (use d in \<open>cases s; auto simp: duel_ok_def active_def\<close>)+
  moreover have "0 \<le> stake_of c n r s" using held_nonneg [OF c] by (simp add: stake_of_def)
  ultimately show ?thesis using stakes_bounded [OF d] by linarith
qed

lemma refund_sides_effect:
  assumes b: "\<And>s. 0 \<le> stake_of c n r s \<and> stake_of c n r s \<le> MAX_INT" and c: "cash_ok c"
  obtains c' where "refund_sides c n r now = Inr (c', stake_of c n r Challenger + stake_of c n r Challenged)"
    "cash_ok c'" "wealth c' = wealth c" "elsewhere n c c'" "\<And>s. stake_of c' n r s = 0"
    "\<And>u. spendable c' u = spendable c u + (if u = k_actor r then stake_of c n r Challenger else 0)
       + (if u = k_target r then stake_of c n r Challenged else 0)"
proof -
  let ?A = "pk_ref n Challenger" and ?T = "pk_ref n Challenged"
  obtain c1 where c1: "release c ''pk'' ?A (k_actor r) None ''play.release'' now = Inr (c1, stake_of c n r Challenger)"
    using release_total [of c "''pk''" ?A "k_actor r"] b [of Challenger] by (auto simp: stake_of_def)
  note v1 = release_views [OF c1] and k1 = release_keeps [OF c1 c]
  have t1: "held c1 ''pk'' ?T (k_target r) = stake_of c n r Challenged" using v1(2) by (simp add: stake_of_def)
  obtain c2 where c2: "release c1 ''pk'' ?T (k_target r) None ''play.release'' now = Inr (c2, stake_of c n r Challenged)"
    using release_total [of c1 "''pk''" ?T "k_target r"] b [of Challenged] t1 by auto
  note v2 = release_views [OF c2] and k2 = release_keeps [OF c2]
  have "elsewhere n c c2" using v1(2,3) v2(2,3) by (intro elsewhereI) auto
  moreover have "stake_of c2 n r s = 0" for s using v1(2) v2(2) by (cases s) (auto simp: stake_of_def)
  moreover have "refund_sides c n r now = Inr (c2, stake_of c n r Challenger + stake_of c n r Challenged)"
    using c1 c2 by (simp add: refund_sides_def)
  moreover have "spendable c2 u = spendable c u + (if u = k_actor r then stake_of c n r Challenger else 0)
       + (if u = k_target r then stake_of c n r Challenged else 0)" for u
    using v1(5) [of u] v2(5) [of u] t1 by (simp add: stake_of_def)
  ultimately show ?thesis using that k1 k2 by simp
qed

lemma closed_simps [simp]:
  "k_state (closed_round r st why x) = st" "k_rolls (closed_round r st why x) = k_rolls r" "k_stake (closed_round r st why x) = k_stake r"
  "player (closed_round r st why x) s = player r s" "k_actor (closed_round r st why x) = k_actor r" "k_target (closed_round r st why x) = k_target r"
  by (cases s; simp add: closed_round_def bumped_def)+

lemma player_cong [simp]: "player (r\<lparr>k_card := c\<rparr>) s = player r s"
  by (cases s) simp_all

lemma stake_of_closed [simp]: "stake_of c n (closed_round r st why x) s = stake_of c n r s"
  by (simp add: stake_of_def)

lemma duel_okI:
  "0 \<le> k_stake r \<Longrightarrow> k_stake r \<le> MAX_STAKE \<Longrightarrow> k_actor r \<noteq> k_target r \<Longrightarrow> rolls_wf (k_rolls r) \<Longrightarrow>
   (\<And>s. stake_of c n r s = 0) \<Longrightarrow> \<not> active r \<Longrightarrow> (k_state r = Settled \<Longrightarrow> duel 3 (pk_values r) = Some (winner_of r)) \<Longrightarrow> duel_ok c n r"
  by (auto simp: duel_ok_def active_def)

lemma duel_okD:
  assumes "duel_ok c n r"
  shows "0 \<le> k_stake r" "k_stake r \<le> MAX_STAKE" "k_actor r \<noteq> k_target r" "rolls_wf (k_rolls r)"
  using assms by (auto simp: duel_ok_def)

lemma close_effect:
  assumes ok: "pk_ok (w, cls)" and r: "map_of (k_rounds w) n = Some q" "duel_ok (k_cash w) n r" "k_rolls r = k_rolls q" "active r"
    and st: "st \<notin> {Pending, Rolling, Settled}"
  obtains w' q' where "close_pk w n r st why now = Inr w'" "pk_keeps (w, cls) (w', cls)" "map_of (k_rounds w') n = Some q'" "k_state q' = st"
    "\<forall>u. spendable (k_cash w') u = spendable (k_cash w) u + (if u = k_actor r then stake_of (k_cash w) n r Challenger else 0)
       + (if u = k_target r then stake_of (k_cash w) n r Challenged else 0)"
proof -
  note cash = pk_okD(1) [OF ok]
  note held = stake_held [OF r(2) cash]
  obtain c' x where step: "(if k_stake r \<noteq> 0 then refund_sides (k_cash w) n r (clock_int now) else Inr (k_cash w, 0)) = Inr (c', x)"
    and c': "cash_ok c'" "wealth c' = wealth (k_cash w)" "elsewhere n (k_cash w) c'" "\<And>s. stake_of c' n r s = 0"
    and sp: "\<forall>u. spendable c' u = spendable (k_cash w) u + (if u = k_actor r then stake_of (k_cash w) n r Challenger else 0)
       + (if u = k_target r then stake_of (k_cash w) n r Challenged else 0)"
  proof (cases "k_stake r = 0")
    case True
    have "stake_of (k_cash w) n r s = 0" for s
      using r(2,4) True held_none by (cases s) (auto simp: duel_ok_def active_def stake_of_def)
    then show ?thesis using that [of "k_cash w" 0] True cash by simp
  next
    case False
    show ?thesis by (rule refund_sides_effect [OF held cash, where now = "clock_int now"]) (use that False in simp)
  qed
  let ?q = "closed_round r st why x"
  have d: "duel_ok c' n ?q"
    using st c'(4) duel_okD [OF r(2)] by (intro duel_okI) (auto simp: active_def)
  have "pk_ok (put_pk n ?q (w\<lparr>k_cash := c'\<rparr>), cls)" by (rule update_pk_ok [OF ok c'(1,3) d]) (use r(1,3) in simp)
  moreover have "close_pk w n r st why now = Inr (put_pk n ?q (w\<lparr>k_cash := c'\<rparr>))" using r(4) step by (simp add: close_pk_def)
  ultimately show ?thesis using that [of "put_pk n ?q (w\<lparr>k_cash := c'\<rparr>)" ?q] c'(2) sp by (simp add: pk_keeps_def)
qed

section \<open>Settling\<close>

definition pk_award :: "pk_round \<Rightarrow> side option \<Rightarrow> uid \<Rightarrow> int" where
  "pk_award r win u =
     (case win of
        Some s \<Rightarrow> if u = player r s then 2 * k_stake r else 0
      | None \<Rightarrow> if u = k_actor r \<or> u = k_target r then k_stake r else 0)"

lemma pay_winner_effect:
  assumes d: "k_actor r \<noteq> k_target r" and b: "\<And>s. stake_of c n r s = k_stake r" "0 < k_stake r" "2 * k_stake r \<le> MAX_INT" and c: "cash_ok c"
  obtains c' where "pay_winner c n r win now = Inr c'" "cash_ok c'" "wealth c' = wealth c" "elsewhere n c c'" "\<And>s. stake_of c' n r s = 0"
    "\<forall>u. spendable c' u = spendable c u + pk_award r win u"
proof (cases win)
  case None
  obtain c' where "refund_sides c n r now = Inr (c', stake_of c n r Challenger + stake_of c n r Challenged)"
    "cash_ok c'" "wealth c' = wealth c" "elsewhere n c c'" "\<And>s. stake_of c' n r s = 0"
    "\<And>u. spendable c' u = spendable c u + (if u = k_actor r then stake_of c n r Challenger else 0)
       + (if u = k_target r then stake_of c n r Challenged else 0)"
    by (rule refund_sides_effect [OF _ c, of n r now]) (use b in auto)
  then show ?thesis using that [of c'] None d b(1) by (simp add: pay_winner_def pk_award_def)
next
  case (Some side)
  let ?A = "pk_ref n Challenger" and ?T = "pk_ref n Challenged" and ?F = "''pk:'' @ n" and ?a = "k_stake r"
  have a: "1 \<le> ?a" "?a \<le> MAX_INT" using b(2,3) by simp_all
  obtain c1 where c1: "consume c ''pk'' ?A (k_actor r) ?a ''poker'' ?F now = Inr c1"
    using consume_total [of ?a c "''pk''" ?A "k_actor r" "''poker''" ?F now] a b(1) [of Challenger] by (auto simp: stake_of_def)
  note v1 = consume_views [OF c1] and k1 = consume_keeps [OF c1 c]
  obtain c2 where c2: "consume c1 ''pk'' ?T (k_target r) ?a ''poker'' ?F now = Inr c2"
    using consume_total [of ?a c1 "''pk''" ?T "k_target r" "''poker''" ?F now] a b(1) [of Challenged] v1(1) by (auto simp: stake_of_def)
  note v2 = consume_views [OF c2] and k2 = consume_keeps [OF c2]
  have "2 * ?a \<le> fund_held c2 ''poker'' ?F"
    using v2(3) [of "''poker''" ?F] v1(3) [of "''poker''" ?F] fund_nonneg [OF c, of "''poker''" ?F] by simp
  then obtain c3 where c3: "payout c2 ''poker'' ?F (player r side) (2 * ?a) now = Inr c3"
    using payout_total [of "2 * ?a" c2 "''poker''" ?F] b(2,3) by auto
  note v3 = payout_views [OF c3] and k3 = payout_keeps [OF c3]
  have "elsewhere n c c3" using v1(1,2) v2(1,2) v3(1,2) by (intro elsewhereI) auto
  moreover have "stake_of c3 n r s = 0" for s
    using v1(1) v2(1) v3(1) b(1) [of s] by (cases s) (auto simp: stake_of_def)
  moreover have "\<forall>u. spendable c3 u = spendable c u + pk_award r win u"
    using v1(4) v2(4) v3(4) Some by (simp add: pk_award_def)
  moreover have "pay_winner c n r win now = Inr c3" using Some c1 c2 c3 by (simp add: pay_winner_def)
  ultimately show ?thesis using that k1 k2 k3 by simp
qed

lemma finished_simps [simp]:
  "k_state (finished_round r win x now) = Settled" "k_rolls (finished_round r win x now) = k_rolls r"
  "k_stake (finished_round r win x now) = k_stake r" "player (finished_round r win x now) s = player r s"
  "k_actor (finished_round r win x now) = k_actor r" "k_target (finished_round r win x now) = k_target r"
  "winner_of (finished_round r win x now) = win" "stake_of c n (finished_round r win x now) s = stake_of c n r s"
  by (cases s; simp add: finished_round_def bumped_def winner_of_def stake_of_def)+

lemma finish_effect:
  assumes ok: "pk_ok (w, cls)" and q: "map_of (k_rounds w) n = Some q" "k_rolls r = k_rolls q @ later"
    and r: "0 \<le> k_stake r" "k_stake r \<le> MAX_STAKE" "k_actor r \<noteq> k_target r" "rolls_wf (k_rolls r)"
      "\<And>s. stake_of (k_cash w) n r s = k_stake r" "duel 3 (pk_values r) = Some win"
  obtains w' q' where "finish_pk (put_pk n r w) n r win now = Inr w'" "pk_keeps (w, cls) (w', cls)"
    "map_of (k_rounds w') n = Some q'" "winner_of q' = win"
    "\<forall>u. spendable (k_cash w') u = spendable (k_cash w) u + pk_award q' win u"
proof -
  note cash = pk_okD(1) [OF ok]
  obtain c' where step: "(if k_stake r \<noteq> 0 then pay_winner (k_cash w) n r win (clock_int now) else Inr (k_cash w)) = Inr c'"
    and c': "cash_ok c'" "wealth c' = wealth (k_cash w)" "elsewhere n (k_cash w) c'" "\<And>s. stake_of c' n r s = 0"
    and sp: "\<forall>u. spendable c' u = spendable (k_cash w) u + pk_award r win u"
  proof (cases "k_stake r = 0")
    case False
    have "2 * k_stake r \<le> MAX_INT" using r(2) by (simp add: MAX_STAKE_def MAX_INT_def)
    with False r(1) have b: "0 < k_stake r" "2 * k_stake r \<le> MAX_INT" by auto
    show ?thesis by (rule pay_winner_effect [OF r(3,5) b cash, where now = "clock_int now" and win = win]) (use that False in simp)
  qed (use that r(5) cash in \<open>simp add: pk_award_def split: option.split\<close>)
  define x where "x = (case win of None \<Rightarrow> 0 | Some s \<Rightarrow> winning_streak (put_pk n r w) (player r s))"
  let ?q = "finished_round r win x now"
  have d: "duel_ok c' n ?q"
    using c'(4) r(1-4,6) by (intro duel_okI) (auto simp: active_def pk_values_def)
  have "pk_ok (put_pk n ?q (w\<lparr>k_cash := c'\<rparr>), cls)" by (rule update_pk_ok [OF ok c'(1,3) d]) (use q in simp)
  moreover have "finish_pk (put_pk n r w) n r win now = Inr (put_pk n ?q (w\<lparr>k_cash := c'\<rparr>))"
    unfolding finish_pk_def put_pk_simps(1) step by (simp add: x_def)
  moreover have "pk_award ?q win u = pk_award r win u" for u by (simp add: pk_award_def split: option.split)
  ultimately show ?thesis using that [of "put_pk n ?q (w\<lparr>k_cash := c'\<rparr>)" ?q] c'(2) sp by (simp add: pk_keeps_def)
qed

section \<open>Every operation keeps the invariant\<close>

lemma duel_ok_same:
  assumes "k_stake q = k_stake r" "k_actor q = k_actor r" "k_target q = k_target r" "k_state q = k_state r" "k_rolls q = k_rolls r"
    "k_result q = k_result r"
  shows "duel_ok c n q = duel_ok c n r"
proof -
  have "player q s = player r s" for s using assms by (cases s) simp_all
  then show ?thesis using assms by (simp add: duel_ok_def stake_of_def active_def pk_values_def winner_of_def)
qed

text \<open>Changing the card or the throw bookkeeping of a row.\<close>

lemma same_money_ok:
  assumes ok: "pk_ok (w, cls)" and q: "map_of (k_rounds w) n = Some q"
    and same: "k_stake r = k_stake q" "k_actor r = k_actor q" "k_target r = k_target q" "k_state r = k_state q" "k_rolls r = k_rolls q"
      "k_result r = k_result q"
  shows "pk_keeps (w, cls) (put_pk n r w, cls)"
proof -
  have "duel_ok (k_cash w) n r" using duel_ok_same [OF same] pk_okD(4) [OF ok q] by simp
  then have "pk_ok (put_pk n r (w\<lparr>k_cash := k_cash w\<rparr>), cls)"
    by (intro update_pk_ok [OF ok pk_okD(1) [OF ok]]) (use q same(5) in simp_all)
  then show ?thesis by (simp add: pk_keeps_def)
qed

lemma close_keeps:
  assumes ok: "pk_ok (w, cls)" and r: "map_of (k_rounds w) n = Some r" and st: "st \<notin> {Pending, Rolling, Settled}"
  shows "\<exists>w'. close_pk w n r st why now = Inr w' \<and> pk_keeps (w, cls) (w', cls)"
proof (cases "active r")
  case True
  show ?thesis by (rule close_effect [OF ok r pk_okD(4) [OF ok r] refl True st, of why now]) blast
qed (use ok in \<open>simp add: close_pk_def pk_keeps_refl\<close>)

lemma pk_expire_keeps:
  assumes ok: "pk_ok (w, cls)"
  shows "\<exists>w'. pk_expire v w n now = Inr w' \<and> pk_keeps (w, cls) (w', cls)"
proof (cases "map_of (k_rounds w) n")
  case (Some r)
  note close = close_keeps [OF ok Some]
  show ?thesis using close [of Expired NoReason now] close [of Cancelled SwitchedOff now] close [of Cancelled ThrowUnconfirmed now]
      close [of Cancelled ThrowTimeout now] pk_keeps_refl [OF ok] by (simp add: pk_expire_def Some)
qed (use ok in \<open>simp add: pk_expire_def pk_keeps_refl\<close>)

lemma pk_expire_all_keeps:
  "pk_ok (w, cls) \<Longrightarrow> snd (pk_expire_all v now ns w) = None \<and> pk_keeps (w, cls) (fst (pk_expire_all v now ns w), cls)"
proof (induction ns arbitrary: w)
  case (Cons n ns)
  obtain w' where w': "pk_expire v w n now = Inr w'" "pk_keeps (w, cls) (w', cls)" using pk_expire_keeps [OF Cons.prems] by blast
  then have "pk_ok (w', cls)" by (simp add: pk_keeps_def)
  from Cons.IH [OF this] show ?case using w' pk_keeps_trans by simp
qed (simp add: pk_keeps_refl)

lemma new_duel_simps [simp]:
  "k_stake (new_duel v chat thread mid tg m p t stake wait now) = stake"
  "k_actor (new_duel v chat thread mid tg m p t stake wait now) = mb_user m"
  "k_target (new_duel v chat thread mid tg m p t stake wait now) = mb_user (fst (snd t))"
  "k_state (new_duel v chat thread mid tg m p t stake wait now) = Pending"
  "k_rolls (new_duel v chat thread mid tg m p t stake wait now) = []"
  by (cases t; simp add: new_duel_def)+

lemma new_duel_ok:
  assumes ok: "pk_ok (w, cls)" and fresh: "map_of (k_rounds w) n = None" and s: "0 \<le> k_stake r" "k_stake r \<le> MAX_STAKE"
    and p: "k_actor r \<noteq> k_target r" "k_state r = Pending" "k_rolls r = []"
    and c: "cash_ok c" "wealth c = wealth (k_cash w)"
      "\<And>m s u. held c ''pk'' (pk_ref m s) u = (if (m, s, u) = (n, Challenger, k_actor r) then k_stake r else held (k_cash w) ''pk'' (pk_ref m s) u)"
      "\<And>m s u. has_escrow c ''pk'' (pk_ref m s) u \<Longrightarrow> (m, s, u) = (n, Challenger, k_actor r) \<or> has_escrow (k_cash w) ''pk'' (pk_ref m s) u"
      "\<And>m s u. has_escrow (k_cash w) ''pk'' (pk_ref m s) u \<Longrightarrow> has_escrow c ''pk'' (pk_ref m s) u"
  shows "pk_keeps (w, cls) (put_pk n r (w\<lparr>k_cash := c\<rparr>), cls)"
proof -
  have "elsewhere n (k_cash w) c"
  proof (rule elsewhereI)
    show "has_escrow c ''pk'' (pk_ref m s) u = has_escrow (k_cash w) ''pk'' (pk_ref m s) u" if "m \<noteq> n" for m s u
      using c(4) [of m s u] c(5) [of m s u] that by blast
  qed (use c(3) in simp)
  moreover have "duel_ok c n r"
    using s p c(3) [of n Challenger "k_actor r"] c(4) [of n Challenged "k_target r"] pk_okD(3) [OF ok fresh]
    by (auto simp: duel_ok_def active_def stake_of_def rolls_wf_def)
  ultimately show ?thesis
    using update_pk_ok [OF ok c(1), of n r] fresh c(2) by (simp add: pk_keeps_def)
qed

lemma challenge_keeps:
  assumes ok: "pk_ok (w, cls)" and tx: "challenge v w chat thread mid p t stake wait nonce now = Inr (w', k)"
    and s: "0 \<le> stake" "stake \<le> MAX_STAKE"
  shows "pk_keeps (w, cls) (w', cls)"
proof -
  obtain tg m where a: "play_actor (e_members v) p now = Inr (tg, m)" using tx by (auto simp: challenge_def)
  show ?thesis
  proof (cases "find (\<lambda>(n, r). c_bot (k_card r) = e_bot v \<and> c_chat (k_card r) = chat \<and> c_command (k_card r) = mid) (k_rounds w)")
    case (Some nr)
    then have "w' = w" using tx a by (cases nr) (auto simp: challenge_def split: if_splits)
    then show ?thesis using pk_keeps_refl [OF ok] by simp
  next
    case None
    obtain ttg tm tname tuser where o: "opponent v t now = Inr (ttg, tm, tname, tuser)"
      using tx a None by (auto simp: challenge_def split: if_splits)
    define r where "r = new_duel v chat thread mid tg m p (ttg, tm, tname, tuser) stake wait now"
    have fresh: "map_of (k_rounds w) nonce = None" and self: "k_actor r \<noteq> k_target r"
      using tx a None o by (auto simp: challenge_def r_def split: if_splits)
    have rs: "k_stake r = stake" "k_actor r = mb_user m" "k_state r = Pending" "k_rolls r = []" by (simp_all add: r_def)
    note new = new_duel_ok [OF ok fresh, of r]
    show ?thesis
    proof (cases "stake = 0")
      case True
      have "w' = put_pk nonce r w"
        using tx a None o True by (auto simp: challenge_def r_def Let_def split: if_splits)
      then show ?thesis
        using new [of "k_cash w"] rs self s True pk_okD(1,3) [OF ok] fresh held_none [of "k_cash w" "''pk''" "pk_ref nonce Challenger" "mb_user m"]
        by simp
    next
      case False
      obtain c b where c: "reserve (k_cash w) ''pk'' (pk_ref nonce Challenger) (mb_user m) stake ''play.reserve'' (clock_int now) = Inr (c, b)"
        and w': "w' = put_pk nonce r (w\<lparr>k_cash := c\<rparr>)"
        using tx a None o False by (auto simp: challenge_def r_def Let_def split: if_splits)
      have free: "\<not> has_escrow (k_cash w) ''pk'' (pk_ref nonce Challenger) (mb_user m)" by (rule pk_okD(3) [OF ok fresh])
      note v = reserve_views [OF c free]
      show ?thesis unfolding w'
        by (rule new) (use rs self s v(1,2) reserve_keeps [OF c pk_okD(1) [OF ok]] in auto)
    qed
  qed
qed

lemma pk_create_keeps:
  assumes ok: "pk_ok (w, cls)"
  shows "pk_keeps (w, cls) (fst (pk_create v w m p t stake wait nonce now), cls)"
proof -
  obtain w1 e where x: "pk_expire_due v w now = (w1, e)" by (cases "pk_expire_due v w now")
  have w1: "pk_keeps (w, cls) (w1, cls)" "e = None" using pk_expire_all_keeps [OF ok] x unfolding pk_expire_due_def by (metis fst_conv snd_conv)+
  have ok1: "pk_ok (w1, cls)" using w1(1) by (simp add: pk_keeps_def)
  have tx: "pk_keeps (w1, cls) (w2, cls)" if t: "pk_create_tx v w1 m p t stake wait nonce now = Inr (w2, k)" for w2 k
  proof -
    obtain chat thread mid s where "challenge v w1 chat thread mid p t s wait nonce now = Inr (w2, k)" "0 \<le> s \<and> s \<le> MAX_STAKE"
      using t by (auto simp: pk_create_tx_def MAX_STAKE_def MAX_INT_def split: if_splits option.splits)
    then show ?thesis using challenge_keeps [OF ok1] by blast
  qed
  show ?thesis
    using w1 pk_keeps_trans [OF w1(1) tx] by (auto simp: pk_create_def x split: sum.splits)
qed

lemma accept_keeps:
  assumes ok: "pk_ok (w, cls)" and r: "map_of (k_rounds w) n = Some r" "k_state r = Pending"
    and tx: "accept_pk v w n r now = Inr w'"
  shows "pk_keeps (w, cls) (w', cls)"
proof -
  note d = pk_okD(4) [OF ok r(1)]
  let ?q = "bumped (r\<lparr>k_state := Rolling, k_roll := Ready, k_rolls := [], k_due := 0, k_accepted := now\<rparr>)"
  have q: "k_state ?q = Rolling" "k_rolls ?q = []" "k_stake ?q = k_stake r" "k_actor ?q = k_actor r" "k_target ?q = k_target r"
    "player ?q s = player r s" for s
    by (cases s; simp add: bumped_def)+
  have rolls: "k_rolls r = []" using d r(2) by (simp add: duel_ok_def)
  have started: "pk_keeps (w, cls) (put_pk n ?q (w\<lparr>k_cash := c\<rparr>), cls)"
    if "cash_ok c" "wealth c = wealth (k_cash w)" "elsewhere n (k_cash w) c" "\<And>s. stake_of c n r s = k_stake r" for c
  proof -
    have "stake_of c n ?q s = k_stake r" for s using q(6) that(4) by (simp add: stake_of_def)
    then have "duel_ok c n ?q"
      using duel_okD [OF d] q(1-5) rolls unfolding duel_ok_def active_def pk_values_def by (simp add: numeral_3_eq_3)
    then show ?thesis using update_pk_ok [OF ok that(1,3)] that(2) r(1) rolls by (simp add: pk_keeps_def)
  qed
  consider "close_pk w n r Cancelled ActorGone now = Inr w'"
    | "k_stake r = 0" "w' = put_pk n ?q w"
    | c b where "k_stake r \<noteq> 0" "reserve (k_cash w) ''pk'' (pk_ref n Challenged) (k_target r) (k_stake r) ''play.reserve'' (clock_int now) = Inr (c, b)"
        "w' = put_pk n ?q (w\<lparr>k_cash := c\<rparr>)"
    using tx by (auto simp: accept_pk_def split: if_splits)
  then show ?thesis
  proof cases
    case 1
    then show ?thesis using close_keeps [OF ok r(1), of Cancelled ActorGone now] by simp
  next
    case 2
    have "stake_of (k_cash w) n r s = 0" for s
      using d r(2) 2(1) held_none by (cases s) (auto simp: duel_ok_def stake_of_def)
    then show ?thesis using started [of "k_cash w"] 2 pk_okD(1) [OF ok] by simp
  next
    case 3
    have free: "\<not> has_escrow (k_cash w) ''pk'' (pk_ref n Challenged) (k_target r)"
      and mine: "held (k_cash w) ''pk'' (pk_ref n Challenger) (k_actor r) = k_stake r" using d r(2) by (auto simp: duel_ok_def stake_of_def)
    note v = reserve_views [OF 3(2) free] and k = reserve_keeps [OF 3(2) pk_okD(1) [OF ok]]
    have "stake_of c n r s = k_stake r" for s using v(1) mine by (cases s) (auto simp: stake_of_def)
    moreover have "elsewhere n (k_cash w) c" using v(1,2) by (intro elsewhereI) auto
    ultimately show ?thesis unfolding 3(3) by (intro started) (use k in auto)
  qed
qed

lemma pk_card_keeps:
  assumes ok: "pk_ok (w, cls)"
  shows "pk_keeps (w, cls) (pk_card n f w, cls)"
proof (cases "map_of (k_rounds w) n")
  case (Some r)
  have "pk_keeps (w, cls) (put_pk n (r\<lparr>k_card := f (k_card r)\<rparr>) w, cls)" by (rule same_money_ok [OF ok Some]) simp_all
  then show ?thesis by (simp add: pk_card_def Some)
qed (use ok in \<open>simp add: pk_card_def pk_keeps_refl\<close>)

lemma answer_member_keeps:
  assumes ok: "pk_ok (w, cls)" and r: "map_of (k_rounds w) n = Some r" "k_state r = Pending"
    and tx: "answer_member v w n r tg uid op now = Inr w'"
  shows "pk_keeps (w, cls) (w', cls)"
proof (cases "op = ''decline''")
  case True
  then have "close_pk w n r (if tg = k_target_tg r \<and> uid = k_target r then Declined else Withdrawn) NoReason now = Inr w'"
    using tx by (simp add: answer_member_def Let_def split: if_split_asm)
  then show ?thesis
    using close_keeps [OF ok r(1), of "if tg = k_target_tg r \<and> uid = k_target r then Declined else Withdrawn" NoReason now]
    by (simp split: if_split_asm)
next
  case False
  then have "accept_pk v w n r now = Inr w'" using tx by (simp add: answer_member_def Let_def split: if_split_asm)
  then show ?thesis by (rule accept_keeps [OF ok r])
qed

lemma answer_keeps:
  assumes ok: "pk_ok (w, cls)" and tx: "answer v w n p m op now = Inr w'"
  shows "pk_keeps (w, cls) (w', cls)"
proof -
  obtain r0 where r0: "map_of (k_rounds w) n = Some r0" using tx by (auto simp: answer_def split: option.splits)
  obtain card where card: "card_context (e_bot v) (e_allowed v) (k_card r0) m (pk_data n op) = Inr card"
    using tx r0 by (auto simp: answer_def)
  let ?r = "r0\<lparr>k_card := card\<rparr>"
  let ?w = "put_pk n ?r w"
  have k0: "pk_keeps (w, cls) (?w, cls)" by (rule same_money_ok [OF ok r0]) simp_all
  then have ok0: "pk_ok (?w, cls)" by (simp add: pk_keeps_def)
  have r: "map_of (k_rounds ?w) n = Some ?r" by simp
  have "pk_keeps (?w, cls) (w', cls)"
  proof (cases "k_state ?r = Pending")
    case True
    obtain tg uid where "answer_member v ?w n ?r tg uid op now = Inr w'"
      using tx r0 card True by (auto simp: answer_def Let_def)
    then show ?thesis using answer_member_keeps [OF ok0 r True] by blast
  next
    case False
    then have "w' = ?w" using tx r0 card by (simp add: answer_def Let_def)
    then show ?thesis using pk_keeps_refl [OF ok0] by simp
  qed
  then show ?thesis using pk_keeps_trans [OF k0] by blast
qed

lemma respond_keeps:
  assumes ok: "pk_ok (w, cls)"
  shows "pk_keeps (w, cls) (fst (respond v w n p m op now), cls)"
proof -
  obtain w1 where w1: "pk_expire v w n now = Inr w1" "pk_keeps (w, cls) (w1, cls)" using pk_expire_keeps [OF ok] by blast
  then have ok1: "pk_ok (w1, cls)" by (simp add: pk_keeps_def)
  have ans: "pk_keeps (w, cls) (w2, cls)" if "answer v w1 n p m op now = Inr w2" for w2
    using pk_keeps_trans [OF w1(2) answer_keeps [OF ok1 that]] .
  have shut: "pk_keeps (w, cls) (w2, cls)"
    if "map_of (k_rounds w1) n = Some r" "close_pk w1 n r Cancelled UnsafeAccept now = Inr w2" for w2 r
    using pk_keeps_trans [OF w1(2)] close_keeps [OF ok1 that(1), of Cancelled UnsafeAccept now] that(2) by auto
  show ?thesis
  proof (cases "answer v w1 n p m op now")
    case (Inl e)
    then show ?thesis using shut w1(2) by (simp add: respond_def w1(1) split: option.split sum.split)
  next
    case (Inr w2)
    then show ?thesis using ans w1(2) by (simp add: respond_def w1(1))
  qed
qed

section \<open>Throwing\<close>

lemma duel_prefix: "duel n (vs @ ws) = None \<Longrightarrow> duel n vs = None"
  by (induction n vs rule: duel.induct) (auto split: if_splits)

lemma throw_decides:
  fixes t :: roll
  assumes open_duel: "duel 3 (map ro_value xs) = None" and odd: "odd (length xs)"
  defines "rolls \<equiv> xs @ [t]"
  defines "first \<equiv> ro_value (rolls ! (length rolls - 2))" and "second \<equiv> ro_value (rolls ! (length rolls - 1))"
  shows "duel 3 (map ro_value rolls) =
    (if first \<noteq> second then Some (Some (if second < first then Challenger else Challenged))
     else if MAX_ROUNDS \<le> int (length xs div 2) + 1 then Some None else None)"
proof -
  obtain front a where xs: "xs = front @ [a]" using odd by (cases xs rule: rev_cases) auto
  have even: "even (length (map ro_value front))" using odd xs by simp
  have fo: "duel 3 (map ro_value front) = None" using open_duel duel_prefix xs by simp
  have small: "length front < 6" using duel_open_even [OF fo] by simp
  have fs: "first = ro_value a" "second = ro_value t" by (simp_all add: first_def second_def rolls_def xs nth_append)
  obtain k where k: "length front = 2 * k" using even by (auto elim: evenE)
  have round: "MAX_ROUNDS \<le> int (length xs div 2) + 1 \<longleftrightarrow> length (map ro_value front) + 2 = 2 * 3"
    using k small by (simp add: xs MAX_ROUNDS_def) linarith
  show ?thesis using duel_pair [OF fo even, of "ro_value a" "ro_value t"] round fs by (simp add: rolls_def xs)
qed

lemma rolls_wf_snoc:
  assumes "rolls_wf xs" "ro_side t = next_side xs" "ro_round t = int (length xs div 2) + 1" "1 \<le> ro_value t" "ro_value t \<le> 6"
  shows "rolls_wf (xs @ [t])"
  using assms by (auto simp: rolls_wf_def nth_append next_side_def less_Suc_eq even_iff_mod_2_eq_zero)

text \<open>The transaction that settles a duel pays what the winner earned, and nobody else.\<close>

definition settles_fairly :: "pk_world \<Rightarrow> pk_world \<Rightarrow> string \<Rightarrow> bool" where
  "settles_fairly w w' n \<longleftrightarrow> (\<forall>r q. map_of (k_rounds w) n = Some r \<longrightarrow> k_state r = Rolling \<longrightarrow> map_of (k_rounds w') n = Some q \<longrightarrow>
     k_state q = Settled \<longrightarrow> (\<forall>u. spendable (k_cash w') u = spendable (k_cash w) u + pk_award q (winner_of q) u))"

lemma unsettled_fairly: "map_of (k_rounds w') n = Some q \<Longrightarrow> k_state q \<noteq> Settled \<Longrightarrow> settles_fairly w w' n"
  by (simp add: settles_fairly_def)

lemma record_keeps:
  assumes ok: "pk_ok (w, cls)" and cl: "cl \<in> set cls" and tx: "record_roll w cl value mid now = Inr w'"
  shows "pk_keeps (w, cls) (w', cls) \<and> settles_fairly w w' (cl_nonce cl)"
proof (cases "w' = w")
  case False
  let ?n = "cl_nonce cl"
  obtain r where r: "map_of (k_rounds w) ?n = Some r" and st: "k_state r = Rolling" and len: "length (k_rolls r) = length (cl_rolls cl)"
    using tx False by (auto simp: record_roll_def split: option.splits if_splits)
  have c: "k_rolls r = cl_rolls cl" "cl_side cl = next_side (k_rolls r)" "cl_round cl = int (length (k_rolls r) div 2) + 1"
    using pk_okD(5) [OF ok cl] r len by (auto simp: claim_ok_def)
  let ?xs = "k_rolls r" and ?t = "throw_of cl value mid"
  define q where "q = r\<lparr>k_rolls := cl_rolls cl @ [?t], k_roll := Ready, k_token := [], k_lease := 0, k_attempts := 0\<rparr>"
  have t: "after_throw (put_pk ?n q w) ?n q cl now = Inr w'" and bounds: "1 \<le> value" "value \<le> 6"
    using tx False r by (auto simp: record_roll_def q_def Let_def split: if_splits)
  note d = pk_okD(4) [OF ok r]
  have open_duel: "duel 3 (map ro_value ?xs) = None" and stakes: "\<And>s. stake_of (k_cash w) ?n r s = k_stake r"
    using d st by (auto simp: duel_ok_def active_def pk_values_def split: side.splits) (metis side.exhaust)
  have qs: "k_stake q = k_stake r" "k_actor q = k_actor r" "k_target q = k_target r" "k_state q = Rolling" "k_rolls q = ?xs @ [?t]"
    "player q s = player r s" for s
    using st c(1) by (cases s; simp add: q_def)+
  have qstake: "stake_of (k_cash w) ?n q s = k_stake q" for s using stakes qs by (simp add: stake_of_def)
  have wf: "rolls_wf (k_rolls q)"
    unfolding qs(5) by (rule rolls_wf_snoc [OF duel_okD(4) [OF d]]) (use c bounds in \<open>simp_all add: throw_of_def\<close>)
  note basic = duel_okD(1-3) [OF d, folded qs(1-3)] wf
  have going: "pk_keeps (w, cls) (put_pk ?n p w, cls) \<and> settles_fairly w (put_pk ?n p w) ?n"
    if "duel 3 (pk_values q) = None" "k_stake p = k_stake q" "k_actor p = k_actor q" "k_target p = k_target q" "k_state p = k_state q"
      "k_rolls p = k_rolls q" "k_result p = k_result q" for p
  proof -
    have "duel_ok (k_cash w) ?n q" using basic qs(4) qstake that(1) by (simp add: duel_ok_def active_def)
    then have "duel_ok (k_cash w) ?n p" using duel_ok_same [OF that(2-7)] by simp
    then have "pk_ok (put_pk ?n p (w\<lparr>k_cash := k_cash w\<rparr>), cls)"
      by (intro update_pk_ok [OF ok pk_okD(1) [OF ok]]) (use r qs(5) that(6) in simp_all)
    then show ?thesis using unsettled_fairly [of "put_pk ?n p w" ?n p] that(5) qs(4) by (simp add: pk_keeps_def)
  qed
  have decided: "pk_keeps (w, cls) (w', cls) \<and> settles_fairly w w' ?n" if "duel 3 (pk_values q) = Some win" "finish_pk (put_pk ?n q w) ?n q win now = Inr w'" for win
    by (rule finish_effect [OF ok r qs(5) basic qstake that(1), of now]) (use that(2) in \<open>simp add: settles_fairly_def\<close>)
  show ?thesis
  proof (cases "odd (length ?xs)")
    case False
    then have "duel 3 (pk_values q) = None"
      using duel_open_half [OF _ open_duel, of "value"] duel_open_even [OF open_duel] by (simp add: pk_values_def qs(5) throw_of_def)
    moreover have "w' = put_pk ?n q w" using t False by (simp add: after_throw_def Let_def qs(5) even_iff_mod_2_eq_zero [symmetric])
    ultimately show ?thesis using going [of q] by simp
  next
    case True
    note td = throw_decides [OF open_duel True, of ?t, folded qs(5), folded pk_values_def c(3)]
    have even: "length (k_rolls q) mod 2 = 0" using True qs(5) by (simp add: even_iff_mod_2_eq_zero [symmetric])
    show ?thesis
    proof (cases "duel 3 (pk_values q)")
      case None
      then have "w' = put_pk ?n (bumped q) w" using t td even by (auto simp: after_throw_def Let_def split: if_splits)
      then show ?thesis using going [of "bumped q"] None by (simp add: bumped_def)
    next
      case (Some win)
      then have "finish_pk (put_pk ?n q w) ?n q win now = Inr w'" using t td even by (auto simp: after_throw_def Let_def split: if_splits)
      then show ?thesis using decided Some by blast
    qed
  qed
qed (use ok in \<open>simp add: pk_keeps_refl settles_fairly_def\<close>)

lemma begin_keeps:
  assumes ok: "pk_ok (w, cls)" and tx: "begin_roll v w n token now = Inr (w', cl)"
  shows "pk_keeps (w, cls) (w', (case cl of None \<Rightarrow> cls | Some c \<Rightarrow> c # cls))"
proof (cases "map_of (k_rounds w) n")
  case (Some r)
  let ?q = "r\<lparr>k_roll := Sending, k_token := token, k_lease := now + ROLL_LEASE_SECONDS, k_attempts := k_attempts r + 1\<rparr>"
  let ?c = "\<lparr>cl_nonce = n, cl_token = token, cl_rolls = k_rolls r, cl_side = next_side (k_rolls r), cl_round = int (length (k_rolls r) div 2) + 1\<rparr>"
  consider "w' = w" "cl = None" | "close_pk w n r Cancelled ThrowUnconfirmed now = Inr w'" "cl = None" | "w' = put_pk n ?q w" "cl = Some ?c"
    using tx by (auto simp: begin_roll_def Some split: if_splits)
  then show ?thesis
  proof cases
    case 2
    then show ?thesis using close_keeps [OF ok Some, of Cancelled ThrowUnconfirmed now] by simp
  next
    case 3
    have k: "pk_keeps (w, cls) (put_pk n ?q w, cls)" by (rule same_money_ok [OF ok Some]) simp_all
    moreover have "claim_ok (put_pk n ?q w) ?c" by (simp add: claim_ok_def)
    ultimately show ?thesis using 3 by (simp add: pk_keeps_def pk_ok_def)
  qed (use ok in \<open>simp add: pk_keeps_refl\<close>)
qed (use tx ok in \<open>simp add: begin_roll_def pk_keeps_refl\<close>)

lemma failed_keeps:
  assumes ok: "pk_ok (w, cls)" and tx: "roll_failed w cl retry after now = Inr w'"
  shows "pk_keeps (w, cls) (w', cls)"
proof (cases "map_of (k_rounds w) (cl_nonce cl)")
  case (Some r)
  let ?q = "r\<lparr>k_roll := Ready, k_token := [], k_lease := 0, k_due := now + of_int (max 3 after)\<rparr>"
  have "pk_keeps (w, cls) (put_pk (cl_nonce cl) ?q w, cls)" by (rule same_money_ok [OF ok Some]) simp_all
  then show ?thesis
    using tx close_keeps [OF ok Some, of Cancelled ThrowNotSent now] pk_keeps_refl [OF ok]
    by (auto simp: roll_failed_def Some split: if_splits)
qed (use tx ok in \<open>simp add: roll_failed_def pk_keeps_refl\<close>)

lemma unsent_keeps:
  assumes ok: "pk_ok (w, cls)" and tx: "cancel_unsent w n why now = Inr w'"
  shows "pk_keeps (w, cls) (w', cls)"
proof (cases "map_of (k_rounds w) n")
  case (Some r)
  then show ?thesis
    using tx close_keeps [OF ok Some, of Cancelled "Other why" now] pk_keeps_refl [OF ok]
    by (auto simp: cancel_unsent_def split: if_splits)
qed (use tx ok in \<open>simp add: cancel_unsent_def pk_keeps_refl\<close>)

lemma pk_step_keeps:
  assumes ok: "pk_ok x" and step: "pk_step x op = Inr y"
  shows "pk_keeps x y"
proof -
  obtain w cls where x: "x = (w, cls)" by (cases x)
  obtain v now o1 where op: "op = (v, now, o1)" by (cases op)
  have ok: "pk_ok (w, cls)" using ok x by simp
  note step = step [unfolded x op]
  have "pk_keeps (w, cls) y"
  proof (cases o1)
    case (PkBegin n token)
    then show ?thesis using step begin_keeps [OF ok] by auto
  next
    case (PkRecord cl thrown mid)
    then show ?thesis using step record_keeps [OF ok] pk_keeps_refl [OF ok] by (auto simp: keep_claims_def split: if_splits)
  next
    case (PkFailed cl retry after)
    then show ?thesis using step failed_keeps [OF ok] pk_keeps_refl [OF ok] by (auto simp: keep_claims_def split: if_splits)
  next
    case (PkExpire n)
    then show ?thesis using step pk_expire_keeps [OF ok, of v n now] by (auto simp: keep_claims_def)
  next
    case (PkUnsent n why)
    then show ?thesis using step unsent_keeps [OF ok] by (auto simp: keep_claims_def)
  qed (use step pk_create_keeps [OF ok] respond_keeps [OF ok] pk_expire_all_keeps [OF ok] pk_card_keeps [OF ok] in \<open>auto simp: pk_expire_due_def\<close>)
  then show ?thesis using x by simp
qed

interpretation pk: accounting pk_step pk_ok "\<lambda>x. wealth (k_cash (fst x))"
  by unfold_locales (auto dest: pk_step_keeps simp: pk_keeps_def)

lemma pk_empty_ok: "pk_ok (pk_empty rows)"
  by (simp add: pk_ok_def pk_empty_def empty_cash_def cash_ok_def has_escrow_def)

lemma pk_run_ok: "runR pk_step (pk_empty rows) ops = Inr x \<Longrightarrow> pk_ok x"
  by (rule pk.run_ok [OF _ pk_empty_ok])

section \<open>A played duel\<close>

definition demo_pk_ops :: "(room_env \<times> real \<times> pk_op) list" where
  "demo_pk_ops = map (\<lambda>(t, x). (demo_room_env, t, x))
     [(100, PkCreate (demo_command 10) (demo_person ''ann'' 1) \<lparr>t_tg = Some 2, t_user = demo_person ''bob'' 2, t_username = []\<rparr> 10 120 ''n''),
      (101, PkPublish ''n'' ''t''),
      (102, PkPublished ''n'' ((card_of ''pk'' 99 5 0 10 100)\<lparr>c_token := ''t''\<rparr>) 11),
      (103, PkRespond ''n'' (demo_person ''bob'' 2) (demo_card [pk_data ''n'' ''accept'']) ''accept''),
      (104, PkBegin ''n'' ''x''),
      (105, PkRecord \<lparr>cl_nonce = ''n'', cl_token = ''x'', cl_rolls = [], cl_side = Challenger, cl_round = 1\<rparr> 5 20),
      (106, PkBegin ''n'' ''y'')]"

definition demo_claim :: pk_claim where
  "demo_claim = \<lparr>cl_nonce = ''n'', cl_token = ''y'', cl_rolls = [\<lparr>ro_round = 1, ro_side = Challenger, ro_value = 5, ro_message = 20\<rparr>],
     cl_side = Challenged, cl_round = 1\<rparr>"

text \<open>The duel before its last throw, and that throw.\<close>

lemma demo_pk:
  obtains w cls r w' q where "runR pk_step (pk_empty demo_room_points) demo_pk_ops = Inr (w, cls)" "demo_claim \<in> set cls"
    "map_of (k_rounds w) ''n'' = Some r" "k_state r = Rolling" "k_stake r = 10" "k_actor r = ''ann''" "k_accepted r = 103"
    "record_roll w demo_claim 3 21 107 = Inr w'" "map_of (k_rounds w') ''n'' = Some q" "k_state q = Settled" "k_stake q = 10"
    "k_actor q = ''ann''" "winner_of q = Some Challenger"
proof -
  have "case runR pk_step (pk_empty demo_room_points) demo_pk_ops of Inl _ \<Rightarrow> False
      | Inr (w, cls) \<Rightarrow> demo_claim \<in> set cls \<and> (case map_of (k_rounds w) ''n'' of None \<Rightarrow> False
          | Some r \<Rightarrow> k_state r = Rolling \<and> k_stake r = 10 \<and> k_actor r = ''ann'' \<and> k_accepted r = 103)
        \<and> (case record_roll w demo_claim 3 21 107 of Inl _ \<Rightarrow> False
          | Inr w' \<Rightarrow> (case map_of (k_rounds w') ''n'' of None \<Rightarrow> False
            | Some q \<Rightarrow> k_state q = Settled \<and> k_stake q = 10 \<and> k_actor q = ''ann'' \<and> winner_of q = Some Challenger))" by code_simp
  then show ?thesis using that by (auto split: sum.splits option.splits prod.splits)
qed

section \<open>Properties\<close>

text \<open>C29. The stored protocol refines the abstract duel: after any history of challenges, answers, throws reported late, twice or never,
  and expiries, the throws of a round alternate between the two members with values 1 to 6; a round still rolling is one that the
  abstract duel leaves open, and a settled round carries exactly the winner (or draw after three equal pairs) the abstract duel gives.\<close>

theorem pk_refines_duel:
  assumes "runR pk_step (pk_empty rows) ops = Inr (w, cls)" "map_of (k_rounds w) n = Some r"
  shows "rolls_wf (k_rolls r) \<and> (k_state r = Rolling \<longrightarrow> duel 3 (pk_values r) = None)
    \<and> (k_state r = Settled \<longrightarrow> duel 3 (pk_values r) = Some (winner_of r))"
  using pk_okD(4) [OF pk_run_ok [OF assms(1)] assms(2)] by (simp add: duel_ok_def)

theorem pk_refines_duel_witness:
  "\<exists>w cls r. runR pk_step (pk_empty demo_room_points) demo_pk_ops = Inr (w, cls) \<and> map_of (k_rounds w) ''n'' = Some r
     \<and> duel 3 (pk_values r) = None"
proof (rule demo_pk)
  fix w cls r w' q
  assume a: "runR pk_step (pk_empty demo_room_points) demo_pk_ops = Inr (w, cls)" "map_of (k_rounds w) ''n'' = Some r" "k_state r = Rolling"
  show ?thesis using pk_refines_duel [OF a(1,2)] a by blast
qed

text \<open>The throw that settles a duel pays it out exactly: whatever happened before, the winner receives both stakes (on a draw both
  members get theirs back), no other balance changes and no escrow of the duel is left.\<close>

theorem pk_settles_exactly:
  assumes "runR pk_step (pk_empty rows) ops = Inr (w, cls)" "cl \<in> set cls" "map_of (k_rounds w) (cl_nonce cl) = Some r" "k_state r = Rolling"
    and "record_roll w cl v mid now = Inr w'" "map_of (k_rounds w') (cl_nonce cl) = Some q" "k_state q = Settled"
  shows "(\<forall>u. spendable (k_cash w') u = spendable (k_cash w) u + pk_award q (winner_of q) u)
    \<and> (\<forall>s. held (k_cash w') ''pk'' (pk_ref (cl_nonce cl) s) (player q s) = 0)"
proof -
  have k: "pk_keeps (w, cls) (w', cls)" "settles_fairly w w' (cl_nonce cl)"
    using record_keeps [OF pk_run_ok [OF assms(1)] assms(2,5)] by blast+
  have "duel_ok (k_cash w') (cl_nonce cl) q" using k(1) pk_okD(4) [of w' cls, OF _ assms(6)] by (simp add: pk_keeps_def)
  then have "stake_of (k_cash w') (cl_nonce cl) q s = 0" for s using assms(7) by (cases s) (auto simp: duel_ok_def active_def)
  then show ?thesis using k(2) assms(3,4,6,7) by (simp add: settles_fairly_def stake_of_def)
qed

theorem pk_settles_exactly_witness:
  "\<exists>w w'. record_roll w demo_claim 3 21 107 = Inr w' \<and> spendable (k_cash w') ''ann'' = spendable (k_cash w) ''ann'' + 20"
proof (rule demo_pk)
  fix w cls r w' q
  assume a: "runR pk_step (pk_empty demo_room_points) demo_pk_ops = Inr (w, cls)" "demo_claim \<in> set cls" "map_of (k_rounds w) ''n'' = Some r"
    "k_state r = Rolling" and w': "record_roll w demo_claim 3 21 107 = Inr w'" and q: "map_of (k_rounds w') ''n'' = Some q" "k_state q = Settled"
    and s: "k_stake q = 10" "k_actor q = ''ann''" "winner_of q = Some Challenger"
  have n: "cl_nonce demo_claim = ''n''" by (simp add: demo_claim_def)
  have "\<forall>u. spendable (k_cash w') u = spendable (k_cash w) u + pk_award q (winner_of q) u"
    using pk_settles_exactly [OF a(1,2) _ a(4) w', unfolded n, OF a(3) q] by blast
  from spec [OF this, of "''ann''"] have "spendable (k_cash w') ''ann'' = spendable (k_cash w) ''ann'' + 20" using s by (simp add: pk_award_def)
  then show ?thesis using w' by blast
qed

definition overdue :: "room_env \<Rightarrow> pk_round \<Rightarrow> real \<Rightarrow> bool" where
  "overdue v r now \<longleftrightarrow> k_state r = Pending \<and> (k_expires r \<le> now \<or> \<not> e_on v)
     \<or> k_state r = Rolling \<and> (k_accepted r + ROLL_STALE_SECONDS \<le> now \<or> k_roll r = Sending \<and> k_lease r \<le> now)"

lemma expire_overdue:
  assumes "map_of (k_rounds w) n = Some r" "overdue v r now"
  obtains st why where "pk_expire v w n now = close_pk w n r st why now" "st \<in> {Expired, Cancelled}"
  using assms by (cases "k_expires r \<le> now"; cases "k_roll r = Sending \<and> k_lease r \<le> now") (auto simp: pk_expire_def overdue_def)

text \<open>C30. No stake is ever locked: after any history, expiring a challenge whose time is over (or while the game is off), or a duel with an
  unconfirmed or stale throw, succeeds, closes the duel and returns every stake that was frozen: the challenger's, and the challenged
  member's once the duel was accepted.\<close>

theorem pk_returns_stakes:
  assumes "runR pk_step (pk_empty rows) ops = Inr (w, cls)" "map_of (k_rounds w) n = Some r" "overdue v r now"
  shows "\<exists>w' q. pk_expire v w n now = Inr w' \<and> map_of (k_rounds w') n = Some q \<and> \<not> active q
    \<and> (\<forall>u. spendable (k_cash w') u = spendable (k_cash w) u + (if u = k_actor r then k_stake r else 0)
          + (if u = k_target r \<and> k_state r = Rolling then k_stake r else 0))"
proof -
  note ok = pk_run_ok [OF assms(1)]
  note d = pk_okD(4) [OF ok assms(2)]
  have act: "active r" using assms(3) by (auto simp: overdue_def active_def)
  obtain st why where e: "pk_expire v w n now = close_pk w n r st why now" "st \<in> {Expired, Cancelled}"
    using expire_overdue [OF assms(2,3)] .
  obtain w' q where "close_pk w n r st why now = Inr w'" "map_of (k_rounds w') n = Some q" "k_state q = st"
    "\<forall>u. spendable (k_cash w') u = spendable (k_cash w) u + (if u = k_actor r then stake_of (k_cash w) n r Challenger else 0)
       + (if u = k_target r then stake_of (k_cash w) n r Challenged else 0)"
    by (rule close_effect [OF ok assms(2) d refl act, of st why now]) (use e(2) in auto)
  moreover have "stake_of (k_cash w) n r Challenger = k_stake r"
    "stake_of (k_cash w) n r Challenged = (if k_state r = Rolling then k_stake r else 0)"
    using d act held_none by (auto simp: duel_ok_def active_def stake_of_def)
  ultimately show ?thesis using e by (auto simp: active_def)
qed

theorem pk_returns_stakes_witness:
  "\<exists>w w'. pk_expire demo_room_env w ''n'' 703 = Inr w' \<and> spendable (k_cash w') ''ann'' = spendable (k_cash w) ''ann'' + 10"
proof (rule demo_pk)
  fix w cls r w' q
  assume a: "runR pk_step (pk_empty demo_room_points) demo_pk_ops = Inr (w, cls)" "map_of (k_rounds w) ''n'' = Some r"
    and s: "k_state r = Rolling" "k_stake r = 10" "k_actor r = ''ann''" "k_accepted r = 103"
  have "overdue demo_room_env r 703" using s by (simp add: overdue_def ROLL_STALE_SECONDS_def)
  from pk_returns_stakes [OF a this] obtain w' where w': "pk_expire demo_room_env w ''n'' 703 = Inr w'"
    and sp: "\<forall>u. spendable (k_cash w') u = spendable (k_cash w) u + (if u = k_actor r then k_stake r else 0)
          + (if u = k_target r \<and> k_state r = Rolling then k_stake r else 0)" by blast
  have "k_target r \<noteq> ''ann''" using duel_okD(3) [OF pk_okD(4) [OF pk_run_ok [OF a(1)] a(2)]] s(3) by simp
  then have "spendable (k_cash w') ''ann'' = spendable (k_cash w) ''ann'' + 10" using spec [OF sp, of "''ann''"] s by simp
  then show ?thesis using w' by blast
qed

end
