(* ===== verification/NiuniuReport.thy ===== *)
theory NiuniuReport
  imports PlayRooms
begin

text \<open>
  \<^verbatim>\<open>backend/app/modules/niuniu_delivery.py\<close>: one result message per finished room, then deletion of the room's card. The
  columns \<open>result_*\<close> and \<open>card_delete_*\<close> of a row are a \<open>report\<close>; claiming and finishing are the operations of a
  delivery worker. A claim is the lease a worker holds; workers report late, twice or never. The text of the report is not modelled.
\<close>

section \<open>State\<close>

datatype post_state = PostNone | PostPending | PostSending | PostRetry | PostSent | PostFailed | PostUnknown

datatype sweep_state = SweepNone | SweepWaiting | SweepPending | SweepDeleting | SweepRetry | SweepDeleted | SweepFailed

datatype failure = FailRetry | FailFinal | FailOther

record report =
  rp_state :: post_state
  rp_lease :: real
  rp_due :: real
  rp_attempts :: int
  rp_message :: "int option"
  cd_state :: sweep_state
  cd_lease :: real
  cd_due :: real
  cd_attempts :: int

record report_job =
  j_lease :: real
  j_attempts :: int

definition no_report :: report where
  "no_report = \<lparr>rp_state = PostNone, rp_lease = 0, rp_due = 0, rp_attempts = 0, rp_message = None,
     cd_state = SweepNone, cd_lease = 0, cd_due = 0, cd_attempts = 0\<rparr>"

section \<open>Operations\<close>

definition queue_result :: "report \<Rightarrow> report" where
  "queue_result d = (if rp_state d = PostNone then d\<lparr>rp_state := PostPending, cd_state := SweepWaiting\<rparr> else d)"

text \<open>The column is a message number; \<open>not row[...]\<close> also holds of 0.\<close>

definition bound_message :: "int option \<Rightarrow> bool" where
  "bound_message m \<longleftrightarrow> m \<noteq> None \<and> m \<noteq> Some 0"

definition unconfirmed :: "report \<Rightarrow> real \<Rightarrow> bool" where
  "unconfirmed d now \<longleftrightarrow> rp_state d = PostSending \<and> rp_lease d \<le> now"

definition postable :: "card \<Rightarrow> report \<Rightarrow> real \<Rightarrow> bool" where
  "postable c d now \<longleftrightarrow> \<not> (rp_state d \<notin> {PostPending, PostRetry} \<or> now < rp_due d \<or> \<not> bound_message (c_message c) \<or> c_rendered c < c_revision c)"

definition claim_report :: "int \<Rightarrow> real \<Rightarrow> card \<Rightarrow> report \<Rightarrow> report \<times> report_job option" where
  "claim_report me now c d =
     (if c_bot c \<noteq> me then (d, None)
      else if unconfirmed d now then (d\<lparr>rp_state := PostUnknown\<rparr>, None)
      else if \<not> postable c d now then (d, None)
      else (d\<lparr>rp_state := PostSending, rp_lease := now + 90, rp_attempts := rp_attempts d + 1\<rparr>,
            Some \<lparr>j_lease = now + 90, j_attempts = rp_attempts d + 1\<rparr>))"

definition report_outcome :: "report_job \<Rightarrow> int option \<Rightarrow> failure \<Rightarrow> post_state" where
  "report_outcome job mid why =
     (if (case mid of None \<Rightarrow> False | Some i \<Rightarrow> 0 < i) then PostSent
      else if why = FailRetry \<and> j_attempts job < 3 then PostRetry
      else if why \<in> {FailFinal, FailRetry} then PostFailed
      else PostUnknown)"

definition finish_report :: "report_job \<Rightarrow> int option \<Rightarrow> failure \<Rightarrow> int \<Rightarrow> real \<Rightarrow> report \<Rightarrow> report" where
  "finish_report job mid why retry_after now d =
     (if rp_state d \<noteq> PostSending \<or> rp_lease d \<noteq> j_lease job then d
      else
        let st = report_outcome job mid why; ok = (st = PostSent) in
        d\<lparr>rp_state := st, rp_message := (if ok then mid else None),
          rp_due := now + of_int (max 5 (if retry_after = 0 then 10 else retry_after)),
          cd_state := (if ok \<and> cd_state d = SweepWaiting then SweepPending else cd_state d)\<rparr>)"

definition sweepable :: "int \<Rightarrow> real \<Rightarrow> card \<Rightarrow> report \<Rightarrow> bool" where
  "sweepable me now c d \<longleftrightarrow>
     \<not> (c_bot c \<noteq> me \<or> rp_state d \<noteq> PostSent \<or> \<not> bound_message (rp_message d) \<or> \<not> bound_message (c_message c) \<or> c_message c = rp_message d)
     \<and> \<not> (cd_state d = SweepDeleting \<and> now < cd_lease d)
     \<and> \<not> (cd_state d \<notin> {SweepPending, SweepRetry, SweepDeleting} \<or> now < cd_due d)"

definition claim_delete :: "int \<Rightarrow> real \<Rightarrow> card \<Rightarrow> report \<Rightarrow> report \<times> report_job option" where
  "claim_delete me now c d =
     (if \<not> sweepable me now c d then (d, None)
      else if 8 \<le> cd_attempts d then (d\<lparr>cd_state := SweepFailed\<rparr>, None)
      else (d\<lparr>cd_state := SweepDeleting, cd_lease := now + 45, cd_attempts := cd_attempts d + 1\<rparr>,
            Some \<lparr>j_lease = now + 45, j_attempts = cd_attempts d + 1\<rparr>))"

definition finish_delete :: "report_job \<Rightarrow> bool \<Rightarrow> failure \<Rightarrow> int \<Rightarrow> real \<Rightarrow> report \<Rightarrow> report" where
  "finish_delete job ok why retry_after now d =
     (if cd_state d \<noteq> SweepDeleting \<or> cd_lease d \<noteq> j_lease job then d
      else
        d\<lparr>cd_state := (if ok then SweepDeleted else if why = FailFinal \<or> 8 \<le> j_attempts job then SweepFailed else SweepRetry),
          cd_due := now + of_int (max retry_after (min 300 (5 * 2 ^ nat (min (j_attempts job) 6))))\<rparr>)"

section \<open>The delivery protocol\<close>

text \<open>
  A configuration is the card of the room, its report, and the two lists of claims handed out so far. \<open>refused\<close> counts the sends that
  Telegram answered with a certain refusal to be retried; every other claim may have put a message into the group.
\<close>

record delivery =
  dv_card :: card
  dv_report :: report
  dv_claims :: "report_job list"
  dv_sweeps :: "report_job list"
  dv_refused :: nat
  dv_clock :: real

text \<open>The clock of the workers does not run backwards.\<close>

inductive deliver :: "delivery \<Rightarrow> delivery \<Rightarrow> bool" where
  queue: "deliver s (s\<lparr>dv_report := queue_result (dv_report s)\<rparr>)"
| card_changes: "deliver s (s\<lparr>dv_card := c\<rparr>)"
| claim: "claim_report me now (dv_card s) (dv_report s) = (d, job) \<Longrightarrow> dv_clock s \<le> now \<Longrightarrow>
    deliver s (s\<lparr>dv_report := d, dv_claims := (case job of None \<Rightarrow> dv_claims s | Some j \<Rightarrow> j # dv_claims s), dv_clock := now\<rparr>)"
| finish: "job \<in> set (dv_claims s) \<Longrightarrow> finish_report job mid why after now (dv_report s) = d \<Longrightarrow> dv_clock s \<le> now \<Longrightarrow>
    deliver s (s\<lparr>dv_report := d, dv_clock := now,
      dv_refused := dv_refused s + (if rp_state (dv_report s) = PostSending \<and> rp_state d = PostRetry then 1 else 0)\<rparr>)"
| claim_sweep: "claim_delete me now (dv_card s) (dv_report s) = (d, job) \<Longrightarrow> dv_clock s \<le> now \<Longrightarrow>
    deliver s (s\<lparr>dv_report := d, dv_sweeps := (case job of None \<Rightarrow> dv_sweeps s | Some j \<Rightarrow> j # dv_sweeps s), dv_clock := now\<rparr>)"
| finish_sweep: "job \<in> set (dv_sweeps s) \<Longrightarrow> finish_delete job ok why after now (dv_report s) = d \<Longrightarrow> dv_clock s \<le> now \<Longrightarrow>
    deliver s (s\<lparr>dv_report := d, dv_clock := now\<rparr>)"

definition delivery_start :: "card \<Rightarrow> real \<Rightarrow> delivery" where
  "delivery_start c now = \<lparr>dv_card = c, dv_report = no_report, dv_claims = [], dv_sweeps = [], dv_refused = 0, dv_clock = now\<rparr>"

section \<open>The invariant\<close>

definition claims_ok :: "delivery \<Rightarrow> bool" where
  "claims_ok s \<longleftrightarrow>
     (let d = dv_report s; n = length (dv_claims s) in
      rp_attempts d = int n \<and> n \<le> dv_refused s + 1 \<and> dv_refused s \<le> n \<and> n \<le> 3
      \<and> (\<forall>j \<in> set (dv_claims s). j_lease j \<le> dv_clock s + 90)
      \<and> (rp_state d \<in> {PostPending, PostNone} \<longrightarrow> n = 0)
      \<and> (rp_state d = PostRetry \<longrightarrow> n = dv_refused s \<and> n < 3 \<and> (\<forall>j \<in> set (dv_claims s). j_lease j < rp_due d + 90))
      \<and> (rp_state d = PostSending \<longrightarrow> n = dv_refused s + 1 \<and> (\<forall>j \<in> set (dv_claims s). j_lease j = rp_lease d \<longrightarrow> j_attempts j = int n)))"

definition sweeps_ok :: "delivery \<Rightarrow> bool" where
  "sweeps_ok s \<longleftrightarrow>
     (let d = dv_report s in
      cd_attempts d = int (length (dv_sweeps s)) \<and> length (dv_sweeps s) \<le> 8
      \<and> (dv_sweeps s \<noteq> [] \<or> cd_state d \<notin> {SweepNone, SweepWaiting} \<longrightarrow> rp_state d = PostSent))"

lemma queue_keeps: "claims_ok s \<Longrightarrow> claims_ok (s\<lparr>dv_report := queue_result (dv_report s)\<rparr>)"
  by (auto simp: claims_ok_def Let_def queue_result_def)

lemma claim_report_cases:
  assumes "claim_report me now c d = (d', job)"
  obtains "d' = d" "job = None" | "d' = d\<lparr>rp_state := PostUnknown\<rparr>" "unconfirmed d now" "job = None"
  | "postable c d now" "c_bot c = me"
    "d' = d\<lparr>rp_state := PostSending, rp_lease := now + 90, rp_attempts := rp_attempts d + 1\<rparr>"
    "job = Some \<lparr>j_lease = now + 90, j_attempts = rp_attempts d + 1\<rparr>"
  using assms by (auto simp: claim_report_def split: if_splits)

lemma claim_keeps:
  assumes ok: "claims_ok s" and c: "claim_report me now (dv_card s) (dv_report s) = (d, job)" and t: "dv_clock s \<le> now"
  shows "claims_ok (s\<lparr>dv_report := d, dv_claims := (case job of None \<Rightarrow> dv_claims s | Some j \<Rightarrow> j # dv_claims s), dv_clock := now\<rparr>)"
  using c
proof (cases rule: claim_report_cases)
  case 3
  have st: "rp_state (dv_report s) = PostPending \<or> rp_state (dv_report s) = PostRetry" "rp_due (dv_report s) \<le> now"
    using 3(1) by (auto simp: postable_def)
  have "\<forall>j \<in> set (dv_claims s). j_lease j \<noteq> now + 90" using ok st by (auto simp: claims_ok_def Let_def)
  moreover have "length (dv_claims s) < 3" "length (dv_claims s) = dv_refused s" using ok st(1) by (auto simp: claims_ok_def Let_def)
  ultimately show ?thesis using ok t 3(3,4) by (auto simp: claims_ok_def Let_def)
qed (use ok t in \<open>auto simp: claims_ok_def Let_def\<close>)+

lemma finish_report_cases:
  assumes "finish_report job mid why after now d = d'"
  obtains "d' = d" | "rp_state d = PostSending" "rp_lease d = j_lease job" "rp_state d' = report_outcome job mid why"
    "rp_due d' = now + of_int (max 5 (if after = 0 then 10 else after))" "rp_attempts d' = rp_attempts d" "cd_attempts d' = cd_attempts d"
    "rp_state d' \<noteq> PostSent \<longrightarrow> cd_state d' = cd_state d"
  using assms by (auto simp: finish_report_def Let_def split: if_splits)

lemma report_outcome_cases:
  "report_outcome job mid why \<in> {PostSent, PostFailed, PostUnknown} \<or> report_outcome job mid why = PostRetry \<and> j_attempts job < 3"
  by (auto simp: report_outcome_def)

lemma finish_keeps:
  assumes ok: "claims_ok s" and job: "job \<in> set (dv_claims s)" and f: "finish_report job mid why after now (dv_report s) = d"
    and t: "dv_clock s \<le> now"
  shows "claims_ok (s\<lparr>dv_report := d, dv_clock := now,
      dv_refused := dv_refused s + (if rp_state (dv_report s) = PostSending \<and> rp_state d = PostRetry then 1 else 0)\<rparr>)"
  using f
proof (cases rule: finish_report_cases)
  case 1
  then show ?thesis using ok t by (auto simp: claims_ok_def Let_def)
next
  case 2
  have n: "j_attempts job = int (length (dv_claims s))" "length (dv_claims s) = dv_refused s + 1" "length (dv_claims s) \<le> 3"
    "rp_attempts d = int (length (dv_claims s))" and lease: "\<forall>j \<in> set (dv_claims s). j_lease j \<le> dv_clock s + 90"
    using ok job 2(1,2,5) by (auto simp: claims_ok_def Let_def)
  show ?thesis
  proof (cases "rp_state d = PostRetry")
    case True
    have "rp_due d \<ge> now + 5" using 2(4) by simp
    then have "\<forall>j \<in> set (dv_claims s). j_lease j < rp_due d + 90" using lease t by force
    moreover have "length (dv_claims s) < 3" using True report_outcome_cases [of job mid why] 2(3) n(1) by auto
    ultimately show ?thesis using n lease t True 2(1) by (auto simp: claims_ok_def)
  next
    case False
    then have "rp_state d \<in> {PostSent, PostFailed, PostUnknown}" using report_outcome_cases [of job mid why] 2(3) by auto
    then show ?thesis using n lease t False by (auto simp: claims_ok_def Let_def)
  qed
qed

lemma claims_ok_swept:
  assumes ok: "claims_ok s" and t: "dv_clock s \<le> now" and d: "rp_state d = rp_state (dv_report s)" "rp_attempts d = rp_attempts (dv_report s)"
    "rp_due d = rp_due (dv_report s)" "rp_lease d = rp_lease (dv_report s)"
  shows "claims_ok (s\<lparr>dv_report := d, dv_clock := now\<rparr>)"
  using ok t d by (auto simp: claims_ok_def Let_def)

lemma claims_ok_sweep:
  assumes ok: "claims_ok s" and t: "dv_clock s \<le> now" and d: "rp_state d = rp_state (dv_report s)" "rp_attempts d = rp_attempts (dv_report s)"
    "rp_due d = rp_due (dv_report s)" "rp_lease d = rp_lease (dv_report s)"
  shows "claims_ok (s\<lparr>dv_report := d, dv_sweeps := x, dv_clock := now\<rparr>)"
  using ok t d by (auto simp: claims_ok_def Let_def)

lemma claim_delete_same:
  assumes "claim_delete me now c d = (d', job)"
  shows "rp_state d' = rp_state d \<and> rp_attempts d' = rp_attempts d \<and> rp_due d' = rp_due d \<and> rp_lease d' = rp_lease d"
  using assms by (auto simp: claim_delete_def split: if_split_asm)

lemma claim_delete_cases:
  assumes "claim_delete me now c d = (d', job)"
  obtains "d' = d" "job = None" | "sweepable me now c d" "8 \<le> cd_attempts d" "d' = d\<lparr>cd_state := SweepFailed\<rparr>" "job = None"
  | "sweepable me now c d" "cd_attempts d < 8" "d' = d\<lparr>cd_state := SweepDeleting, cd_lease := now + 45, cd_attempts := cd_attempts d + 1\<rparr>"
    "job = Some \<lparr>j_lease = now + 45, j_attempts = cd_attempts d + 1\<rparr>"
  using assms by (auto simp: claim_delete_def split: if_splits)

lemma claim_delete_keeps:
  assumes ok: "sweeps_ok s" and c: "claim_delete me now (dv_card s) (dv_report s) = (d, job)"
  shows "sweeps_ok (s\<lparr>dv_report := d, dv_sweeps := (case job of None \<Rightarrow> dv_sweeps s | Some j \<Rightarrow> j # dv_sweeps s), dv_clock := now\<rparr>)"
  using c by (cases rule: claim_delete_cases) (use ok in \<open>auto simp: sweeps_ok_def Let_def sweepable_def\<close>)

lemma finish_delete_same:
  assumes "finish_delete job okay why after now d = d'"
  shows "rp_state d' = rp_state d \<and> rp_attempts d' = rp_attempts d \<and> rp_due d' = rp_due d \<and> rp_lease d' = rp_lease d
    \<and> cd_attempts d' = cd_attempts d \<and> (cd_state d \<noteq> SweepDeleting \<longrightarrow> cd_state d' = cd_state d)"
  unfolding assms [symmetric] by (simp add: finish_delete_def)

lemma finish_delete_keeps:
  assumes ok: "sweeps_ok s" and c: "finish_delete job okay why after now (dv_report s) = d"
  shows "sweeps_ok (s\<lparr>dv_report := d, dv_clock := now\<rparr>)"
  using ok finish_delete_same [OF c] by (cases "cd_state (dv_report s) = SweepDeleting") (simp_all add: sweeps_ok_def Let_def)

lemma deliver_claims: "deliver s t \<Longrightarrow> claims_ok s \<Longrightarrow> claims_ok t"
proof (induction rule: deliver.induct)
  case (queue s)
  show ?case by (rule queue_keeps [OF queue])
next
  case (card_changes s c)
  then show ?case by (simp add: claims_ok_def)
next
  case (claim me now s d job)
  show ?case by (rule claim_keeps [OF claim(3,1,2)])
next
  case (finish job s mid why after now d)
  show ?case by (rule finish_keeps [OF finish(4,1-3)])
next
  case (claim_sweep me now s d job)
  show ?case by (rule claims_ok_sweep [OF claim_sweep(3,2)]) (use claim_delete_same [OF claim_sweep(1)] in blast)+
next
  case (finish_sweep job s okay why after now d)
  show ?case by (rule claims_ok_swept [OF finish_sweep(4,3)]) (use finish_delete_same [OF finish_sweep(2)] in blast)+
qed

lemma deliver_sweeps: "deliver s t \<Longrightarrow> sweeps_ok s \<Longrightarrow> sweeps_ok t"
proof (induction rule: deliver.induct)
  case (queue s)
  have "cd_attempts (queue_result d) = cd_attempts d \<and> (rp_state d = PostSent \<longrightarrow> queue_result d = d)
    \<and> (cd_state (queue_result d) = cd_state d \<or> cd_state (queue_result d) = SweepWaiting)" for d
    by (simp add: queue_result_def)
  from this [of "dv_report s"] show ?case using queue by (auto simp: sweeps_ok_def Let_def)
next
  case (card_changes s c)
  then show ?case by (simp add: sweeps_ok_def)
next
  case (claim me now s d job)
  have "cd_attempts d = cd_attempts (dv_report s) \<and> cd_state d = cd_state (dv_report s)
    \<and> (rp_state (dv_report s) = PostSent \<longrightarrow> rp_state d = PostSent)"
    by (rule claim_report_cases [OF claim(1)]) (auto simp: unconfirmed_def postable_def)
  then show ?case using claim(3) by (auto simp: sweeps_ok_def Let_def)
next
  case (finish job s mid why after now d)
  have "cd_attempts d = cd_attempts (dv_report s) \<and> (rp_state d \<noteq> PostSent \<longrightarrow> cd_state d = cd_state (dv_report s))
    \<and> (rp_state (dv_report s) = PostSent \<longrightarrow> rp_state d = PostSent)"
    by (rule finish_report_cases [OF finish(2)]) simp_all
  then show ?case using finish(4) by (auto simp: sweeps_ok_def Let_def)
next
  case (claim_sweep me now s d job)
  show ?case by (rule claim_delete_keeps [OF claim_sweep(3,1)])
next
  case (finish_sweep job s okay why after now d)
  show ?case by (rule finish_delete_keeps [OF finish_sweep(4,2)])
qed

lemma delivery_start_ok: "claims_ok (delivery_start c now) \<and> sweeps_ok (delivery_start c now)"
  by (simp add: delivery_start_def claims_ok_def sweeps_ok_def no_report_def)

lemma deliveries_ok: "deliver\<^sup>*\<^sup>* s t \<Longrightarrow> claims_ok s \<and> sweeps_ok s \<Longrightarrow> claims_ok t \<and> sweeps_ok t"
  by (induction rule: rtranclp_induct) (use deliver_claims deliver_sweeps in blast)+

text \<open>C32. The result of a room reaches the group at most once: whatever the workers of the delivery do (claims after crashes, reports that
  come late, twice or never), every send but one was certainly refused by Telegram, there are at most three; the old card is
  deleted in at most eight attempts, and only once the result message is confirmed.\<close>

theorem niuniu_report_once:
  assumes "deliver\<^sup>*\<^sup>* (delivery_start c now) s"
  shows "length (dv_claims s) \<le> dv_refused s + 1 \<and> length (dv_claims s) \<le> 3 \<and> length (dv_sweeps s) \<le> 8
    \<and> (dv_sweeps s \<noteq> [] \<longrightarrow> rp_state (dv_report s) = PostSent)"
proof -
  have "claims_ok s \<and> sweeps_ok s" by (rule deliveries_ok [OF assms delivery_start_ok])
  then show ?thesis by (auto simp: claims_ok_def sweeps_ok_def Let_def)
qed

definition demo_posted :: card where
  "demo_posted = (card_of ''niuniu'' 99 5 0 10 100)\<lparr>c_message := Some 11, c_rendered := 0\<rparr>"

definition demo_delivery :: delivery where
  "demo_delivery = (delivery_start demo_posted 100)
     \<lparr>dv_report := no_report\<lparr>rp_state := PostSending, cd_state := SweepWaiting, rp_lease := 190, rp_attempts := 1\<rparr>,
      dv_claims := [\<lparr>j_lease = 190, j_attempts = 1\<rparr>]\<rparr>"

lemma demo_claimed: "deliver\<^sup>*\<^sup>* (delivery_start demo_posted 100) demo_delivery"
proof -
  let ?s = "(delivery_start demo_posted 100)\<lparr>dv_report := queue_result no_report\<rparr>"
  have "deliver (delivery_start demo_posted 100) ?s"
    using deliver.queue [of "delivery_start demo_posted 100"] by (simp add: delivery_start_def)
  moreover have "deliver ?s demo_delivery"
  proof -
    have c: "claim_report 99 100 (dv_card ?s) (dv_report ?s)
      = (dv_report demo_delivery, Some \<lparr>j_lease = 190, j_attempts = 1\<rparr>)"
      by (simp add: claim_report_def postable_def unconfirmed_def bound_message_def demo_delivery_def delivery_start_def no_report_def queue_result_def demo_posted_def card_of_def)
    show ?thesis using deliver.claim [OF c] by (simp add: demo_delivery_def delivery_start_def)
  qed
  ultimately show ?thesis by (meson converse_rtranclp_into_rtranclp rtranclp.rtrancl_refl)
qed

theorem niuniu_report_once_witness:
  "length (dv_claims demo_delivery) = 1 \<and> length (dv_claims demo_delivery) \<le> dv_refused demo_delivery + 1"
  using niuniu_report_once [OF demo_claimed] by (simp add: demo_delivery_def)

end
