(* ===== verification/Niuniu.thy ===== *)
theory Niuniu
  imports NiuniuReport
begin

text \<open>
  \<^verbatim>\<open>backend/app/modules/niuniu.py\<close>: rooms of two to five members. The host is the banker and freezes four stakes, every
  guest freezes one; five cards each decide every guest's match against the banker. A room of the rules before the upgrade
  (\<open>n_banker\<close> false) gives the pot to the best hand. The rows of \<open>niuniu_players\<close> with the nonce of a room, in the order of their
  ids, are the list \<open>n_players\<close> of the room. The shuffled deck and the random token of an escrow are inputs; whether a member or a
  place is taken by a room of the older card game is an input too (its tables are not part of this module).
\<close>

section \<open>Hands\<close>

definition card_points :: "int \<Rightarrow> int" where
  "card_points k = (if k mod 13 = 12 then 1 else k mod 13 + 2)"

definition suit_order :: "int \<Rightarrow> int" where
  "suit_order k = 3 - k div 13"

definition card_key :: "int \<Rightarrow> int \<times> int" where
  "card_key k = (card_points k, suit_order k)"

text \<open>\<open>max(cards, key=...)\<close>: the first card with the greatest key.\<close>

fun high_card :: "int \<Rightarrow> int list \<Rightarrow> int" where
  "high_card best [] = best"
| "high_card best (c # cs) = high_card (if card_key best < card_key c then c else best) cs"

definition triples :: "int list \<Rightarrow> int list list" where
  "triples xs = filter (\<lambda>t. length t = 3) (subseqs xs)"

definition bull_of :: "int list \<Rightarrow> int" where
  "bull_of pts =
     (if list_ex (\<lambda>t. sum_list t mod 10 = 0) (triples pts)
      then (let m = sum_list pts mod 10 in if m = 0 then 10 else m) else 0)"

definition valid_hand :: "int list \<Rightarrow> bool" where
  "valid_hand cards \<longleftrightarrow> length cards = 5 \<and> distinct cards \<and> list_all (\<lambda>c. 0 \<le> c \<and> c < 52) cards"

definition strength :: "int list \<Rightarrow> (int \<times> int \<times> int) option" where
  "strength cards =
     (if \<not> valid_hand cards then None
      else let high = high_card (hd cards) (tl cards) in
        Some (bull_of (map (\<lambda>c. min (card_points c) 10) cards), card_points high, suit_order high))"

section \<open>State\<close>

datatype nn_state = Lobby | Running | Settled | Cancelled

datatype nn_reason = WaitOver | Recovered | UnsafeStart

datatype nn_result = NoResult | Refunded nn_reason | BankerResult int int "(int \<times> bool) list" int | PotResult int int

record nn_player =
  y_id :: int
  y_user :: uid
  y_tg :: int
  y_name :: string
  y_username :: string
  y_joined :: real
  y_ref :: string
  y_cards :: "int list"
  y_result :: int

record nn_round =
  n_card :: card
  n_tg :: int
  n_actor :: uid
  n_name :: string
  n_stake :: int
  n_banker :: bool
  n_state :: nn_state
  n_expires :: real
  n_result :: nn_result
  n_players :: "nn_player list"
  n_report :: report

record nn_world =
  nn_cash :: cash
  nn_rounds :: "(string \<times> nn_round) list"
  nn_ids :: int

record nn_config =
  nn_default_stake :: int
  nn_min_stake :: int
  nn_lobby_seconds :: int

record nn_env =
  ne_room :: room_env
  ne_poker_seat :: "uid \<Rightarrow> int \<Rightarrow> bool"
  ne_poker_room :: "int \<Rightarrow> int \<Rightarrow> bool"

definition put_nn :: "string \<Rightarrow> nn_round \<Rightarrow> nn_world \<Rightarrow> nn_world" where
  "put_nn nonce r w = w\<lparr>nn_rounds := put nonce r (nn_rounds w)\<rparr>"

definition nn_open :: "nn_round \<Rightarrow> bool" where
  "nn_open r \<longleftrightarrow> n_state r = Lobby \<or> n_state r = Running"

definition shares :: "nn_round \<Rightarrow> uid \<Rightarrow> int" where
  "shares r u = (if n_banker r \<and> u = n_actor r then 4 else 1)"

section \<open>Taking a seat\<close>

definition nn_busy :: "nn_env \<Rightarrow> nn_world \<Rightarrow> uid \<Rightarrow> int \<Rightarrow> bool" where
  "nn_busy e w u tg \<longleftrightarrow>
     list_ex (\<lambda>(n, r). nn_open r \<and> list_ex (\<lambda>p. y_user p = u \<or> y_tg p = tg) (n_players r)) (nn_rounds w) \<or> ne_poker_seat e u tg"

definition nn_seat :: "nn_env \<Rightarrow> nn_world \<Rightarrow> string \<Rightarrow> nn_round \<Rightarrow> int \<Rightarrow> uid \<Rightarrow> person \<Rightarrow> string \<Rightarrow> real \<Rightarrow> room_error + nn_world" where
  "nn_seat e w nonce r tg u p token now =
     (if nn_busy e w u tg then Inl BusyElsewhere
      else
        let ref = nonce @ '':'' @ token in
        bindR (or_else (reserve (nn_cash w) ''niuniu'' ref u (n_stake r * shares r u) ''play.reserve'' (clock_int now)) BalanceShort) (\<lambda>(c, _).
        Inr (put_nn nonce (r\<lparr>n_players := n_players r @
                 [\<lparr>y_id = nn_ids w + 1, y_user = u, y_tg = tg, y_name = p_name p, y_username = telegram_username (p_username p), y_joined = now,
                   y_ref = ref, y_cards = [], y_result = 0\<rparr>]\<rparr>)
               (w\<lparr>nn_cash := c, nn_ids := nn_ids w + 1\<rparr>))))"

section \<open>Refund\<close>

fun refund_players :: "cash \<Rightarrow> int \<Rightarrow> nn_player list \<Rightarrow> room_error + cash \<times> nn_player list" where
  "refund_players c now [] = Inr (c, [])"
| "refund_players c now (p # ps) =
     bindR (in_cash (release c ''niuniu'' (y_ref p) (y_user p) None ''play.release'' now)) (\<lambda>(c1, a).
     bindR (refund_players c1 now ps) (\<lambda>(c2, qs). Inr (c2, p\<lparr>y_result := a\<rparr> # qs)))"

definition closed_room :: "nn_round \<Rightarrow> nn_state \<Rightarrow> nn_result \<Rightarrow> nn_player list \<Rightarrow> nn_round" where
  "closed_room r st result ps =
     r\<lparr>n_state := st, n_result := result, n_players := ps, n_card := bump (n_card r), n_report := queue_result (n_report r)\<rparr>"

definition nn_refund :: "nn_world \<Rightarrow> string \<Rightarrow> nn_round \<Rightarrow> nn_reason \<Rightarrow> real \<Rightarrow> room_error + nn_world" where
  "nn_refund w nonce r why now =
     (if \<not> nn_open r then Inr w
      else
        bindR (refund_players (nn_cash w) (clock_int now) (n_players r)) (\<lambda>(c, ps).
        Inr (put_nn nonce (closed_room r Cancelled (Refunded why) ps) (w\<lparr>nn_cash := c\<rparr>))))"

section \<open>Settlement\<close>

definition seat_safe :: "room_env \<Rightarrow> cash \<Rightarrow> nn_round \<Rightarrow> real \<Rightarrow> nn_player \<Rightarrow> bool" where
  "seat_safe v c r now p \<longleftrightarrow>
     (case play_actor (e_members v) (plain_person (y_tg p)) now of
        Inl _ \<Rightarrow> False
      | Inr (_, m) \<Rightarrow> mb_user m = y_user p \<and> held c ''niuniu'' (y_ref p) (y_user p) = n_stake r * shares r (y_user p))"

definition deal_hands :: "int list \<Rightarrow> nat \<Rightarrow> int list list" where
  "deal_hands deck n = map (\<lambda>i. take 5 (drop (5 * i) deck)) [0..<n]"

definition with_cards :: "nn_player list \<Rightarrow> int list list \<Rightarrow> nn_player list" where
  "with_cards ps hands = map2 (\<lambda>p cards. p\<lparr>y_cards := cards\<rparr>) ps hands"

fun consume_players :: "cash \<Rightarrow> string \<Rightarrow> int \<Rightarrow> (nn_player \<times> int) list \<Rightarrow> room_error + cash" where
  "consume_players c fund now [] = Inr c"
| "consume_players c fund now ((p, a) # ps) =
     bindR (in_cash (consume c ''niuniu'' (y_ref p) (y_user p) a ''poker'' fund now)) (\<lambda>c1. consume_players c1 fund now ps)"

text \<open>One match per guest; the result is the guests with their winnings, and what the banker collected.\<close>

fun play_matches :: "cash \<Rightarrow> string \<Rightarrow> int \<Rightarrow> int \<Rightarrow> nn_player \<Rightarrow> nn_player list \<Rightarrow> room_error + cash \<times> nn_player list" where
  "play_matches c fund now stake bank [] = Inr (c, [])"
| "play_matches c fund now stake bank (p # ps) =
     (if strength (y_cards p) = strength (y_cards bank) then Inl Unsafe
      else
        let guest_wins = the (strength (y_cards bank)) < the (strength (y_cards p)) in
        bindR (in_cash (payout c ''poker'' fund (if guest_wins then y_user p else y_user bank) (2 * stake) now)) (\<lambda>c1.
        bindR (play_matches c1 fund now stake bank ps) (\<lambda>(c2, qs).
        Inr (c2, (if guest_wins then p\<lparr>y_result := 2 * stake\<rparr> else p) # qs))))"

definition beats :: "nn_player \<Rightarrow> nn_player \<Rightarrow> bool" where
  "beats p q \<longleftrightarrow> the (strength (y_cards q)) < the (strength (y_cards p))"

definition bank_total :: "int \<Rightarrow> nn_player \<Rightarrow> nn_player list \<Rightarrow> int" where
  "bank_total stake bank guests = sum_list (map (\<lambda>p. if beats p bank then 0 else 2 * stake) guests)"

definition match_rows :: "nn_player \<Rightarrow> nn_player list \<Rightarrow> (int \<times> bool) list" where
  "match_rows bank guests = map (\<lambda>p. (y_id p, beats p bank)) guests"

definition is_bank :: "nn_round \<Rightarrow> nn_player \<Rightarrow> bool" where
  "is_bank r p \<longleftrightarrow> y_user p = n_actor r \<and> y_tg p = n_tg r"

definition return_unused :: "cash \<Rightarrow> nn_player \<Rightarrow> int \<Rightarrow> int \<Rightarrow> room_error + cash" where
  "return_unused c bank unused now =
     (if unused = 0 then Inr c
      else bindR (in_cash (release c ''niuniu'' (y_ref bank) (y_user bank) (Some unused) ''play.release'' now)) (\<lambda>(c1, _). Inr c1))"

definition banker_finish :: "cash \<Rightarrow> string \<Rightarrow> nn_round \<Rightarrow> nn_player list \<Rightarrow> int \<Rightarrow> room_error + cash \<times> nn_player list \<times> nn_result" where
  "banker_finish c nonce r ps now =
     (let fund = ''niuniu:'' @ nonce; stake = n_stake r in
      case filter (is_bank r) ps of
        [bank] \<Rightarrow>
          let guests = filter (\<lambda>p. \<not> is_bank r p) ps; g = int (length guests); unused = (4 - g) * stake in
          bindR (return_unused c bank unused now) (\<lambda>c1.
          bindR (consume_players c1 fund now (map (\<lambda>p. (p, if is_bank r p then g * stake else stake)) ps)) (\<lambda>c2.
          bindR (play_matches c2 fund now stake bank guests) (\<lambda>(c3, paid).
          let won = bank_total stake bank guests; bank' = bank\<lparr>y_result := won + unused\<rparr> in
          Inr (c3, sort_key y_id (bank' # paid), BankerResult (y_id bank) stake (match_rows bank guests) unused))))
      | _ \<Rightarrow> Inl Unsafe)"

text \<open>The older rules: the pot to the first strongest hand.\<close>

fun best_player :: "nn_player \<Rightarrow> nn_player list \<Rightarrow> nn_player" where
  "best_player best [] = best"
| "best_player best (p # ps) = best_player (if the (strength (y_cards best)) < the (strength (y_cards p)) then p else best) ps"

definition pot_finish :: "cash \<Rightarrow> string \<Rightarrow> nn_round \<Rightarrow> nn_player list \<Rightarrow> int \<Rightarrow> room_error + cash \<times> nn_player list \<times> nn_result" where
  "pot_finish c nonce r ps now =
     (let fund = ''niuniu:'' @ nonce; winner = best_player (hd ps) (tl ps); pot = n_stake r * int (length ps) in
      bindR (consume_players c fund now (map (\<lambda>p. (p, n_stake r)) ps)) (\<lambda>c1.
      bindR (in_cash (payout c1 ''poker'' fund (y_user winner) pot now)) (\<lambda>c2.
      Inr (c2, map (\<lambda>p. if y_id p = y_id winner then p\<lparr>y_result := pot\<rparr> else p) ps, PotResult pot (y_id winner)))))"

definition nn_finish :: "room_env \<Rightarrow> nn_world \<Rightarrow> string \<Rightarrow> nn_round \<Rightarrow> int list \<Rightarrow> real \<Rightarrow> room_error + nn_world" where
  "nn_finish v w nonce r deck now =
     (let ps = n_players r; hands = deal_hands deck (length ps); dealt = with_cards ps hands in
      if length ps < 2 then Inl TooFewPlayers
      else if 5 < length ps then Inl Unsafe
      else if \<not> list_all (seat_safe v (nn_cash w) r now) ps then Inl Unsafe
      else if list_ex (\<lambda>h. strength h = None) hands then Inl Unsafe
      else
        bindR (if n_banker r then banker_finish (nn_cash w) nonce r dealt (clock_int now) else pot_finish (nn_cash w) nonce r dealt (clock_int now))
          (\<lambda>(c, qs, result). Inr (put_nn nonce (closed_room r Settled result qs) (w\<lparr>nn_cash := c\<rparr>))))"

section \<open>Opening and expiring a room\<close>

definition nn_expire :: "room_env \<Rightarrow> nn_world \<Rightarrow> string \<Rightarrow> real \<Rightarrow> room_error + nn_world" where
  "nn_expire v w nonce now =
     (case map_of (nn_rounds w) nonce of
        None \<Rightarrow> Inr w
      | Some r \<Rightarrow>
          if nn_open r \<and> (n_state r = Running \<or> n_expires r \<le> now \<or> \<not> e_on v)
          then nn_refund w nonce r (if n_state r = Lobby then WaitOver else Recovered) now
          else Inr w)"

fun nn_expire_all :: "room_env \<Rightarrow> real \<Rightarrow> string list \<Rightarrow> nn_world \<Rightarrow> nn_world \<times> room_error option" where
  "nn_expire_all v now [] w = (w, None)"
| "nn_expire_all v now (n # ns) w =
     (case nn_expire v w n now of Inl e \<Rightarrow> (w, Some e) | Inr w' \<Rightarrow> nn_expire_all v now ns w')"

definition nn_expire_due :: "room_env \<Rightarrow> nn_world \<Rightarrow> real \<Rightarrow> nn_world \<times> room_error option" where
  "nn_expire_due v w now = nn_expire_all v now (map fst (filter (\<lambda>(n, r). nn_open r) (nn_rounds w))) w"

definition nn_new_round :: "room_env \<Rightarrow> nn_config \<Rightarrow> int \<Rightarrow> int \<Rightarrow> int \<Rightarrow> int \<Rightarrow> uid \<Rightarrow> string \<Rightarrow> int \<Rightarrow> real \<Rightarrow> nn_round" where
  "nn_new_round v cfg chat thread mid tg u name stake now =
     \<lparr>n_card = card_of ''niuniu'' (e_bot v) chat thread mid now, n_tg = tg, n_actor = u, n_name = name, n_stake = stake, n_banker = True,
      n_state = Lobby, n_expires = now + of_int (nn_lobby_seconds cfg), n_result = NoResult, n_players = [], n_report = no_report\<rparr>"

definition nn_open_room :: "nn_env \<Rightarrow> nn_config \<Rightarrow> nn_world \<Rightarrow> int \<Rightarrow> int \<Rightarrow> int \<Rightarrow> person \<Rightarrow> int option \<Rightarrow> string \<Rightarrow> string \<Rightarrow> real
    \<Rightarrow> room_error + nn_world \<times> string" where
  "nn_open_room e cfg w chat thread mid p asked nonce token now =
     (let v = ne_room e in
      bindR (play_actor (e_members v) p now) (\<lambda>(tg, m).
      let stake = (case asked of None \<Rightarrow> nn_default_stake cfg | Some a \<Rightarrow> a) in
      bindR (in_cash (integer stake LStakePoints (nn_min_stake cfg) (MAX_INT div 8))) (\<lambda>_.
      case find (\<lambda>(n, r). c_bot (n_card r) = e_bot v \<and> c_chat (n_card r) = chat \<and> c_command (n_card r) = mid) (nn_rounds w) of
        Some (n, r) \<Rightarrow>
          if n_actor r \<noteq> mb_user m \<or> n_tg r \<noteq> tg \<or> c_thread (n_card r) \<noteq> thread \<or> n_stake r \<noteq> stake then Inl OtherIntent else Inr (w, n)
      | None \<Rightarrow>
          if \<not> e_on v then Inl GameClosed
          else if list_ex (\<lambda>(n, r). c_bot (n_card r) = e_bot v \<and> c_chat (n_card r) = chat \<and> c_thread (n_card r) = thread \<and> nn_open r)
              (nn_rounds w) then Inl RoomTaken
          else if ne_poker_room e chat thread then Inl OldRoomOpen
          else if map_of (nn_rounds w) nonce \<noteq> None \<or> stake \<le> 0 then Inl RowRefused
          else
            let r = nn_new_round v cfg chat thread mid tg (mb_user m) (p_name p) stake now in
            bindR (nn_seat e (put_nn nonce r w) nonce r tg (mb_user m) p token now) (\<lambda>w1. Inr (w1, nonce)))))"

definition nn_create_tx :: "nn_env \<Rightarrow> nn_config \<Rightarrow> nn_world \<Rightarrow> message \<Rightarrow> person \<Rightarrow> int option \<Rightarrow> string \<Rightarrow> string \<Rightarrow> real
    \<Rightarrow> room_error + nn_world \<times> string" where
  "nn_create_tx e cfg w m p asked nonce token now =
     bindR (in_card (group_scope (e_allowed (ne_room e)) m)) (\<lambda>(chat, thread).
     bindR (case m_id m of None \<Rightarrow> Inl (InCash (OutOfRange LMessageId 1 MAX_INT))
                         | Some mid \<Rightarrow> in_cash (integer mid LMessageId 1 MAX_INT)) (\<lambda>mid.
     nn_open_room e cfg w chat thread mid p asked nonce token now))"

definition nn_create :: "nn_env \<Rightarrow> nn_config \<Rightarrow> nn_world \<Rightarrow> message \<Rightarrow> person \<Rightarrow> int option \<Rightarrow> string \<Rightarrow> string \<Rightarrow> real
    \<Rightarrow> nn_world \<times> (room_error + string)" where
  "nn_create e cfg w m p asked nonce token now =
     (case nn_expire_due (ne_room e) w now of
        (w1, Some x) \<Rightarrow> (w1, Inl x)
      | (w1, None) \<Rightarrow>
          (case nn_create_tx e cfg w1 m p asked nonce token now of Inl x \<Rightarrow> (w1, Inl x) | Inr (w2, n) \<Rightarrow> (w2, Inr n)))"

section \<open>Buttons of the card\<close>

definition nn_data :: "string \<Rightarrow> string \<Rightarrow> string" where
  "nn_data nonce op = ''nn:'' @ nonce @ '':'' @ op"

definition nn_bump :: "string \<Rightarrow> nn_world \<Rightarrow> nn_world" where
  "nn_bump nonce w =
     (case map_of (nn_rounds w) nonce of None \<Rightarrow> w | Some r \<Rightarrow> put_nn nonce (r\<lparr>n_card := bump (n_card r)\<rparr>) w)"

definition join_room :: "nn_env \<Rightarrow> nn_world \<Rightarrow> string \<Rightarrow> nn_round \<Rightarrow> int \<Rightarrow> uid \<Rightarrow> person \<Rightarrow> string \<Rightarrow> int list \<Rightarrow> real \<Rightarrow> room_error + nn_world" where
  "join_room e w nonce r tg u p token deck now =
     (if \<not> e_on (ne_room e) then Inl GameClosed
      else if 5 \<le> length (n_players r) then Inl RoomFull
      else
        bindR (nn_seat e w nonce r tg u p token now) (\<lambda>w1.
        if length (n_players r) = 4 then
          (case map_of (nn_rounds w1) nonce of None \<Rightarrow> Inl NoRoom | Some r1 \<Rightarrow> nn_finish (ne_room e) w1 nonce r1 deck now)
        else Inr w1))"

definition start_room :: "room_env \<Rightarrow> nn_world \<Rightarrow> string \<Rightarrow> nn_round \<Rightarrow> int \<Rightarrow> uid \<Rightarrow> int list \<Rightarrow> real \<Rightarrow> room_error + nn_world" where
  "start_room v w nonce r tg u deck now =
     (if u \<noteq> n_actor r \<or> tg \<noteq> n_tg r then Inl OnlyHost
      else if \<not> e_on v then Inl GameClosed
      else nn_finish v w nonce r deck now)"

definition nn_press :: "nn_env \<Rightarrow> nn_world \<Rightarrow> string \<Rightarrow> nn_round \<Rightarrow> int \<Rightarrow> uid \<Rightarrow> person \<Rightarrow> string \<Rightarrow> string \<Rightarrow> int list \<Rightarrow> real
    \<Rightarrow> room_error + nn_world" where
  "nn_press e w nonce r tg u p op token deck now =
     (let prior = find (\<lambda>q. y_user q = u \<or> y_tg q = tg) (n_players r) in
      if (case prior of None \<Rightarrow> False | Some q \<Rightarrow> y_user q \<noteq> u \<or> y_tg q \<noteq> tg) then Inl BindingChanged
      else if n_state r \<noteq> Lobby then Inr w
      else if op = ''join'' then
        (if prior \<noteq> None then Inr w
         else bindR (join_room e w nonce r tg u p token deck now) (\<lambda>w1. Inr (nn_bump nonce w1)))
      else bindR (start_room (ne_room e) w nonce r tg u deck now) (\<lambda>w1. Inr (nn_bump nonce w1)))"

definition nn_button :: "nn_env \<Rightarrow> nn_world \<Rightarrow> string \<Rightarrow> person \<Rightarrow> message \<Rightarrow> string \<Rightarrow> string \<Rightarrow> int list \<Rightarrow> real \<Rightarrow> room_error + nn_world" where
  "nn_button e w nonce p m op token deck now =
     (case map_of (nn_rounds w) nonce of
        None \<Rightarrow> Inl NoRoom
      | Some r0 \<Rightarrow>
          bindR (in_card (card_context (e_bot (ne_room e)) (e_allowed (ne_room e)) (n_card r0) m (nn_data nonce op))) (\<lambda>card.
          bindR (play_actor (e_members (ne_room e)) p now) (\<lambda>(tg, mb).
          let r = r0\<lparr>n_card := card\<rparr> in nn_press e (put_nn nonce r w) nonce r tg (mb_user mb) p op token deck now)))"

definition nn_lobby :: "nn_env \<Rightarrow> nn_world \<Rightarrow> string \<Rightarrow> person \<Rightarrow> message \<Rightarrow> string \<Rightarrow> string \<Rightarrow> int list \<Rightarrow> real
    \<Rightarrow> nn_world \<times> room_error option" where
  "nn_lobby e w nonce p m op token deck now =
     (if op = ''leave'' then (w, Some BadOperation)
      else case nn_expire (ne_room e) w nonce now of
        Inl x \<Rightarrow> (w, Some x)
      | Inr w1 \<Rightarrow>
          if op \<notin> {''join'', ''start''} then (w1, Some BadOperation)
          else (case nn_button e w1 nonce p m op token deck now of
              Inr w2 \<Rightarrow> (w2, None)
            | Inl x \<Rightarrow>
                if \<not> plain_error x then (w1, Some x)
                else (case map_of (nn_rounds w1) nonce of
                    None \<Rightarrow> (w1, Some NoRoom)
                  | Some r \<Rightarrow> (case nn_refund w1 nonce r UnsafeStart now of Inl x' \<Rightarrow> (w1, Some x') | Inr w2 \<Rightarrow> (w2, None)))))"

section \<open>Histories\<close>

text \<open>The random token of an escrow is new, and a shuffle permutes the 52 cards; an operation with other inputs does not happen.\<close>

definition nn_refs :: "nn_world \<Rightarrow> string list" where
  "nn_refs w = concat (map (\<lambda>(n, r). map y_ref (n_players r)) (nn_rounds w))"

definition fresh_ref :: "nn_world \<Rightarrow> string \<Rightarrow> bool" where
  "fresh_ref w ref \<longleftrightarrow> ref \<notin> set (nn_refs w)"

definition shuffled :: "int list \<Rightarrow> bool" where
  "shuffled deck \<longleftrightarrow> sort deck = [0..51]"

definition nn_card :: "string \<Rightarrow> (card \<Rightarrow> card) \<Rightarrow> nn_world \<Rightarrow> nn_world" where
  "nn_card nonce f w =
     (case map_of (nn_rounds w) nonce of None \<Rightarrow> w | Some r \<Rightarrow> put_nn nonce (r\<lparr>n_card := f (n_card r)\<rparr>) w)"

definition nn_deliver :: "string \<Rightarrow> (card \<Rightarrow> report \<Rightarrow> report) \<Rightarrow> nn_world \<Rightarrow> nn_world" where
  "nn_deliver nonce f w =
     (case map_of (nn_rounds w) nonce of None \<Rightarrow> w | Some r \<Rightarrow> put_nn nonce (r\<lparr>n_report := f (n_card r) (n_report r)\<rparr>) w)"

datatype nn_op =
    NnCreate nn_config message person "int option" string string
  | NnLobby string person message string string "int list"
  | NnExpire string
  | NnExpireDue
  | NnPublish string string
  | NnPublished string card int
  | NnPublishFailed string card bool int
  | NnClaimReport string
  | NnFinishReport string report_job "int option" failure int
  | NnClaimDelete string
  | NnFinishDelete string report_job bool failure int

fun nn_step :: "nn_world \<Rightarrow> nn_env \<times> real \<times> nn_op \<Rightarrow> room_error + nn_world" where
  "nn_step w (e, now, NnCreate cfg m p asked nonce token) =
     (if fresh_ref w (nonce @ '':'' @ token) then Inr (fst (nn_create e cfg w m p asked nonce token now)) else Inr w)"
| "nn_step w (e, now, NnLobby nonce p m op token deck) =
     (if fresh_ref w (nonce @ '':'' @ token) \<and> shuffled deck then Inr (fst (nn_lobby e w nonce p m op token deck now)) else Inr w)"
| "nn_step w (e, now, NnExpire nonce) = nn_expire (ne_room e) w nonce now"
| "nn_step w (e, now, NnExpireDue) = Inr (fst (nn_expire_due (ne_room e) w now))"
| "nn_step w (e, now, NnPublish nonce token) = Inr (nn_card nonce (\<lambda>c. fst (begin_publish (e_bot (ne_room e)) now token c)) w)"
| "nn_step w (e, now, NnPublished nonce job mid) = Inr (nn_card nonce (\<lambda>c. fst (published c job mid)) w)"
| "nn_step w (e, now, NnPublishFailed nonce job retry after) = Inr (nn_card nonce (\<lambda>c. publish_failed c job retry after now) w)"
| "nn_step w (e, now, NnClaimReport nonce) = Inr (nn_deliver nonce (\<lambda>c d. fst (claim_report (e_bot (ne_room e)) now c d)) w)"
| "nn_step w (e, now, NnFinishReport nonce job mid why after) = Inr (nn_deliver nonce (\<lambda>c d. finish_report job mid why after now d) w)"
| "nn_step w (e, now, NnClaimDelete nonce) = Inr (nn_deliver nonce (\<lambda>c d. fst (claim_delete (e_bot (ne_room e)) now c d)) w)"
| "nn_step w (e, now, NnFinishDelete nonce job ok why after) = Inr (nn_deliver nonce (\<lambda>c d. finish_delete job ok why after now d) w)"

definition nn_empty :: "ledger \<Rightarrow> nn_world" where
  "nn_empty rows = \<lparr>nn_cash = empty_cash rows, nn_rounds = [], nn_ids = 0\<rparr>"

end
