(* ===== verification/NiuniuRules.thy ===== *)
theory NiuniuRules
  imports Niuniu RoomDemo
begin

text \<open>
  Hands dealt from one deck never tie; the invariant ties the escrows to the state of the rooms, and a settled room to its matches.
\<close>

section \<open>Hands never tie\<close>

lemma high_card_in: "high_card b cs \<in> insert b (set cs)"
  by (induction cs arbitrary: b) (auto split: if_splits)

lemma card_key_inj:
  assumes "0 \<le> a" "a < 52" "0 \<le> b" "b < 52" "card_key a = card_key b"
  shows "a = b"
proof -
  have "a div 13 = b div 13" "card_points a = card_points b" using assms(5) by (simp_all add: card_key_def suit_order_def)
  moreover have "a mod 13 = b mod 13"
    using calculation(2) pos_mod_bound [of 13 a] pos_mod_bound [of 13 b] pos_mod_sign [of 13 a] pos_mod_sign [of 13 b]
    unfolding card_points_def by (simp split: if_splits)
  ultimately show ?thesis by (metis div_mult_mod_eq)
qed

lemma strength_Some: "valid_hand h \<Longrightarrow> \<exists>k \<in> set h. \<exists>b. strength h = Some (b, card_key k)"
proof -
  assume v: "valid_hand h"
  then obtain x xs where h: "h = x # xs" by (cases h) (auto simp: valid_hand_def)
  show ?thesis using v high_card_in [of x xs] by (auto simp: strength_def h Let_def card_key_def)
qed

lemma strength_apart:
  assumes "valid_hand a" "valid_hand b" "set a \<inter> set b = {}"
  shows "strength a \<noteq> strength b"
proof
  assume e: "strength a = strength b"
  obtain k l x y where "k \<in> set a" "strength a = Some (x, card_key k)" "l \<in> set b" "strength b = Some (y, card_key l)"
    using strength_Some [OF assms(1)] strength_Some [OF assms(2)] by blast
  moreover have "\<forall>c \<in> set a \<union> set b. 0 \<le> c \<and> c < 52" using assms(1,2) by (auto simp: valid_hand_def list_all_iff)
  ultimately have "k = l" using e card_key_inj by (metis UnI1 UnI2 option.inject prod.inject)
  then show False using \<open>k \<in> set a\<close> \<open>l \<in> set b\<close> assms(3) by blast
qed

lemma deal_hands_nth: "i < n \<Longrightarrow> deal_hands deck n ! i = take 5 (drop (5 * i) deck)"
  by (simp add: deal_hands_def)

lemma shuffled_deck: "shuffled deck \<Longrightarrow> length deck = 52 \<and> distinct deck \<and> set deck = {0..51}"
proof -
  assume s: "shuffled deck"
  have "length (sort deck) = 52" "distinct (sort deck)" "set (sort deck) = {0..51}" using s unfolding shuffled_def by simp_all
  then show ?thesis by simp
qed

lemma dealt_hand:
  assumes "shuffled deck" "5 * i + 5 \<le> 52"
  shows "valid_hand (take 5 (drop (5 * i) deck))"
proof -
  note d = shuffled_deck [OF assms(1)]
  have "set (take 5 (drop (5 * i) deck)) \<subseteq> set deck" by (meson set_drop_subset set_take_subset subset_trans)
  then show ?thesis using d assms(2) by (auto simp: valid_hand_def list_all_iff)
qed

lemma dealt_apart:
  assumes "distinct deck" "i < j"
  shows "set (take 5 (drop (5 * i) deck)) \<inter> set (take 5 (drop (5 * j) deck)) = {}"
proof -
  have "drop (5 * j) deck = drop (5 * j - 5 * i - 5) (drop 5 (drop (5 * i) deck))" using assms(2) by simp
  then have "set (take 5 (drop (5 * j) deck)) \<subseteq> set (drop 5 (drop (5 * i) deck))"
    by (metis set_drop_subset set_take_subset subset_trans)
  moreover have "set (take 5 (drop (5 * i) deck)) \<inter> set (drop 5 (drop (5 * i) deck)) = {}"
    using assms(1) by (intro set_take_disj_set_drop_if_distinct) auto
  ultimately show ?thesis by blast
qed

lemma hands_never_tie:
  assumes "shuffled deck" "n \<le> 10" "i < n" "j < n" "i \<noteq> j"
  shows "strength (deal_hands deck n ! i) \<noteq> strength (deal_hands deck n ! j)"
proof -
  have v: "valid_hand (take 5 (drop (5 * k) deck))" if "k < n" for k using dealt_hand [OF assms(1), of k] that assms(2) by simp
  have d: "distinct deck" using shuffled_deck [OF assms(1)] by simp
  show ?thesis
    unfolding deal_hands_nth [OF assms(3)] deal_hands_nth [OF assms(4)]
    using strength_apart v assms(3,4) dealt_apart [OF d, of i j] dealt_apart [OF d, of j i] assms(5)
    by (metis inf_commute nat_neq_iff)
qed

section \<open>The invariant\<close>

abbreviation stake_held :: "cash \<Rightarrow> nn_player \<Rightarrow> int" where
  "stake_held c p \<equiv> held c ''niuniu'' (y_ref p) (y_user p)"

definition refs :: "nn_round \<Rightarrow> string set" where
  "refs r = y_ref ` set (n_players r)"

text \<open>What a settled room must show: two to five hands of five cards, every guest against the one banker; the winner of a match gets
  two stakes, and the banker also the part of the collateral no guest called for.\<close>

definition stronger :: "int list \<Rightarrow> int list \<Rightarrow> bool" where
  "stronger h k = (case strength h of None \<Rightarrow> False | Some a \<Rightarrow> (case strength k of None \<Rightarrow> False | Some b \<Rightarrow> b < a))"

definition paid_matches :: "nn_round \<Rightarrow> bool" where
  "paid_matches r \<longleftrightarrow> 2 \<le> length (n_players r) \<and> length (n_players r) \<le> 5 \<and> (\<forall>p \<in> set (n_players r). valid_hand (y_cards p))
     \<and> (\<exists>bank. filter (is_bank r) (n_players r) = [bank]
       \<and> (let guests = filter (\<lambda>p. \<not> is_bank r p) (n_players r);
              beaten = filter (\<lambda>p. stronger (y_cards bank) (y_cards p)) guests in
          y_result bank = 2 * n_stake r * int (length beaten) + (4 - int (length guests)) * n_stake r
          \<and> (\<forall>p \<in> set guests. if stronger (y_cards p) (y_cards bank) then y_result p = 2 * n_stake r
               else stronger (y_cards bank) (y_cards p) \<and> y_result p = 0)))"

lemma valid_strength: "valid_hand h \<longleftrightarrow> strength h \<noteq> None"
  using strength_Some [of h] by (auto simp: strength_def)

lemma beats_stronger: "valid_hand (y_cards p) \<Longrightarrow> valid_hand (y_cards q) \<Longrightarrow> beats p q = stronger (y_cards p) (y_cards q)"
  by (auto simp: beats_def stronger_def valid_strength)

lemma stronger_or:
  "valid_hand h \<Longrightarrow> valid_hand k \<Longrightarrow> strength h \<noteq> strength k \<Longrightarrow> stronger k h \<longleftrightarrow> \<not> stronger h k"
  by (auto simp: stronger_def valid_strength)

definition nroom_ok :: "cash \<Rightarrow> nn_round \<Rightarrow> bool" where
  "nroom_ok c r \<longleftrightarrow>
     0 < n_stake r \<and> n_stake r \<le> MAX_INT div 8 \<and> n_banker r \<and> length (n_players r) \<le> 5
     \<and> distinct (map y_ref (n_players r)) \<and> distinct (map y_user (n_players r))
     \<and> (nn_open r \<longrightarrow> (\<forall>p \<in> set (n_players r). stake_held c p = n_stake r * shares r (y_user p) \<and> y_result p = 0))
     \<and> (\<not> nn_open r \<longrightarrow> (\<forall>p \<in> set (n_players r). stake_held c p = 0))
     \<and> (n_state r = Cancelled \<longrightarrow> (\<forall>p \<in> set (n_players r). y_result p = n_stake r * shares r (y_user p)))
     \<and> (n_state r = Settled \<longrightarrow> paid_matches r)"

definition refs_apart :: "(string \<times> nn_round) list \<Rightarrow> bool" where
  "refs_apart rounds \<longleftrightarrow> (\<forall>n m r q. map_of rounds n = Some r \<and> map_of rounds m = Some q \<and> n \<noteq> m \<longrightarrow> refs r \<inter> refs q = {})"

definition escrows_owned :: "cash \<Rightarrow> (string \<times> nn_round) list \<Rightarrow> bool" where
  "escrows_owned c rounds \<longleftrightarrow> (\<forall>ref u. has_escrow c ''niuniu'' ref u \<longrightarrow> (\<exists>n r. map_of rounds n = Some r \<and> ref \<in> refs r))"

definition rooms_ok :: "cash \<Rightarrow> (string \<times> nn_round) list \<Rightarrow> bool" where
  "rooms_ok c rounds \<longleftrightarrow> (\<forall>n r. map_of rounds n = Some r \<longrightarrow> nroom_ok c r)"

definition nn_ok :: "nn_world \<Rightarrow> bool" where
  "nn_ok w \<longleftrightarrow> cash_ok (nn_cash w) \<and> keyed (nn_rounds w) \<and> rooms_ok (nn_cash w) (nn_rounds w) \<and> refs_apart (nn_rounds w)
     \<and> escrows_owned (nn_cash w) (nn_rounds w)"

lemma nn_okD:
  "nn_ok w \<Longrightarrow> cash_ok (nn_cash w)" "nn_ok w \<Longrightarrow> keyed (nn_rounds w)"
  "nn_ok w \<Longrightarrow> map_of (nn_rounds w) n = Some r \<Longrightarrow> nroom_ok (nn_cash w) r"
  by (simp_all add: nn_ok_def rooms_ok_def)

lemma nn_ok_apart:
  assumes "nn_ok w" "map_of (nn_rounds w) n = Some r" "map_of (nn_rounds w) m = Some q" "n \<noteq> m"
  shows "refs r \<inter> refs q = {}"
  using assms(1) [unfolded nn_ok_def refs_apart_def] assms(2-4) by blast

lemma nn_ok_escrow:
  assumes "nn_ok w" "has_escrow (nn_cash w) ''niuniu'' ref u"
  shows "\<exists>n r. map_of (nn_rounds w) n = Some r \<and> ref \<in> refs r"
  using assms(1) [unfolded nn_ok_def escrows_owned_def] assms(2) by blast

text \<open>An operation on the money of one room.\<close>

definition untouched :: "string set \<Rightarrow> cash \<Rightarrow> cash \<Rightarrow> bool" where
  "untouched R c c' \<longleftrightarrow> (\<forall>ref u. ref \<notin> R \<longrightarrow> held c' ''niuniu'' ref u = held c ''niuniu'' ref u
     \<and> has_escrow c' ''niuniu'' ref u = has_escrow c ''niuniu'' ref u)"

lemma untouched_refl [simp]: "untouched R c c"
  by (simp add: untouched_def)

lemma untouched_trans:
  assumes "untouched R a b" "untouched S b c" "R \<subseteq> T" "S \<subseteq> T"
  shows "untouched T a c"
  unfolding untouched_def
proof (intro allI impI)
  fix ref u
  assume "ref \<notin> T"
  then have "ref \<notin> R" "ref \<notin> S" using assms(3,4) by blast+
  then show "held c ''niuniu'' ref u = held a ''niuniu'' ref u \<and> has_escrow c ''niuniu'' ref u = has_escrow a ''niuniu'' ref u"
    using assms(1,2) by (simp add: untouched_def)
qed

lemma untouchedI:
  "(\<And>ref u. ref \<notin> R \<Longrightarrow> held c' ''niuniu'' ref u = held c ''niuniu'' ref u) \<Longrightarrow>
   (\<And>ref u. ref \<notin> R \<Longrightarrow> has_escrow c' ''niuniu'' ref u = has_escrow c ''niuniu'' ref u) \<Longrightarrow> untouched R c c'"
  by (simp add: untouched_def)

lemma nroom_ok_untouched:
  assumes "nroom_ok c r" "untouched R c c'" "R \<inter> refs r = {}"
  shows "nroom_ok c' r"
proof -
  have "stake_held c' p = stake_held c p" if "p \<in> set (n_players r)" for p
  proof -
    have "y_ref p \<notin> R" using that assms(3) by (auto simp: refs_def)
    then show ?thesis using assms(2) by (simp add: untouched_def)
  qed
  then show ?thesis using assms(1) by (simp add: nroom_ok_def)
qed

lemma put_nn_simps [simp]:
  "nn_cash (put_nn n r w) = nn_cash w" "nn_rounds (put_nn n r w) = put n r (nn_rounds w)" "nn_ids (put_nn n r w) = nn_ids w"
  "put_nn n r (put_nn n q w) = put_nn n r w" "(put_nn n r w)\<lparr>nn_cash := c\<rparr> = put_nn n r (w\<lparr>nn_cash := c\<rparr>)"
  "(put_nn n r w)\<lparr>nn_ids := i\<rparr> = put_nn n r (w\<lparr>nn_ids := i\<rparr>)"
  by (simp_all add: put_nn_def)

text \<open>What a room brought a member: the recorded result once it is closed, less the share that was frozen.\<close>

definition results :: "nn_player list \<Rightarrow> uid \<Rightarrow> int" where
  "results ps u = sum_list (map (\<lambda>p. if y_user p = u then y_result p else 0) ps)"

lemma results_Cons: "results (p # ps) u = (if y_user p = u then y_result p else 0) + results ps u"
  by (simp add: results_def)

definition room_gain :: "uid \<Rightarrow> nn_round \<Rightarrow> int" where
  "room_gain u r = (if nn_open r then 0 else results (n_players r) u)
     - (if u \<in> y_user ` set (n_players r) then n_stake r * shares r u else 0)"

definition nn_gain :: "nn_world \<Rightarrow> uid \<Rightarrow> int" where
  "nn_gain w u = asum (room_gain u) (nn_rounds w)"

definition nn_own :: "nn_world \<Rightarrow> uid \<Rightarrow> int" where
  "nn_own w u = spendable (nn_cash w) u - nn_gain w u"

definition nn_keeps :: "nn_world \<Rightarrow> nn_world \<Rightarrow> bool" where
  "nn_keeps w w' \<longleftrightarrow> nn_ok w' \<and> wealth (nn_cash w') = wealth (nn_cash w) \<and> nn_own w' = nn_own w"

lemma nn_keeps_refl: "nn_ok w \<Longrightarrow> nn_keeps w w"
  by (simp add: nn_keeps_def)

lemma nn_keeps_trans: "nn_keeps a b \<Longrightarrow> nn_keeps b c \<Longrightarrow> nn_keeps a c"
  by (simp add: nn_keeps_def)

lemma update_nn:
  assumes ok: "nn_ok w" and c: "cash_ok c" "untouched (refs r) (nn_cash w) c" "wealth c = wealth (nn_cash w)" and r: "nroom_ok c r"
    and old: "\<And>q. map_of (nn_rounds w) n = Some q \<Longrightarrow> refs q \<subseteq> refs r"
    and new: "\<And>m q. map_of (nn_rounds w) m = Some q \<Longrightarrow> m \<noteq> n \<Longrightarrow> refs r \<inter> refs q = {}"
    and w': "nn_cash w' = c" "nn_rounds w' = put n r (nn_rounds w)"
    and gain: "\<And>u. spendable c u = spendable (nn_cash w) u + room_gain u r
      - (case map_of (nn_rounds w) n of None \<Rightarrow> 0 | Some q \<Rightarrow> room_gain u q)"
  shows "nn_keeps w w'"
proof -
  have rooms: "nroom_ok c q" if "map_of (nn_rounds w') m = Some q" for m q
    using that r nroom_ok_untouched [OF nn_okD(3) [OF ok] c(2) new] w' by (auto split: if_splits)
  have apart: "refs p \<inter> refs q = {}"
    if "map_of (nn_rounds w') k = Some p" "map_of (nn_rounds w') m = Some q" "k \<noteq> m" for k m p q
    using that new nn_ok_apart [OF ok] w' by (auto split: if_splits)
  have esc: "\<exists>m q. map_of (nn_rounds w') m = Some q \<and> ref \<in> refs q" if h: "has_escrow c ''niuniu'' ref u" for ref u
  proof (cases "ref \<in> refs r")
    case False
    then have "has_escrow (nn_cash w) ''niuniu'' ref u" using h c(2) by (simp add: untouched_def)
    then obtain m q where m: "map_of (nn_rounds w) m = Some q" "ref \<in> refs q" using nn_ok_escrow [OF ok] by blast
    then have "m \<noteq> n" using old False by blast
    then show ?thesis using m w' by auto
  qed (use w' in auto)
  have "nn_ok w'"
    unfolding nn_ok_def rooms_ok_def refs_apart_def escrows_owned_def w'(1) using c(1) nn_okD(2) [OF ok] w'(2) rooms apart esc
    by (intro conjI allI impI) (simp | blast)+
  moreover have "nn_own w' = nn_own w"
    using gain asum_put [OF nn_okD(2) [OF ok]] by (simp add: nn_own_def nn_gain_def w' fun_eq_iff)
  ultimately show ?thesis using c(3) w'(1) by (simp add: nn_keeps_def)
qed

section \<open>The money loops\<close>

text \<open>What a loop over players with distinct escrows may rely on and keeps.\<close>

definition refunded :: "cash \<Rightarrow> nn_player list \<Rightarrow> nn_player list" where
  "refunded c ps = map (\<lambda>p. p\<lparr>y_result := stake_held c p\<rparr>) ps"

definition returned :: "cash \<Rightarrow> nn_player list \<Rightarrow> uid \<Rightarrow> int" where
  "returned c ps u = sum_list (map (\<lambda>p. if y_user p = u then stake_held c p else 0) ps)"

lemma stake_held_untouched:
  assumes "untouched R c c'" "y_ref p \<notin> R"
  shows "stake_held c' p = stake_held c p"
  using assms by (simp add: untouched_def)

lemma map_untouched:
  assumes "untouched R c c'" "\<forall>p \<in> set ps. y_ref p \<notin> R"
  shows "refunded c' ps = refunded c ps" "returned c' ps u = returned c ps u"
proof -
  have e: "\<forall>p \<in> set ps. stake_held c' p = stake_held c p" using stake_held_untouched [OF assms(1)] assms(2) by blast
  show "refunded c' ps = refunded c ps" using e by (simp add: refunded_def)
  have "map (\<lambda>p. if y_user p = u then stake_held c' p else 0) ps = map (\<lambda>p. if y_user p = u then stake_held c p else 0) ps"
    using e by (intro map_cong) auto
  then show "returned c' ps u = returned c ps u" unfolding returned_def by (rule arg_cong)
qed

lemma refund_players_effect:
  "cash_ok c \<Longrightarrow> distinct (map y_ref ps) \<Longrightarrow> \<forall>p \<in> set ps. stake_held c p \<le> MAX_INT \<Longrightarrow>
   \<exists>c'. refund_players c now ps = Inr (c', refunded c ps) \<and> cash_ok c' \<and> wealth c' = wealth c \<and> untouched (y_ref ` set ps) c c'
     \<and> (\<forall>p \<in> set ps. stake_held c' p = 0) \<and> (\<forall>u. spendable c' u = spendable c u + returned c ps u)"
proof (induction ps arbitrary: c)
  case (Cons p ps)
  have b: "0 \<le> stake_held c p" "stake_held c p \<le> MAX_INT" using held_nonneg [OF Cons.prems(1)] Cons.prems(3) by simp_all
  obtain c1 where c1: "release c ''niuniu'' (y_ref p) (y_user p) None ''play.release'' now = Inr (c1, stake_held c p)"
    using release_total [OF b] by blast
  note v = release_views [OF c1] and k = release_keeps [OF c1 Cons.prems(1)]
  have u1: "untouched {y_ref p} c c1" using v(2,3) by (intro untouchedI) auto
  have out: "y_ref p \<notin> y_ref ` set ps" using Cons.prems(2) by simp
  then have fresh: "\<forall>q \<in> set ps. y_ref q \<notin> {y_ref p}" by (metis imageI singletonD)
  have same: "\<forall>q \<in> set ps. stake_held c1 q = stake_held c q" using stake_held_untouched [OF u1] fresh by blast
  obtain c2 where c2: "refund_players c1 now ps = Inr (c2, refunded c1 ps)" "cash_ok c2" "wealth c2 = wealth c1"
    and u2: "untouched (y_ref ` set ps) c1 c2" and z: "\<forall>q \<in> set ps. stake_held c2 q = 0"
    and sp: "\<forall>u. spendable c2 u = spendable c1 u + returned c1 ps u"
    using Cons.IH [of c1] k Cons.prems(2,3) same by auto
  have "stake_held c2 p = 0" using stake_held_untouched [OF u2 out] v(2) by simp
  moreover have "untouched (y_ref ` set (p # ps)) c c2" by (rule untouched_trans [OF u1 u2]) auto
  moreover have "spendable c2 u = spendable c u + returned c (p # ps) u" for u
    using sp v(5) [of u] map_untouched(2) [OF u1 fresh] by (simp add: returned_def)
  ultimately show ?case using c1 c2 k z map_untouched(1) [OF u1 fresh] by (simp add: refunded_def)
qed (simp add: refunded_def returned_def)

lemma consume_players_effect:
  "consume_players c fund now pas = Inr c' \<Longrightarrow> cash_ok c \<Longrightarrow> distinct (map (\<lambda>(p, a). y_ref p) pas) \<Longrightarrow>
   cash_ok c' \<and> wealth c' = wealth c \<and> untouched (y_ref ` fst ` set pas) c c'
   \<and> (\<forall>(p, a) \<in> set pas. stake_held c' p = stake_held c p - a) \<and> points c' = points c"
proof (induction pas arbitrary: c)
  case (Cons pa pas)
  obtain p a where pa: "pa = (p, a)" by (cases pa)
  obtain c1 where c1: "consume c ''niuniu'' (y_ref p) (y_user p) a ''poker'' fund now = Inr c1"
    and r: "consume_players c1 fund now pas = Inr c'" using Cons.prems(1) pa by auto
  note v = consume_views [OF c1] and k = consume_keeps [OF c1 Cons.prems(2)]
  have u1: "untouched {y_ref p} c c1" using v(1,2) by (intro untouchedI) auto
  have ih: "cash_ok c' \<and> wealth c' = wealth c1 \<and> untouched (y_ref ` fst ` set pas) c1 c'
     \<and> (\<forall>(p, a) \<in> set pas. stake_held c' p = stake_held c1 p - a) \<and> points c' = points c1"
    using Cons.IH [OF r] k Cons.prems(3) by simp
  have fresh: "y_ref q \<noteq> y_ref p" if "(q, b) \<in> set pas" for q b using that Cons.prems(3) pa by force
  have "stake_held c' q = stake_held c q - b" if "(q, b) \<in> set pas" for q b
    using ih that stake_held_untouched [OF u1, of q] fresh [OF that] by auto
  moreover have "stake_held c' p = stake_held c p - a"
  proof -
    have "y_ref p \<notin> y_ref ` fst ` set pas" using fresh by force
    then have "stake_held c' p = stake_held c1 p" using stake_held_untouched [of "y_ref ` fst ` set pas" c1 c'] ih by blast
    then show ?thesis using v(1) by simp
  qed
  moreover have "untouched (y_ref ` fst ` set (pa # pas)) c c'"
    by (rule untouched_trans [OF u1, of "y_ref ` fst ` set pas"]) (use ih pa in auto)
  ultimately show ?case using ih k pa v(4) by auto
qed simp

definition paid_guest :: "int \<Rightarrow> nn_player \<Rightarrow> nn_player \<Rightarrow> nn_player" where
  "paid_guest stake bank p = (if beats p bank then p\<lparr>y_result := 2 * stake\<rparr> else p)"

text \<open>What the matches pay to a member: two stakes to the winner of each.\<close>

definition won_by :: "int \<Rightarrow> nn_player \<Rightarrow> nn_player list \<Rightarrow> uid \<Rightarrow> int" where
  "won_by stake bank ps u = sum_list (map (\<lambda>p. if u = (if beats p bank then y_user p else y_user bank) then 2 * stake else 0) ps)"

lemma won_by_results:
  "\<forall>p \<in> set ps. y_result p = 0 \<Longrightarrow>
   won_by stake bank ps u = (if y_user bank = u then bank_total stake bank ps else 0) + results (map (paid_guest stake bank) ps) u"
  by (induction ps) (auto simp: won_by_def results_def bank_total_def paid_guest_def)

lemma bank_total_length: "bank_total stake bank guests = 2 * stake * int (length (filter (\<lambda>p. \<not> beats p bank) guests))"
  by (induction guests) (simp_all add: bank_total_def distrib_left)

lemma play_matches_effect:
  "play_matches c fund now stake bank ps = Inr (c', qs) \<Longrightarrow> cash_ok c \<Longrightarrow>
   qs = map (paid_guest stake bank) ps \<and> (\<forall>p \<in> set ps. strength (y_cards p) \<noteq> strength (y_cards bank))
   \<and> cash_ok c' \<and> wealth c' = wealth c \<and> held c' = held c \<and> has_escrow c' = has_escrow c
   \<and> spendable c' u = spendable c u + won_by stake bank ps u"
proof (induction ps arbitrary: c qs)
  case (Cons p ps)
  obtain c1 rest where s: "strength (y_cards p) \<noteq> strength (y_cards bank)"
    and c1: "payout c ''poker'' fund (if beats p bank then y_user p else y_user bank) (2 * stake) now = Inr c1"
    and r: "play_matches c1 fund now stake bank ps = Inr (c', rest)" and qs: "qs = paid_guest stake bank p # rest"
    using Cons.prems(1) by (auto simp: Let_def paid_guest_def beats_def split: if_split_asm)
  show ?case using Cons.IH [OF r] payout_views(1,2,4) [OF c1] payout_keeps [OF c1 Cons.prems(2)] s qs by (simp add: won_by_def)
qed (simp add: won_by_def)

section \<open>Refunding a room\<close>

definition unused_ref :: "nn_world \<Rightarrow> string \<Rightarrow> bool" where
  "unused_ref w ref \<longleftrightarrow> (\<forall>n r. map_of (nn_rounds w) n = Some r \<longrightarrow> ref \<notin> refs r)"

lemma fresh_unused: "fresh_ref w ref \<Longrightarrow> unused_ref w ref"
  by (fastforce simp: fresh_ref_def unused_ref_def nn_refs_def refs_def dest: map_of_SomeD)

lemma unused_put:
  assumes "unused_ref w ref" "map_of (nn_rounds w) n = Some r" "refs q \<subseteq> refs r" "nn_rounds w' = put n q (nn_rounds w)"
  shows "unused_ref w' ref"
  using assms by (auto simp: unused_ref_def)

lemma closed_room_simps [simp]:
  "n_state (closed_room r st res ps) = st" "n_players (closed_room r st res ps) = ps" "n_stake (closed_room r st res ps) = n_stake r"
  "n_banker (closed_room r st res ps) = n_banker r" "n_actor (closed_room r st res ps) = n_actor r" "n_tg (closed_room r st res ps) = n_tg r"
  "refs (closed_room r st res ps) = y_ref ` set ps" "shares (closed_room r st res ps) u = shares r u"
  "is_bank (closed_room r st res ps) p = is_bank r p"
  by (simp_all add: closed_room_def refs_def shares_def is_bank_def)

lemma refunded_simps [simp]:
  "map y_ref (refunded c ps) = map y_ref ps" "map y_user (refunded c ps) = map y_user ps" "length (refunded c ps) = length ps"
  by (simp_all add: refunded_def comp_def)

lemma shares_bounds: "1 \<le> shares r u \<and> shares r u \<le> 4"
  by (simp add: shares_def)

lemma share_small:
  assumes "nroom_ok c r"
  shows "0 < n_stake r * shares r u" "n_stake r * shares r u \<le> MAX_INT"
proof -
  have s: "0 < n_stake r" "n_stake r \<le> MAX_INT div 8" using assms by (simp_all add: nroom_ok_def)
  show "0 < n_stake r * shares r u" using s(1) shares_bounds [of r u] by simp
  have "n_stake r * shares r u \<le> n_stake r * 4" using s(1) shares_bounds [of r u] by (intro mult_left_mono) auto
  then show "n_stake r * shares r u \<le> MAX_INT" using s(2) by (simp add: MAX_INT_def)
qed

lemma returned_shares:
  assumes "distinct (map y_user ps)" "\<forall>p \<in> set ps. stake_held c p = f (y_user p)"
  shows "returned c ps u = (if u \<in> y_user ` set ps then f u else 0)"
  using assms
proof (induction ps)
  case (Cons p ps)
  then show ?case by (auto simp: returned_def)
qed (simp add: returned_def)

lemma refund_effect:
  assumes ok: "nn_ok w" and r: "map_of (nn_rounds w) n = Some r" "nn_open r"
  obtains w' q where "nn_refund w n r why now = Inr w'" "nn_keeps w w'" "map_of (nn_rounds w') n = Some q" "n_state q = Cancelled"
    "\<forall>u. spendable (nn_cash w') u = spendable (nn_cash w) u + (if u \<in> y_user ` set (n_players r) then n_stake r * shares r u else 0)"
    "\<forall>ref. unused_ref w ref \<longrightarrow> unused_ref w' ref"
proof -
  let ?c = "nn_cash w" and ?ps = "n_players r"
  note room = nn_okD(3) [OF ok r(1)]
  have p: "distinct (map y_ref ?ps)" "distinct (map y_user ?ps)" "\<forall>p \<in> set ?ps. stake_held ?c p = n_stake r * shares r (y_user p)"
    using room r(2) by (simp_all add: nroom_ok_def)
  have small: "\<forall>p \<in> set ?ps. stake_held ?c p \<le> MAX_INT" using p(3) share_small(2) [OF room] by simp
  obtain c' where c': "refund_players ?c (clock_int now) ?ps = Inr (c', refunded ?c ?ps)" "cash_ok c'" "wealth c' = wealth ?c"
    "untouched (y_ref ` set ?ps) ?c c'" "\<forall>p \<in> set ?ps. stake_held c' p = 0" "\<forall>u. spendable c' u = spendable ?c u + returned ?c ?ps u"
    using refund_players_effect [OF nn_okD(1) [OF ok] p(1) small] by blast
  let ?q = "closed_room r Cancelled (Refunded why) (refunded ?c ?ps)"
  let ?w = "put_nn n ?q (w\<lparr>nn_cash := c'\<rparr>)"
  have refs: "refs ?q = refs r" by (simp add: refs_def refunded_def image_image)
  have q: "nroom_ok c' ?q"
    using room c'(5) p(3) r(2) by (auto simp: nroom_ok_def nn_open_def refunded_def comp_def)
  have gain: "spendable c' u = spendable ?c u + room_gain u ?q - room_gain u r" for u
  proof -
    have "y_user ` set (refunded ?c ?ps) = y_user ` set ?ps" by (simp add: refunded_def image_image)
    moreover have "results (refunded ?c ?ps) u = returned ?c ?ps u"
      by (simp add: results_def refunded_def returned_def comp_def cong: if_cong)
    ultimately show ?thesis using spec [OF c'(6), of u] r(2) by (simp add: room_gain_def nn_open_def [of ?q])
  qed
  have "nn_keeps w ?w"
    by (rule update_nn [where n = n, OF ok c'(2) _ c'(3) q]) (use c'(4) refs r(1) nn_ok_apart [OF ok r(1)] gain in \<open>simp_all add: refs_def\<close>)
  moreover have "nn_refund w n r why now = Inr ?w" using c'(1) r(2) by (simp add: nn_refund_def)
  moreover have "unused_ref ?w ref" if "unused_ref w ref" for ref
    by (rule unused_put [OF that r(1)]) (use refs in simp_all)
  ultimately show ?thesis
    using that [of ?w ?q] c'(6) returned_shares [OF p(2,3)] by simp
qed

definition nn_quiet :: "nn_world \<Rightarrow> nn_world \<Rightarrow> bool" where
  "nn_quiet w w' \<longleftrightarrow> nn_keeps w w' \<and> (\<forall>ref. unused_ref w ref \<longrightarrow> unused_ref w' ref)"

lemma nn_quiet_refl: "nn_ok w \<Longrightarrow> nn_quiet w w"
  by (simp add: nn_quiet_def nn_keeps_refl)

lemma nn_quiet_trans: "nn_quiet a b \<Longrightarrow> nn_quiet b c \<Longrightarrow> nn_quiet a c"
  unfolding nn_quiet_def using nn_keeps_trans by blast

lemma nn_quiet_ok: "nn_quiet w w' \<Longrightarrow> nn_ok w'"
  by (simp add: nn_quiet_def nn_keeps_def)

lemma refund_quiet:
  assumes ok: "nn_ok w" and r: "map_of (nn_rounds w) n = Some r"
  shows "\<exists>w'. nn_refund w n r why now = Inr w' \<and> nn_quiet w w'"
proof (cases "nn_open r")
  case True
  show ?thesis by (rule refund_effect [OF ok r True, of why now]) (auto simp: nn_quiet_def)
qed (use ok in \<open>simp add: nn_refund_def nn_quiet_refl\<close>)

lemma nn_expire_quiet:
  assumes ok: "nn_ok w"
  shows "\<exists>w'. nn_expire v w n now = Inr w' \<and> nn_quiet w w'"
proof (cases "map_of (nn_rounds w) n")
  case (Some r)
  note f = refund_quiet [OF ok Some]
  show ?thesis using f [of WaitOver now] f [of Recovered now] nn_quiet_refl [OF ok] by (simp add: nn_expire_def Some)
qed (use ok in \<open>simp add: nn_expire_def nn_quiet_refl\<close>)

lemma nn_expire_all_quiet:
  "nn_ok w \<Longrightarrow> snd (nn_expire_all v now ns w) = None \<and> nn_quiet w (fst (nn_expire_all v now ns w))"
proof (induction ns arbitrary: w)
  case (Cons n ns)
  obtain w' where w': "nn_expire v w n now = Inr w'" "nn_quiet w w'" using nn_expire_quiet [OF Cons.prems] by blast
  from Cons.IH [OF nn_quiet_ok [OF w'(2)]] show ?case using w' nn_quiet_trans by auto
qed (simp add: nn_quiet_refl)

section \<open>Taking a seat\<close>

lemma nn_not_busy:
  assumes "\<not> nn_busy e w u tg" "map_of (nn_rounds w) n = Some r" "nn_open r"
  shows "u \<notin> y_user ` set (n_players r)"
  using assms map_of_SomeD [OF assms(2)] by (fastforce simp: nn_busy_def list_ex_iff)

lemma nn_seat_keeps:
  assumes ok: "nn_ok w" and r: "map_of (nn_rounds w) n = Some r" "nn_open r" "length (n_players r) < 5"
    and free: "unused_ref w (n @ '':'' @ token)" and tx: "nn_seat e w n r tg u p token now = Inr w'"
  obtains q where "nn_keeps w w'" "map_of (nn_rounds w') n = Some q" "n_state q = n_state r"
proof -
  let ?ref = "n @ '':'' @ token"
  note room = nn_okD(3) [OF ok r(1)]
  obtain c b where c: "reserve (nn_cash w) ''niuniu'' ?ref u (n_stake r * shares r u) ''play.reserve'' (clock_int now) = Inr (c, b)"
    and busy: "\<not> nn_busy e w u tg"
    and w': "w' = put_nn n (r\<lparr>n_players := n_players r @
        [\<lparr>y_id = nn_ids w + 1, y_user = u, y_tg = tg, y_name = p_name p, y_username = telegram_username (p_username p), y_joined = now,
          y_ref = ?ref, y_cards = [], y_result = 0\<rparr>]\<rparr>) (w\<lparr>nn_cash := c, nn_ids := nn_ids w + 1\<rparr>)"
    using tx by (auto simp: nn_seat_def Let_def split: if_split_asm)
  define seat where "seat = \<lparr>y_id = nn_ids w + 1, y_user = u, y_tg = tg, y_name = p_name p,
    y_username = telegram_username (p_username p), y_joined = now, y_ref = ?ref, y_cards = [], y_result = 0\<rparr>"
  define q where "q = r\<lparr>n_players := n_players r @ [seat]\<rparr>"
  have free_esc: "\<not> has_escrow (nn_cash w) ''niuniu'' ?ref u"
    using nn_ok_escrow [OF ok] free by (auto simp: unused_ref_def)
  note v = reserve_views [OF c free_esc] and k = reserve_keeps [OF c nn_okD(1) [OF ok]]
  have u1: "untouched {?ref} (nn_cash w) c" using v(1,2) by (intro untouchedI) auto
  have new: "?ref \<notin> refs r" using free r(1) by (simp add: unused_ref_def)
  have same: "stake_held c p = stake_held (nn_cash w) p" if "p \<in> set (n_players r)" for p
    using stake_held_untouched [OF u1] new that by (force simp: refs_def)
  have q: "n_state q = n_state r" "n_players q = n_players r @ [seat]" "refs q = insert ?ref (refs r)" "nn_open q" "n_stake q = n_stake r"
    "n_banker q = n_banker r" "shares q x = shares r x" for x
    using r(2) by (auto simp: q_def refs_def nn_open_def shares_def seat_def)
  have seat: "y_ref seat = ?ref" "y_user seat = u" "y_result seat = 0" by (simp_all add: seat_def)
  have held: "stake_held c p = n_stake r * shares r (y_user p) \<and> y_result p = 0" if "p \<in> set (n_players q)" for p
  proof (cases "p = seat")
    case True
    then show ?thesis using v(1) seat by simp
  next
    case False
    then have "p \<in> set (n_players r)" using that q(2) by simp
    then show ?thesis using same room r(2) by (simp add: nroom_ok_def)
  qed
  have "nroom_ok c q"
    unfolding nroom_ok_def q(5-7)
    using room r(2,3) held q(1,2,4) seat new nn_not_busy [OF busy r(1,2)] by (auto simp: nroom_ok_def refs_def nn_open_def)
  moreover have "untouched (refs q) (nn_cash w) c" using untouched_trans [OF u1 untouched_refl, of "refs q"] q(3) by auto
  moreover have "w' = put_nn n q (w\<lparr>nn_cash := c, nn_ids := nn_ids w + 1\<rparr>)" using w' by (simp add: q_def seat_def)
  moreover have "refs q \<inter> refs m = {}" if "map_of (nn_rounds w) k = Some m" "k \<noteq> n" for k m
    using that nn_ok_apart [OF ok that(1) r(1)] q(3) free by (auto simp: unused_ref_def)
  moreover have "spendable c x = spendable (nn_cash w) x + room_gain x q - room_gain x r" for x
    using v(4) nn_not_busy [OF busy r(1,2)] q(2,4,5,7) seat(2) r(2) by (auto simp: room_gain_def)
  ultimately show ?thesis
    using that [of q] update_nn [OF ok, of c q n w'] k r(1) q(1,3) by auto
qed

section \<open>Settling\<close>

lemma sum_list_sort_key: "sum_list (map f (sort_key k xs)) = (sum_list (map f xs) :: int)"
  by (metis mset_map mset_sort sum_mset_sum_list)

lemma two_parts: "mset (filter P xs) + mset (filter (\<lambda>x. \<not> P x) xs) = mset xs"
  by (simp add: mset_filter)

lemma filter_single: "filter P xs = [x] \<Longrightarrow> x \<in> set xs \<and> P x"
  by (drule arg_cong [where f = set]) auto

lemma bank_facts:
  assumes "filter (is_bank r) ps = [bank]" "distinct (map y_user ps)" "n_banker r"
  shows "bank \<in> set ps" "is_bank r bank" "shares r (y_user bank) = 4" "\<And>p. p \<in> set ps \<Longrightarrow> \<not> is_bank r p \<Longrightarrow> shares r (y_user p) = 1"
    "\<And>p. p \<in> set ps \<Longrightarrow> is_bank r p \<longleftrightarrow> p = bank"
proof -
  have b: "bank \<in> set ps \<and> is_bank r bank" using filter_single [OF assms(1)] .
  then show "bank \<in> set ps" "is_bank r bank" by blast+
  show "shares r (y_user bank) = 4" using b assms(3) by (simp add: is_bank_def shares_def)
  show only: "is_bank r p \<longleftrightarrow> p = bank" if "p \<in> set ps" for p
  proof
    assume "is_bank r p"
    then have "p \<in> set (filter (is_bank r) ps)" using that by simp
    then show "p = bank" using assms(1) by simp
  qed (use b in simp)
  show "shares r (y_user p) = 1" if p: "p \<in> set ps" "\<not> is_bank r p" for p
  proof -
    have "y_user p \<noteq> y_user bank" using assms(2) p b by (auto simp: distinct_map inj_on_def)
    then show ?thesis using b by (simp add: shares_def is_bank_def)
  qed
qed

lemma return_unused_effect:
  assumes "return_unused c bank a now = Inr c'" "cash_ok c"
  shows "cash_ok c'" "wealth c' = wealth c" "untouched {y_ref bank} c c'" "stake_held c' bank = stake_held c bank - a"
    "spendable c' u = spendable c u + (if u = y_user bank then a else 0)"
proof -
  have "cash_ok c' \<and> wealth c' = wealth c \<and> untouched {y_ref bank} c c' \<and> stake_held c' bank = stake_held c bank - a
    \<and> spendable c' u = spendable c u + (if u = y_user bank then a else 0)"
  proof (cases "a = 0")
    case False
    then obtain b where r: "release c ''niuniu'' (y_ref bank) (y_user bank) (Some a) ''play.release'' now = Inr (c', b)"
      using assms(1) by (auto simp: return_unused_def)
    note v = release_part_views [OF r False]
    have "untouched {y_ref bank} c c'" using v(1,2) by (intro untouchedI) auto
    then show ?thesis using release_keeps [OF r assms(2)] v(1,4) by simp
  qed (use assms in \<open>simp add: return_unused_def\<close>)
  then show "cash_ok c'" "wealth c' = wealth c" "untouched {y_ref bank} c c'" "stake_held c' bank = stake_held c bank - a"
    "spendable c' u = spendable c u + (if u = y_user bank then a else 0)" by blast+
qed

lemma paid_guest_simps [simp]:
  "y_ref (paid_guest s b p) = y_ref p" "y_user (paid_guest s b p) = y_user p" "y_tg (paid_guest s b p) = y_tg p"
  "y_cards (paid_guest s b p) = y_cards p" "is_bank r (paid_guest s b p) = is_bank r p"
  by (simp_all add: paid_guest_def is_bank_def)

lemma beats_cards: "y_cards p = y_cards p' \<Longrightarrow> y_cards q = y_cards q' \<Longrightarrow> beats p q = beats p' q'"
  by (simp add: beats_def)

lemma paid_room:
  assumes ps: "filter (is_bank r) ps = [bank]" "2 \<le> length ps" "length ps \<le> 5" and zero: "\<forall>p \<in> set ps. y_result p = 0"
    and guests: "guests = filter (\<lambda>p. \<not> is_bank r p) ps" "\<forall>p \<in> set guests. strength (y_cards p) \<noteq> strength (y_cards bank)"
    and g: "g = int (length guests)" and valid: "\<forall>p \<in> set ps. valid_hand (y_cards p)"
    and qs: "qs = sort_key y_id (bank\<lparr>y_result := bank_total (n_stake r) bank guests + (4 - g) * n_stake r\<rparr> # map (paid_guest (n_stake r) bank) guests)"
  shows "paid_matches (closed_room r st res qs)"
proof -
  let ?s = "n_stake r"
  let ?bank = "bank\<lparr>y_result := bank_total ?s bank guests + (4 - g) * ?s\<rparr>" and ?paid = "map (paid_guest ?s bank) guests"
  have bank: "is_bank r bank" "bank \<in> set ps" using filter_single [OF ps(1)] by blast+
  then have bank': "is_bank r ?bank" by (simp add: is_bank_def)
  have out: "\<forall>p \<in> set guests. \<not> is_bank r p \<and> y_result p = 0 \<and> valid_hand (y_cards p)" using guests(1) zero valid by simp
  have vb: "valid_hand (y_cards bank)" using bank(2) valid by blast
  have "length ps = length guests + 1"
    using sum_length_filter_compl [of "is_bank r" ps] ps(1) guests(1) by simp
  then have len: "length qs = length ps" using qs by simp
  have in_b: "filter (is_bank r) (?bank # ?paid) = [?bank]" using bank' out by (simp add: filter_map comp_def)
  have in_g: "filter (\<lambda>p. \<not> is_bank r p) (?bank # ?paid) = ?paid" using bank' out by (simp add: filter_map comp_def filter_id_conv)
  have fb: "filter (is_bank r) qs = [?bank]" unfolding qs filter_sort in_b by simp
  have fg: "filter (\<lambda>p. \<not> is_bank r p) qs = sort_key y_id ?paid" unfolding qs filter_sort in_g ..
  have lose: "beats p bank = stronger (y_cards p) (y_cards bank)" "stronger (y_cards bank) (y_cards p) = (\<not> stronger (y_cards p) (y_cards bank))"
    if "p \<in> set guests" for p
    using that out vb guests(2) beats_stronger stronger_or [of "y_cards p" "y_cards bank"] by auto
  have "filter (\<lambda>p. \<not> beats p bank) guests = filter (\<lambda>p. stronger (y_cards bank) (y_cards p)) guests"
    by (rule filter_cong) (simp_all add: lose)
  then have total: "bank_total ?s bank guests
      = 2 * ?s * int (length (filter (\<lambda>p. stronger (y_cards ?bank) (y_cards p)) (sort_key y_id ?paid)))"
    by (simp add: bank_total_length filter_sort filter_map comp_def)
  have each: "if stronger (y_cards p) (y_cards ?bank) then y_result p = 2 * ?s else stronger (y_cards ?bank) (y_cards p) \<and> y_result p = 0"
    if p: "p \<in> set (sort_key y_id ?paid)" for p
  proof -
    obtain q where q: "q \<in> set guests" "p = paid_guest ?s bank q" using p by auto
    show ?thesis using q(2) lose [OF q(1)] out q(1) by (simp add: paid_guest_def)
  qed
  have hands: "\<forall>p \<in> set qs. valid_hand (y_cards p)" unfolding qs set_sort using out vb by auto
  have won: "y_result ?bank = 2 * ?s * int (length (filter (\<lambda>p. stronger (y_cards ?bank) (y_cards p)) (filter (\<lambda>p. \<not> is_bank r p) qs)))
      + (4 - int (length (filter (\<lambda>p. \<not> is_bank r p) qs))) * ?s"
    unfolding fg total [symmetric] by (simp add: g)
  have lost: "\<forall>p \<in> set (filter (\<lambda>p. \<not> is_bank r p) qs). if stronger (y_cards p) (y_cards ?bank) then y_result p = 2 * ?s
      else stronger (y_cards ?bank) (y_cards p) \<and> y_result p = 0"
    unfolding fg using each by blast
  have lens: "2 \<le> length qs" "length qs \<le> 5" using ps(2,3) len by simp_all
  have same: "is_bank (closed_room r st res qs) = is_bank r" by (simp add: fun_eq_iff)
  show ?thesis
    unfolding paid_matches_def closed_room_simps same Let_def
    by (intro conjI exI [of _ ?bank]) (fact lens hands fb won lost)+
qed

lemma banker_finish_effect:
  assumes fin: "banker_finish c nonce r ps now = Inr (c', qs, res)" and c: "cash_ok c" and banker: "n_banker r"
    and ps: "distinct (map y_ref ps)" "distinct (map y_user ps)" "2 \<le> length ps" "length ps \<le> 5"
    and held: "\<forall>p \<in> set ps. stake_held c p = n_stake r * shares r (y_user p) \<and> y_result p = 0"
    and valid: "\<forall>p \<in> set ps. valid_hand (y_cards p)"
  shows "cash_ok c' \<and> wealth c' = wealth c \<and> untouched (y_ref ` set ps) c c'
    \<and> (\<forall>p \<in> set qs. stake_held c' p = 0) \<and> mset (map y_ref qs) = mset (map y_ref ps) \<and> mset (map y_user qs) = mset (map y_user ps)
    \<and> paid_matches (closed_room r st res' qs) \<and> (\<forall>u. spendable c' u = spendable c u + results qs u)"
proof -
  let ?fund = "''niuniu:'' @ nonce" and ?s = "n_stake r"
  obtain bank where bank: "filter (is_bank r) ps = [bank]"
    using fin by (auto simp: banker_finish_def Let_def split: list.splits)
  define guests where "guests = filter (\<lambda>p. \<not> is_bank r p) ps"
  define g where "g = int (length guests)"
  define paying where "paying = map (\<lambda>p. (p, if is_bank r p then g * ?s else ?s)) ps"
  obtain c1 c2 c3 paid where c1: "return_unused c bank ((4 - g) * ?s) now = Inr c1" and c2: "consume_players c1 ?fund now paying = Inr c2"
    and c3: "play_matches c2 ?fund now ?s bank guests = Inr (c3, paid)"
    and out: "c' = c3" "qs = sort_key y_id (bank\<lparr>y_result := bank_total ?s bank guests + (4 - g) * ?s\<rparr> # paid)"
    using fin unfolding banker_finish_def Let_def bank list.case guests_def [symmetric] g_def [symmetric] paying_def [symmetric]
    by (elim bindR_InrE) (auto simp del: sort_key_simps)
  note b = bank_facts [OF bank ps(2) banker]
  note e1 = return_unused_effect [OF c1 c]
  have refs: "map (\<lambda>(p, a). y_ref p) paying = map y_ref ps" "y_ref ` fst ` set paying = y_ref ` set ps"
    by (simp_all add: paying_def comp_def image_image)
  have e2: "cash_ok c2 \<and> wealth c2 = wealth c1 \<and> untouched (y_ref ` set ps) c1 c2
      \<and> (\<forall>(p, a) \<in> set paying. stake_held c2 p = stake_held c1 p - a) \<and> points c2 = points c1"
    using consume_players_effect [OF c2 e1(1)] ps(1) refs by simp
  have e3: "paid = map (paid_guest ?s bank) guests \<and> (\<forall>p \<in> set guests. strength (y_cards p) \<noteq> strength (y_cards bank))
      \<and> cash_ok c3 \<and> wealth c3 = wealth c2 \<and> held c3 = held c2 \<and> has_escrow c3 = has_escrow c2
      \<and> spendable c3 u = spendable c2 u + won_by ?s bank guests u" for u
    using play_matches_effect [OF c3] e2 by blast
  have paid_out: "spendable c' u = spendable c u + results qs u" for u
  proof -
    have "results (bank\<lparr>y_result := bank_total ?s bank guests + (4 - g) * ?s\<rparr> # paid) u = results qs u"
      unfolding out(2) results_def sum_list_sort_key ..
    moreover have "\<forall>p \<in> set guests. y_result p = 0" using held by (simp add: guests_def)
    ultimately show ?thesis
      using e3 [of u] e2 return_unused_effect(5) [OF c1 c, of u] won_by_results [of guests ?s bank u] out(1)
      by (cases "u = y_user bank") (simp_all add: results_Cons)
  qed
  have zero: "stake_held c3 p = 0" if p: "p \<in> set ps" for p
  proof -
    have take: "stake_held c2 p = stake_held c1 p - (if is_bank r p then g * ?s else ?s)" using e2 p by (auto simp: paying_def)
    show ?thesis
    proof (cases "p = bank")
      case True
      then show ?thesis using take e3 e1(4) held b(1,2,3) by (simp add: algebra_simps)
    next
      case False
      then have "\<not> is_bank r p" "y_ref p \<noteq> y_ref bank" using b(1,5) p ps(1) by (auto simp: distinct_map inj_on_def)
      then show ?thesis using take e3 held p b(4) stake_held_untouched [OF e1(3), of p] by simp
    qed
  qed
  have qmem: "\<exists>q \<in> set ps. y_ref p = y_ref q \<and> y_user p = y_user q" if "p \<in> set qs" for p
    using that [unfolded out(2) set_sort] e3 b(1) by (auto simp: guests_def)
  have "stake_held c' p = 0" if p: "p \<in> set qs" for p
    using qmem [OF p] zero out(1) by auto
  moreover have "untouched (y_ref ` set ps) c c'"
  proof -
    have "untouched (y_ref ` set ps) c c2" by (rule untouched_trans [OF e1(3), of "y_ref ` set ps"]) (use e2 b(1) in auto)
    then show ?thesis using e3 out(1) by (simp add: untouched_def)
  qed
  moreover have "mset (map f qs) = mset (map f ps)" if "\<And>p x. f (p\<lparr>y_result := x\<rparr>) = f p" for f :: "nn_player \<Rightarrow> string"
  proof -
    have "f (paid_guest ?s bank p) = f p" for p using that by (simp add: paid_guest_def)
    then have "mset (map f qs) = mset (map f (filter (is_bank r) ps)) + mset (map f guests)"
      using e3 that by (simp add: out(2) bank multiset.map_comp comp_def)
    also have "\<dots> = image_mset f (mset (filter (is_bank r) ps) + mset guests)" by simp
    also have "\<dots> = mset (map f ps)" unfolding guests_def two_parts by simp
    finally show ?thesis .
  qed
  moreover have "paid_matches (closed_room r st res' qs)"
    by (rule paid_room [OF bank ps(3,4) _ guests_def _ g_def valid]) (use held e3 out(2) in auto)
  ultimately show ?thesis using e1 e2 e3 out(1) paid_out by simp
qed

lemma with_cards_maps:
  "length hands = length ps \<Longrightarrow> (\<And>p x. f (p\<lparr>y_cards := x\<rparr>) = f p) \<Longrightarrow> map f (with_cards ps hands) = map f ps"
  by (induction ps hands rule: list_induct2') (simp_all add: with_cards_def)

lemma nn_finish_keeps:
  assumes ok: "nn_ok w" and r: "map_of (nn_rounds w) n = Some r" "nn_open r" and fin: "nn_finish v w n r deck now = Inr w'"
  shows "nn_keeps w w' \<and> (\<exists>q. map_of (nn_rounds w') n = Some q \<and> n_state q = Settled)"
proof -
  let ?ps = "n_players r" and ?c = "nn_cash w"
  define dealt where "dealt = with_cards ?ps (deal_hands deck (length ?ps))"
  note room = nn_okD(3) [OF ok r(1)]
  have banker: "n_banker r" and bounds: "0 < n_stake r" "n_stake r \<le> MAX_INT div 8" using room by (simp_all add: nroom_ok_def)
  obtain c qs res where b: "banker_finish ?c n r dealt (clock_int now) = Inr (c, qs, res)" and len: "2 \<le> length ?ps" "length ?ps \<le> 5"
    and w': "w' = put_nn n (closed_room r Settled res qs) (w\<lparr>nn_cash := c\<rparr>)"
    using fin banker by (auto simp: nn_finish_def Let_def dealt_def split: if_split_asm)
  have hands: "length (deal_hands deck (length ?ps)) = length ?ps" by (simp add: deal_hands_def)
  note maps = with_cards_maps [OF hands, folded dealt_def]
  have m: "map y_ref dealt = map y_ref ?ps" "map y_user dealt = map y_user ?ps" by (rule maps; simp)+
  have mm: "map (\<lambda>p. (y_ref p, y_user p, y_result p)) dealt = map (\<lambda>p. (y_ref p, y_user p, y_result p)) ?ps" by (rule maps) simp
  have same: "(\<lambda>p. (y_ref p, y_user p, y_result p)) ` set dealt = (\<lambda>p. (y_ref p, y_user p, y_result p)) ` set ?ps"
    using arg_cong [OF mm, of set] by (simp only: set_map)
  have trip: "\<exists>q \<in> set ?ps. y_ref q = y_ref p \<and> y_user q = y_user p \<and> y_result q = y_result p" if "p \<in> set dealt" for p
  proof -
    have "(y_ref p, y_user p, y_result p) \<in> (\<lambda>p. (y_ref p, y_user p, y_result p)) ` set ?ps" unfolding same [symmetric] using that by (rule imageI)
    then show ?thesis by (elim imageE) auto
  qed
  have held: "\<forall>p \<in> set dealt. stake_held ?c p = n_stake r * shares r (y_user p) \<and> y_result p = 0"
  proof
    fix p assume "p \<in> set dealt"
    then obtain q where "q \<in> set ?ps" "y_ref q = y_ref p" "y_user q = y_user p" "y_result q = y_result p" using trip by blast
    then show "stake_held ?c p = n_stake r * shares r (y_user p) \<and> y_result p = 0" using room r(2) by (force simp: nroom_ok_def)
  qed
  have d: "distinct (map y_ref dealt)" "distinct (map y_user dealt)" "length dealt = length ?ps"
    using room m map_eq_imp_length_eq [OF m(1)] by (simp_all add: nroom_ok_def)
  have ok_hands: "\<forall>h \<in> set (deal_hands deck (length ?ps)). valid_hand h"
    using fin by (auto simp: nn_finish_def Let_def list_ex_iff valid_strength split: if_split_asm)
  have valid: "\<forall>p \<in> set dealt. valid_hand (y_cards p)"
    using ok_hands by (auto simp: dealt_def with_cards_def dest!: set_zip_rightD)
  have e: "cash_ok c \<and> wealth c = wealth ?c \<and> untouched (y_ref ` set dealt) ?c c \<and> (\<forall>p \<in> set qs. stake_held c p = 0)
     \<and> mset (map y_ref qs) = mset (map y_ref dealt) \<and> mset (map y_user qs) = mset (map y_user dealt) \<and> paid_matches (closed_room r Settled res qs)
     \<and> (\<forall>u. spendable c u = spendable ?c u + results qs u)"
    by (rule banker_finish_effect [OF b nn_okD(1) [OF ok] banker d(1,2) _ _ held valid]) (use d(3) len in simp_all)
  have rd: "y_ref ` set dealt = refs r" using arg_cong [OF m(1), of set] unfolding set_map refs_def .
  have "mset (map y_ref qs) = mset (map y_ref dealt)" using e by blast
  from mset_eq_setD [OF this] have rq: "y_ref ` set qs = refs r" unfolding set_map rd .
  note refs = rq rd
  have dq: "distinct (map y_ref qs)" "distinct (map y_user qs)" using e d(1,2) mset_eq_imp_distinct_iff by blast+
  have "mset (map y_user qs) = mset (map y_user ?ps)" using e m(2) by metis
  from mset_eq_setD [OF this] have "y_user ` set qs = y_user ` set ?ps" unfolding set_map .
  then have gain: "spendable c u = spendable ?c u + room_gain u (closed_room r Settled res qs) - room_gain u r" for u
    using e r(2) by (simp add: room_gain_def nn_open_def [of "closed_room r Settled res qs"])
  have lq: "length qs \<le> 5" using e by (auto simp: paid_matches_def)
  have "nroom_ok c (closed_room r Settled res qs)"
    using e dq lq banker bounds by (simp add: nroom_ok_def nn_open_def)
  then have "nn_keeps w w'"
    by (rule update_nn [OF ok, of c "closed_room r Settled res qs" n, rotated 3])
      (use e refs r(1) w' nn_ok_apart [OF ok r(1)] gain in simp_all)
  then show ?thesis using w' by simp
qed

section \<open>Buttons and rooms\<close>

lemma nn_quiet_same_rooms:
  assumes "nn_ok w" "map_of (nn_rounds w) n = Some r" "n_players q = n_players r" "n_state q = n_state r" "n_stake q = n_stake r"
    "n_actor q = n_actor r" "n_tg q = n_tg r" "n_banker q = n_banker r"
  shows "nn_quiet w (put_nn n q w)"
proof -
  have s: "refs q = refs r" "shares q = shares r" "is_bank q = is_bank r" "nn_open q = nn_open r"
    using assms(3-8) by (auto simp: refs_def shares_def is_bank_def nn_open_def fun_eq_iff)
  have pm: "paid_matches q = paid_matches r" by (simp only: paid_matches_def assms(3-8) s)
  have "nroom_ok (nn_cash w) q = nroom_ok (nn_cash w) r" by (simp only: nroom_ok_def assms(3-8) s pm)
  then have room: "nroom_ok (nn_cash w) q" using nn_okD(3) [OF assms(1,2)] by blast
  have gain: "room_gain u q = room_gain u r" for u by (simp only: room_gain_def assms(3-8) s)
  from room have "nn_keeps w (put_nn n q w)"
    by (rule update_nn [where n = n, OF assms(1) nn_okD(1) [OF assms(1)] untouched_refl refl])
      (use assms(2) s(1) nn_ok_apart [OF assms(1,2)] gain in simp_all)
  moreover have "unused_ref (put_nn n q w) ref" if "unused_ref w ref" for ref
    by (rule unused_put [OF that assms(2)]) (use s(1) in simp_all)
  ultimately show ?thesis by (simp add: nn_quiet_def)
qed

lemma nn_bump_keeps: "nn_ok w \<Longrightarrow> nn_keeps w (nn_bump n w)"
  using nn_quiet_same_rooms [of w n] nn_keeps_refl [of w] by (auto simp: nn_bump_def nn_quiet_def split: option.split)

lemma nn_card_keeps: "nn_ok w \<Longrightarrow> nn_keeps w (nn_card n f w)"
  using nn_quiet_same_rooms [of w n] nn_keeps_refl [of w] by (auto simp: nn_card_def nn_quiet_def split: option.split)

lemma nn_deliver_keeps: "nn_ok w \<Longrightarrow> nn_keeps w (nn_deliver n f w)"
  using nn_quiet_same_rooms [of w n] nn_keeps_refl [of w] by (auto simp: nn_deliver_def nn_quiet_def split: option.split)

lemma join_room_keeps:
  assumes ok: "nn_ok w" and r: "map_of (nn_rounds w) n = Some r" "n_state r = Lobby" and free: "unused_ref w (n @ '':'' @ token)"
    and tx: "join_room e w n r tg u p token deck now = Inr w'"
  shows "nn_keeps w w'"
proof -
  have op: "nn_open r" using r(2) by (simp add: nn_open_def)
  obtain w1 where small: "length (n_players r) < 5" and s: "nn_seat e w n r tg u p token now = Inr w1"
    and rest: "(if length (n_players r) = 4 then
        (case map_of (nn_rounds w1) n of None \<Rightarrow> Inl NoRoom | Some r1 \<Rightarrow> nn_finish (ne_room e) w1 n r1 deck now) else Inr w1) = Inr w'"
    using tx by (auto simp: join_room_def split: if_split_asm)
  obtain q where q: "nn_keeps w w1" "map_of (nn_rounds w1) n = Some q" "n_state q = n_state r"
    using nn_seat_keeps [OF ok r(1) op small free s] .
  have ok1: "nn_ok w1" and op1: "nn_open q" using q r(2) by (simp_all add: nn_keeps_def nn_open_def)
  show ?thesis
  proof (cases "length (n_players r) = 4")
    case True
    then have "nn_finish (ne_room e) w1 n q deck now = Inr w'" using rest q(2) by simp
    then show ?thesis using nn_finish_keeps [OF ok1 q(2) op1] nn_keeps_trans [OF q(1)] by blast
  qed (use rest q(1) in simp)
qed

lemma start_room_keeps:
  assumes "nn_ok w" "map_of (nn_rounds w) n = Some r" "n_state r = Lobby" "start_room v w n r tg u deck now = Inr w'"
  shows "nn_keeps w w'"
  using assms nn_finish_keeps [OF assms(1,2)] by (auto simp: start_room_def nn_open_def split: if_split_asm)

lemma nn_press_keeps:
  assumes ok: "nn_ok w" and r: "map_of (nn_rounds w) n = Some r" and free: "unused_ref w (n @ '':'' @ token)"
    and tx: "nn_press e w n r tg u p op token deck now = Inr w'"
  shows "nn_keeps w w'"
proof -
  have bump: "nn_keeps w (nn_bump n w1)" if "nn_keeps w w1" for w1
    using nn_keeps_trans [OF that nn_bump_keeps] that by (simp add: nn_keeps_def)
  show ?thesis
  proof (cases "n_state r = Lobby")
    case True
    show ?thesis
      using tx True bump join_room_keeps [OF ok r True free] start_room_keeps [OF ok r True] nn_keeps_refl [OF ok]
      by (auto simp: nn_press_def Let_def split: if_split_asm)
  next
    case False
    then show ?thesis using tx nn_keeps_refl [OF ok] by (auto simp: nn_press_def Let_def split: if_split_asm)
  qed
qed

lemma nn_button_keeps:
  assumes ok: "nn_ok w" and free: "unused_ref w (n @ '':'' @ token)" and tx: "nn_button e w n p m op token deck now = Inr w'"
  shows "nn_keeps w w'"
proof -
  obtain r0 where r0: "map_of (nn_rounds w) n = Some r0" using tx by (auto simp: nn_button_def split: option.splits)
  obtain card tg u where press: "nn_press e (put_nn n (r0\<lparr>n_card := card\<rparr>) w) n (r0\<lparr>n_card := card\<rparr>) tg u p op token deck now = Inr w'"
    using tx r0 by (auto simp: nn_button_def Let_def)
  let ?w = "put_nn n (r0\<lparr>n_card := card\<rparr>) w"
  have q: "nn_quiet w ?w" by (rule nn_quiet_same_rooms [OF ok r0]) simp_all
  have "nn_keeps ?w w'"
    by (rule nn_press_keeps [OF nn_quiet_ok [OF q] _ _ press]) (use q free in \<open>simp_all add: nn_quiet_def\<close>)
  then show ?thesis using q nn_keeps_trans unfolding nn_quiet_def by blast
qed

lemma nn_lobby_keeps:
  assumes ok: "nn_ok w" and free: "unused_ref w (n @ '':'' @ token)"
  shows "nn_keeps w (fst (nn_lobby e w n p m op token deck now))"
proof -
  obtain w1 where w1: "nn_expire (ne_room e) w n now = Inr w1" "nn_quiet w w1" using nn_expire_quiet [OF ok] by blast
  have ok1: "nn_ok w1" and k1: "nn_keeps w w1" and free1: "unused_ref w1 (n @ '':'' @ token)"
    using w1(2) free nn_quiet_ok by (auto simp: nn_quiet_def)
  have press: "nn_keeps w w2" if "nn_button e w1 n p m op token deck now = Inr w2" for w2
    using nn_keeps_trans [OF k1 nn_button_keeps [OF ok1 free1 that]] .
  have undo: "nn_keeps w w2" if "map_of (nn_rounds w1) n = Some r" "nn_refund w1 n r UnsafeStart now = Inr w2" for w2 r
    using nn_keeps_trans [OF k1] refund_quiet [OF ok1 that(1), of UnsafeStart now] that(2) by (auto simp: nn_quiet_def)
  show ?thesis
  proof (cases "op = ''leave''")
    case True
    then show ?thesis using nn_keeps_refl [OF ok] by (simp add: nn_lobby_def)
  next
    case False
    show ?thesis
    proof (cases "nn_button e w1 n p m op token deck now")
      case (Inl x)
      then show ?thesis using undo k1 False by (simp add: nn_lobby_def w1(1) split: option.split sum.split)
    next
      case (Inr w2)
      then show ?thesis using press k1 False by (simp add: nn_lobby_def w1(1))
    qed
  qed
qed

lemma nn_new_room_keeps:
  assumes ok: "nn_ok w" and fresh: "map_of (nn_rounds w) n = None" and r: "n_players r = []" "n_state r = Lobby" "n_banker r"
    "0 < n_stake r" "n_stake r \<le> MAX_INT div 8"
  shows "nn_quiet w (put_nn n r w)"
proof -
  have refs: "refs r = {}" using r(1) by (simp add: refs_def)
  have "nroom_ok (nn_cash w) r" using r by (simp add: nroom_ok_def)
  then have "nn_keeps w (put_nn n r w)"
    by (rule update_nn [where n = n, OF ok nn_okD(1) [OF ok] untouched_refl refl])
      (use fresh refs r(1,2) in \<open>simp_all add: room_gain_def nn_open_def\<close>)
  moreover have "unused_ref (put_nn n r w) ref" if "unused_ref w ref" for ref using that refs by (simp add: unused_ref_def)
  ultimately show ?thesis by (simp add: nn_quiet_def)
qed

lemma nn_open_room_keeps:
  assumes ok: "nn_ok w" and free: "unused_ref w (nonce @ '':'' @ token)"
    and tx: "nn_open_room e cfg w chat thread mid p asked nonce token now = Inr (w', k)"
  shows "nn_keeps w w'"
proof -
  define v where "v = ne_room e"
  define stake where "stake = (case asked of None \<Rightarrow> nn_default_stake cfg | Some a \<Rightarrow> a)"
  obtain tg m where a: "play_actor (e_members v) p now = Inr (tg, m)" and bound: "stake \<le> MAX_INT div 8"
    and rest: "(case find (\<lambda>(n, r). c_bot (n_card r) = e_bot v \<and> c_chat (n_card r) = chat \<and> c_command (n_card r) = mid) (nn_rounds w) of
        Some (n, r) \<Rightarrow>
          if n_actor r \<noteq> mb_user m \<or> n_tg r \<noteq> tg \<or> c_thread (n_card r) \<noteq> thread \<or> n_stake r \<noteq> stake then Inl OtherIntent else Inr (w, n)
      | None \<Rightarrow>
          if \<not> e_on v then Inl GameClosed
          else if list_ex (\<lambda>(n, r). c_bot (n_card r) = e_bot v \<and> c_chat (n_card r) = chat \<and> c_thread (n_card r) = thread \<and> nn_open r)
              (nn_rounds w) then Inl RoomTaken
          else if ne_poker_room e chat thread then Inl OldRoomOpen
          else if map_of (nn_rounds w) nonce \<noteq> None \<or> stake \<le> 0 then Inl RowRefused
          else
            let r = nn_new_round v cfg chat thread mid tg (mb_user m) (p_name p) stake now in
            bindR (nn_seat e (put_nn nonce r w) nonce r tg (mb_user m) p token now) (\<lambda>w1. Inr (w1, nonce))) = Inr (w', k)"
    using tx unfolding nn_open_room_def Let_def v_def [symmetric] stake_def [symmetric] by (elim bindR_InrE) auto
  show ?thesis
  proof (cases "find (\<lambda>(n, r). c_bot (n_card r) = e_bot v \<and> c_chat (n_card r) = chat \<and> c_command (n_card r) = mid) (nn_rounds w)")
    case (Some nr)
    then have "w' = w" using rest by (cases nr) (simp split: if_split_asm)
    then show ?thesis using nn_keeps_refl [OF ok] by simp
  next
    case None
    let ?r = "nn_new_round v cfg chat thread mid tg (mb_user m) (p_name p) stake now"
    have new: "map_of (nn_rounds w) nonce = None" "0 < stake"
      and seat: "nn_seat e (put_nn nonce ?r w) nonce ?r tg (mb_user m) p token now = Inr w'"
      using rest None by (auto simp: Let_def split: if_split_asm)
    have r: "n_players ?r = []" "n_state ?r = Lobby" "n_banker ?r" "n_stake ?r = stake" by (simp_all add: nn_new_round_def)
    have q: "nn_quiet w (put_nn nonce ?r w)" by (rule nn_new_room_keeps [OF ok new(1)]) (use r new(2) bound in simp_all)
    have ok1: "nn_ok (put_nn nonce ?r w)" by (rule nn_quiet_ok [OF q])
    have free1: "unused_ref (put_nn nonce ?r w) (nonce @ '':'' @ token)" using q free by (simp add: nn_quiet_def)
    have "nn_keeps (put_nn nonce ?r w) w'"
      by (rule nn_seat_keeps [OF ok1 _ _ _ free1 seat]) (use r in \<open>simp_all add: nn_open_def\<close>)
    then show ?thesis using q nn_keeps_trans unfolding nn_quiet_def by blast
  qed
qed

lemma nn_create_keeps:
  assumes ok: "nn_ok w" and free: "unused_ref w (nonce @ '':'' @ token)"
  shows "nn_keeps w (fst (nn_create e cfg w m p asked nonce token now))"
proof -
  obtain w1 x where d: "nn_expire_due (ne_room e) w now = (w1, x)" by (cases "nn_expire_due (ne_room e) w now")
  have q: "nn_quiet w w1" using nn_expire_all_quiet [OF ok] d unfolding nn_expire_due_def by (metis fst_conv)
  have k1: "nn_keeps w w1" and ok1: "nn_ok w1" and free1: "unused_ref w1 (nonce @ '':'' @ token)"
    using q free nn_quiet_ok by (auto simp: nn_quiet_def)
  have tx: "nn_keeps w w2" if t: "nn_create_tx e cfg w1 m p asked nonce token now = Inr (w2, k)" for w2 k
  proof -
    obtain chat thread mid where "nn_open_room e cfg w1 chat thread mid p asked nonce token now = Inr (w2, k)"
      using t by (auto simp: nn_create_tx_def split: option.splits)
    then show ?thesis using nn_keeps_trans [OF k1 nn_open_room_keeps [OF ok1 free1]] by blast
  qed
  show ?thesis using k1 tx by (auto simp: nn_create_def d split: option.split sum.split)
qed

lemma nn_step_keeps:
  assumes ok: "nn_ok w" and step: "nn_step w op = Inr w'"
  shows "nn_keeps w w'"
proof -
  obtain e now o1 where op: "op = (e, now, o1)" by (cases op)
  note step = step [unfolded op]
  show ?thesis
  proof (cases o1)
    case (NnCreate cfg m p asked nonce token)
    then show ?thesis using step nn_create_keeps [OF ok fresh_unused] nn_keeps_refl [OF ok] by (auto split: if_split_asm)
  next
    case (NnLobby nonce p m op token deck)
    then show ?thesis using step nn_lobby_keeps [OF ok fresh_unused] nn_keeps_refl [OF ok] by (auto split: if_split_asm)
  next
    case (NnExpire n)
    then show ?thesis using step nn_expire_quiet [OF ok, of "ne_room e" n now] by (auto simp: nn_quiet_def)
  next
    case NnExpireDue
    then show ?thesis using step nn_expire_all_quiet [OF ok] by (auto simp: nn_expire_due_def nn_quiet_def)
  qed (use step nn_card_keeps [OF ok] nn_deliver_keeps [OF ok] in auto)
qed

interpretation niuniu: accounting nn_step nn_ok "\<lambda>w. wealth (nn_cash w)"
  by unfold_locales (auto dest: nn_step_keeps simp: nn_keeps_def)

interpretation nn_member: accounting nn_step nn_ok "\<lambda>w. nn_own w u" for u
  by unfold_locales (auto dest: nn_step_keeps simp: nn_keeps_def)

lemma nn_empty_ok: "nn_ok (nn_empty rows)"
  by (simp add: nn_ok_def nn_empty_def empty_cash_def cash_ok_def rooms_ok_def refs_apart_def escrows_owned_def has_escrow_def)

lemma nn_run_ok: "runR nn_step (nn_empty rows) ops = Inr w \<Longrightarrow> nn_ok w"
  by (rule niuniu.run_ok [OF _ nn_empty_ok])

section \<open>A played room\<close>

definition demo_nn_env :: nn_env where
  "demo_nn_env = \<lparr>ne_room = demo_room_env, ne_poker_seat = (\<lambda>_ _. False), ne_poker_room = (\<lambda>_ _. False)\<rparr>"

definition demo_nn_ops :: "(nn_env \<times> real \<times> nn_op) list" where
  "demo_nn_ops = map (\<lambda>(t, x). (demo_nn_env, t, x))
     [(100, NnCreate \<lparr>nn_default_stake = 4, nn_min_stake = 1, nn_lobby_seconds = 600\<rparr> (demo_command 10) (demo_person ''ann'' 1) None ''n'' ''a''),
      (101, NnPublish ''n'' ''t''),
      (102, NnPublished ''n'' ((card_of ''niuniu'' 99 5 0 10 100)\<lparr>c_token := ''t''\<rparr>) 11),
      (103, NnLobby ''n'' (demo_person ''bob'' 2) (demo_card [nn_data ''n'' ''join'']) ''join'' ''b'' [0..51]),
      (104, NnLobby ''n'' (demo_person ''ann'' 1) (demo_card [nn_data ''n'' ''start'']) ''start'' ''c'' [0..51])]"

lemma demo_nn_full:
  obtains w r where "runR nn_step (nn_empty demo_room_points) demo_nn_ops = Inr w" "map_of (nn_rounds w) ''n'' = Some r"
    "n_state r = Settled" "map y_result (n_players r) = [20, 0]"
proof -
  have "case runR nn_step (nn_empty demo_room_points) demo_nn_ops of Inl _ \<Rightarrow> False
      | Inr w \<Rightarrow> (case map_of (nn_rounds w) ''n'' of None \<Rightarrow> False
          | Some r \<Rightarrow> n_state r = Settled \<and> map y_result (n_players r) = [20, 0])" by code_simp
  then show ?thesis using that by (auto split: sum.splits option.splits)
qed

lemma demo_nn_open:
  obtains w r where "runR nn_step (nn_empty demo_room_points) (take 4 demo_nn_ops) = Inr w" "map_of (nn_rounds w) ''n'' = Some r"
    "n_state r = Lobby" "n_expires r = 700" "n_stake r = 4" "n_actor r = ''ann''" "n_banker r" "''ann'' \<in> y_user ` set (n_players r)"
proof -
  have "case runR nn_step (nn_empty demo_room_points) (take 4 demo_nn_ops) of Inl _ \<Rightarrow> False
      | Inr w \<Rightarrow> (case map_of (nn_rounds w) ''n'' of None \<Rightarrow> False
          | Some r \<Rightarrow> n_state r = Lobby \<and> n_expires r = 700 \<and> n_stake r = 4 \<and> n_actor r = ''ann'' \<and> n_banker r
              \<and> ''ann'' \<in> y_user ` set (n_players r))" by code_simp
  then show ?thesis using that by (auto split: sum.splits option.splits)
qed

section \<open>Properties\<close>

text \<open>Two hands dealt from one shuffled deck never have the same strength, so every match of a room has a winner and a settlement can
  never stop at the code's guard against identical hands.\<close>

theorem niuniu_never_ties:
  assumes "shuffled deck" "n \<le> 10" "i < n" "j < n" "i \<noteq> j"
  shows "\<exists>a b. strength (deal_hands deck n ! i) = Some a \<and> strength (deal_hands deck n ! j) = Some b \<and> (a < b \<or> b < a)"
proof -
  have v: "valid_hand (deal_hands deck n ! k)" if "k < n" for k
    using dealt_hand [OF assms(1), of k] that assms(2) by (simp add: deal_hands_nth)
  obtain a b where "strength (deal_hands deck n ! i) = Some a" "strength (deal_hands deck n ! j) = Some b"
    using strength_Some [OF v [OF assms(3)]] strength_Some [OF v [OF assms(4)]] by blast
  then show ?thesis using hands_never_tie [OF assms] by auto
qed

theorem niuniu_never_ties_witness:
  "\<exists>a b. strength [0, 1, 2, 3, 4] = Some a \<and> strength [5, 6, 7, 8, 9] = Some b \<and> (a < b \<or> b < a)"
proof -
  have s: "shuffled [0..51]" by code_simp
  have h: "deal_hands [0..51] 2 ! 0 = [0, 1, 2, 3, 4]" "deal_hands [0..51] 2 ! 1 = [5, 6, 7, 8, 9]" by code_simp+
  have "\<exists>a b. strength (deal_hands [0..51] 2 ! 0) = Some a \<and> strength (deal_hands [0..51] 2 ! 1) = Some b \<and> (a < b \<or> b < a)"
    by (rule niuniu_never_ties [OF s]) simp_all
  then show ?thesis unfolding h .
qed

text \<open>C31. After any history of rooms (opened, joined, started by the host or by the fifth player, expired, cancelled after an unsafe
  start) a settled room had two to five players with valid hands and one banker, and its results are those of the matches: a guest
  with the stronger hand gets two stakes, one with the weaker hand nothing, the banker two stakes per guest beaten plus the part
  of the collateral no guest called for; a cancelled room returned every share. The results are what was paid: what a member can
  spend is the balance before the first room plus, for every room joined, the result once it is closed, less the share frozen
  (four stakes for the banker, one for a guest); and no money appeared or was lost.\<close>

theorem niuniu_pays_matches:
  assumes "runR nn_step (nn_empty rows) ops = Inr w" "map_of (nn_rounds w) n = Some r"
  shows "(n_state r = Settled \<longrightarrow> paid_matches r)
    \<and> (n_state r = Cancelled \<longrightarrow> (\<forall>p \<in> set (n_players r). y_result p = n_stake r * shares r (y_user p)))
    \<and> spendable (nn_cash w) u = balance rows u + nn_gain w u
    \<and> wealth (nn_cash w) = ledger_total rows"
proof -
  have "nroom_ok (nn_cash w) r" by (rule nn_okD(3) [OF nn_run_ok [OF assms(1)] assms(2)])
  moreover have "wealth (nn_cash w) = ledger_total rows"
    using niuniu.run_worth [OF assms(1) nn_empty_ok] by (simp add: nn_empty_def empty_cash_def wealth_def)
  moreover have "spendable (nn_cash w) u = balance rows u + nn_gain w u"
    using nn_member.run_worth [OF assms(1) nn_empty_ok, of u] by (simp add: nn_own_def nn_gain_def nn_empty_def empty_cash_def)
  ultimately show ?thesis by (simp add: nroom_ok_def)
qed

theorem niuniu_pays_matches_witness:
  "\<exists>w r. runR nn_step (nn_empty demo_room_points) demo_nn_ops = Inr w \<and> map_of (nn_rounds w) ''n'' = Some r \<and> paid_matches r
     \<and> map y_result (n_players r) = [20, 0] \<and> spendable (nn_cash w) ''ann'' = balance demo_room_points ''ann'' + nn_gain w ''ann''"
proof (rule demo_nn_full)
  fix w r
  assume w: "runR nn_step (nn_empty demo_room_points) demo_nn_ops = Inr w" "map_of (nn_rounds w) ''n'' = Some r"
    "n_state r = Settled" "map y_result (n_players r) = [20, 0]"
  have "paid_matches r" "spendable (nn_cash w) ''ann'' = balance demo_room_points ''ann'' + nn_gain w ''ann''"
    using niuniu_pays_matches [OF w(1,2), of "''ann''"] w(3) by blast+
  then show ?thesis by (intro exI [of _ w] exI [of _ r] conjI w)
qed

text \<open>No share is ever locked: after any history, expiring an open room whose time is over (or while the game is off) succeeds,
  cancels the room and returns every player's share: four stakes to the banker, one to a guest.\<close>

theorem niuniu_refunds:
  assumes "runR nn_step (nn_empty rows) ops = Inr w" "map_of (nn_rounds w) n = Some r" "nn_open r"
    and "n_expires r \<le> now \<or> \<not> e_on v"
  shows "\<exists>w' q. nn_expire v w n now = Inr w' \<and> map_of (nn_rounds w') n = Some q \<and> n_state q = Cancelled
    \<and> (\<forall>u. spendable (nn_cash w') u = spendable (nn_cash w) u + (if u \<in> y_user ` set (n_players r) then n_stake r * shares r u else 0))"
proof -
  define why where "why = (if n_state r = Lobby then WaitOver else Recovered)"
  have e: "nn_expire v w n now = nn_refund w n r why now" using assms(2-4) by (simp add: nn_expire_def why_def)
  show ?thesis unfolding e by (rule refund_effect [OF nn_run_ok [OF assms(1)] assms(2,3), of why now]) blast
qed

theorem niuniu_refunds_witness:
  "\<exists>w w'. nn_expire demo_room_env w ''n'' 700 = Inr w' \<and> spendable (nn_cash w') ''ann'' = spendable (nn_cash w) ''ann'' + 16"
proof (rule demo_nn_open)
  fix w r
  assume w: "runR nn_step (nn_empty demo_room_points) (take 4 demo_nn_ops) = Inr w" "map_of (nn_rounds w) ''n'' = Some r"
    and r: "n_state r = Lobby" "n_expires r = 700" "n_stake r = 4" "n_actor r = ''ann''" "n_banker r" "''ann'' \<in> y_user ` set (n_players r)"
  obtain w' where w': "nn_expire demo_room_env w ''n'' 700 = Inr w'"
    and sp: "\<forall>u. spendable (nn_cash w') u = spendable (nn_cash w) u + (if u \<in> y_user ` set (n_players r) then n_stake r * shares r u else 0)"
    using niuniu_refunds [OF w, of 700 demo_room_env] r by (auto simp: nn_open_def)
  have "spendable (nn_cash w') ''ann'' = spendable (nn_cash w) ''ann'' + 16"
    using spec [OF sp, of "''ann''"] r by (simp add: shares_def)
  then show ?thesis using w' by blast
qed

end
