(* ===== verification/Packets.thy ===== *)
theory Packets
  imports PlayRooms IpAddress
begin

text \<open>
  \<^verbatim>\<open>backend/app/modules/red_packets.py\<close>: envelopes of points in a group. A member's envelope is paid for when it is confirmed; the
  shares not yet claimed are held by the row alone (\<open>r_remaining\<close>). A row of \<open>red_packets\<close> with its rows of
  \<open>red_packet_claims\<close> is a \<open>packet\<close>. Texts and the payload of the final receipt are not modelled. Random numbers enter as seeds:
  \<open>secrets.randbelow(u)\<close> is the remainder of an arbitrary number by \<open>u\<close>.
\<close>

section \<open>Errors and requests\<close>

datatype packet_error =
    RGroup | RForwarded | RActor room_error | RMember | RCard | ROnlySender | RRole | RClosed | RCommand | RNumber | RMode | RLimit
  | RSmall | RUneven | RMembersOff | RIntent | RShort | RField | RMissing | REnded | RLate | RRules | RButton | RWhitelist | RGone
  | RBig | RRow | RIndex

datatype raw = RawInt int | RawText string | RawOther

record packet_config =
  pc_total :: int
  pc_parts :: int
  pc_ttl :: int
  pc_members :: bool

definition digit_char :: "nat \<Rightarrow> char" where
  "digit_char n = ''0123456789'' ! n"

fun show_nat :: "nat \<Rightarrow> string" where
  "show_nat n = (if n < 10 then [digit_char n] else show_nat (n div 10) @ [digit_char (n mod 10)])"

definition show_int :: "int \<Rightarrow> string" where
  "show_int i = (if i < 0 then ''-'' @ show_nat (nat (- i)) else show_nat (nat i))"

declare show_nat.simps [simp del]

definition SQL_MAX :: int where "SQL_MAX = 2 ^ 63 - 1"

definition positive_int :: "raw \<Rightarrow> packet_error + int" where
  "positive_int x =
     (case (case x of RawInt i \<Rightarrow> if 0 \<le> i \<and> i < 10 ^ 19 then Some i else None
            | RawText s \<Rightarrow> if all_digits s \<and> length s \<le> 19 then Some (decimal s) else None
            | RawOther \<Rightarrow> None) of
        None \<Rightarrow> Inl RNumber
      | Some v \<Rightarrow> if 0 < v \<and> v \<le> SQL_MAX then Inr v else Inl RNumber)"

definition validate_request :: "packet_config \<Rightarrow> raw \<Rightarrow> raw \<Rightarrow> string \<Rightarrow> string \<Rightarrow> packet_error + int \<times> int" where
  "validate_request cfg asked parts mode audience =
     bindR (positive_int asked) (\<lambda>t.
     bindR (positive_int parts) (\<lambda>k.
     if mode \<notin> {''equal'', ''random''} \<or> audience \<notin> {''all'', ''whitelist''} then Inl RMode
     else if pc_total cfg < t \<or> pc_parts cfg < k then Inl RLimit
     else if t < k then Inl RSmall
     else if mode = ''equal'' \<and> t mod k \<noteq> 0 then Inl RUneven
     else Inr (t, k)))"

section \<open>Shares\<close>

definition randbelow :: "int \<Rightarrow> int \<Rightarrow> int" where
  "randbelow seed upper = seed mod upper"

definition share_limit :: "int \<Rightarrow> int \<Rightarrow> int" where
  "share_limit remaining left = min (remaining - left + 1) (max 1 (2 * remaining div left))"

fun split_random :: "(nat \<Rightarrow> int) \<Rightarrow> int \<Rightarrow> nat \<Rightarrow> int list" where
  "split_random seed remaining (Suc (Suc k)) =
     (let amount = randbelow (seed k) (share_limit remaining (int k + 2)) + 1
      in amount # split_random seed (remaining - amount) (Suc k))"
| "split_random seed remaining k = [remaining]"

definition allocations :: "(nat \<Rightarrow> int) \<Rightarrow> int \<Rightarrow> int \<Rightarrow> string \<Rightarrow> int list" where
  "allocations seed asked parts mode =
     (if mode = ''equal'' then replicate (nat parts) (asked div parts) else split_random seed asked (nat parts))"

section \<open>State\<close>

datatype packet_status = Draft | Active | Exhausted | Expired | Cancelled

datatype card_send = CardPending | CardSending | CardSent | CardFailed | CardUnknown

datatype packet_note = NoTrouble | SendLost | RenderLost | SettleLater

record packet_claim =
  rc_user :: uid
  rc_tg :: int
  rc_amount :: int
  rc_slot :: int
  rc_at :: int
  rc_name :: string
  rc_username :: string

type_synonym intent = "int \<times> int \<times> string \<times> string"

record packet =
  r_chat :: int
  r_thread :: int
  r_command :: int
  r_tg :: int
  r_actor :: uid
  r_name :: string
  r_paid :: bool
  r_mode :: string
  r_audience :: string
  r_total :: int
  r_parts :: int
  r_config :: packet_config
  r_intent :: intent
  r_permanent :: bool
  r_created :: int
  r_confirm_by :: int
  r_message :: "int option"
  r_send :: card_send
  r_status :: packet_status
  r_expires :: int
  r_allocs :: "int list"
  r_remaining :: int
  r_claimed :: int
  r_refunded :: int
  r_voided :: int
  r_version :: int
  r_rendered :: int
  r_next :: int
  r_page :: int
  r_retry_at :: int
  r_note :: packet_note
  r_receipt :: bool
  r_claims :: "packet_claim list"

datatype packet_audit = AuditConfirm string | AuditClaim string uid int int | AuditExpire string int int int

record packet_world =
  pw_points :: ledger
  pw_rows :: "(string \<times> packet) list"
  pw_audit :: "packet_audit list"

record packet_env =
  pe_room :: room_env
  pe_config :: packet_config
  pe_admin :: "uid \<Rightarrow> bool"
  pe_white :: "uid \<Rightarrow> bool"

definition put_packet :: "string \<Rightarrow> packet \<Rightarrow> packet_world \<Rightarrow> packet_world" where
  "put_packet n r w = w\<lparr>pw_rows := put n r (pw_rows w)\<rparr>"

definition rerendered :: "packet \<Rightarrow> packet" where
  "rerendered r = r\<lparr>r_version := r_version r + 1, r_next := 0\<rparr>"

section \<open>Who and where\<close>

definition packet_group :: "room_env \<Rightarrow> message \<Rightarrow> packet_error + int \<times> int" where
  "packet_group v m =
     (case m_chat_id m of
        None \<Rightarrow> Inl RGroup
      | Some cid \<Rightarrow>
          if m_chat_type m \<notin> {''group'', ''supergroup''} \<or> \<not> e_allowed v m then Inl RGroup
          else if m_sender_chat m \<or> m_auto_forward m \<or> m_forward_origin m \<or> m_forward_date m then Inl RForwarded
          else Inr (cid, m_thread m))"

definition packet_actor :: "room_env \<Rightarrow> person \<Rightarrow> packet_error + int \<times> member_row" where
  "packet_actor v p =
     (case reliable_user p of
        Inl e \<Rightarrow> Inl (RActor e)
      | Inr tg \<Rightarrow>
          (case find_by_telegram (e_members v) tg of
             None \<Rightarrow> Inl RMember
           | Some m \<Rightarrow> if \<not> mb_active m \<or> mb_missing m then Inl RMember else Inr (tg, m)))"

definition packet_context :: "room_env \<Rightarrow> packet \<Rightarrow> message \<Rightarrow> packet_error + unit" where
  "packet_context v r m =
     bindR (packet_group v m) (\<lambda>(cid, thread0).
     let thread = (if r_permanent r \<and> \<not> m_topic m then 0 else thread0) in
     if r_chat r \<noteq> cid \<or> r_thread r \<noteq> thread \<or> m_id m = None \<or> r_message r \<noteq> m_id m \<or> \<not> m_from_bot m \<or> m_from_id m \<noteq> e_bot v
     then Inl RCard else Inr ())"

definition packet_sender :: "packet_env \<Rightarrow> packet \<Rightarrow> person \<Rightarrow> packet_error + member_row" where
  "packet_sender e r p =
     bindR (packet_actor (pe_room e) p) (\<lambda>(tg, m).
     if tg \<noteq> r_tg r \<or> mb_user m \<noteq> r_actor r then Inl ROnlySender
     else if r_paid r = pe_admin e (mb_user m) then Inl RRole
     else Inr m)"

section \<open>Drafts\<close>

definition new_packet :: "packet_env \<Rightarrow> message \<Rightarrow> person \<Rightarrow> int \<Rightarrow> int \<Rightarrow> int \<Rightarrow> int \<Rightarrow> uid \<Rightarrow> intent \<Rightarrow> int \<Rightarrow> packet" where
  "new_packet e m p cid thread mid tg u = (\<lambda>(t, k, mode, audience) now.
     \<lparr>r_chat = cid, r_thread = (if m_topic m then thread else 0), r_command = mid, r_tg = tg, r_actor = u, r_name = p_name p,
      r_paid = (\<not> pe_admin e u), r_mode = mode, r_audience = audience, r_total = t, r_parts = k, r_config = pe_config e,
      r_intent = (t, k, mode, audience), r_permanent = True, r_created = now, r_confirm_by = now + 600, r_message = None,
      r_send = CardPending, r_status = Draft, r_expires = 0, r_allocs = [], r_remaining = 0, r_claimed = 0, r_refunded = 0, r_voided = 0,
      r_version = 0, r_rendered = 0, r_next = 0, r_page = 0, r_retry_at = 0, r_note = NoTrouble, r_receipt = False, r_claims = []\<rparr>)"

definition draft_packet :: "packet_env \<Rightarrow> packet_world \<Rightarrow> message \<Rightarrow> person \<Rightarrow> int \<Rightarrow> int \<Rightarrow> int \<Rightarrow> raw \<Rightarrow> raw \<Rightarrow> string \<Rightarrow> string \<Rightarrow> string \<Rightarrow> int
    \<Rightarrow> packet_error + packet_world \<times> string" where
  "draft_packet e w m p cid thread mid asked parts mode audience nonce now =
     bindR (packet_actor (pe_room e) p) (\<lambda>(tg, mb).
     bindR (validate_request (pe_config e) asked parts mode audience) (\<lambda>(t, k).
     let u = mb_user mb; paid = (\<not> pe_admin e u) in
     if paid \<and> \<not> pc_members (pe_config e) then Inl RMembersOff
     else
       (case find (\<lambda>(n, r). r_chat r = cid \<and> r_command r = mid) (pw_rows w) of
          Some (n, r) \<Rightarrow>
            if r_tg r \<noteq> tg \<or> r_actor r \<noteq> u \<or> r_paid r \<noteq> paid \<or> r_thread r \<noteq> (if \<not> r_permanent r \<or> m_topic m then thread else 0)
               \<or> r_intent r \<noteq> (t, k, mode, audience) then Inl RIntent
            else Inr (w, n)
        | None \<Rightarrow>
            if paid \<and> balance (pw_points w) u < t then Inl RShort
            else if map_of (pw_rows w) nonce \<noteq> None then Inl RRow
            else Inr (put_packet nonce (new_packet e m p cid thread mid tg u (t, k, mode, audience) now) w, nonce))))"

definition prepare :: "packet_env \<Rightarrow> packet_world \<Rightarrow> message \<Rightarrow> person \<Rightarrow> raw \<Rightarrow> raw \<Rightarrow> string \<Rightarrow> string \<Rightarrow> string \<Rightarrow> int
    \<Rightarrow> packet_error + packet_world \<times> string" where
  "prepare e w m p asked parts mode audience nonce now =
     (if \<not> e_on (pe_room e) then Inl RClosed
      else
        bindR (packet_group (pe_room e) m) (\<lambda>(cid, thread).
        case reliable_user p of
          Inl x \<Rightarrow> Inl (RActor x)
        | Inr _ \<Rightarrow>
            (case m_id m of
               None \<Rightarrow> Inl RCommand
             | Some mid \<Rightarrow>
                 if mid \<le> 0 then Inl RCommand
                 else draft_packet e w m p cid thread mid asked parts mode audience nonce now)))"

definition begin_card_send :: "packet_world \<Rightarrow> string \<Rightarrow> packet_world \<times> bool" where
  "begin_card_send w n =
     (case map_of (pw_rows w) n of
        None \<Rightarrow> (w, False)
      | Some r \<Rightarrow>
          if r_status r = Draft \<and> r_send r = CardPending \<and> r_message r = None then (put_packet n (r\<lparr>r_send := CardSending\<rparr>) w, True) else (w, False))"

definition card_send_failed :: "packet_world \<Rightarrow> string \<Rightarrow> bool \<Rightarrow> packet_world" where
  "card_send_failed w n failed =
     (case map_of (pw_rows w) n of
        None \<Rightarrow> w
      | Some r \<Rightarrow>
          if r_message r = None then put_packet n (r\<lparr>r_send := (if failed then CardFailed else CardUnknown), r_note := SendLost\<rparr>) w else w)"

definition bind_card :: "packet_world \<Rightarrow> string \<Rightarrow> int \<Rightarrow> packet_world \<times> bool" where
  "bind_card w n mid =
     (if mid \<le> 0 then (w, False)
      else
        (case map_of (pw_rows w) n of
           None \<Rightarrow> (w, False)
         | Some r \<Rightarrow>
             if r_message r = None \<and> r_status r = Draft
             then (put_packet n (r\<lparr>r_message := Some mid, r_send := CardSent, r_note := NoTrouble\<rparr>) w, True)
             else (w, r_message r = Some mid)))"

datatype draft_field = FTotal raw | FParts raw | FMode string | FAudience string

definition changed_request :: "packet \<Rightarrow> draft_field \<Rightarrow> raw \<times> raw \<times> string \<times> string" where
  "changed_request r f =
     ((case f of FTotal x \<Rightarrow> x | _ \<Rightarrow> RawInt (r_total r)), (case f of FParts x \<Rightarrow> x | _ \<Rightarrow> RawInt (r_parts r)),
      (case f of FMode s \<Rightarrow> s | _ \<Rightarrow> r_mode r), (case f of FAudience s \<Rightarrow> s | _ \<Rightarrow> r_audience r))"

definition edit_draft :: "packet_env \<Rightarrow> packet_world \<Rightarrow> string \<Rightarrow> person \<Rightarrow> message \<Rightarrow> draft_field \<Rightarrow> int \<Rightarrow> packet_error + packet_world" where
  "edit_draft e w n p m f now =
     (case map_of (pw_rows w) n of
        None \<Rightarrow> Inl RMissing
      | Some r \<Rightarrow>
          bindR (packet_context (pe_room e) r m) (\<lambda>_.
          bindR (packet_sender e r p) (\<lambda>_.
          if r_status r \<noteq> Draft \<or> r_confirm_by r \<le> now \<or> \<not> e_on (pe_room e) then Inl REnded
          else if r_paid r \<and> \<not> pc_members (pe_config e) then Inl RMembersOff
          else
            (case changed_request r f of (asked, parts, mode, audience) \<Rightarrow>
               bindR (validate_request (pe_config e) asked parts mode audience) (\<lambda>(t, k).
               Inr (put_packet n (rerendered (r\<lparr>r_total := t, r_parts := k, r_mode := mode, r_audience := audience, r_config := pe_config e\<rparr>)) w))))))"

section \<open>Confirming\<close>

definition pay_packet :: "packet_world \<Rightarrow> string \<Rightarrow> packet \<Rightarrow> int \<Rightarrow> packet_error + ledger" where
  "pay_packet w n r now =
     (if \<not> r_paid r then Inr (pw_points w)
      else
        (case points_apply (pw_points w) (r_actor r) (- r_total r) ''packet.reserve'' n (''tg:'' @ show_int (r_tg r)) now of
           Inl _ \<Rightarrow> Inl RShort
         | Inr (rows, _) \<Rightarrow> Inr rows))"

definition activated :: "packet \<Rightarrow> int list \<Rightarrow> packet_config \<Rightarrow> int \<Rightarrow> packet" where
  "activated r values cfg now =
     rerendered (r\<lparr>r_status := Active, r_expires := (if r_permanent r then 0 else now + pc_ttl cfg * 3600), r_allocs := values,
                   r_remaining := r_total r\<rparr>)"

definition confirm_draft :: "packet_env \<Rightarrow> packet_world \<Rightarrow> string \<Rightarrow> packet \<Rightarrow> bool \<Rightarrow> (nat \<Rightarrow> int) \<Rightarrow> int \<Rightarrow> packet_error + packet_world" where
  "confirm_draft e w n r cancel seed now =
     (if cancel then Inr (put_packet n (rerendered (r\<lparr>r_status := Cancelled\<rparr>)) w)
      else if r_confirm_by r \<le> now then Inl RLate
      else if \<not> e_on (pe_room e) then Inl RClosed
      else if pe_config e \<noteq> r_config r then Inl RRules
      else
        bindR (validate_request (pe_config e) (RawInt (r_total r)) (RawInt (r_parts r)) (r_mode r) (r_audience r)) (\<lambda>_.
        if r_paid r \<and> \<not> pc_members (pe_config e) then Inl RMembersOff
        else
          bindR (pay_packet w n r now) (\<lambda>rows.
          let values = allocations seed (r_total r) (r_parts r) (r_mode r) in
          Inr (put_packet n (activated r values (pe_config e) now) (w\<lparr>pw_points := rows, pw_audit := pw_audit w @ [AuditConfirm n]\<rparr>)))))"

definition confirm :: "packet_env \<Rightarrow> packet_world \<Rightarrow> string \<Rightarrow> person \<Rightarrow> message \<Rightarrow> bool \<Rightarrow> (nat \<Rightarrow> int) \<Rightarrow> int \<Rightarrow> packet_error + packet_world" where
  "confirm e w n p m cancel seed now =
     (case map_of (pw_rows w) n of
        None \<Rightarrow> Inl RMissing
      | Some r \<Rightarrow>
          bindR (packet_context (pe_room e) r m) (\<lambda>_.
          if p_id p \<noteq> Some (r_tg r) \<or> p_bot p \<noteq> Some False then Inl ROnlySender
          else if r_status r \<noteq> Draft then Inr w
          else bindR (packet_sender e r p) (\<lambda>_. confirm_draft e w n r cancel seed now)))"

section \<open>Claiming\<close>

definition RESULTS_PER_PAGE :: int where "RESULTS_PER_PAGE = 10"

definition credit :: "ledger \<Rightarrow> uid \<Rightarrow> int \<Rightarrow> string \<Rightarrow> string \<Rightarrow> string \<Rightarrow> int \<Rightarrow> packet_error + ledger" where
  "credit rows u amount reason n actor now =
     (if SQL_MAX < balance rows u + amount then Inl RBig
      else (case points_apply rows u amount reason n actor now of Inl _ \<Rightarrow> Inl RBig | Inr (rows', _) \<Rightarrow> Inr rows'))"

definition claimed_row :: "packet \<Rightarrow> packet_claim \<Rightarrow> packet" where
  "claimed_row r cl =
     (let slot = r_claimed r; exhausted = (slot + 1 = r_parts r) in
      rerendered (r\<lparr>r_remaining := r_remaining r - rc_amount cl, r_claimed := slot + 1, r_status := (if exhausted then Exhausted else Active),
                    r_page := slot div RESULTS_PER_PAGE, r_receipt := (r_receipt r \<or> exhausted \<and> r_permanent r), r_claims := r_claims r @ [cl]\<rparr>))"

definition take_share :: "packet_world \<Rightarrow> string \<Rightarrow> packet \<Rightarrow> int \<Rightarrow> uid \<Rightarrow> person \<Rightarrow> int \<Rightarrow> packet_error + packet_world \<times> int" where
  "take_share w n r tg u p now =
     (let slot = r_claimed r in
      if slot < 0 \<or> int (length (r_allocs r)) \<le> slot then Inl RIndex
      else
        let amount = r_allocs r ! nat slot;
            cl = \<lparr>rc_user = u, rc_tg = tg, rc_amount = amount, rc_slot = slot, rc_at = now, rc_name = p_name p,
                  rc_username = telegram_username (p_username p)\<rparr> in
        bindR (credit (pw_points w) u amount (if r_paid r then ''packet.claim'' else ''packet.reward'') n (''packet:'' @ r_actor r) now) (\<lambda>rows.
        Inr (put_packet n (claimed_row r cl) (w\<lparr>pw_points := rows, pw_audit := pw_audit w @ [AuditClaim n u amount slot]\<rparr>), amount)))"

definition claim :: "packet_env \<Rightarrow> packet_world \<Rightarrow> string \<Rightarrow> person \<Rightarrow> message \<Rightarrow> int \<Rightarrow> packet_error + packet_world \<times> bool \<times> int" where
  "claim e w n p m now =
     (case map_of (pw_rows w) n of
        None \<Rightarrow> Inl RMissing
      | Some r \<Rightarrow>
          bindR (packet_context (pe_room e) r m) (\<lambda>_.
          if (''rpclaim:'' @ n) \<notin> set (m_actions m) then Inl RButton
          else
            bindR (packet_actor (pe_room e) p) (\<lambda>(tg, mb).
            if r_audience r = ''whitelist'' \<and> \<not> pe_white e (mb_user mb) then Inl RWhitelist
            else
              (case find (\<lambda>c. rc_user c = mb_user mb \<or> rc_tg c = tg) (r_claims r) of
                 Some c \<Rightarrow> Inr (w, True, rc_amount c)
               | None \<Rightarrow>
                   if r_status r \<noteq> Active \<or> \<not> r_permanent r \<and> r_expires r \<le> now then Inl RGone
                   else bindR (take_share w n r tg (mb_user mb) p now) (\<lambda>(w1, amount). Inr (w1, False, amount))))))"

section \<open>Expiry\<close>

definition settle_expired :: "packet_world \<Rightarrow> string \<Rightarrow> packet \<Rightarrow> int \<Rightarrow> packet_error + packet_world" where
  "settle_expired w n r now =
     (let remaining = r_remaining r; refunded = (if r_paid r then remaining else 0); voided = (if r_paid r then 0 else remaining) in
      bindR (if refunded \<noteq> 0 then credit (pw_points w) (r_actor r) refunded ''packet.refund'' n ''system'' now else Inr (pw_points w)) (\<lambda>rows.
      Inr (put_packet n (rerendered (r\<lparr>r_status := Expired, r_remaining := 0, r_refunded := refunded, r_voided := voided, r_note := NoTrouble,
                                       r_retry_at := 0\<rparr>))
            (w\<lparr>pw_points := rows, pw_audit := pw_audit w @ [AuditExpire n refunded voided (r_total r - remaining)]\<rparr>))))"

definition expire_packet :: "packet_world \<Rightarrow> string \<Rightarrow> int \<Rightarrow> packet_error + packet_world" where
  "expire_packet w n now =
     (case map_of (pw_rows w) n of
        None \<Rightarrow> Inr w
      | Some r \<Rightarrow>
          if r_status r = Draft \<and> r_confirm_by r \<le> now then Inr (put_packet n (r\<lparr>r_status := Cancelled, r_version := r_version r + 1\<rparr>) w)
          else if r_status r \<noteq> Active \<or> r_permanent r \<or> now < r_expires r then Inr w
          else settle_expired w n r now)"

definition packet_due :: "int \<Rightarrow> packet \<Rightarrow> bool" where
  "packet_due now r \<longleftrightarrow> r_retry_at r \<le> now \<and>
     (r_status r = Active \<and> \<not> r_permanent r \<and> r_expires r \<le> now \<or> r_status r = Draft \<and> r_confirm_by r \<le> now)"

text \<open>A failure is noted on the row and tried again a minute later; the other packets go on.\<close>

definition expire_one :: "int \<Rightarrow> packet_world \<Rightarrow> string \<Rightarrow> packet_world" where
  "expire_one now w n =
     (case expire_packet w n now of
        Inr w' \<Rightarrow> w'
      | Inl _ \<Rightarrow>
          (case map_of (pw_rows w) n of
             None \<Rightarrow> w
           | Some r \<Rightarrow>
               if r_status r \<in> {Active, Draft} then put_packet n (rerendered (r\<lparr>r_retry_at := now + 60, r_note := SettleLater\<rparr>)) w else w))"

definition expire_packets :: "packet_world \<Rightarrow> int \<Rightarrow> packet_world \<times> int" where
  "expire_packets w now =
     (let due = take 100 (map fst (sort_key (\<lambda>(n, r). r_created r) (filter (\<lambda>(n, r). packet_due now r) (pw_rows w)))) in
      (foldl (expire_one now) w due, int (length due)))"

section \<open>Rendering and reading\<close>

definition pending_renders :: "packet_world \<Rightarrow> int \<Rightarrow> (string \<times> packet) list" where
  "pending_renders w now =
     take 100 (sort_key (\<lambda>(n, r). r_created r)
       (filter (\<lambda>(n, r). r_message r \<noteq> None \<and> r_rendered r < r_version r \<and> r_next r \<le> now) (pw_rows w)))"

definition rendered :: "packet_world \<Rightarrow> string \<Rightarrow> int \<Rightarrow> bool \<Rightarrow> int \<Rightarrow> packet_world" where
  "rendered w n version ok now =
     (case map_of (pw_rows w) n of
        None \<Rightarrow> w
      | Some r \<Rightarrow>
          if r_version r = version
          then put_packet n (r\<lparr>r_rendered := (if ok then version else -1), r_next := (if ok then 0 else now + 10),
                               r_note := (if ok then NoTrouble else RenderLost)\<rparr>) w
          else w)"

definition page_button :: "string \<Rightarrow> int \<Rightarrow> string" where
  "page_button n page = ''rppage:'' @ n @ '':'' @ show_int page"

definition turn_page :: "packet_env \<Rightarrow> packet_world \<Rightarrow> string \<Rightarrow> person \<Rightarrow> message \<Rightarrow> int \<Rightarrow> packet_error + packet_world" where
  "turn_page e w n p m page =
     (case map_of (pw_rows w) n of
        None \<Rightarrow> Inl RMissing
      | Some r \<Rightarrow>
          bindR (packet_context (pe_room e) r m) (\<lambda>_.
          case reliable_user p of
            Inl x \<Rightarrow> Inl (RActor x)
          | Inr _ \<Rightarrow>
              if page_button n page \<notin> set (m_actions m) \<or> r_status r \<in> {Draft, Cancelled}
                 \<or> page < 0 \<or> max 0 ((r_claimed r - 1) div RESULTS_PER_PAGE) < page then Inl RButton
              else Inr (if r_page r \<noteq> page then put_packet n (rerendered (r\<lparr>r_page := page\<rparr>)) w else w)))"

text \<open>\<open>ORDER BY amount DESC, slot ASC LIMIT 1\<close>\<close>

definition best_claim :: "packet \<Rightarrow> packet_claim option" where
  "best_claim r = (case sort_key (\<lambda>c. (- rc_amount c, rc_slot c)) (r_claims r) of [] \<Rightarrow> None | c # _ \<Rightarrow> Some c)"

definition shown_claims :: "packet \<Rightarrow> int \<Rightarrow> packet_claim list" where
  "shown_claims r left = sort_key rc_slot (filter (\<lambda>c. rc_slot c < left) (r_claims r))"

section \<open>Histories\<close>

datatype packet_op =
    RpPrepare message person raw raw string string string
  | RpBeginSend string
  | RpSendFailed string bool
  | RpBind string int
  | RpEdit string person message draft_field
  | RpConfirm string person message bool "nat \<Rightarrow> int"
  | RpClaim string person message
  | RpExpire string
  | RpExpireDue
  | RpRendered string int bool
  | RpPage string person message int

fun packet_step :: "packet_world \<Rightarrow> packet_env \<times> int \<times> packet_op \<Rightarrow> packet_error + packet_world" where
  "packet_step w (e, now, RpPrepare m p asked parts mode audience n) =
     bindR (prepare e w m p asked parts mode audience n now) (\<lambda>(w', _). Inr w')"
| "packet_step w (e, now, RpBeginSend n) = Inr (fst (begin_card_send w n))"
| "packet_step w (e, now, RpSendFailed n failed) = Inr (card_send_failed w n failed)"
| "packet_step w (e, now, RpBind n mid) = Inr (fst (bind_card w n mid))"
| "packet_step w (e, now, RpEdit n p m f) = edit_draft e w n p m f now"
| "packet_step w (e, now, RpConfirm n p m cancel seed) = confirm e w n p m cancel seed now"
| "packet_step w (e, now, RpClaim n p m) = bindR (claim e w n p m now) (\<lambda>(w', _). Inr w')"
| "packet_step w (e, now, RpExpire n) = expire_packet w n now"
| "packet_step w (e, now, RpExpireDue) = Inr (fst (expire_packets w now))"
| "packet_step w (e, now, RpRendered n version ok) = Inr (rendered w n version ok now)"
| "packet_step w (e, now, RpPage n p m page) = turn_page e w n p m page"

end
