(* ===== verification/PacketRules.thy ===== *)
theory PacketRules
  imports Packets RoomDemo
begin

text \<open>
  The shares of an envelope add up to it, the claims of an envelope follow its shares, and no operation creates or loses points: what the
  members hold, what open envelopes still owe and what administrators gave away stay in balance.
\<close>

section \<open>Shares\<close>

lemma share_limit_bounds:
  assumes "int k + 2 \<le> n"
  shows "1 \<le> share_limit n (int k + 2)" "share_limit n (int k + 2) \<le> n - int k - 1"
  using assms by (auto simp: share_limit_def)

lemma split_random_ok:
  "1 \<le> k \<Longrightarrow> int k \<le> n \<Longrightarrow>
   length (split_random seed n k) = k \<and> sum_list (split_random seed n k) = n \<and> (\<forall>x \<in> set (split_random seed n k). 1 \<le> x)"
proof (induction seed n k rule: split_random.induct)
  case (1 seed n k)
  let ?u = "share_limit n (int k + 2)" and ?a = "randbelow (seed k) (share_limit n (int k + 2)) + 1"
  have u: "1 \<le> ?u" "?u \<le> n - int k - 1" using share_limit_bounds [of k n] 1(3) by simp_all
  have "0 \<le> seed k mod ?u" "seed k mod ?u < ?u" using u(1) pos_mod_sign [of ?u "seed k"] pos_mod_bound [of ?u "seed k"] by linarith+
  then have a: "1 \<le> ?a" "?a \<le> ?u" by (simp_all add: randbelow_def)
  have "int (Suc k) \<le> n - ?a" using a(2) u(2) by simp
  from 1(1) [OF refl _ this] show ?case using a(1) by (simp add: Let_def)
qed auto

definition shares_ok :: "int \<Rightarrow> int \<Rightarrow> int list \<Rightarrow> bool" where
  "shares_ok t k xs \<longleftrightarrow> 1 \<le> k \<and> length xs = nat k \<and> sum_list xs = t \<and> (\<forall>x \<in> set xs. 1 \<le> x)"

lemma validate_bounds:
  assumes "validate_request cfg a b mode audience = Inr (t, k)"
  shows "1 \<le> k" "k \<le> t" "t \<le> SQL_MAX" "mode = ''equal'' \<Longrightarrow> t mod k = 0" "t \<le> pc_total cfg" "k \<le> pc_parts cfg"
  using assms by (auto simp: validate_request_def positive_int_def split: if_split_asm option.splits raw.splits)

lemma allocations_ok:
  assumes "validate_request cfg a b mode audience = Inr (t, k)"
  shows "shares_ok t k (allocations seed t k mode)"
proof (cases "mode = ''equal''")
  case True
  have b: "1 \<le> k" "k \<le> t" "t mod k = 0" using validate_bounds [OF assms] True by simp_all
  have "k * (t div k) = t" using b(3) by (simp add: mod_eq_0_iff_dvd)
  moreover have "1 \<le> t div k" using b(1,2) by (simp add: int_one_le_iff_zero_less pos_imp_zdiv_pos_iff)
  ultimately show ?thesis using b(1) True by (auto simp: shares_ok_def allocations_def sum_list_replicate)
next
  case False
  have b: "1 \<le> k" "k \<le> t" using validate_bounds [OF assms] by simp_all
  then show ?thesis using split_random_ok [of "nat k" t seed] False by (simp add: shares_ok_def allocations_def)
qed

section \<open>The invariant\<close>

definition claims_follow :: "packet \<Rightarrow> bool" where
  "claims_follow r \<longleftrightarrow> r_claimed r = int (length (r_claims r)) \<and> length (r_claims r) \<le> length (r_allocs r)
     \<and> map rc_amount (r_claims r) = take (length (r_claims r)) (r_allocs r)
     \<and> map rc_slot (r_claims r) = map int [0..<length (r_claims r)]
     \<and> distinct (map rc_user (r_claims r)) \<and> distinct (map rc_tg (r_claims r))"

definition open_shares :: "packet \<Rightarrow> int" where
  "open_shares r = sum_list (drop (length (r_claims r)) (r_allocs r))"

definition packet_ok :: "packet \<Rightarrow> bool" where
  "packet_ok r \<longleftrightarrow>
     (case r_status r of
        Draft \<Rightarrow> r_claims r = [] \<and> r_claimed r = 0 \<and> r_remaining r = 0
      | Cancelled \<Rightarrow> r_claims r = [] \<and> r_remaining r = 0
      | Active \<Rightarrow> shares_ok (r_total r) (r_parts r) (r_allocs r) \<and> claims_follow r \<and> r_claimed r < r_parts r \<and> r_remaining r = open_shares r
      | Exhausted \<Rightarrow> shares_ok (r_total r) (r_parts r) (r_allocs r) \<and> claims_follow r \<and> r_claimed r = r_parts r \<and> r_remaining r = 0
      | Expired \<Rightarrow> shares_ok (r_total r) (r_parts r) (r_allocs r) \<and> claims_follow r \<and> r_remaining r = 0
          \<and> r_refunded r + r_voided r = open_shares r)"

definition pool :: "packet \<Rightarrow> int" where
  "pool r = (if r_paid r then r_remaining r else 0)"

definition minted :: "packet \<Rightarrow> int" where
  "minted r = (if r_paid r then 0 else sum_list (map rc_amount (r_claims r)))"

definition packets_worth :: "packet_world \<Rightarrow> int" where
  "packets_worth w = ledger_total (pw_points w) + asum pool (pw_rows w) - asum minted (pw_rows w)"

definition packets_ok :: "packet_world \<Rightarrow> bool" where
  "packets_ok w \<longleftrightarrow> keyed (pw_rows w) \<and> (\<forall>n r. map_of (pw_rows w) n = Some r \<longrightarrow> packet_ok r)"

definition packets_keep :: "packet_world \<Rightarrow> packet_world \<Rightarrow> bool" where
  "packets_keep w w' \<longleftrightarrow> packets_ok w' \<and> packets_worth w' = packets_worth w"

lemma packets_okD: "packets_ok w \<Longrightarrow> map_of (pw_rows w) n = Some r \<Longrightarrow> packet_ok r"
  by (simp add: packets_ok_def)

lemma packets_keep_refl: "packets_ok w \<Longrightarrow> packets_keep w w"
  by (simp add: packets_keep_def)

lemma packets_keep_trans: "packets_keep a b \<Longrightarrow> packets_keep b c \<Longrightarrow> packets_keep a c"
  by (simp add: packets_keep_def)

text \<open>Replacing one row, with the ledger moving by what the row gives up.\<close>

lemma replace_keeps:
  assumes ok: "packets_ok w" and r: "map_of (pw_rows w) n = Some r" and q: "packet_ok q"
    and w': "pw_rows w' = put n q (pw_rows w)" "ledger_total (pw_points w') + pool q - minted q = ledger_total (pw_points w) + pool r - minted r"
  shows "packets_keep w w'"
proof -
  have k: "keyed (pw_rows w)" using ok by (simp add: packets_ok_def)
  have "packets_ok w'" using ok q w'(1) k by (auto simp: packets_ok_def)
  moreover have "asum pool (pw_rows w') = asum pool (pw_rows w) + pool q - pool r"
    "asum minted (pw_rows w') = asum minted (pw_rows w) + minted q - minted r"
    using asum_put [OF k] r by (simp_all add: w'(1))
  ultimately show ?thesis using w'(2) by (simp add: packets_keep_def packets_worth_def)
qed

lemma new_row_keeps:
  assumes ok: "packets_ok w" and r: "map_of (pw_rows w) n = None" and q: "packet_ok q" "pool q = 0" "minted q = 0"
  shows "packets_keep w (put_packet n q w)"
proof -
  have k: "keyed (pw_rows w)" using ok by (simp add: packets_ok_def)
  have "packets_ok (put_packet n q w)" using ok q(1) k by (auto simp: packets_ok_def put_packet_def)
  then show ?thesis using asum_put [OF k] r q(2,3) by (simp add: packets_keep_def packets_worth_def put_packet_def)
qed

definition same_share_fields :: "packet \<Rightarrow> packet \<Rightarrow> bool" where
  "same_share_fields q r \<longleftrightarrow> r_paid q = r_paid r \<and> r_remaining q = r_remaining r \<and> r_claims q = r_claims r \<and> r_status q = r_status r
     \<and> r_claimed q = r_claimed r \<and> r_total q = r_total r \<and> r_parts q = r_parts r \<and> r_allocs q = r_allocs r
     \<and> r_refunded q = r_refunded r \<and> r_voided q = r_voided r"

lemma same_share_packet: "same_share_fields q r \<Longrightarrow> packet_ok q = packet_ok r \<and> pool q = pool r \<and> minted q = minted r"
  by (simp add: same_share_fields_def packet_ok_def pool_def minted_def claims_follow_def open_shares_def split: packet_status.split)

lemma same_share_keeps:
  assumes "packets_ok w" "map_of (pw_rows w) n = Some r" "same_share_fields q r"
  shows "packets_keep w (put_packet n q w)"
  using replace_keeps [OF assms(1,2), of q "put_packet n q w"] same_share_packet [OF assms(3)] packets_okD [OF assms(1,2)]
  by (simp add: put_packet_def)

text \<open>A draft holds nothing, whatever its request says.\<close>

lemma draft_keeps:
  assumes "packets_ok w" "map_of (pw_rows w) n = Some r" "r_status r = Draft" "r_status q = Draft \<or> r_status q = Cancelled"
    "r_claims q = r_claims r" "r_claimed q = r_claimed r" "r_remaining q = r_remaining r" "r_paid q = r_paid r"
  shows "packets_keep w (put_packet n q w)"
proof -
  have "packet_ok r" by (rule packets_okD [OF assms(1,2)])
  then have "packet_ok q" using assms(3-7) by (auto simp: packet_ok_def)
  then show ?thesis
    by (rule replace_keeps [OF assms(1,2)]) (use assms(5,7,8) in \<open>simp_all add: put_packet_def pool_def minted_def\<close>)
qed

section \<open>Every operation keeps the books\<close>

lemma rerendered_same: "same_share_fields (rerendered r) r"
  by (simp add: same_share_fields_def rerendered_def)

lemma rerendered_simps [simp]:
  "packet_ok (rerendered r) = packet_ok r" "pool (rerendered r) = pool r" "minted (rerendered r) = minted r"
  using same_share_packet [OF rerendered_same] by blast+

lemma points_apply_worth: "points_apply rows u d reason ref actor now = Inr (rows', b) \<Longrightarrow> ledger_total rows' = ledger_total rows + d"
  by (auto simp: points_apply_Inr)

lemma credit_worth:
  assumes "credit rows u a reason n actor now = Inr rows'"
  shows "ledger_total rows' = ledger_total rows + a" "balance rows' v = balance rows v + (if v = u then a else 0)"
  using assms by (auto simp: credit_def points_apply_Inr split: if_split_asm sum.splits)

lemma prepare_keeps:
  assumes ok: "packets_ok w" and tx: "prepare e w m p a b mode audience n now = Inr (w', k)"
  shows "packets_keep w w'"
proof -
  obtain cid thread mid where d: "draft_packet e w m p cid thread mid a b mode audience n now = Inr (w', k)"
    using tx by (cases "reliable_user p"; cases "m_id m") (auto simp: prepare_def split: if_split_asm)
  show ?thesis
  proof (cases "w' = w")
    case False
    obtain tg u it where w': "w' = put_packet n (new_packet e m p cid thread mid tg u it now) w" "map_of (pw_rows w) n = None"
      using d False by (auto simp: draft_packet_def Let_def split: if_split_asm option.splits)
    have "packet_ok (new_packet e m p cid thread mid tg u it now)" "pool (new_packet e m p cid thread mid tg u it now) = 0"
      "minted (new_packet e m p cid thread mid tg u it now) = 0"
      by (cases it; simp add: new_packet_def packet_ok_def pool_def minted_def)+
    then show ?thesis unfolding w'(1) by (rule new_row_keeps [OF ok w'(2)])
  qed (use ok in \<open>simp add: packets_keep_refl\<close>)
qed

lemma card_ops_keep:
  assumes ok: "packets_ok w"
  shows "packets_keep w (fst (begin_card_send w n))" "packets_keep w (card_send_failed w n failed)" "packets_keep w (fst (bind_card w n mid))"
    "packets_keep w (rendered w n version okay now)"
  using same_share_keeps [OF ok] packets_keep_refl [OF ok]
  by (auto simp: begin_card_send_def card_send_failed_def bind_card_def rendered_def same_share_fields_def split: option.split)

lemma edit_draft_keeps:
  assumes ok: "packets_ok w" and tx: "edit_draft e w n p m f now = Inr w'"
  shows "packets_keep w w'"
proof -
  obtain r where r: "map_of (pw_rows w) n = Some r" using tx by (auto simp: edit_draft_def split: option.splits)
  obtain a b mode audience where ch: "changed_request r f = (a, b, mode, audience)" by (cases "changed_request r f")
  obtain t k where st: "r_status r = Draft"
    and w': "w' = put_packet n (rerendered (r\<lparr>r_total := t, r_parts := k, r_mode := mode, r_audience := audience, r_config := pe_config e\<rparr>)) w"
    using tx r ch by (auto simp: edit_draft_def split: if_split_asm)
  show ?thesis unfolding w' by (rule draft_keeps [OF ok r st]) (use st in \<open>simp_all add: rerendered_def\<close>)
qed

lemma activate_keeps:
  assumes ok: "packets_ok w" and r: "map_of (pw_rows w) n = Some r" "r_status r = Draft"
    and v: "shares_ok (r_total r) (r_parts r) values" and pay: "pay_packet w n r now = Inr rows"
  shows "packets_keep w (put_packet n (activated r values cfg now) (w\<lparr>pw_points := rows, pw_audit := x\<rparr>))"
proof -
  have d: "r_claims r = []" "r_claimed r = 0" "r_remaining r = 0" using packets_okD [OF ok r(1)] r(2) by (simp_all add: packet_ok_def)
  have "packet_ok (activated r values cfg now)"
    unfolding activated_def rerendered_simps using d v by (auto simp: packet_ok_def claims_follow_def open_shares_def shares_ok_def)
  moreover have "ledger_total rows = ledger_total (pw_points w) - (if r_paid r then r_total r else 0)"
    using pay points_apply_worth by (fastforce simp: pay_packet_def split: if_split_asm sum.splits)
  moreover have "pool (activated r values cfg now) = (if r_paid r then r_total r else 0)" by (simp add: activated_def rerendered_def pool_def)
  moreover have "minted (activated r values cfg now) = 0" "pool r = 0" "minted r = 0"
    using d by (simp_all add: activated_def rerendered_def pool_def minted_def)
  ultimately show ?thesis by (intro replace_keeps [OF ok r(1), of "activated r values cfg now"]) (simp_all add: put_packet_def)
qed

lemma confirm_keeps:
  assumes ok: "packets_ok w" and tx: "confirm e w n p m cancel seed now = Inr w'"
  shows "packets_keep w w'"
proof -
  obtain r where r: "map_of (pw_rows w) n = Some r" using tx by (auto simp: confirm_def split: option.splits)
  show ?thesis
  proof (cases "r_status r = Draft")
    case True
    then have d: "confirm_draft e w n r cancel seed now = Inr w'" using tx r by (auto simp: confirm_def split: if_split_asm)
    show ?thesis
    proof (cases cancel)
      case True
      then have "w' = put_packet n (rerendered (r\<lparr>r_status := Cancelled\<rparr>)) w" using d by (simp add: confirm_draft_def)
      then show ?thesis using draft_keeps [OF ok r \<open>r_status r = Draft\<close>, of "rerendered (r\<lparr>r_status := Cancelled\<rparr>)"]
        by (simp add: rerendered_def)
    next
      case False
      obtain t k rows where v: "validate_request (pe_config e) (RawInt (r_total r)) (RawInt (r_parts r)) (r_mode r) (r_audience r) = Inr (t, k)"
        and pay: "pay_packet w n r now = Inr rows"
        and w': "w' = put_packet n (activated r (allocations seed (r_total r) (r_parts r) (r_mode r)) (pe_config e) now)
            (w\<lparr>pw_points := rows, pw_audit := pw_audit w @ [AuditConfirm n]\<rparr>)"
        using d False by (auto simp: confirm_draft_def Let_def split: if_split_asm)
      have "t = r_total r" "k = r_parts r" using v by (auto simp: validate_request_def positive_int_def split: if_split_asm)
      then have "shares_ok (r_total r) (r_parts r) (allocations seed (r_total r) (r_parts r) (r_mode r))" using allocations_ok [OF v] by simp
      then show ?thesis unfolding w' by (rule activate_keeps [OF ok r True _ pay])
    qed
  next
    case False
    then have "w' = w" using tx r by (auto simp: confirm_def split: if_split_asm)
    then show ?thesis using packets_keep_refl [OF ok] by simp
  qed
qed

lemma take_share_keeps:
  assumes ok: "packets_ok w" and r: "map_of (pw_rows w) n = Some r" "r_status r = Active"
    and new: "u \<notin> rc_user ` set (r_claims r)" "tg \<notin> rc_tg ` set (r_claims r)" and tx: "take_share w n r tg u p now = Inr (w', a)"
  shows "packets_keep w w'"
proof -
  have room: "packet_ok r" by (rule packets_okD [OF ok r(1)])
  let ?k = "length (r_claims r)"
  have f: "shares_ok (r_total r) (r_parts r) (r_allocs r)" "claims_follow r" "r_claimed r < r_parts r" "r_remaining r = open_shares r"
    using room r(2) by (simp_all add: packet_ok_def)
  have k: "r_claimed r = int ?k" "?k < length (r_allocs r)" "length (r_allocs r) = nat (r_parts r)"
    using f(1-3) by (auto simp: shares_ok_def claims_follow_def)
  define cl where "cl = \<lparr>rc_user = u, rc_tg = tg, rc_amount = r_allocs r ! ?k, rc_slot = int ?k, rc_at = now, rc_name = p_name p,
    rc_username = telegram_username (p_username p)\<rparr>"
  obtain rows where c: "credit (pw_points w) u (r_allocs r ! ?k) (if r_paid r then ''packet.claim'' else ''packet.reward'') n (''packet:'' @ r_actor r) now = Inr rows"
    and w': "w' = put_packet n (claimed_row r cl) (w\<lparr>pw_points := rows, pw_audit := pw_audit w @ [AuditClaim n u (r_allocs r ! ?k) (int ?k)]\<rparr>)"
    using tx k(1) by (auto simp: take_share_def Let_def cl_def split: if_split_asm)
  have drop: "drop ?k (r_allocs r) = r_allocs r ! ?k # drop (Suc ?k) (r_allocs r)" using k(2) by (simp add: Cons_nth_drop_Suc)
  let ?q = "r\<lparr>r_remaining := r_remaining r - rc_amount cl, r_claimed := r_claimed r + 1,
    r_status := (if r_claimed r + 1 = r_parts r then Exhausted else Active), r_page := r_claimed r div RESULTS_PER_PAGE,
    r_receipt := (r_receipt r \<or> r_claimed r + 1 = r_parts r \<and> r_permanent r), r_claims := r_claims r @ [cl]\<rparr>"
  have row: "claimed_row r cl = rerendered ?q" by (simp add: claimed_row_def Let_def)
  have cl: "rc_amount cl = r_allocs r ! ?k" "rc_user cl = u" "rc_tg cl = tg" "rc_slot cl = int ?k" by (simp_all add: cl_def)
  have follow: "claims_follow ?q"
    using f(2) k cl new by (auto simp: claims_follow_def take_Suc_conv_app_nth)
  have left: "r_remaining ?q = open_shares ?q" using f(4) drop cl(1) by (simp add: open_shares_def)
  have "packet_ok ?q"
  proof (cases "r_claimed r + 1 = r_parts r")
    case True
    then have "Suc ?k = length (r_allocs r)" using k by simp
    then have "open_shares ?q = 0" by (simp add: open_shares_def)
    then show ?thesis using True f(1) follow left by (simp add: packet_ok_def)
  next
    case False
    then show ?thesis using f(1,3) follow left by (simp add: packet_ok_def)
  qed
  moreover have "pool ?q - minted ?q = pool r - minted r - r_allocs r ! ?k" using cl(1) by (simp add: pool_def minted_def)
  moreover have "ledger_total rows = ledger_total (pw_points w) + r_allocs r ! ?k" by (rule credit_worth(1) [OF c])
  ultimately have "packet_ok (claimed_row r cl)"
    "ledger_total rows + pool (claimed_row r cl) - minted (claimed_row r cl) = ledger_total (pw_points w) + pool r - minted r"
    unfolding row rerendered_simps by linarith+
  then show ?thesis unfolding w' by (intro replace_keeps [OF ok r(1), of "claimed_row r cl"]) (simp_all add: put_packet_def)
qed

lemma claim_cases:
  assumes "claim e w n p m now = Inr (w', already, a)"
  obtains r c where "map_of (pw_rows w) n = Some r" "c \<in> set (r_claims r)" "w' = w" "already" "a = rc_amount c"
  | r tg mb where "map_of (pw_rows w) n = Some r" "r_status r = Active" "mb_user mb \<notin> rc_user ` set (r_claims r)" "tg \<notin> rc_tg ` set (r_claims r)"
    "take_share w n r tg (mb_user mb) p now = Inr (w', a)" "\<not> already" "packet_actor (pe_room e) p = Inr (tg, mb)"
proof -
  obtain r where r: "map_of (pw_rows w) n = Some r" using assms by (auto simp: claim_def split: option.splits)
  obtain tg mb where act: "packet_actor (pe_room e) p = Inr (tg, mb)" using assms r by (auto simp: claim_def split: if_split_asm)
  show ?thesis
  proof (cases "find (\<lambda>c. rc_user c = mb_user mb \<or> rc_tg c = tg) (r_claims r)")
    case None
    have "take_share w n r tg (mb_user mb) p now = Inr (w', a)" "\<not> already" "r_status r = Active"
      using assms r act None by (auto simp: claim_def split: if_split_asm)
    moreover have "mb_user mb \<notin> rc_user ` set (r_claims r)" "tg \<notin> rc_tg ` set (r_claims r)" using find_NoneD [OF None] by force+
    ultimately show ?thesis using that(2) r act by blast
  next
    case (Some c)
    then have "w' = w" "already" "a = rc_amount c" using assms r act by (auto simp: claim_def split: if_split_asm)
    then show ?thesis using that(1) r find_SomeD [OF Some] by blast
  qed
qed

lemma packet_claim_keeps:
  assumes ok: "packets_ok w" and tx: "claim e w n p m now = Inr (w', x)"
  shows "packets_keep w w'"
proof -
  obtain already a where x: "x = (already, a)" by (cases x)
  show ?thesis
    by (rule claim_cases [OF tx [unfolded x]]) (use packets_keep_refl [OF ok] take_share_keeps [OF ok] in auto)
qed

lemma settle_expired_keeps:
  assumes ok: "packets_ok w" and r: "map_of (pw_rows w) n = Some r" "r_status r = Active" and tx: "settle_expired w n r now = Inr w'"
  shows "packets_keep w w'"
proof -
  have f: "shares_ok (r_total r) (r_parts r) (r_allocs r)" "claims_follow r" "r_remaining r = open_shares r"
    using packets_okD [OF ok r(1)] r(2) by (simp_all add: packet_ok_def)
  let ?sent = "if r_paid r then r_remaining r else 0" and ?void = "if r_paid r then 0 else r_remaining r"
  let ?q = "r\<lparr>r_status := Expired, r_remaining := 0, r_refunded := ?sent, r_voided := ?void, r_note := NoTrouble, r_retry_at := 0\<rparr>"
  obtain rows where rows: "ledger_total rows = ledger_total (pw_points w) + ?sent"
    and w': "w' = put_packet n (rerendered ?q) (w\<lparr>pw_points := rows, pw_audit := pw_audit w @ [AuditExpire n ?sent ?void (r_total r - r_remaining r)]\<rparr>)"
    using tx by (auto simp: settle_expired_def Let_def dest: credit_worth(1) split: if_split_asm)
  have "packet_ok ?q" using f by (simp add: packet_ok_def claims_follow_def open_shares_def)
  moreover have "pool ?q = 0" "minted ?q = minted r" "pool r = ?sent" by (simp_all add: pool_def minted_def)
  ultimately have "packet_ok (rerendered ?q)"
    "ledger_total rows + pool (rerendered ?q) - minted (rerendered ?q) = ledger_total (pw_points w) + pool r - minted r"
    unfolding rerendered_simps using rows by linarith+
  then show ?thesis unfolding w' by (intro replace_keeps [OF ok r(1), of "rerendered ?q"]) (simp_all add: put_packet_def)
qed

lemma expire_packet_keeps:
  assumes ok: "packets_ok w" and tx: "expire_packet w n now = Inr w'"
  shows "packets_keep w w'"
proof (cases "map_of (pw_rows w) n")
  case (Some r)
  consider "w' = w" | "r_status r = Draft" "w' = put_packet n (r\<lparr>r_status := Cancelled, r_version := r_version r + 1\<rparr>) w"
    | "r_status r = Active" "settle_expired w n r now = Inr w'"
    using tx Some by (auto simp: expire_packet_def split: if_split_asm)
  then show ?thesis
  proof cases
    case 2
    show ?thesis unfolding 2(2) by (rule draft_keeps [OF ok Some 2(1)]) simp_all
  next
    case 3
    show ?thesis by (rule settle_expired_keeps [OF ok Some 3])
  qed (use packets_keep_refl [OF ok] in simp)
qed (use tx packets_keep_refl [OF ok] in \<open>simp add: expire_packet_def\<close>)

lemma expire_one_keeps:
  assumes ok: "packets_ok w"
  shows "packets_keep w (expire_one now w n)"
proof (cases "expire_packet w n now")
  case (Inl x)
  have "packets_keep w (put_packet n (rerendered (r\<lparr>r_retry_at := t, r_note := SettleLater\<rparr>)) w)" if "map_of (pw_rows w) n = Some r" for r t
    by (rule same_share_keeps [OF ok that]) (simp add: same_share_fields_def rerendered_def)
  then show ?thesis using Inl packets_keep_refl [OF ok] by (simp add: expire_one_def split: option.split)
next
  case (Inr w')
  then show ?thesis using expire_packet_keeps [OF ok Inr] by (simp add: expire_one_def)
qed

lemma expire_fold_keeps: "packets_ok w \<Longrightarrow> packets_keep w (foldl (expire_one now) w ns)"
proof (induction ns arbitrary: w)
  case (Cons n ns)
  have k: "packets_keep w (expire_one now w n)" by (rule expire_one_keeps [OF Cons.prems])
  then have "packets_ok (expire_one now w n)" by (simp add: packets_keep_def)
  from Cons.IH [OF this] show ?case using packets_keep_trans [OF k] by simp
qed (simp add: packets_keep_refl)

lemma turn_page_keeps:
  assumes ok: "packets_ok w" and tx: "turn_page e w n p m page = Inr w'"
  shows "packets_keep w w'"
proof -
  obtain r where r: "map_of (pw_rows w) n = Some r" using tx by (auto simp: turn_page_def split: option.splits)
  have "w' = w \<or> w' = put_packet n (rerendered (r\<lparr>r_page := page\<rparr>)) w"
    using tx r by (cases "reliable_user p") (auto simp: turn_page_def split: if_split_asm)
  moreover have "packets_keep w (put_packet n (rerendered (r\<lparr>r_page := page\<rparr>)) w)"
    by (rule same_share_keeps [OF ok r]) (simp add: same_share_fields_def rerendered_def)
  ultimately show ?thesis using packets_keep_refl [OF ok] by auto
qed

lemma packet_step_keeps:
  assumes ok: "packets_ok w" and step: "packet_step w op = Inr w'"
  shows "packets_keep w w'"
proof -
  obtain e now o1 where op: "op = (e, now, o1)" by (cases op)
  note step = step [unfolded op]
  show ?thesis
  proof (cases o1)
    case (RpPrepare m p a b mode audience n)
    then show ?thesis using step prepare_keeps [OF ok] by auto
  next
    case (RpClaim n p m)
    then show ?thesis using step packet_claim_keeps [OF ok] by auto
  qed (use step card_ops_keep [OF ok] edit_draft_keeps [OF ok] confirm_keeps [OF ok] expire_packet_keeps [OF ok] expire_fold_keeps [OF ok]
      turn_page_keeps [OF ok] in \<open>auto simp: expire_packets_def Let_def\<close>)
qed

interpretation packets: accounting packet_step packets_ok packets_worth
  by unfold_locales (auto dest: packet_step_keeps simp: packets_keep_def)

definition packets_empty :: "ledger \<Rightarrow> packet_world" where
  "packets_empty rows = \<lparr>pw_points = rows, pw_rows = [], pw_audit = []\<rparr>"

lemma packets_empty_ok: "packets_ok (packets_empty rows)"
  by (simp add: packets_ok_def packets_empty_def)

section \<open>A shared envelope\<close>

definition demo_packet_env :: packet_env where
  "demo_packet_env = \<lparr>pe_room = demo_room_env, pe_config = \<lparr>pc_total = 5000, pc_parts = 50, pc_ttl = 24, pc_members = True\<rparr>,
     pe_admin = (\<lambda>_. False), pe_white = (\<lambda>_. False)\<rparr>"

definition demo_packet_ops :: "(packet_env \<times> int \<times> packet_op) list" where
  "demo_packet_ops = map (\<lambda>(t, x). (demo_packet_env, t, x))
     [(100, RpPrepare (demo_command 10) (demo_person ''ann'' 1) (RawInt 10) (RawText ''2'') ''random'' ''all'' ''n''),
      (101, RpBeginSend ''n''), (101, RpBind ''n'' 11),
      (102, RpConfirm ''n'' (demo_person ''ann'' 1) (demo_card []) False (\<lambda>_. 3)),
      (103, RpClaim ''n'' (demo_person ''bob'' 2) (demo_card [''rpclaim:n'']))]"

lemma demo_packet:
  obtains w r where "runR packet_step (packets_empty demo_room_points) demo_packet_ops = Inr w" "map_of (pw_rows w) ''n'' = Some r"
    "r_status r = Active" "map rc_amount (r_claims r) = [4]" "r_remaining r = 6" "r_total r = 10" "r_claimed r = 1" "r_allocs r = [4, 6]"
    "balance (pw_points w) ''ann'' = 40" "r_chat r = 5" "r_thread r = 0" "r_message r = Some 11" "r_permanent r" "r_audience r = ''all''"
    "map rc_user (r_claims r) = [''bob'']" "map rc_tg (r_claims r) = [2]" "balance (pw_points w) ''cat'' = 50"
proof -
  have "case runR packet_step (packets_empty demo_room_points) demo_packet_ops of Inl _ \<Rightarrow> False
      | Inr w \<Rightarrow> balance (pw_points w) ''ann'' = 40 \<and> balance (pw_points w) ''cat'' = 50 \<and> (case map_of (pw_rows w) ''n'' of None \<Rightarrow> False
          | Some r \<Rightarrow> r_status r = Active \<and> map rc_amount (r_claims r) = [4] \<and> r_remaining r = 6 \<and> r_total r = 10 \<and> r_claimed r = 1
              \<and> r_allocs r = [4, 6] \<and> r_chat r = 5 \<and> r_thread r = 0 \<and> r_message r = Some 11 \<and> r_permanent r \<and> r_audience r = ''all''
              \<and> map rc_user (r_claims r) = [''bob''] \<and> map rc_tg (r_claims r) = [2])" by code_simp
  then show ?thesis using that by (auto split: sum.splits option.splits)
qed

section \<open>Properties\<close>

text \<open>C33. Envelopes neither create nor lose points: from any consistent state, after any sequence of drafts, edits, confirmations, claims,
  expiries and renderings, the members' points plus what members' open envelopes still owe, less what administrators' envelopes have
  paid out, is what it was.\<close>

theorem packets_balance:
  assumes "runR packet_step w ops = Inr w'" "packets_ok w"
  shows "packets_ok w' \<and> ledger_total (pw_points w') + asum pool (pw_rows w') - asum minted (pw_rows w')
    = ledger_total (pw_points w) + asum pool (pw_rows w) - asum minted (pw_rows w)"
  using packets.run_ok [OF assms] packets.run_worth [OF assms] by (simp add: packets_worth_def)

theorem packets_balance_witness:
  "\<exists>w. runR packet_step (packets_empty demo_room_points) demo_packet_ops = Inr w
     \<and> ledger_total (pw_points w) + asum pool (pw_rows w) - asum minted (pw_rows w) = ledger_total demo_room_points"
proof (rule demo_packet)
  fix w r
  assume w: "runR packet_step (packets_empty demo_room_points) demo_packet_ops = Inr w"
  show ?thesis using packets_balance [OF w packets_empty_ok] w by (simp add: packets_empty_def)
qed

lemma follow_sum:
  assumes "claims_follow r" "shares_ok (r_total r) (r_parts r) (r_allocs r)"
  shows "sum_list (map rc_amount (r_claims r)) + open_shares r = r_total r"
proof -
  have "sum_list (map rc_amount (r_claims r)) + open_shares r = sum_list (take (length (r_claims r)) (r_allocs r) @ drop (length (r_claims r)) (r_allocs r))"
    using assms(1) by (simp only: sum_list_append claims_follow_def open_shares_def)
  then show ?thesis using assms(2) by (simp add: shares_ok_def)
qed

text \<open>C34. After any history, nobody has claimed twice from an envelope (neither as a member nor as a Telegram user), claims never exceed the
  parts, each claim is at least one point, and the claims together with what is still open, refunded or voided are exactly the total of
  the envelope.\<close>

theorem packet_claims_exact:
  assumes "runR packet_step w ops = Inr w'" "packets_ok w" "map_of (pw_rows w') n = Some r" "r_status r \<in> {Active, Exhausted, Expired}"
  shows "distinct (map rc_user (r_claims r)) \<and> distinct (map rc_tg (r_claims r)) \<and> int (length (r_claims r)) \<le> r_parts r
    \<and> (\<forall>c \<in> set (r_claims r). 1 \<le> rc_amount c)
    \<and> sum_list (map rc_amount (r_claims r)) + (if r_status r = Expired then r_refunded r + r_voided r else r_remaining r) = r_total r"
proof -
  have ok: "packet_ok r" by (rule packets_okD [OF packets.run_ok [OF assms(1,2)] assms(3)])
  have f: "claims_follow r" "shares_ok (r_total r) (r_parts r) (r_allocs r)"
    "open_shares r = (if r_status r = Expired then r_refunded r + r_voided r else r_remaining r)"
    using ok assms(4) by (auto simp: packet_ok_def open_shares_def shares_ok_def claims_follow_def)
  have "rc_amount ` set (r_claims r) \<subseteq> set (r_allocs r)"
    using f(1) set_take_subset [of "length (r_claims r)" "r_allocs r"] unfolding claims_follow_def by (metis set_map)
  then have "\<forall>c \<in> set (r_claims r). 1 \<le> rc_amount c" using f(2) by (auto simp: shares_ok_def)
  then show ?thesis using f follow_sum [OF f(1,2)] by (auto simp: claims_follow_def shares_ok_def)
qed

theorem packet_claims_exact_witness:
  "\<exists>(w :: packet_world) (r :: packet). map_of (pw_rows w) ''n'' = Some r \<and> r_status r = Active \<and> sum_list (map rc_amount (r_claims r)) + r_remaining r = 10"
proof (rule demo_packet)
  fix w r
  assume w: "runR packet_step (packets_empty demo_room_points) demo_packet_ops = Inr w" "map_of (pw_rows w) ''n'' = Some r"
    and r: "r_status r = Active" "r_total r = 10"
  have s: "sum_list (map rc_amount (r_claims r)) + r_remaining r = 10"
    using packet_claims_exact [OF w(1) packets_empty_ok w(2)] r by simp
  show ?thesis by (intro exI [of _ w] exI [of _ r] conjI w(2) r(1) s)
qed

text \<open>An open envelope can always be claimed: after any history, a bound member who has not claimed yet and presses the claim button of
  the original card gets the next share, at least one point, unless the envelope is restricted, has run out of time, or the balance
  would leave the range of the column.\<close>

theorem packet_claimable:
  assumes "runR packet_step w ops = Inr w'" "packets_ok w" "map_of (pw_rows w') n = Some r" "r_status r = Active"
    and "packet_context (pe_room e) r m = Inr ()" "(''rpclaim:'' @ n) \<in> set (m_actions m)" "packet_actor (pe_room e) p = Inr (tg, mb)"
    and "r_audience r = ''whitelist'' \<longrightarrow> pe_white e (mb_user mb)" "r_permanent r \<or> now < r_expires r"
    and "mb_user mb \<notin> rc_user ` set (r_claims r)" "tg \<notin> rc_tg ` set (r_claims r)"
    and "balance (pw_points w') (mb_user mb) + r_total r \<le> SQL_MAX"
  shows "\<exists>w'' a. claim e w' n p m now = Inr (w'', False, a) \<and> 1 \<le> a
    \<and> balance (pw_points w'') (mb_user mb) = balance (pw_points w') (mb_user mb) + a"
proof -
  have ok: "packet_ok r" by (rule packets_okD [OF packets.run_ok [OF assms(1,2)] assms(3)])
  let ?k = "length (r_claims r)"
  have f: "shares_ok (r_total r) (r_parts r) (r_allocs r)" "claims_follow r" "r_claimed r < r_parts r"
    using ok assms(4) by (simp_all add: packet_ok_def)
  have k: "r_claimed r = int ?k" "?k < length (r_allocs r)" using f by (auto simp: shares_ok_def claims_follow_def)
  let ?a = "r_allocs r ! ?k"
  have in_set: "?a \<in> set (r_allocs r)" using k(2) by simp
  have a: "1 \<le> ?a" using in_set f(1) by (simp add: shares_ok_def)
  have "?a \<le> sum_list (r_allocs r)"
    using in_set f(1) by (intro member_le_sum_list) (auto simp: shares_ok_def)
  then have small: "balance (pw_points w') (mb_user mb) + ?a \<le> SQL_MAX" using f(1) assms(12) by (simp add: shares_ok_def)
  have none: "find (\<lambda>c. rc_user c = mb_user mb \<or> rc_tg c = tg) (r_claims r) = None"
    using assms(10,11) by (force simp: find_None_iff)
  obtain rows where c: "credit (pw_points w') (mb_user mb) ?a (if r_paid r then ''packet.claim'' else ''packet.reward'') n (''packet:'' @ r_actor r) now = Inr rows"
    using small a by (simp add: credit_def points_apply_def Let_def)
  have "\<exists>w''. take_share w' n r tg (mb_user mb) p now = Inr (w'', ?a) \<and> pw_points w'' = rows"
    using c k by (simp add: take_share_def Let_def put_packet_def)
  then obtain w'' where t: "take_share w' n r tg (mb_user mb) p now = Inr (w'', ?a)" "pw_points w'' = rows" by blast
  have "claim e w' n p m now = Inr (w'', False, ?a)"
    using assms(3-9) none t(1) by (auto simp: claim_def)
  then show ?thesis using a credit_worth(2) [OF c, of "mb_user mb"] t(2) by auto
qed

theorem packet_claimable_witness:
  "\<exists>w w' a. claim demo_packet_env w ''n'' (demo_person ''cat'' 3) (demo_card [''rpclaim:n'']) 104 = Inr (w', False, a) \<and> 1 \<le> a"
proof (rule demo_packet)
  fix w r
  assume w: "runR packet_step (packets_empty demo_room_points) demo_packet_ops = Inr w" "map_of (pw_rows w) ''n'' = Some r" "r_status r = Active"
    and r: "r_chat r = 5" "r_thread r = 0" "r_message r = Some 11" "r_permanent r" "r_audience r = ''all''"
      "map rc_user (r_claims r) = [''bob'']" "map rc_tg (r_claims r) = [2]" "r_total r = 10" "balance (pw_points w) ''cat'' = 50"
  have act: "packet_actor (pe_room demo_packet_env) (demo_person ''cat'' 3) = Inr (3, demo_member ''cat'' 3)" by code_simp
  have ctx: "packet_context (pe_room demo_packet_env) r (demo_card [''rpclaim:n'']) = Inr ()"
    using r(1-4) by (simp add: packet_context_def packet_group_def demo_packet_env_def demo_room_env_def demo_card_def demo_command_def)
  have fresh: "''cat'' \<notin> rc_user ` set (r_claims r)" "3 \<notin> rc_tg ` set (r_claims r)"
    using arg_cong [OF r(6), of set] arg_cong [OF r(7), of set] by simp_all
  show ?thesis
    using packet_claimable [OF w(1) packets_empty_ok w(2,3) ctx _ act, of 104] r(4,5,8,9) fresh
    by (auto simp: demo_card_def demo_member_def SQL_MAX_def)
qed

end
