(* ===== verification/Throttle.thy ===== *)
theory Throttle
  imports Prelude
begin

text \<open>
  The throttle for failed password logins (\<^verbatim>\<open>modules/login_throttle.py\<close>): buckets of recent failures per
  address and per address and account, in order of use, with a bound on their number. The clock and the
  identity of the caller are inputs. A failure reads the clock once, so one step carries one time.
\<close>

section \<open>State and operations\<close>

record policy =
  p_window :: real
  p_limit :: nat
  p_block :: real

definition PAIR :: policy where
  "PAIR = \<lparr>p_window = 600, p_limit = 6, p_block = 600\<rparr>"

definition ADDRESS :: policy where
  "ADDRESS = \<lparr>p_window = 600, p_limit = 30, p_block = 900\<rparr>"

definition MAX_KEYS :: nat where
  "MAX_KEYS = 20000"

datatype bucket_key = AddressKey string | PairKey string string

record bucket =
  failures :: "real list"
  blocked_until :: real

definition new_bucket :: bucket where
  "new_bucket = \<lparr>failures = [], blocked_until = 0\<rparr>"

type_synonym buckets = "(bucket_key \<times> bucket) list"

definition policy_of :: "bucket_key \<Rightarrow> policy" where
  "policy_of key = (case key of AddressKey _ \<Rightarrow> ADDRESS | PairKey _ _ \<Rightarrow> PAIR)"

definition keys_of :: "string \<Rightarrow> string \<Rightarrow> bucket_key list" where
  "keys_of address account =
     (if address = [] then []
      else (if account \<noteq> [] then [PairKey address account] else []) @ [AddressKey address])"

definition wait_of :: "buckets \<Rightarrow> real \<Rightarrow> bucket_key \<Rightarrow> real" where
  "wait_of bs now key =
     (case map_of bs key of
        Some b \<Rightarrow> if now < blocked_until b then blocked_until b - now else 0
      | None \<Rightarrow> 0)"

definition retry_after :: "buckets \<Rightarrow> real \<Rightarrow> string \<Rightarrow> string \<Rightarrow> int" where
  "retry_after bs now address account =
     (let wait = fold (\<lambda>key w. max w (wait_of bs now key)) (keys_of address account) 0
      in if 0 < wait then \<lceil>wait\<rceil> else 0)"

definition hit :: "policy \<Rightarrow> real \<Rightarrow> bucket \<Rightarrow> bucket" where
  "hit p now b =
     (let recent = dropWhile (\<lambda>t. t \<le> now - p_window p) (failures b) @ [now] in
      if p_limit p \<le> length recent \<and> blocked_until b \<le> now
      then \<lparr>failures = [], blocked_until = now + p_block p\<rparr>
      else b\<lparr>failures := recent\<rparr>)"

definition forget :: "bucket_key \<Rightarrow> buckets \<Rightarrow> buckets" where
  "forget key bs = filter (\<lambda>(k, _). k \<noteq> key) bs"

definition touch :: "real \<Rightarrow> bucket_key \<Rightarrow> buckets \<Rightarrow> buckets" where
  "touch now key bs =
     (let b = (case map_of bs key of None \<Rightarrow> new_bucket | Some b \<Rightarrow> b)
      in forget key bs @ [(key, hit (policy_of key) now b)])"

definition failure :: "nat \<Rightarrow> real \<Rightarrow> string \<Rightarrow> string \<Rightarrow> buckets \<Rightarrow> buckets" where
  "failure max_keys now address account bs =
     (let bs1 = fold (touch now) (keys_of address account) bs
      in drop (length bs1 - max_keys) bs1)"

definition success :: "string \<Rightarrow> string \<Rightarrow> buckets \<Rightarrow> buckets" where
  "success address account bs =
     (if address = [] \<or> account = [] then bs else forget (PairKey address account) bs)"

section \<open>Histories\<close>

text \<open>One login attempt that reached the upstream server, with its time.\<close>

datatype attempt = Failed real string string | Succeeded real string string

fun at_time :: "attempt \<Rightarrow> real" where
  "at_time (Failed t _ _) = t"
| "at_time (Succeeded t _ _) = t"

fun attempt_step :: "nat \<Rightarrow> attempt \<Rightarrow> buckets \<Rightarrow> buckets" where
  "attempt_step m (Failed t a u) bs = failure m t a u bs"
| "attempt_step m (Succeeded _ a u) bs = success a u bs"

definition throttle_run :: "nat \<Rightarrow> attempt list \<Rightarrow> buckets" where
  "throttle_run m h = fold (attempt_step m) h []"

text \<open>The failures of a history that count for a key, oldest first.\<close>

fun concerns :: "bucket_key \<Rightarrow> attempt \<Rightarrow> bool" where
  "concerns key (Failed _ a u) \<longleftrightarrow> key \<in> set (keys_of a u)"
| "concerns key (Succeeded _ _ _) \<longleftrightarrow> False"

definition failed_at :: "bucket_key \<Rightarrow> attempt list \<Rightarrow> real list" where
  "failed_at key h = map at_time (filter (concerns key) h)"

text \<open>
  The specification, without a store: a counter per key that keeps every failure since the last block and counts those
  within the window. A correct password starts the counter of its pair anew.
\<close>

fun clears :: "bucket_key \<Rightarrow> attempt \<Rightarrow> bool" where
  "clears key (Succeeded _ a u) \<longleftrightarrow> a \<noteq> [] \<and> u \<noteq> [] \<and> key = PairKey a u"
| "clears key (Failed _ _ _) \<longleftrightarrow> False"

record counter =
  seen :: "real list"
  locked_until :: real

definition idle :: counter where
  "idle = \<lparr>seen = [], locked_until = 0\<rparr>"

definition in_window :: "bucket_key \<Rightarrow> real \<Rightarrow> real list \<Rightarrow> real list" where
  "in_window key now ts = filter (\<lambda>t. now - p_window (policy_of key) < t) ts"

definition count_failure :: "bucket_key \<Rightarrow> real \<Rightarrow> counter \<Rightarrow> counter" where
  "count_failure key now c =
     (let ts = seen c @ [now] in
      if locked_until c \<le> now \<and> p_limit (policy_of key) \<le> length (in_window key now ts)
      then \<lparr>seen = [], locked_until = now + p_block (policy_of key)\<rparr> else c\<lparr>seen := ts\<rparr>)"

definition count_step :: "bucket_key \<Rightarrow> attempt \<Rightarrow> counter \<Rightarrow> counter" where
  "count_step key x c =
     (if concerns key x then count_failure key (at_time x) c else if clears key x then idle else c)"

definition counted :: "bucket_key \<Rightarrow> attempt list \<Rightarrow> counter" where
  "counted key h = fold (count_step key) h idle"

definition locked_for :: "bucket_key \<Rightarrow> attempt list \<Rightarrow> real \<Rightarrow> real" where
  "locked_for key h now = max 0 (locked_until (counted key h) - now)"

text \<open>What a caller should be told: the longest wait of the address and of the pair, in whole seconds.\<close>

definition due_wait :: "attempt list \<Rightarrow> real \<Rightarrow> string \<Rightarrow> string \<Rightarrow> int" where
  "due_wait h now a u = \<lceil>Max (insert 0 ((\<lambda>key. locked_for key h now) ` set (keys_of a u)))\<rceil>"

text \<open>The other keys that failed in a stretch of a history; a key is undisturbed if in no stretch that starts with a failure of
  it and has no further one the others are as many as the store holds.\<close>

definition rivals :: "bucket_key \<Rightarrow> attempt list \<Rightarrow> bucket_key set" where
  "rivals key xs = {k. k \<noteq> key \<and> (\<exists>y \<in> set xs. concerns k y)}"

definition stretch :: "bucket_key \<Rightarrow> attempt list \<Rightarrow> bool" where
  "stretch key xs \<longleftrightarrow> (case xs of [] \<Rightarrow> False | x # mid \<Rightarrow> concerns key x \<and> list_all (\<lambda>y. \<not> concerns key y) mid)"

definition undisturbed :: "nat \<Rightarrow> bucket_key \<Rightarrow> attempt list \<Rightarrow> bool" where
  "undisturbed m key h \<longleftrightarrow> (\<forall>pre xs post. h = pre @ xs @ post \<longrightarrow> stretch key xs \<longrightarrow> card (rivals key xs) < m)"

definition bucket_at :: "buckets \<Rightarrow> bucket_key \<Rightarrow> bucket" where
  "bucket_at bs key = (case map_of bs key of None \<Rightarrow> new_bucket | Some b \<Rightarrow> b)"

section \<open>Lookups\<close>

lemma keyed_forget [simp]: "keyed bs \<Longrightarrow> keyed (forget key bs)"
  by (induction bs) (auto simp: forget_def)

lemma map_of_forget [simp]: "map_of (forget key bs) k = (if k = key then None else map_of bs k)"
  by (induction bs) (auto simp: forget_def)

lemma forget_notin [simp]: "key \<notin> fst ` set (forget key bs)"
  by (auto simp: forget_def)

lemma length_forget: "length (forget key bs) \<le> length bs"
  by (simp add: forget_def)

lemma keyed_touch [simp]: "keyed bs \<Longrightarrow> keyed (touch now key bs)"
  using forget_notin [of key bs] by (simp add: touch_def Let_def del: forget_notin)

lemma bucket_at_touch:
  "bucket_at (touch now key bs) k = (if k = key then hit (policy_of key) now (bucket_at bs key) else bucket_at bs k)"
proof -
  have "map_of (forget key bs) key = None" by simp
  then show ?thesis
    by (auto simp: touch_def bucket_at_def Let_def map_add_def split: option.splits)
qed

lemma keys_of_distinct [simp]: "distinct (keys_of a u)"
  by (simp add: keys_of_def)

lemma bucket_at_touches:
  "distinct ks \<Longrightarrow> bucket_at (fold (touch now) ks bs) k =
     (if k \<in> set ks then hit (policy_of k) now (bucket_at bs k) else bucket_at bs k)"
  by (induction ks arbitrary: bs) (auto simp: bucket_at_touch)

lemma keyed_touches [simp]: "keyed bs \<Longrightarrow> keyed (fold (touch now) ks bs)"
  by (induction ks arbitrary: bs) auto

lemma keyed_drop: "keyed bs \<Longrightarrow> keyed (drop n bs)"
  by (simp add: drop_map [symmetric])

lemma keyed_step: "keyed bs \<Longrightarrow> keyed (attempt_step m x bs)"
  by (cases x) (simp_all add: failure_def success_def Let_def keyed_drop)

lemma map_of_drop: "keyed bs \<Longrightarrow> map_of (drop n bs) k = Some b \<Longrightarrow> map_of bs k = Some b"
  by (metis in_set_dropD keyed_drop map_of_SomeD map_of_eq_Some_iff)

section \<open>A bucket implements a counter\<close>

lemma finite_concerns: "finite {key. concerns key x}"
  by (cases x) simp_all

lemma finite_rivals: "finite (rivals key xs)"
proof -
  have "rivals key xs \<subseteq> (\<Union>x \<in> set xs. {k. concerns k x})" by (auto simp: rivals_def)
  then show ?thesis by (rule finite_subset) (simp add: finite_concerns)
qed

lemma policy_pos [simp]: "0 < p_window (policy_of key)" "0 < p_block (policy_of key)" "p_block (policy_of key) \<le> 900"
  by (cases key; simp add: policy_of_def PAIR_def ADDRESS_def)+

text \<open>The bucket keeps the failures within the window of the last one, and the end of the block.\<close>

definition implements :: "bucket_key \<Rightarrow> bucket \<Rightarrow> counter \<Rightarrow> bool" where
  "implements key b c \<longleftrightarrow> blocked_until b = locked_until c
     \<and> failures b = (if seen c = [] then [] else in_window key (last (seen c)) (seen c))"

lemma implements_new: "implements key new_bucket idle"
  by (simp add: implements_def new_bucket_def idle_def)

lemma dropWhile_sorted: "sorted ts \<Longrightarrow> dropWhile (\<lambda>t. t \<le> c) ts = filter (\<lambda>t. c < (t :: real)) ts"
proof (induction ts)
  case (Cons t ts)
  have "c < t \<Longrightarrow> filter (\<lambda>t. c < t) ts = ts" using Cons.prems by (auto simp: filter_id_conv)
  then show ?case using Cons by auto
qed simp

lemma hit_implements:
  assumes r: "implements key b c" and s: "sorted (seen c @ [now])"
  shows "implements key (hit (policy_of key) now b) (count_failure key now c)"
proof -
  let ?p = "policy_of key"
  have "dropWhile (\<lambda>t. t \<le> now - p_window ?p) (failures b) = in_window key now (seen c)"
  proof (cases "seen c = []")
    case False
    have "sorted (failures b)" using r s by (auto simp: implements_def in_window_def sorted_append intro: sorted_wrt_filter)
    then have "dropWhile (\<lambda>t. t \<le> now - p_window ?p) (failures b)
        = filter (\<lambda>t. now - p_window ?p < t) (in_window key (last (seen c)) (seen c))"
      using r False by (simp add: dropWhile_sorted implements_def)
    moreover have "last (seen c) \<le> now" using s False by (simp add: sorted_append)
    ultimately show ?thesis by (auto simp: in_window_def intro!: filter_cong)
  qed (use r in \<open>simp add: implements_def in_window_def\<close>)
  then have recent: "dropWhile (\<lambda>t. t \<le> now - p_window ?p) (failures b) @ [now] = in_window key now (seen c @ [now])"
    by (simp add: in_window_def)
  then show ?thesis using r by (auto simp: hit_def Let_def count_failure_def implements_def)
qed

lemma counted_snoc: "counted key (h @ [x]) = count_step key x (counted key h)"
  by (simp add: counted_def)

lemma counted_seen:
  "sorted (map at_time h) \<Longrightarrow> sorted (seen (counted key h)) \<and> set (seen (counted key h)) \<subseteq> at_time ` set h"
proof (induction h rule: rev_induct)
  case (snoc x h)
  then show ?case
    by (auto simp: counted_snoc count_step_def count_failure_def Let_def idle_def sorted_append image_subset_iff)
qed (simp add: counted_def idle_def)

lemma step_counts:
  assumes "implements key b (counted key h)" "sorted (map at_time (h @ [x]))" "concerns key x"
  shows "implements key (hit (policy_of key) (at_time x) b) (counted key (h @ [x]))"
proof -
  have "sorted (map at_time h)" "\<forall>t \<in> at_time ` set h. t \<le> at_time x" using assms(2) by (simp_all add: sorted_append)
  then have "sorted (seen (counted key h) @ [at_time x])" using counted_seen [of h key] by (auto simp: sorted_append)
  from hit_implements [OF assms(1) this] show ?thesis using assms(3) by (simp add: counted_snoc count_step_def)
qed

section \<open>The bounded store\<close>

lemma length_step:
  assumes "length bs \<le> m"
  shows "length (attempt_step m x bs) \<le> m"
proof (cases x)
  case (Succeeded t a u)
  then show ?thesis using assms length_forget [of "PairKey a u" bs] by (simp add: success_def)
qed (simp add: failure_def Let_def)

lemma throttle_size: "length (throttle_run m h) \<le> m"
  by (induction h rule: rev_induct) (simp_all add: throttle_run_def length_step)

text \<open>A key is in the store with only some keys after it.\<close>

definition before_only :: "bucket_key \<Rightarrow> bucket_key set \<Rightarrow> buckets \<Rightarrow> bool" where
  "before_only key S bs \<longleftrightarrow> (\<exists>ps b qs. bs = ps @ (key, b) # qs \<and> fst ` set qs \<subseteq> S)"

lemma forget_append: "forget k (xs @ ys) = forget k xs @ forget k ys"
  by (simp add: forget_def)

lemma before_only_forget: "k \<noteq> key \<Longrightarrow> before_only key S bs \<Longrightarrow> before_only key S (forget k bs)"
  unfolding before_only_def
proof (elim exE conjE)
  fix ps b qs assume k: "k \<noteq> key" and b: "bs = ps @ (key, b) # qs" "fst ` set qs \<subseteq> S"
  have "forget k bs = forget k ps @ (key, b) # forget k qs" using k by (simp add: b(1) forget_append) (simp add: forget_def)
  moreover have "fst ` set (forget k qs) \<subseteq> S" using b(2) by (auto simp: forget_def)
  ultimately show "\<exists>ps b qs. forget k bs = ps @ (key, b) # qs \<and> fst ` set qs \<subseteq> S" by blast
qed

lemma before_only_append: "before_only key S bs \<Longrightarrow> before_only key (S \<union> fst ` set rest) (bs @ rest)"
  unfolding before_only_def
proof (elim exE conjE)
  fix ps b qs assume "bs = ps @ (key, b) # qs" "fst ` set qs \<subseteq> S"
  then show "\<exists>ps b qs. bs @ rest = ps @ (key, b) # qs \<and> fst ` set qs \<subseteq> S \<union> fst ` set rest"
    by (intro exI [of _ ps] exI [of _ b] exI [of _ "qs @ rest"]) auto
qed

lemma before_only_touch:
  "k \<noteq> key \<Longrightarrow> before_only key S bs \<Longrightarrow> before_only key (insert k S) (touch now k bs)"
  "before_only key {} (touch now key bs)"
proof -
  assume "k \<noteq> key" "before_only key S bs"
  from before_only_append [OF before_only_forget [OF this], of "[(k, x)]" for x]
  show "before_only key (insert k S) (touch now k bs)" by (simp add: touch_def Let_def)
next
  show "before_only key {} (touch now key bs)" by (auto simp: touch_def Let_def before_only_def)
qed

lemma before_only_mono: "before_only key S bs \<Longrightarrow> S \<subseteq> T \<Longrightarrow> before_only key T bs"
  unfolding before_only_def by blast

lemma before_only_touches: "key \<notin> set ks \<Longrightarrow> before_only key S bs \<Longrightarrow> before_only key (S \<union> set ks) (fold (touch now) ks bs)"
proof (induction ks arbitrary: S bs)
  case (Cons k ks)
  then have k: "k \<noteq> key" "key \<notin> set ks" by auto
  from Cons.IH [OF k(2) before_only_touch(1) [OF k(1) Cons.prems(2)]] show ?case by simp
qed simp

lemma before_only_touched: "key \<in> set ks \<Longrightarrow> distinct ks \<Longrightarrow> before_only key (set ks - {key}) (fold (touch now) ks bs)"
proof (induction ks arbitrary: bs)
  case (Cons k ks)
  show ?case
  proof (cases "k = key")
    case True
    then show ?thesis using before_only_touches [OF _ before_only_touch(2) [of key now bs], of ks] Cons.prems by simp
  next
    case False
    then have "before_only key (set ks - {key}) (fold (touch now) ks (touch now k bs))" using Cons by auto
    then have "before_only key (set (k # ks) - {key}) (fold (touch now) ks (touch now k bs))" by (rule before_only_mono) auto
    then show ?thesis by simp
  qed
qed simp

text \<open>Eviction drops from the front, so it spares a key with fewer than \<open>m\<close> keys after it.\<close>

lemma map_of_after: "key \<notin> fst ` set ps \<Longrightarrow> map_of (ps @ (key, b) # qs) key = Some b"
  by (induction ps) auto

lemma eviction_spares:
  assumes "before_only key S bs" "keyed bs" "finite S" "card S < m"
  shows "before_only key S (drop (length bs - m) bs)" "bucket_at (drop (length bs - m) bs) key = bucket_at bs key"
proof -
  obtain ps b qs where bs: "bs = ps @ (key, b) # qs" "fst ` set qs \<subseteq> S" using assms(1) by (auto simp: before_only_def)
  have "distinct (map fst qs)" using assms(2) bs(1) by simp
  from distinct_card [OF this] have "length qs = card (fst ` set qs)" by simp
  also have "\<dots> \<le> card S" by (rule card_mono [OF assms(3) bs(2)])
  finally have "length bs - m \<le> length ps" using assms(4) bs(1) by simp
  then have d: "drop (length bs - m) bs = drop (length bs - m) ps @ (key, b) # qs" using bs(1) by simp
  then show "before_only key S (drop (length bs - m) bs)" using bs(2) by (auto simp: before_only_def)
  have "key \<notin> fst ` set ps" using assms(2) bs(1) by auto
  then have out: "key \<notin> fst ` set ps" "key \<notin> fst ` set (drop (length bs - m) ps)" by (meson image_mono set_drop_subset subsetD)+
  have "map_of bs key = Some b" unfolding bs(1) using out(1) by (rule map_of_after)
  moreover have "map_of (drop (length bs - m) bs) key = Some b" unfolding d using out(2) by (rule map_of_after)
  ultimately show "bucket_at (drop (length bs - m) bs) key = bucket_at bs key" by (simp add: bucket_at_def)
qed

lemma bucket_at_absent: "key \<notin> fst ` set bs \<Longrightarrow> bucket_at bs key = new_bucket"
  by (auto simp: bucket_at_def split: option.split dest: map_of_key)

lemma keys_touches: "fst ` set (fold (touch now) ks bs) \<subseteq> fst ` set bs \<union> set ks"
proof (induction ks arbitrary: bs)
  case (Cons k ks)
  have "fst ` set (touch now k bs) \<subseteq> insert k (fst ` set bs)"
    by (auto simp: touch_def Let_def forget_def)
  then show ?case using Cons.IH [of "touch now k bs"] by (simp, blast)
qed simp

lemma bucket_at_drop:
  "keyed bs \<Longrightarrow> bucket_at (drop n bs) k = bucket_at bs k \<or> bucket_at (drop n bs) k = new_bucket"
  using map_of_drop [of bs n k] by (auto simp: bucket_at_def split: option.splits)

lemma keyed_run: "keyed (throttle_run m h)"
  by (induction h rule: rev_induct) (simp_all add: throttle_run_def keyed_step)

text \<open>Whatever is evicted, a bucket implements the counter of a final part of the history.\<close>

lemma run_implements_part:
  "sorted (map at_time h) \<Longrightarrow> \<exists>pre g. h = pre @ g \<and> implements key (bucket_at (throttle_run m h) key) (counted key g)"
proof (induction h rule: rev_induct)
  case Nil
  then show ?case by (simp add: throttle_run_def bucket_at_def counted_def implements_new)
next
  case (snoc x h)
  let ?bs = "throttle_run m h"
  obtain pre g where g: "h = pre @ g" "implements key (bucket_at ?bs key) (counted key g)" using snoc by (auto simp: sorted_append)
  have s: "sorted (map at_time (g @ [x]))" using snoc.prems g(1) by (simp add: sorted_append)
  have run: "throttle_run m (h @ [x]) = attempt_step m x ?bs" by (simp add: throttle_run_def)
  have fresh: ?case if "bucket_at (attempt_step m x ?bs) key = new_bucket"
    using that implements_new by - (rule exI [of _ "h @ [x]"], rule exI [of _ "[]"], simp add: run counted_def)
  have more: ?case if "implements key (bucket_at (attempt_step m x ?bs) key) (counted key (g @ [x]))"
  proof -
    have "h @ [x] = pre @ (g @ [x])" using g(1) by simp
    then show ?thesis using that unfolding run [symmetric] by blast
  qed
  show ?case
  proof (cases x)
    case (Failed t a u)
    let ?ts = "fold (touch t) (keys_of a u) ?bs"
    have "implements key (bucket_at ?ts key) (counted key (g @ [x]))"
    proof (cases "concerns key x")
      case True
      then show ?thesis using step_counts [OF g(2) s] Failed by (simp add: bucket_at_touches)
    next
      case False
      then show ?thesis using g(2) Failed by (simp add: bucket_at_touches counted_snoc count_step_def)
    qed
    then show ?thesis
      using more fresh bucket_at_drop [of ?ts "length ?ts - m" key] keyed_run [of m h] Failed by (auto simp: failure_def Let_def)
  next
    case (Succeeded t a u)
    show ?thesis
    proof (cases "clears key x")
      case True
      then have "bucket_at (attempt_step m x ?bs) key = new_bucket" using Succeeded by (simp add: success_def bucket_at_def)
      then show ?thesis by (rule fresh)
    next
      case False
      then have "bucket_at (attempt_step m x ?bs) key = bucket_at ?bs key" using Succeeded by (auto simp: success_def bucket_at_def)
      moreover have "\<not> concerns key x" using Succeeded by simp
      then have "counted key (g @ [x]) = counted key g" using False by (simp add: counted_snoc count_step_def)
      ultimately show ?thesis using g(2) by (intro more) (simp only:)
    qed
  qed
qed

lemma undisturbed_part: "undisturbed m key (h @ [x]) \<Longrightarrow> undisturbed m key h"
  unfolding undisturbed_def
proof (intro allI impI)
  fix pre xs post assume u: "\<forall>pre xs post. h @ [x] = pre @ xs @ post \<longrightarrow> stretch key xs \<longrightarrow> card (rivals key xs) < m"
    and h: "h = pre @ xs @ post" "stretch key xs"
  then have "h @ [x] = pre @ xs @ post @ [x]" by simp
  then show "card (rivals key xs) < m" using u h(2) by blast
qed

text \<open>The bucket of an undisturbed key implements the counter of the whole history: while it is in the store, only keys that failed
  since its last failure are after it.\<close>

definition spared :: "bucket_key \<Rightarrow> attempt list \<Rightarrow> buckets \<Rightarrow> bool" where
  "spared key h bs \<longleftrightarrow> key \<notin> fst ` set bs \<or> (\<exists>pre xs. h = pre @ xs \<and> stretch key xs \<and> before_only key (rivals key xs) bs)"

lemma spared_forget: "spared key h bs \<Longrightarrow> k \<noteq> key \<Longrightarrow> spared key h (forget k bs)"
  unfolding spared_def
proof (elim disjE exE conjE)
  assume "key \<notin> fst ` set bs"
  then show "key \<notin> fst ` set (forget k bs) \<or> (\<exists>pre xs. h = pre @ xs \<and> stretch key xs \<and> before_only key (rivals key xs) (forget k bs))"
    by (auto simp: forget_def)
next
  fix pre xs assume "k \<noteq> key" "h = pre @ xs" "stretch key xs" "before_only key (rivals key xs) bs"
  then show "key \<notin> fst ` set (forget k bs) \<or> (\<exists>pre xs. h = pre @ xs \<and> stretch key xs \<and> before_only key (rivals key xs) (forget k bs))"
    using before_only_forget by blast
qed

lemma stretch_snoc: "stretch key xs \<Longrightarrow> \<not> concerns key x \<Longrightarrow> stretch key (xs @ [x])"
  by (auto simp: stretch_def split: list.splits)

lemma rivals_snoc: "\<not> concerns key x \<Longrightarrow> rivals key (xs @ [x]) = rivals key xs \<union> {k. concerns k x}"
  by (auto simp: rivals_def)

lemma spared_step:
  assumes sp: "spared key h bs" and keyed: "keyed bs" and u: "undisturbed m key (h @ [x])"
  shows "spared key (h @ [x]) (attempt_step m x bs)"
    "bucket_at (attempt_step m x bs) key =
      (if concerns key x then hit (policy_of key) (at_time x) (bucket_at bs key) else if clears key x then new_bucket else bucket_at bs key)"
proof -
  let ?P = "spared key (h @ [x]) (attempt_step m x bs) \<and> bucket_at (attempt_step m x bs) key =
      (if concerns key x then hit (policy_of key) (at_time x) (bucket_at bs key) else if clears key x then new_bucket else bucket_at bs key)"
  have few: "card (rivals key xs) < m" if "h @ [x] = pre @ xs" "stretch key xs" for pre xs
    using u that unfolding undisturbed_def by (metis append_Nil2)
  have ?P
  proof (cases x)
    case (Failed t a w)
    let ?ts = "fold (touch t) (keys_of a w) bs"
    have k: "keyed ?ts" using keyed by simp
    have step: "attempt_step m x bs = drop (length ?ts - m) ?ts" using Failed by (simp add: failure_def Let_def)
    show ?thesis
    proof (cases "concerns key x")
      case True
      then have str: "stretch key [x]" by (simp add: stretch_def)
      have "set (keys_of a w) - {key} = rivals key [x]" using Failed by (auto simp: rivals_def)
      then have b: "before_only key (rivals key [x]) ?ts" using before_only_touched [of key "keys_of a w" t bs] True Failed by simp
      note e = eviction_spares [OF b k finite_rivals few [OF _ str]]
      have "spared key (h @ [x]) (attempt_step m x bs)" using e(1) [of h] str unfolding step spared_def by blast
      moreover have "bucket_at (attempt_step m x bs) key = bucket_at ?ts key" unfolding step by (rule e(2) [of h]) simp
      moreover have "bucket_at ?ts key = hit (policy_of key) (at_time x) (bucket_at bs key)"
        using True Failed by (simp add: bucket_at_touches)
      ultimately show ?thesis using True by simp
    next
      case False
      then have same: "bucket_at ?ts key = bucket_at bs key" using Failed by (simp add: bucket_at_touches)
      show ?thesis
      proof (cases "key \<in> fst ` set bs")
        case True
        then obtain pre xs where xs: "h = pre @ xs" "stretch key xs" "before_only key (rivals key xs) bs" using sp by (auto simp: spared_def)
        have str: "stretch key (xs @ [x])" by (rule stretch_snoc [OF xs(2) False])
        have b: "before_only key (rivals key (xs @ [x])) ?ts"
          using before_only_touches [OF _ xs(3), of "keys_of a w" t] False Failed rivals_snoc [OF False, of xs] by simp
        have h: "h @ [x] = pre @ xs @ [x]" using xs(1) by simp
        note e = eviction_spares [OF b k finite_rivals few [OF h str]]
        have "spared key (h @ [x]) (attempt_step m x bs)" using e(1) str h unfolding step spared_def by blast
        moreover have "bucket_at (attempt_step m x bs) key = bucket_at bs key" unfolding step e(2) by (rule same)
        moreover have "\<not> clears key x" using Failed by simp
        ultimately show ?thesis using False by simp
      next
        case absent: False
        then have out: "key \<notin> fst ` set ?ts" using keys_touches [of t "keys_of a w" bs] False Failed by auto
        then have out': "key \<notin> fst ` set (drop (length ?ts - m) ?ts)" by (auto dest: in_set_dropD)
        then have "spared key (h @ [x]) (attempt_step m x bs)" unfolding step spared_def by blast
        moreover have "bucket_at (attempt_step m x bs) key = bucket_at bs key"
          unfolding step bucket_at_absent [OF out'] bucket_at_absent [OF absent] ..
        moreover have "\<not> clears key x" using Failed by simp
        ultimately show ?thesis using False by simp
      qed
    qed
  next
    case (Succeeded t a w)
    show ?thesis
    proof (cases "clears key x")
      case True
      then have "attempt_step m x bs = forget key bs" using Succeeded by (simp add: success_def)
      then show ?thesis using True Succeeded by (simp add: spared_def bucket_at_def)
    next
      case False
      have c: "\<not> concerns key x" using Succeeded by simp
      have "spared key (h @ [x]) bs"
      proof (cases "key \<in> fst ` set bs")
        case True
        then obtain pre xs where xs: "h = pre @ xs" "stretch key xs" "before_only key (rivals key xs) bs" using sp by (auto simp: spared_def)
        have "rivals key (xs @ [x]) = rivals key xs" using rivals_snoc [OF c, of xs] Succeeded by simp
        then show ?thesis
          using xs stretch_snoc [OF xs(2) c] unfolding spared_def by (intro disjI2 exI [of _ pre] exI [of _ "xs @ [x]"]) simp
      qed (simp add: spared_def)
      moreover note spared_forget [OF this]
      ultimately have "spared key (h @ [x]) (attempt_step m x bs)" using False Succeeded by (auto simp: success_def)
      moreover have "bucket_at (attempt_step m x bs) key = bucket_at bs key" using False Succeeded by (auto simp: success_def bucket_at_def)
      ultimately show ?thesis using False c by simp
    qed
  qed
  then show "spared key (h @ [x]) (attempt_step m x bs)"
    "bucket_at (attempt_step m x bs) key =
      (if concerns key x then hit (policy_of key) (at_time x) (bucket_at bs key) else if clears key x then new_bucket else bucket_at bs key)"
    by blast+
qed

lemma run_implements:
  "sorted (map at_time h) \<Longrightarrow> undisturbed m key h \<Longrightarrow>
   implements key (bucket_at (throttle_run m h) key) (counted key h) \<and> spared key h (throttle_run m h)"
proof (induction h rule: rev_induct)
  case Nil
  then show ?case by (simp add: throttle_run_def bucket_at_def counted_def implements_new spared_def)
next
  case (snoc x h)
  have ih: "implements key (bucket_at (throttle_run m h) key) (counted key h)" "spared key h (throttle_run m h)"
    using snoc undisturbed_part by (auto simp: sorted_append)
  have run: "throttle_run m (h @ [x]) = attempt_step m x (throttle_run m h)" by (simp add: throttle_run_def)
  note step = spared_step [OF ih(2) keyed_run snoc.prems(2), folded run]
  have "implements key (bucket_at (throttle_run m (h @ [x])) key) (counted key (h @ [x]))"
  proof (cases "concerns key x")
    case True
    then show ?thesis using step_counts [OF ih(1) snoc.prems(1) True] by (simp only: step(2) if_True)
  next
    case False
    then have c: "counted key (h @ [x]) = (if clears key x then idle else counted key h)" by (simp add: counted_snoc count_step_def)
    show ?thesis unfolding step(2) c using False ih(1) implements_new [of key] by (cases "clears key x") (simp_all only: if_True if_False simp_thms)
  qed
  then show ?case using step(1) by blast
qed

section \<open>A block is earned\<close>

text \<open>
  Evidence for a block of a key: as many failures as the limit, in a row for that key, within the window,
  the last of which set the end of the block.
\<close>

definition earned :: "bucket_key \<Rightarrow> real list \<Rightarrow> real \<Rightarrow> bool" where
  "earned key ts until \<longleftrightarrow>
     (\<exists>xs ys zs. ts = xs @ ys @ zs \<and> ys \<noteq> [] \<and> p_limit (policy_of key) \<le> length ys
        \<and> (\<forall>t \<in> set ys. last ys - p_window (policy_of key) < t) \<and> until = last ys + p_block (policy_of key))"

lemma earned_append: "earned key ts until \<Longrightarrow> earned key (ts @ us) until"
  unfolding earned_def by (metis append.assoc)

definition bucket_ok :: "bucket_key \<Rightarrow> real list \<Rightarrow> bucket \<Rightarrow> bool" where
  "bucket_ok key ts b \<longleftrightarrow>
     (\<exists>xs. ts = xs @ failures b) \<and> (blocked_until b = 0 \<or> earned key ts (blocked_until b))"

lemma new_bucket_ok [simp]: "bucket_ok key ts new_bucket"
  by (simp add: bucket_ok_def new_bucket_def)

lemma dropWhile_recent: "sorted ts \<Longrightarrow> t \<in> set (dropWhile (\<lambda>t. t \<le> c) ts) \<Longrightarrow> c < (t :: real)"
  by (induction ts) (auto split: if_splits)

lemma hit_ok:
  assumes ok: "bucket_ok key ts b" and sorted: "sorted (ts @ [now])"
  shows "bucket_ok key (ts @ [now]) (hit (policy_of key) now b)"
proof -
  let ?p = "policy_of key"
  let ?rest = "dropWhile (\<lambda>t. t \<le> now - p_window ?p) (failures b)"
  obtain xs where xs: "ts = xs @ failures b" using ok by (auto simp: bucket_ok_def)
  have "failures b = takeWhile (\<lambda>t. t \<le> now - p_window ?p) (failures b) @ ?rest" by simp
  then obtain ys where ys: "ts @ [now] = ys @ ?rest @ [now]" using xs by (metis append.assoc)
  have recent: "now - p_window ?p < t" if "t \<in> set (?rest @ [now])" for t
    using that dropWhile_recent [of "failures b" t] sorted xs by (auto simp: sorted_append)
  show ?thesis
  proof (cases "p_limit ?p \<le> length (?rest @ [now]) \<and> blocked_until b \<le> now")
    case True
    have "earned key (ts @ [now]) (now + p_block ?p)"
      unfolding earned_def using ys recent True
      by (intro exI [of _ ys] exI [of _ "?rest @ [now]"] exI [of _ "[]"]) auto
    then show ?thesis using True by (simp add: hit_def Let_def bucket_ok_def)
  next
    case False
    then have "hit ?p now b = b\<lparr>failures := ?rest @ [now]\<rparr>" by (auto simp: hit_def Let_def)
    then show ?thesis using ok ys earned_append [of key ts "blocked_until b" "[now]"] by (auto simp: bucket_ok_def)
  qed
qed

lemma bucket_ok_more: "bucket_ok key ts b \<Longrightarrow> earned key us (blocked_until b) \<or> blocked_until b = 0 \<Longrightarrow> (\<exists>xs. us = xs @ failures b) \<Longrightarrow> bucket_ok key us b"
  by (simp add: bucket_ok_def disj_commute)

definition buckets_ok :: "attempt list \<Rightarrow> buckets \<Rightarrow> bool" where
  "buckets_ok h bs \<longleftrightarrow> keyed bs \<and> (\<forall>key. bucket_ok key (failed_at key h) (bucket_at bs key))"

lemma step_keeps_ok:
  assumes ok: "buckets_ok h bs" and sorted: "sorted (map at_time (h @ [x]))"
  shows "buckets_ok (h @ [x]) (attempt_step m x bs)"
proof (cases x)
  case (Failed t a u)
  let ?bs = "fold (touch t) (keys_of a u) bs"
  have "sorted_wrt (\<lambda>x y. at_time x \<le> at_time y) (h @ [x])" using sorted by (simp only: sorted_wrt_map)
  then have "sorted (failed_at key (h @ [x]))" for key
    unfolding failed_at_def sorted_wrt_map by (rule sorted_wrt_filter)
  moreover have "failed_at key (h @ [x]) = (if key \<in> set (keys_of a u) then failed_at key h @ [t] else failed_at key h)" for key
    using Failed by (simp add: failed_at_def)
  moreover have "bucket_ok key (failed_at key h) (bucket_at bs key)" for key
    using ok by (simp add: buckets_ok_def)
  ultimately have "bucket_ok key (failed_at key (h @ [x])) (bucket_at ?bs key)" for key
    using hit_ok [of key "failed_at key h" "bucket_at bs key" t] by (simp add: bucket_at_touches) metis
  then have "bucket_ok key (failed_at key (h @ [x])) (bucket_at (drop n ?bs) key)" for key n
    using bucket_at_drop [of ?bs n key] ok by (auto simp: buckets_ok_def)
  then show ?thesis using ok keyed_step [of bs m x] Failed by (simp add: buckets_ok_def failure_def Let_def)
next
  case (Succeeded t a u)
  have "bucket_at (success a u bs) key \<in> {bucket_at bs key, new_bucket}" for key
    by (auto simp: success_def bucket_at_def)
  then have "bucket_ok key (failed_at key h) (bucket_at (success a u bs) key)" for key
    using ok by (metis buckets_ok_def empty_iff insert_iff new_bucket_ok)
  then show ?thesis using ok keyed_step [of bs m x] Succeeded by (simp add: buckets_ok_def failed_at_def)
qed

lemma run_buckets_ok: "sorted (map at_time h) \<Longrightarrow> buckets_ok h (throttle_run m h)"
proof (induction h rule: rev_induct)
  case Nil
  then show ?case by (simp add: throttle_run_def buckets_ok_def bucket_at_def)
next
  case (snoc x h)
  then have "buckets_ok h (throttle_run m h)" by (simp add: sorted_append)
  from step_keeps_ok [OF this snoc.prems] show ?case by (simp add: throttle_run_def)
qed

lemma fold_max_cases: "fold (\<lambda>k w. max w (f k)) ks (c :: real) = c \<or> (\<exists>k \<in> set ks. fold (\<lambda>k w. max w (f k)) ks c = f k)"
proof (induction ks arbitrary: c)
  case (Cons k ks)
  then show ?case using Cons.IH [of "max c (f k)"] by (auto simp: max_def split: if_splits)
qed simp

lemma retry_waits:
  assumes "0 < retry_after bs now a u"
  obtains key where "key \<in> set (keys_of a u)" "0 < wait_of bs now key" "retry_after bs now a u = \<lceil>wait_of bs now key\<rceil>"
proof -
  define w where "w = fold (\<lambda>key w. max w (wait_of bs now key)) (keys_of a u) 0"
  have pos: "0 < w" and after: "retry_after bs now a u = \<lceil>w\<rceil>"
    using assms by (simp_all add: retry_after_def Let_def w_def [symmetric] split: if_split_asm)
  have "w = 0 \<or> (\<exists>key \<in> set (keys_of a u). w = wait_of bs now key)" unfolding w_def by (rule fold_max_cases)
  with pos after that show ?thesis by blast
qed

lemma retry_bound:
  assumes "\<And>key. wait_of bs now key \<le> 900"
  shows "retry_after bs now a u \<le> 900"
proof (cases "0 < retry_after bs now a u")
  case True
  from retry_waits [OF this] assms show ?thesis by (metis ceiling_le_iff of_int_numeral)
qed simp

lemma earned_until:
  assumes "earned key ts until" "\<forall>t \<in> set ts. t \<le> now"
  shows "until \<le> now + 900"
proof -
  obtain xs ys zs where "ts = xs @ ys @ zs" "ys \<noteq> []" and until: "until = last ys + p_block (policy_of key)"
    using assms(1) by (auto simp: earned_def)
  then have "last ys \<le> now" using assms(2) by simp
  then show ?thesis using policy_pos(3) [of key] until by linarith
qed

lemma wait_earned:
  assumes "0 < wait_of (throttle_run m h) now key" "sorted (map at_time h)" "0 \<le> now"
  shows "earned key (failed_at key h) (blocked_until (bucket_at (throttle_run m h) key))"
    and "now < blocked_until (bucket_at (throttle_run m h) key)"
    and "wait_of (throttle_run m h) now key = blocked_until (bucket_at (throttle_run m h) key) - now"
proof -
  let ?b = "bucket_at (throttle_run m h) key"
  have b: "now < blocked_until ?b \<and> wait_of (throttle_run m h) now key = blocked_until ?b - now"
    using assms(1) by (auto simp: wait_of_def bucket_at_def split: option.splits if_splits)
  moreover have "bucket_ok key (failed_at key h) ?b"
    using run_buckets_ok [OF assms(2)] by (simp add: buckets_ok_def)
  ultimately show "earned key (failed_at key h) (blocked_until ?b)" "now < blocked_until ?b"
    "wait_of (throttle_run m h) now key = blocked_until ?b - now"
    using assms(3) by (auto simp: bucket_ok_def)
qed

lemma wait_bucket: "0 \<le> now \<Longrightarrow> wait_of bs now key = max 0 (blocked_until (bucket_at bs key) - now)"
  by (auto simp: wait_of_def bucket_at_def new_bucket_def split: option.split)

lemma fold_max: "fold (\<lambda>k w. max w (f k)) ks (c :: real) = Max (insert c (f ` set ks))"
proof (induction ks arbitrary: c)
  case (Cons k ks)
  have "insert c (f ` set (k # ks)) = insert c (insert (f k) (f ` set ks))" by simp
  also have "Max \<dots> = Max (insert (max c (f k)) (f ` set ks))" by (cases "f ` set ks = {}") (simp_all add: max.assoc)
  finally show ?case using Cons.IH [of "max c (f k)"] by simp
qed simp

text \<open>C36. The bounded store and its pruned buckets implement plain counters. The store never holds more keys than its bound. Whatever
  is evicted, a key waits exactly as long as a counter over a final part of the history says, so an eviction can only
  forget. A caller whose two keys are undisturbed (fewer keys than the bound have other failures between two failures of the key,
  or since the last) is told exactly the wait of the counters over the whole history, evictions of other keys notwithstanding.\<close>

theorem throttle_refines:
  assumes "sorted (map at_time h)" "0 \<le> now"
  shows "length (throttle_run m h) \<le> m
    \<and> (\<exists>pre g. h = pre @ g \<and> wait_of (throttle_run m h) now key = locked_for key g now)
    \<and> (list_all (\<lambda>k. undisturbed m k h) (keys_of a u) \<longrightarrow> retry_after (throttle_run m h) now a u = due_wait h now a u)"
proof (intro conjI impI)
  show "length (throttle_run m h) \<le> m" by (rule throttle_size)
  show "\<exists>pre g. h = pre @ g \<and> wait_of (throttle_run m h) now key = locked_for key g now"
  proof -
    obtain pre g where g: "h = pre @ g" "implements key (bucket_at (throttle_run m h) key) (counted key g)"
      using run_implements_part [OF assms(1)] by blast
    have "wait_of (throttle_run m h) now key = locked_for key g now"
      using g(2) wait_bucket [OF assms(2)] by (simp add: implements_def locked_for_def)
    then show ?thesis using g(1) by blast
  qed
  assume "list_all (\<lambda>k. undisturbed m k h) (keys_of a u)"
  then have "wait_of (throttle_run m h) now k = locked_for k h now" if "k \<in> set (keys_of a u)" for k
    using that run_implements [OF assms(1), of m k] wait_bucket [OF assms(2)] by (simp add: implements_def locked_for_def list_all_iff)
  then have "(\<lambda>k. wait_of (throttle_run m h) now k) ` set (keys_of a u) = (\<lambda>k. locked_for k h now) ` set (keys_of a u)"
    by (intro image_cong) simp_all
  moreover have "Max (insert 0 ((\<lambda>k. locked_for k h now) ` set (keys_of a u))) = 0
      \<or> 0 < Max (insert 0 ((\<lambda>k. locked_for k h now) ` set (keys_of a u)))"
  proof -
    have "0 \<le> Max (insert 0 ((\<lambda>k. locked_for k h now) ` set (keys_of a u)))" by (rule Max_ge) simp_all
    then show ?thesis by linarith
  qed
  ultimately show "retry_after (throttle_run m h) now a u = due_wait h now a u"
    unfolding retry_after_def due_wait_def fold_max Let_def by (elim disjE) simp_all
qed

text \<open>Six failures of one account in a store of two keys, after another address failed and was evicted.\<close>

definition demo_attempts :: "attempt list" where
  "demo_attempts = Failed 1 ''b'' ''v'' # map (\<lambda>t. Failed t ''a'' ''u'') [2, 3, 4, 5, 6, 7]"

lemma demo_undisturbed:
  assumes "k \<in> {PairKey ''a'' ''u'', AddressKey ''a''}"
  shows "undisturbed 2 k demo_attempts"
  unfolding undisturbed_def
proof (intro allI impI)
  fix pre xs post
  assume h: "demo_attempts = pre @ xs @ post" and str: "stretch k xs"
  have not_b: "\<not> concerns k (Failed 1 ''b'' ''v'')" using assms by (auto simp: keys_of_def)
  have "Failed 1 ''b'' ''v'' \<notin> set xs"
  proof
    assume "Failed 1 ''b'' ''v'' \<in> set xs"
    have "pre = []"
    proof (cases pre)
      case (Cons y list)
      then have "set xs \<subseteq> set (tl demo_attempts)" using arg_cong [OF h, of tl] by (simp only: append_Cons list.sel) auto
      then show ?thesis using \<open>_ \<in> set xs\<close> by (auto simp: demo_attempts_def)
    qed simp
    then have "hd xs = Failed 1 ''b'' ''v''" using h str by (cases xs) (simp_all add: demo_attempts_def stretch_def)
    then show False using str not_b by (auto simp: stretch_def split: list.splits)
  qed
  moreover have "set xs \<subseteq> set demo_attempts" unfolding h by auto
  ultimately have "\<exists>t. y = Failed t ''a'' ''u''" if "y \<in> set xs" for y using that by (auto simp: demo_attempts_def)
  then have "rivals k xs \<subseteq> {PairKey ''a'' ''u'', AddressKey ''a''} - {k}" by (fastforce simp: rivals_def keys_of_def)
  from card_mono [OF _ this] show "card (rivals k xs) < 2" using assms by auto
qed

lemma throttle_refines_witness:
  "length (throttle_run 2 demo_attempts) \<le> 2 \<and> retry_after (throttle_run 2 demo_attempts) 10 ''a'' ''u'' = 597"
proof -
  have s: "sorted (map at_time demo_attempts)" by (simp add: demo_attempts_def)
  have u: "list_all (\<lambda>k. undisturbed 2 k demo_attempts) (keys_of ''a'' ''u'')" using demo_undisturbed by (simp add: keys_of_def)
  have "locked_until (counted (PairKey ''a'' ''u'') demo_attempts) = 607" "locked_until (counted (AddressKey ''a'') demo_attempts) = 0"
    by code_simp+
  then have "due_wait demo_attempts 10 ''a'' ''u'' = 597" by (simp add: due_wait_def locked_for_def keys_of_def)
  then show ?thesis using throttle_refines [OF s, of 10 2 undefined "''a''" "''u''"] u by simp
qed

text \<open>C35. A caller is made to wait only if guessing happened from the caller's own address: there were six failures
  for the same account within ten minutes, or thirty for any account, all from that address, and the wait ends at
  most fifteen minutes later. Whatever happens at other addresses never delays anyone, so nobody can lock
  a member out of the account from elsewhere.\<close>

theorem throttle_block_earned:
  assumes "sorted (map at_time h)" "\<forall>x \<in> set h. at_time x \<le> now" "0 \<le> now"
    and "0 < retry_after (throttle_run m h) now a u"
  shows "retry_after (throttle_run m h) now a u \<le> 900 \<and>
    (\<exists>key \<in> set (keys_of a u). \<exists>until. now < until \<and> earned key (failed_at key h) until)"
proof
  have "wait_of (throttle_run m h) now key \<le> 900" for key
  proof (cases "0 < wait_of (throttle_run m h) now key")
    case True
    have "\<forall>t \<in> set (failed_at key h). t \<le> now" using assms(2) by (simp add: failed_at_def)
    from earned_until [OF wait_earned(1) [OF True assms(1,3)] this] wait_earned(3) [OF True assms(1,3)]
    show ?thesis by simp
  qed simp
  then show "retry_after (throttle_run m h) now a u \<le> 900" by (rule retry_bound)
  from assms(4) obtain key where "key \<in> set (keys_of a u)" "0 < wait_of (throttle_run m h) now key"
    by (rule retry_waits)
  with wait_earned(1,2) [OF _ assms(1,3)]
  show "\<exists>key \<in> set (keys_of a u). \<exists>until. now < until \<and> earned key (failed_at key h) until" by blast
qed

lemma throttle_block_earned_witness:
  "\<exists>h. sorted (map at_time h) \<and> (\<forall>x \<in> set h. at_time x \<le> 10) \<and> 0 < retry_after (throttle_run 9 h) 10 ''a'' ''u''
     \<and> retry_after (throttle_run 9 h) 10 ''a'' ''u'' \<le> 900"
proof -
  let ?h = "map (\<lambda>t. Failed t ''a'' ''u'') [1, 2, 3, 4, 5, 6]"
  have r: "0 < retry_after (throttle_run 9 ?h) 10 ''a'' ''u''"
    by (simp add: throttle_run_def failure_def keys_of_def touch_def forget_def hit_def policy_of_def PAIR_def ADDRESS_def
        new_bucket_def retry_after_def wait_of_def Let_def)
  have h: "sorted (map at_time ?h)" "\<forall>x \<in> set ?h. at_time x \<le> 10" by simp_all
  from throttle_block_earned [OF h _ r] r h show ?thesis by (intro exI [of _ ?h] conjI) simp_all
qed

end
