(* ===== verification/TtlCache.thy ===== *)
theory TtlCache
  imports Prelude
begin

text \<open>
  The shared cache with expiry (\<^verbatim>\<open>core/cache.py\<close>). A stored value may be Python's None, which a reader cannot tell
  from a miss, so values are options. Every operation that reads the clock carries the time it read; the producer
  that \<open>resolve\<close> awaits is the value it returned.
\<close>

section \<open>State and operations\<close>

record 'v cache =
  c_ttl :: real
  c_max :: nat
  c_data :: "(string \<times> real \<times> 'v option) list"

definition new_cache :: "real \<Rightarrow> nat \<Rightarrow> 'v cache" where
  "new_cache ttl m = \<lparr>c_ttl = ttl, c_max = m, c_data = []\<rparr>"

definition get :: "real \<Rightarrow> string \<Rightarrow> 'v cache \<Rightarrow> 'v cache \<times> 'v option" where
  "get now key c =
     (case map_of (c_data c) key of
        None \<Rightarrow> (c, None)
      | Some (expires, v) \<Rightarrow>
          if expires < now then (c\<lparr>c_data := AList.delete key (c_data c)\<rparr>, None) else (c, v))"

definition live_entries :: "real \<Rightarrow> (string \<times> real \<times> 'v option) list \<Rightarrow> (string \<times> real \<times> 'v option) list" where
  "live_entries now data = filter (\<lambda>(_, expires, _). now \<le> expires) data"

definition make_room :: "real \<Rightarrow> 'v cache \<Rightarrow> (string \<times> real \<times> 'v option) list" where
  "make_room now c =
     (if c_max c \<le> length (c_data c)
      then (let kept = live_entries now (c_data c) in if c_max c \<le> length kept then [] else kept)
      else c_data c)"

definition set_entry :: "real \<Rightarrow> string \<Rightarrow> 'v option \<Rightarrow> real option \<Rightarrow> 'v cache \<Rightarrow> 'v cache" where
  "set_entry now key v ttl c =
     c\<lparr>c_data := put key (now + (case ttl of None \<Rightarrow> c_ttl c | Some t \<Rightarrow> t), v) (make_room now c)\<rparr>"

definition delete_entry :: "string \<Rightarrow> 'v cache \<Rightarrow> 'v cache" where
  "delete_entry key c = c\<lparr>c_data := AList.delete key (c_data c)\<rparr>"

definition clear :: "'v cache \<Rightarrow> 'v cache" where
  "clear c = c\<lparr>c_data := []\<rparr>"

definition drop_prefix :: "string \<Rightarrow> 'v cache \<Rightarrow> 'v cache" where
  "drop_prefix prefix c =
     (if prefix = [] then c else c\<lparr>c_data := filter (\<lambda>(k, _). take (length prefix) k \<noteq> prefix) (c_data c)\<rparr>)"

definition resolve :: "real \<Rightarrow> real \<Rightarrow> string \<Rightarrow> 'v option \<Rightarrow> real option \<Rightarrow> 'v cache \<Rightarrow> 'v cache \<times> 'v option" where
  "resolve asked produced key v ttl c =
     (let (c1, cached) = get asked key c in
      if cached \<noteq> None then (c1, cached) else (set_entry produced key v ttl c1, v))"

section \<open>The unbounded cache as specification\<close>

datatype 'v cache_op =
    Get real string
  | Set real string "'v option" "real option"
  | Delete string
  | Clear
  | DropPrefix string

fun cache_step :: "'v cache_op \<Rightarrow> 'v cache \<Rightarrow> 'v cache" where
  "cache_step (Get now key) c = fst (get now key c)"
| "cache_step (Set now key v ttl) c = set_entry now key v ttl c"
| "cache_step (Delete key) c = delete_entry key c"
| "cache_step Clear c = clear c"
| "cache_step (DropPrefix p) c = drop_prefix p c"

definition cache_run :: "real \<Rightarrow> nat \<Rightarrow> 'v cache_op list \<Rightarrow> 'v cache" where
  "cache_run ttl m h = fold cache_step h (new_cache ttl m)"

fun spec_cache :: "real \<Rightarrow> 'v cache_op \<Rightarrow> (string \<rightharpoonup> real \<times> 'v option) \<Rightarrow> (string \<rightharpoonup> real \<times> 'v option)" where
  "spec_cache ttl (Get now key) f = f"
| "spec_cache ttl (Set now key v t) f = f(key \<mapsto> (now + (case t of None \<Rightarrow> ttl | Some t \<Rightarrow> t), v))"
| "spec_cache ttl (Delete key) f = f(key := None)"
| "spec_cache ttl Clear f = (\<lambda>_. None)"
| "spec_cache ttl (DropPrefix p) f = (\<lambda>k. if p \<noteq> [] \<and> take (length p) k = p then None else f k)"

definition spec_run :: "real \<Rightarrow> 'v cache_op list \<Rightarrow> (string \<rightharpoonup> real \<times> 'v option)" where
  "spec_run ttl h = fold (spec_cache ttl) h (\<lambda>_. None)"

text \<open>What a reader at a given time sees of an entry.\<close>

definition visible :: "real \<Rightarrow> (real \<times> 'v option) option \<Rightarrow> 'v option" where
  "visible now entry = (case entry of None \<Rightarrow> None | Some (expires, v) \<Rightarrow> if expires < now then None else v)"

lemma get_visible: "snd (get now key c) = visible now (map_of (c_data c) key)"
  by (auto simp: get_def visible_def split: option.splits)

fun op_time :: "'v cache_op \<Rightarrow> real option" where
  "op_time (Get now _) = Some now"
| "op_time (Set now _ _ _) = Some now"
| "op_time _ = None"

fun set_keys :: "'v cache_op list \<Rightarrow> string set" where
  "set_keys [] = {}"
| "set_keys (Set _ key _ _ # h) = insert key (set_keys h)"
| "set_keys (_ # h) = set_keys h"

section \<open>Lookups\<close>

lemma map_of_live:
  "keyed al \<Longrightarrow> map_of (live_entries now al) k =
     (case map_of al k of None \<Rightarrow> None | Some (e, v) \<Rightarrow> if now \<le> e then Some (e, v) else None)"
  by (induction al) (auto simp: live_entries_def split: option.splits if_splits dest: map_of_SomeD intro: rev_image_eqI)

lemma map_of_prefix: "map_of (filter (\<lambda>(k, _). P k) al) k = (if P k then map_of al k else None)"
  by (induction al) auto

lemma keyed_filter: "keyed al \<Longrightarrow> keyed (filter P al)"
  by (simp add: distinct_map_filter)

lemma keyed_cache: "keyed (c_data c) \<Longrightarrow> keyed (c_data (cache_step x c))"
  by (cases x) (auto simp: get_def set_entry_def make_room_def live_entries_def delete_entry_def clear_def drop_prefix_def
      Let_def keyed_filter distinct_delete split: option.splits)

lemma cache_settings [simp]: "c_ttl (cache_step x c) = c_ttl c" "c_max (cache_step x c) = c_max c"
  by (cases x; simp add: get_def set_entry_def delete_entry_def clear_def drop_prefix_def split: option.split prod.split)+

lemma length_put: "length (put k v al) \<le> Suc (length al)"
  by (induction al) auto

lemma length_put_in: "k \<in> fst ` set al \<Longrightarrow> length (put k v al) = length al"
  by (induction al) auto

lemma step_bounded: "length (c_data c) \<le> max (c_max c) 1 \<Longrightarrow> length (c_data (cache_step x c)) \<le> max (c_max c) 1"
proof (cases x)
  case (Set now key v ttl)
  assume le: "length (c_data c) \<le> max (c_max c) 1"
  have "length (make_room now c) < c_max c \<or> make_room now c = []"
    by (auto simp: make_room_def Let_def)
  moreover have "length (c_data (cache_step x c)) \<le> Suc (length (make_room now c))"
    using Set by (simp add: set_entry_def length_put)
  ultimately show ?thesis by auto
qed (auto simp: get_def delete_entry_def clear_def drop_prefix_def intro: order_trans [OF length_delete_le] order_trans [OF length_filter_le]
    split: option.splits)


section \<open>Refinement\<close>

text \<open>
  The cache against the specification at a time: an entry it holds is the one of the specification, and what it
  misses is expired, unless an eviction took it (\<open>evicting\<close>).
\<close>

definition agrees :: "real \<Rightarrow> bool \<Rightarrow> 'v cache \<Rightarrow> (string \<rightharpoonup> real \<times> 'v option) \<Rightarrow> bool" where
  "agrees now evicting c f \<longleftrightarrow>
     keyed (c_data c)
     \<and> (\<forall>k e v. map_of (c_data c) k = Some (e, v) \<longrightarrow> f k = Some (e, v))
     \<and> (\<not> evicting \<longrightarrow> (\<forall>k e v. f k = Some (e, v) \<longrightarrow> map_of (c_data c) k = None \<longrightarrow> e < now))"

lemma map_of_room: "keyed (c_data c) \<Longrightarrow> map_of (make_room t c) k = Some e \<Longrightarrow> map_of (c_data c) k = Some e"
  by (auto simp: make_room_def Let_def map_of_live split: if_splits option.splits)

lemma keyed_room: "keyed (c_data c) \<Longrightarrow> keyed (make_room t c)"
  by (simp add: make_room_def live_entries_def Let_def keyed_filter)

lemma set_agrees:
  assumes "agrees now ev c f" "\<not> ev \<Longrightarrow> make_room t c = c_data c"
  shows "agrees now ev (set_entry t key v ttl c) (spec_cache (c_ttl c) (Set t key v ttl) f)"
proof -
  have k: "keyed (c_data c)" using assms(1) by (simp add: agrees_def)
  have held: "f k = Some (e, v)" if "map_of (make_room t c) k = Some (e, v)" for k e v
    using assms(1) map_of_room [OF k that] unfolding agrees_def by blast
  have lost: "e < now" if "\<not> ev" "f k = Some (e, v)" "map_of (make_room t c) k = None" for k e v
    using assms(1) that unfolding assms(2) [OF that(1)] agrees_def by blast
  show ?thesis unfolding agrees_def set_entry_def
    using held lost keyed_room [OF k] by (auto split: if_split_asm)
qed

lemma step_agrees:
  assumes "agrees now ev c f" "\<And>t. op_time x = Some t \<Longrightarrow> t \<le> now"
    and "\<And>t key v ttl. x = Set t key v ttl \<Longrightarrow> \<not> ev \<Longrightarrow> make_room t c = c_data c"
  shows "agrees now ev (cache_step x c) (spec_cache (c_ttl c) x f)"
proof (cases x)
  case (Set t key v ttl)
  then show ?thesis using set_agrees [OF assms(1), of t key v ttl] assms(3) by simp
next
  case (Get t key)
  then show ?thesis using assms(1,2) unfolding agrees_def
    by (auto simp: get_def delete_conv' distinct_delete split: option.splits)
next
  case (Delete key)
  then show ?thesis using assms(1) unfolding agrees_def by (auto simp: delete_entry_def delete_conv' distinct_delete)
next
  case Clear
  then show ?thesis using assms(1) unfolding agrees_def by (simp add: clear_def)
next
  case (DropPrefix p)
  then show ?thesis using assms(1) unfolding agrees_def
    by (auto simp: drop_prefix_def map_of_prefix [where P = "\<lambda>k. take (length p) k \<noteq> p"] keyed_filter)
qed

lemma set_keys_append: "set_keys (h @ [x]) = set_keys h \<union> set_keys [x]"
  by (induction h rule: set_keys.induct) auto

lemma finite_set_keys [simp]: "finite (set_keys h)"
  by (induction h rule: set_keys.induct) auto

lemma step_keys: "fst ` set (c_data (cache_step x c)) \<subseteq> fst ` set (c_data c) \<union> set_keys [x]"
proof (cases x)
  case (Set t key v ttl)
  have "set (make_room t c) \<subseteq> set (c_data c)" by (auto simp: make_room_def live_entries_def Let_def)
  then show ?thesis using Set put_keys [of key _ "make_room t c"] by (auto simp: set_entry_def)
qed (auto simp: get_def delete_entry_def clear_def drop_prefix_def simp: AList.delete_eq split: option.splits)

lemma run_keys: "fst ` set (c_data (cache_run ttl m h)) \<subseteq> set_keys h"
proof (induction h rule: rev_induct)
  case Nil
  then show ?case by (simp add: cache_run_def new_cache_def)
next
  case (snoc x h)
  then show ?case using step_keys [of x "cache_run ttl m h"]
    by (simp add: cache_run_def set_keys_append) blast
qed

lemma run_settings [simp]: "c_ttl (cache_run ttl m h) = ttl" "c_max (cache_run ttl m h) = m"
  by (induction h rule: rev_induct) (simp_all add: cache_run_def new_cache_def)

lemma run_agrees:
  assumes "\<forall>x \<in> set h. \<forall>t. op_time x = Some t \<longrightarrow> t \<le> now" "\<not> ev \<Longrightarrow> card (set_keys h) < m"
  shows "agrees now ev (cache_run ttl m h) (spec_run ttl h)"
  using assms
proof (induction h rule: rev_induct)
  case Nil
  then show ?case by (simp add: agrees_def cache_run_def spec_run_def new_cache_def)
next
  case (snoc x h)
  have le: "card (set_keys h) \<le> card (set_keys (h @ [x]))" by (intro card_mono) (auto simp: set_keys_append)
  then have IH: "agrees now ev (cache_run ttl m h) (spec_run ttl h)"
    using snoc by fastforce
  have "make_room t (cache_run ttl m h) = c_data (cache_run ttl m h)" if "\<not> ev" for t
  proof -
    have "length (c_data (cache_run ttl m h)) = card (fst ` set (c_data (cache_run ttl m h)))"
      using IH distinct_card [of "map fst (c_data (cache_run ttl m h))"] by (simp add: agrees_def)
    also have "\<dots> \<le> card (set_keys h)" by (intro card_mono run_keys) simp
    also have "\<dots> < m" using le snoc.prems(2) [OF that] by simp
    finally show ?thesis by (simp add: make_room_def)
  qed
  then have "agrees now ev (cache_step x (cache_run ttl m h)) (spec_cache (c_ttl (cache_run ttl m h)) x (spec_run ttl h))"
    using snoc.prems(1) by (intro step_agrees [OF IH]) auto
  then show ?case by (simp add: cache_run_def spec_run_def del: run_settings) (simp add: run_settings [unfolded cache_run_def])
qed

lemma agrees_sees:
  assumes "agrees now ev c f"
  shows "snd (get now key c) = None \<or> snd (get now key c) = visible now (f key)"
    and "\<not> ev \<Longrightarrow> snd (get now key c) = visible now (f key)"
proof -
  have held: "f key = Some (e, v)" if "map_of (c_data c) key = Some (e, v)" for e v
    using assms that by (simp add: agrees_def)
  have lost: "e < now" if "\<not> ev" "f key = Some (e, v)" "map_of (c_data c) key = None" for e v
    using assms that unfolding agrees_def by blast
  show "snd (get now key c) = None \<or> snd (get now key c) = visible now (f key)"
    "\<not> ev \<Longrightarrow> snd (get now key c) = visible now (f key)"
    unfolding get_visible using held lost by (auto simp: visible_def split: option.splits)
qed

lemma run_bounded: "length (c_data (cache_run ttl m h)) \<le> max m 1"
proof (induction h rule: rev_induct)
  case Nil
  then show ?case by (simp add: cache_run_def new_cache_def)
next
  case (snoc x h)
  then show ?case using step_bounded [of "cache_run ttl m h" x] by (simp add: cache_run_def [of _ _ "h @ [x]"] flip: cache_run_def)
qed

text \<open>C37. The cache implements an unbounded map with expiry in bounded space: it never holds more than its maximum
  of entries, a reader gets nothing or exactly the value last stored under the key, never deleted since and not
  expired, and with fewer keys in use than the maximum the answer is always exactly that of the map.\<close>

theorem cache_refines:
  assumes "\<forall>x \<in> set h. \<forall>t. op_time x = Some t \<longrightarrow> t \<le> now"
  shows "length (c_data (cache_run ttl m h)) \<le> max m 1
    \<and> snd (get now key (cache_run ttl m h)) \<in> {None, visible now (spec_run ttl h key)}
    \<and> (card (set_keys h) < m \<longrightarrow> snd (get now key (cache_run ttl m h)) = visible now (spec_run ttl h key))"
  using run_bounded agrees_sees(1) [OF run_agrees [OF assms, of True]] agrees_sees(2) [OF run_agrees [OF assms, of False]]
  by auto

lemma cache_refines_witness:
  "\<exists>h. (\<forall>x \<in> set h. \<forall>t. op_time x = Some t \<longrightarrow> t \<le> 10) \<and> card (set_keys h) < 2
     \<and> snd (get 10 ''k'' (cache_run 60 2 h)) = Some (7 :: int)"
proof -
  let ?h = "[Set 1 ''k'' (Some 3) (Some 2), Set 5 ''k'' (Some (7 :: int)) None, Get 6 ''k'']"
  have t: "\<forall>x \<in> set ?h. \<forall>t. op_time x = Some t \<longrightarrow> t \<le> 10" by simp
  show ?thesis by (rule exI [of _ ?h]) (use t cache_refines [OF t, of 60 2 "''k''"] in \<open>simp add: spec_run_def visible_def\<close>)
qed

end
