(* ===== verification/EconomyRules.thy ===== *)
theory EconomyRules
  imports IpAddress
begin

text \<open>
  The rules the points economy shares (\<^verbatim>\<open>modules/economy_rules.py\<close>): dates in Beijing time, validation of the
  check-in settings, cards and drops, the holiday calendar, and the draws derived from an HMAC. Settings are
  dynamic JSON values, as the code receives them; a text field that holds JSON is the value it parses to, or None
  where parsing fails. \<open>Crash\<close> is an exception that is not one of the code's own \<open>ValueError\<close>s (a missing key,
  an operation on the wrong type), \<open>Diverges\<close> a loop that does not end.
\<close>

section \<open>JSON values\<close>

datatype json =
    JNull
  | JBool bool
  | JInt int
  | JNum real
  | JStr string
  | JList "json list"
  | JObj "(string \<times> json) list"

type_synonym obj = "(string \<times> json) list"

datatype economy_error =
    BadSample | NoSecret | BadJson | TiersEmpty | TierFormat | TierOrder | FirstTier
  | HolidaysNotList | HolidayName | HolidayFields | HolidayDate | HolidayTwice
  | BadPpm | BadMultiplier | DropsNotList | DropFormat | DropPpm | DropItem | DropsOver
  | CardKind | CardName | CardField | CardTerm | InviteTerm | CardAmount
  | CustomName | CustomNotice | CustomDays | ItemMissing | Overdraft | BadMode | Crash | Diverges

text \<open>\<open>d.get(k)\<close> and \<open>{**a, **b}\<close>.\<close>

definition getn :: "obj \<Rightarrow> string \<Rightarrow> json" where
  "getn d k = (case map_of d k of None \<Rightarrow> JNull | Some v \<Rightarrow> v)"

definition merged :: "obj \<Rightarrow> obj \<Rightarrow> obj" where
  "merged a b = fold (\<lambda>(k, v) d. put k v d) b a"

definition keys :: "obj \<Rightarrow> string set" where
  "keys d = fst ` set d"

fun truthy :: "json \<Rightarrow> bool" where
  "truthy JNull \<longleftrightarrow> False"
| "truthy (JBool b) \<longleftrightarrow> b"
| "truthy (JInt i) \<longleftrightarrow> i \<noteq> 0"
| "truthy (JNum r) \<longleftrightarrow> r \<noteq> 0"
| "truthy (JStr s) \<longleftrightarrow> s \<noteq> []"
| "truthy (JList xs) \<longleftrightarrow> xs \<noteq> []"
| "truthy (JObj d) \<longleftrightarrow> d \<noteq> []"

text \<open>\<open>not str(x or "").strip()\<close>\<close>

definition blank :: "json \<Rightarrow> bool" where
  "blank x = (case x of JStr s \<Rightarrow> py_strip s = [] | _ \<Rightarrow> \<not> truthy x)"

text \<open>\<open>type(x) is int and lo <= x <= hi\<close>\<close>

definition int_in :: "json \<Rightarrow> int \<Rightarrow> int \<Rightarrow> bool" where
  "int_in x lo hi = (case x of JInt i \<Rightarrow> lo \<le> i \<and> i \<le> hi | _ \<Rightarrow> False)"

section \<open>Dates\<close>

definition leap :: "int \<Rightarrow> bool" where
  "leap y \<longleftrightarrow> y mod 4 = 0 \<and> (y mod 100 \<noteq> 0 \<or> y mod 400 = 0)"

definition month_days :: "int \<Rightarrow> int \<Rightarrow> int" where
  "month_days y m = (if m = 2 \<and> leap y then 29 else [31, 28, 31, 30, 31, 30, 31, 31, 30, 31, 30, 31] ! nat (m - 1))"

definition before_month :: "int \<Rightarrow> int \<Rightarrow> int" where
  "before_month y m = sum_list (map (month_days y) (upto 1 (m - 1)))"

text \<open>Proleptic Gregorian ordinals: the first of January of year 1 is day 1.\<close>

definition ordinal :: "int \<Rightarrow> int \<Rightarrow> int \<Rightarrow> int" where
  "ordinal y m d = (y - 1) * 365 + (y - 1) div 4 - (y - 1) div 100 + (y - 1) div 400 + before_month y m + d"

definition pad :: "nat \<Rightarrow> int \<Rightarrow> string" where
  "pad n i = map (\<lambda>k. ''0123456789'' ! nat (i div 10 ^ k mod 10)) (rev [0..<n])"

definition iso_text :: "int \<times> int \<times> int \<Rightarrow> string" where
  "iso_text = (\<lambda>(y, m, d). pad 4 y @ ''-'' @ pad 2 m @ ''-'' @ pad 2 d)"

fun month_of :: "int \<Rightarrow> nat \<Rightarrow> int \<Rightarrow> int \<times> int" where
  "month_of y 0 n = (12, n + 1)"
| "month_of y (Suc k) n =
     (let m = 12 - int k in if n < month_days y m then (m, n + 1) else month_of y k (n - month_days y m))"

definition civil :: "int \<Rightarrow> int \<times> int \<times> int" where
  "civil ord =
     (let n = ord - 1; n400 = n div 146097; n = n mod 146097; n100 = n div 36524; n = n mod 36524;
          n4 = n div 1461; n = n mod 1461; n1 = n div 365; n = n mod 365;
          y = n400 * 400 + n100 * 100 + n4 * 4 + n1 + 1
      in if n1 = 4 \<or> n100 = 4 then (y - 1, 12, 31) else (y, month_of y 12 n))"

text \<open>The day that contains a time, in Beijing (UTC+8), as an ordinal; day 719163 is 1970-01-01.\<close>

definition beijing_day :: "real \<Rightarrow> int" where
  "beijing_day now = \<lfloor>(now + 28800) / 86400\<rfloor> + 719163"

definition weekday :: "int \<Rightarrow> int" where
  "weekday ord = (ord + 6) mod 7"

definition day_text :: "real \<Rightarrow> string" where
  "day_text now = iso_text (civil (beijing_day now))"

definition day_bounds :: "real \<Rightarrow> string \<times> real \<times> real" where
  "day_bounds now =
     (let start = (real_of_int (beijing_day now) - 719163) * 86400 - 28800 in (day_text now, start, start + 86400))"

text \<open>\<open>date.fromisoformat\<close>: a calendar date or a week date, with or without separators.\<close>

definition calendar_date :: "int \<Rightarrow> int \<Rightarrow> int \<Rightarrow> int option" where
  "calendar_date y m d =
     (if 1 \<le> y \<and> y \<le> 9999 \<and> 1 \<le> m \<and> m \<le> 12 \<and> 1 \<le> d \<and> d \<le> month_days y m then Some (ordinal y m d) else None)"

definition week_date :: "int \<Rightarrow> int \<Rightarrow> int \<Rightarrow> int option" where
  "week_date y w d =
     (let first = weekday (ordinal y 1 1);
          monday = ordinal y 1 1 - first + (if 3 < first then 7 else 0);
          long = first = 3 \<or> (first = 2 \<and> leap y)
      in if 1 \<le> y \<and> y \<le> 9999 \<and> 1 \<le> w \<and> (w \<le> 52 \<or> w = 53 \<and> long) \<and> 1 \<le> d \<and> d \<le> 7
         then Some (monday + (w - 1) * 7 + d - 1) else None)"

definition digits2 :: "string \<Rightarrow> int option" where
  "digits2 s = (if length s = 2 \<and> all_digits s then Some (decimal s) else None)"

definition from_iso :: "string \<Rightarrow> int option" where
  "from_iso s =
     (if length s \<notin> {7, 8, 10} \<or> \<not> all_digits (take 4 s) then None
      else
        let y = decimal (take 4 s); sep = s ! 4 = CHR ''-''; rest = drop (if sep then 5 else 4) s in
        if take 1 rest = ''W'' then
          (let tail = drop 3 rest in
           case digits2 (take 2 (drop 1 rest)) of
             None \<Rightarrow> None
           | Some w \<Rightarrow>
               if tail = [] then week_date y w 1
               else if (hd tail = CHR ''-'') \<noteq> sep then None
               else
                 let day = drop (if sep then 1 else 0) tail in
                 if length day = 1 \<and> all_digits day then week_date y w (decimal day) else None)
        else
          (let tail = drop 2 rest in
           if (take 1 tail = ''-'') \<noteq> sep then None
           else
             (case (digits2 (take 2 rest), digits2 (drop (if sep then 1 else 0) tail)) of
                (Some m, Some d) \<Rightarrow> calendar_date y m d
              | _ \<Rightarrow> None)))"

section \<open>Draws\<close>

definition PPM :: int where
  "PPM = 1000000"

definition unbiased_map :: "nat \<Rightarrow> nat \<Rightarrow> nat \<Rightarrow> economy_error + nat option" where
  "unbiased_map val span_size bits =
     (if span_size < 1 \<or> 2 ^ bits < span_size \<or> 2 ^ bits \<le> val then Inl BadSample
      else
        let limit = 2 ^ bits - 2 ^ bits mod span_size in
        Inr (if val < limit then Some (val mod span_size) else None))"

text \<open>
  \<open>mac\<close> is the HMAC-SHA256 of the message for one counter, read as a number below \<open>2 ^ 256\<close>; the message names
  the rule version, the user, the day and the domain besides the counter.
\<close>

partial_function (option) draw_from :: "(nat \<Rightarrow> nat) \<Rightarrow> nat \<Rightarrow> nat \<Rightarrow> (economy_error + nat) option" where
  "draw_from mac span_size counter =
     (case unbiased_map (mac counter) span_size 256 of
        Inl e \<Rightarrow> Some (Inl e)
      | Inr (Some r) \<Rightarrow> Some (Inr r)
      | Inr None \<Rightarrow> draw_from mac span_size (counter + 1))"

type_synonym hmac = "string \<Rightarrow> string \<Rightarrow> string \<Rightarrow> string \<Rightarrow> nat \<Rightarrow> nat"

definition draw :: "hmac \<Rightarrow> string \<Rightarrow> string \<Rightarrow> string \<Rightarrow> string \<Rightarrow> nat \<Rightarrow> economy_error + nat" where
  "draw hm secret user day domain span_size =
     (if length secret < 32 then Inl NoSecret
      else (case draw_from (hm secret user day domain) span_size 0 of None \<Rightarrow> Inl Diverges | Some r \<Rightarrow> r))"

section \<open>Cards and drops\<close>

definition CARD_KINDS :: "string list" where
  "CARD_KINDS = [''invite_card'', ''bandwidth_card'', ''streams_card'', ''title_card'', ''whitelist_card'']"

definition validate_card :: "json \<Rightarrow> economy_error + json" where
  "validate_card spec =
     (case spec of
        JObj d \<Rightarrow>
          let kind = getn d ''kind'' in
          if kind \<notin> JStr ` set CARD_KINDS then Inl CardKind
          else if blank (getn d ''name'') then Inl CardName
          else if \<not> int_in (getn d ''amount'') 1 1000000 then Inl CardField
          else if \<not> int_in (getn d ''duration_days'') 0 36500 then Inl CardField
          else if kind \<in> {JStr ''bandwidth_card'', JStr ''streams_card''} \<and> getn d ''duration_days'' = JInt 0 then Inl CardTerm
          else if kind = JStr ''invite_card'' \<and> getn d ''duration_days'' \<noteq> JInt 0 then Inl InviteTerm
          else if kind \<in> {JStr ''title_card'', JStr ''invite_card'', JStr ''whitelist_card''} \<and> getn d ''amount'' \<noteq> JInt 1
          then Inl CardAmount
          else Inr spec
      | _ \<Rightarrow> Inl CardKind)"

definition is_custom :: "json \<Rightarrow> bool" where
  "is_custom spec = (case spec of JObj d \<Rightarrow> getn d ''kind'' = JStr ''custom'' | _ \<Rightarrow> False)"

definition equals_one :: "json \<Rightarrow> bool" where
  "equals_one x \<longleftrightarrow> x = JInt 1 \<or> x = JBool True \<or> x = JNum 1"

definition validate_bag_spec :: "json \<Rightarrow> economy_error + json" where
  "validate_bag_spec spec =
     (case spec of
        JObj d \<Rightarrow>
          if \<not> is_custom spec then validate_card spec
          else if blank (getn d ''name'') \<or> \<not> equals_one (getn d ''amount'') then Inl CustomName
          else if \<not> (case getn d ''purchase_notice'' of JStr s \<Rightarrow> length (py_strip s) \<in> {1..12000} | _ \<Rightarrow> False) then Inl CustomNotice
          else if \<not> int_in (getn d ''retention_days'') 1 36500 then Inl CustomDays
          else Inr spec
      | _ \<Rightarrow> validate_card spec)"

definition drop_ppm :: "json \<Rightarrow> economy_error + int" where
  "drop_ppm entry =
     (case entry of
        JObj d \<Rightarrow>
          if keys d \<noteq> {''ppm'', ''item_id''} \<and> keys d \<noteq> {''ppm'', ''spec''} then Inl DropFormat
          else (case getn d ''ppm'' of
              JInt p \<Rightarrow>
                if p < 0 \<or> PPM < p then Inl DropPpm
                else if ''item_id'' \<in> keys d
                then (case getn d ''item_id'' of JInt i \<Rightarrow> if i \<le> 0 then Inl DropItem else Inr p | _ \<Rightarrow> Inl DropItem)
                else bindR (validate_card (getn d ''spec'')) (\<lambda>_. Inr p)
            | _ \<Rightarrow> Inl DropPpm)
      | _ \<Rightarrow> Inl DropFormat)"

fun drops_total :: "json list \<Rightarrow> economy_error + int" where
  "drops_total [] = Inr 0"
| "drops_total (d # ds) = bindR (drop_ppm d) (\<lambda>p. bindR (drops_total ds) (\<lambda>t. Inr (p + t)))"

definition validate_activity :: "obj \<Rightarrow> economy_error + unit" where
  "validate_activity a =
     (if \<not> int_in (getn a ''double_ppm'') 0 PPM then Inl BadPpm
      else if \<not> int_in (getn a ''multiplier'') 1 100 then Inl BadMultiplier
      else (case getn a ''drops'' of
          JList ds \<Rightarrow> bindR (drops_total ds) (\<lambda>t. if PPM < t then Inl DropsOver else Inr ())
        | _ \<Rightarrow> Inl DropsNotList))"

section \<open>Check-in settings\<close>

record checkin_config =
  cc_dual :: bool
  cc_tiers :: "json option"
  cc_weekends :: bool
  cc_double :: json
  cc_multiplier :: json
  cc_drops :: "json option"
  cc_holidays :: "json option"

definition percent_tier :: "json \<Rightarrow> json" where
  "percent_tier t =
     (case t of
        JObj d \<Rightarrow>
          if keys d = {''days'', ''bonus''}
          then JObj [(''days'', getn d ''days''), (''percent'', getn d ''bonus'')] else t
      | _ \<Rightarrow> t)"

definition percent_tiers :: "json option \<Rightarrow> economy_error + json" where
  "percent_tiers raw =
     (case raw of
        None \<Rightarrow> Inl BadJson
      | Some (JList ts) \<Rightarrow> Inr (JList (map percent_tier ts))
      | Some t \<Rightarrow> Inr t)"

fun check_tiers :: "int \<Rightarrow> json list \<Rightarrow> economy_error + unit" where
  "check_tiers prev [] = Inr ()"
| "check_tiers prev (t # ts) =
     (case t of
        JObj d \<Rightarrow>
          if keys d \<noteq> {''days'', ''percent''} then Inl TierFormat
          else (case (getn d ''days'', getn d ''percent'') of
              (JInt days, JInt percent) \<Rightarrow>
                if \<not> (prev < days \<and> days \<le> 100000) \<or> \<not> (0 \<le> percent \<and> percent \<le> 100000) then Inl TierOrder
                else check_tiers days ts
            | _ \<Rightarrow> Inl TierFormat)
      | _ \<Rightarrow> Inl TierFormat)"

definition tier_days :: "json \<Rightarrow> json" where
  "tier_days t = (case t of JObj d \<Rightarrow> getn d ''days'' | _ \<Rightarrow> JNull)"

definition validate_tiers :: "json \<Rightarrow> economy_error + json" where
  "validate_tiers tiers =
     (case tiers of
        JList (t # ts) \<Rightarrow>
          bindR (check_tiers 0 (t # ts)) (\<lambda>_. if tier_days t \<noteq> JInt 1 then Inl FirstTier else Inr tiers)
      | _ \<Rightarrow> Inl TiersEmpty)"

definition activity_defaults :: "checkin_config \<Rightarrow> economy_error + obj" where
  "activity_defaults c =
     (case cc_drops c of
        None \<Rightarrow> Inl BadJson
      | Some d \<Rightarrow> Inr [(''double_ppm'', cc_double c), (''multiplier'', cc_multiplier c), (''drops'', d)])"

definition HOLIDAY_FIELDS :: "string set" where
  "HOLIDAY_FIELDS = {''date'', ''name'', ''double_ppm'', ''multiplier'', ''drops''}"

definition holiday_date :: "obj \<Rightarrow> economy_error + int" where
  "holiday_date h =
     (case map_of h ''date'' of
        None \<Rightarrow> Inl HolidayDate
      | Some (JStr s) \<Rightarrow> (case from_iso s of None \<Rightarrow> Inl HolidayDate | Some d \<Rightarrow> Inr d)
      | Some _ \<Rightarrow> Inl Crash)"

fun check_holidays :: "checkin_config \<Rightarrow> int list \<Rightarrow> json list \<Rightarrow> economy_error + unit" where
  "check_holidays c seen [] = Inr ()"
| "check_holidays c seen (h # hs) =
     (case h of
        JObj d \<Rightarrow>
          if blank (getn d ''name'') then Inl HolidayName
          else if \<not> keys d \<subseteq> HOLIDAY_FIELDS then Inl HolidayFields
          else
            bindR (holiday_date d) (\<lambda>day.
            if day \<in> set seen then Inl HolidayTwice
            else
              bindR (activity_defaults c) (\<lambda>a.
              bindR (validate_activity (merged a (filter (\<lambda>(k, _). k \<notin> {''name'', ''date''}) d))) (\<lambda>_.
              check_holidays c (day # seen) hs)))
      | _ \<Rightarrow> Inl HolidayName)"

definition validate_checkin :: "checkin_config \<Rightarrow> economy_error + checkin_config" where
  "validate_checkin c =
     bindR (percent_tiers (cc_tiers c)) (\<lambda>raw.
     bindR (validate_tiers raw) (\<lambda>tiers.
     case cc_holidays c of
       None \<Rightarrow> Inl BadJson
     | Some (JList hs) \<Rightarrow>
         bindR (check_holidays c [] hs) (\<lambda>_.
         bindR (activity_defaults c) (\<lambda>a.
         bindR (validate_activity a) (\<lambda>_. Inr (c\<lparr>cc_tiers := Some tiers\<rparr>))))
     | Some _ \<Rightarrow> Inl HolidaysNotList))"

section \<open>The activity of a day\<close>

definition WEEKEND_NAME :: string where
  "WEEKEND_NAME = [CHR 0xE5, CHR 0x91, CHR 0xA8, CHR 0xE6, CHR 0x9C, CHR 0xAB]"

definition ORDINARY_NAME :: string where
  "ORDINARY_NAME = [CHR 0xE5, CHR 0xB9, CHR 0xB3, CHR 0xE6, CHR 0x97, CHR 0xA5]"

text \<open>The first holiday of today, compared by the text of its date.\<close>

fun holiday_on :: "string \<Rightarrow> json list \<Rightarrow> economy_error + obj option" where
  "holiday_on today [] = Inr None"
| "holiday_on today (h # hs) =
     (case h of
        JObj d \<Rightarrow>
          (case map_of d ''date'' of
             None \<Rightarrow> Inl Crash
           | Some v \<Rightarrow> if v = JStr today then Inr (Some d) else holiday_on today hs)
      | _ \<Rightarrow> Inl Crash)"

definition iterated :: "json \<Rightarrow> economy_error + json list" where
  "iterated x = (case x of JList xs \<Rightarrow> Inr xs | JObj [] \<Rightarrow> Inr [] | JStr [] \<Rightarrow> Inr [] | _ \<Rightarrow> Inl Crash)"

definition activity_for :: "checkin_config \<Rightarrow> real \<Rightarrow> economy_error + obj" where
  "activity_for c now =
     bindR (activity_defaults c) (\<lambda>a.
     case cc_holidays c of
       None \<Rightarrow> Inl BadJson
     | Some j \<Rightarrow>
         bindR (iterated j) (\<lambda>hs.
         bindR (holiday_on (day_text now) hs) (\<lambda>hit.
         case hit of
           Some d \<Rightarrow> Inr (put ''event'' (JStr ''holiday'') (merged a (filter (\<lambda>(k, _). k \<noteq> ''date'') d)))
         | None \<Rightarrow>
             if cc_weekends c \<and> 5 \<le> weekday (beijing_day now)
             then Inr (merged a [(''name'', JStr WEEKEND_NAME), (''event'', JStr ''weekend'')])
             else Inr [(''double_ppm'', JInt 0), (''multiplier'', JInt 1), (''drops'', JList []),
                       (''name'', JStr ORDINARY_NAME), (''event'', JStr ''normal'')])))"

end
