(* ===== verification/CheckIn.thy ===== *)
theory CheckIn
  imports EconomyRules Points
begin

text \<open>
  Daily check-in (\<^verbatim>\<open>modules/plugins_points.py\<close>, class \<^verbatim>\<open>CheckinPlugin\<close>, and \<^verbatim>\<open>modules/dual_checkin.py\<close>): the older
  weighted draw with a streak bonus, and the pair of normal and luck check-in, over the points ledger, the table
  of check-ins and the bag of cards. The member, the seconds watched today and the shop are inputs. A refusal
  (\<open>"ok": False\<close>) is a reply; an exception is an error and leaves no new state, as the transaction is rolled back.
\<close>

section \<open>The bag\<close>

record item =
  i_id :: nat
  i_user :: uid
  i_spec :: json
  i_source :: string
  i_created :: int
  i_expires :: "int option"

record bag =
  bag_items :: "item list"
  bag_next :: nat

definition add_item :: "bag \<Rightarrow> uid \<Rightarrow> json \<Rightarrow> string \<Rightarrow> real \<Rightarrow> economy_error + bag \<times> nat" where
  "add_item b user spec source now =
     bindR (validate_bag_spec spec) (\<lambda>_.
     bindR (if is_custom spec
            then (case spec of
                JObj d \<Rightarrow> (case getn d ''retention_days'' of JInt n \<Rightarrow> Inr (Some (\<lfloor>now\<rfloor> + n * 86400)) | _ \<Rightarrow> Inl Crash)
              | _ \<Rightarrow> Inl Crash)
            else Inr None) (\<lambda>expires.
     Inr (b\<lparr>bag_items := bag_items b @ [\<lparr>i_id = bag_next b, i_user = user, i_spec = spec, i_source = source,
                                        i_created = \<lfloor>now\<rfloor>, i_expires = expires\<rparr>],
            bag_next := bag_next b + 1\<rparr>, bag_next b)))"

section \<open>Draws\<close>

definition CHECKIN_BASE_SIZE :: nat where "CHECKIN_BASE_SIZE = 1000"

definition CHECKIN_BASE_BANDS :: "(int \<times> int \<times> nat) list" where
  "CHECKIN_BASE_BANDS = [(-10, -1, 1), (1, 10, 60), (11, 20, 30), (21, 30, 9)]"

definition LUCK_SIZE :: nat where "LUCK_SIZE = 1000"

definition LUCK_BANDS :: "(int \<times> int \<times> nat) list" where
  "LUCK_BANDS = [(1, 10, 65), (11, 20, 25), (21, 30, 10)]"

text \<open>The loop over the bands, which both draws use.\<close>

fun band_value :: "(int \<times> int \<times> nat) list \<Rightarrow> nat \<Rightarrow> int option" where
  "band_value [] roll = None"
| "band_value ((low, high, slots) # bands) roll =
     (let reach = nat (high - low + 1) * slots in
      if roll < reach then Some (low + int (roll div slots)) else band_value bands (roll - reach))"

definition checkin_base :: "nat \<Rightarrow> economy_error + int" where
  "checkin_base roll =
     (if CHECKIN_BASE_SIZE \<le> roll then Inl BadSample
      else (case band_value CHECKIN_BASE_BANDS roll of None \<Rightarrow> Inl BadSample | Some v \<Rightarrow> Inr v))"

definition luck_value :: "nat \<Rightarrow> economy_error + int" where
  "luck_value roll =
     (if LUCK_SIZE \<le> roll then Inl BadSample
      else (case band_value LUCK_BANDS roll of None \<Rightarrow> Inl Crash | Some v \<Rightarrow> Inr v))"

text \<open>The first drop whose cumulative probability exceeds the roll.\<close>

definition as_int :: "json \<Rightarrow> economy_error + int" where
  "as_int x = (case x of JInt i \<Rightarrow> Inr i | _ \<Rightarrow> Inl Crash)"

definition dropped :: "(int \<Rightarrow> obj option) \<Rightarrow> obj \<Rightarrow> economy_error + obj" where
  "dropped shop d =
     (if ''item_id'' \<in> keys d
      then bindR (as_int (getn d ''item_id'')) (\<lambda>i.
        case shop i of None \<Rightarrow> Inl ItemMissing | Some it \<Rightarrow> if it = [] then Inl ItemMissing else Inr it)
      else (case getn d ''spec'' of JObj spec \<Rightarrow> Inr spec | _ \<Rightarrow> Inl Crash))"

fun pick_drop :: "int \<Rightarrow> int \<Rightarrow> json list \<Rightarrow> economy_error + obj option" where
  "pick_drop roll cumulative [] = Inr None"
| "pick_drop roll cumulative (x # xs) =
     (case x of
        JObj d \<Rightarrow>
          bindR (as_int (getn d ''ppm'')) (\<lambda>p.
          if roll < cumulative + p then Inr (Some d) else pick_drop roll (cumulative + p) xs)
      | _ \<Rightarrow> Inl Crash)"

definition drop_for :: "(int \<Rightarrow> obj option) \<Rightarrow> obj \<Rightarrow> nat \<Rightarrow> economy_error + obj option" where
  "drop_for shop activity roll =
     (case getn activity ''drops'' of
        JList ds \<Rightarrow>
          bindR (pick_drop (int roll) 0 ds) (\<lambda>hit.
          case hit of None \<Rightarrow> Inr None | Some d \<Rightarrow> bindR (dropped shop d) (\<lambda>it. Inr (Some it)))
      | _ \<Rightarrow> Inl Crash)"

section \<open>State\<close>

datatype mode = Normal | Luck | OtherMode string

datatype rules_version = DualV1 | PercentV2

record settled =
  s_version :: rules_version
  s_mode :: mode
  s_streak :: int
  s_activity :: json
  s_drop :: "obj option"
  s_drop_roll :: nat
  s_card :: "nat option"
  s_base :: int
  s_bonus :: int
  s_percent :: int
  s_multiplier :: int
  s_points :: int
  s_previous :: int
  s_delta :: int
  s_luck_roll :: "nat option"
  s_watched :: real
  s_balance :: int

record checkin_row =
  k_streak :: int
  k_points :: int
  k_created :: int
  k_result :: settled

record economy =
  e_points :: ledger
  e_checkins :: "((uid \<times> string) \<times> checkin_row) list"
  e_bag :: bag

record member_view =
  m_managed :: bool
  m_active :: bool

record checkin_env =
  v_member :: "member_view option"
  v_watched :: real
  v_config :: checkin_config
  v_secret :: string
  v_hmac :: hmac
  v_shop :: "int \<Rightarrow> obj option"

datatype refusal =
    LuckTaken | TodayTaken | OldRules | NoMember | Unusable | NotWatched real | NotRecoverable int int | LuckOff

datatype reply = Refused refusal | Settled settled

definition post :: "economy \<Rightarrow> uid \<Rightarrow> int \<Rightarrow> string \<Rightarrow> string \<Rightarrow> real \<Rightarrow> economy_error + economy \<times> int" where
  "post e user delta reason day now =
     (case points_apply (e_points e) user delta reason day ''checkin'' \<lfloor>now\<rfloor> of
        Inl _ \<Rightarrow> Inl Overdraft
      | Inr (rows, after) \<Rightarrow> Inr (e\<lparr>e_points := rows\<rparr>, after))"

definition streak_of :: "economy \<Rightarrow> uid \<Rightarrow> real \<Rightarrow> int" where
  "streak_of e user now =
     (case map_of (e_checkins e) (user, day_text (now - 86400)) of None \<Rightarrow> 0 | Some r \<Rightarrow> k_streak r) + 1"

definition bag_drop :: "economy \<Rightarrow> uid \<Rightarrow> obj option \<Rightarrow> string \<Rightarrow> real \<Rightarrow> economy_error + economy \<times> nat option" where
  "bag_drop e user hit day now =
     (case hit of
        None \<Rightarrow> Inr (e, None)
      | Some spec \<Rightarrow>
          if spec = [] then Inr (e, None)
          else bindR (add_item (e_bag e) user (JObj spec) (''checkin:'' @ day) now) (\<lambda>(b, i). Inr (e\<lparr>e_bag := b\<rparr>, Some i)))"

section \<open>Normal and luck check-in\<close>

definition dual_result :: "mode \<Rightarrow> int \<Rightarrow> int \<Rightarrow> nat option \<Rightarrow> real \<Rightarrow> int \<Rightarrow> settled \<Rightarrow> settled" where
  "dual_result m award previous roll watched after r =
     r\<lparr>s_points := award, s_delta := award - previous, s_previous := previous, s_base := award, s_bonus := 0,
       s_multiplier := 1, s_percent := 0, s_balance := after, s_version := DualV1, s_mode := m, s_luck_roll := roll,
       s_watched := watched\<rparr>"

definition fresh_result :: "checkin_env \<Rightarrow> economy \<Rightarrow> uid \<Rightarrow> string \<Rightarrow> real \<Rightarrow> economy_error + economy \<times> settled" where
  "fresh_result v e user day now =
     bindR (activity_for (v_config v) now) (\<lambda>activity.
     bindR (draw (v_hmac v) (v_secret v) user day ''dual-checkin-v1:drop'' (nat PPM)) (\<lambda>roll.
     bindR (drop_for (v_shop v) activity roll) (\<lambda>drop.
     case map_of activity ''name'' of
       None \<Rightarrow> Inl Crash
     | Some name \<Rightarrow>
         bindR (bag_drop e user drop day now) (\<lambda>(e1, card).
         Inr (e1, \<lparr>s_version = DualV1, s_mode = Normal, s_streak = streak_of e user now, s_activity = name, s_drop = drop,
                   s_drop_roll = roll, s_card = card, s_base = 0, s_bonus = 0, s_percent = 0, s_multiplier = 1,
                   s_points = 0, s_previous = 0, s_delta = 0, s_luck_roll = None, s_watched = v_watched v, s_balance = 0\<rparr>)))))"

definition award_of :: "checkin_env \<Rightarrow> uid \<Rightarrow> string \<Rightarrow> mode \<Rightarrow> economy_error + nat option \<times> int" where
  "award_of v user day m =
     (if m = Luck
      then bindR (draw (v_hmac v) (v_secret v) user day ''dual-checkin-v1:luck'' LUCK_SIZE) (\<lambda>roll.
           bindR (luck_value roll) (\<lambda>a. Inr (Some roll, a)))
      else Inr (None, 10))"

definition settle_dual :: "checkin_env \<Rightarrow> economy \<Rightarrow> uid \<Rightarrow> mode \<Rightarrow> real \<Rightarrow> checkin_row option \<Rightarrow> economy_error + economy \<times> reply" where
  "settle_dual v e user m now prior =
     (let day = day_text now; previous = (case prior of None \<Rightarrow> 0 | Some r \<Rightarrow> k_points r) in
      bindR (validate_checkin (v_config v)) (\<lambda>config.
      bindR (award_of v user day m) (\<lambda>(roll, award).
      bindR (case prior of
               Some r \<Rightarrow> Inr (e, k_result r)
             | None \<Rightarrow> fresh_result (v\<lparr>v_config := config\<rparr>) e user day now) (\<lambda>(e1, r).
      bindR (if award - previous \<noteq> 0
             then post e1 user (award - previous) (if prior = None then ''checkin'' else ''checkin.adjust'') day now
             else Inr (e1, balance (e_points e1) user)) (\<lambda>(e2, after).
      let r1 = dual_result m award previous roll (v_watched v) after r;
          row = (case prior of
              Some old \<Rightarrow> old\<lparr>k_points := award, k_result := r1\<rparr>
            | None \<Rightarrow> \<lparr>k_streak = s_streak r1, k_points = award, k_created = \<lfloor>now\<rfloor>, k_result = r1\<rparr>)
      in Inr (e2\<lparr>e_checkins := put (user, day) row (e_checkins e2)\<rparr>, Settled r1))))))"

definition dual_checkin :: "checkin_env \<Rightarrow> economy \<Rightarrow> uid \<Rightarrow> mode \<Rightarrow> real \<Rightarrow> economy_error + economy \<times> reply" where
  "dual_checkin v e user m now =
     (let prior = map_of (e_checkins e) (user, day_text now);
          recovery = max 0 ((case prior of None \<Rightarrow> 0 | Some r \<Rightarrow> k_points r) - 1);
          held = balance (e_points e) user
      in
      if m \<notin> {Normal, Luck} then Inl BadMode
      else if (case prior of None \<Rightarrow> False
               | Some r \<Rightarrow> s_version (k_result r) \<noteq> DualV1 \<or> s_mode (k_result r) = Luck \<or> m = Normal)
      then Inr (e, Refused (case prior of
              None \<Rightarrow> TodayTaken
            | Some r \<Rightarrow> if s_mode (k_result r) = Luck then LuckTaken
                        else if s_version (k_result r) = DualV1 then TodayTaken else OldRules))
      else case v_member v of
        None \<Rightarrow> Inr (e, Refused NoMember)
      | Some mb \<Rightarrow>
          if m_managed mb \<and> \<not> m_active mb then Inr (e, Refused Unusable)
          else if v_watched v < 600 then Inr (e, Refused (NotWatched (v_watched v)))
          else if prior \<noteq> None \<and> held < recovery then Inr (e, Refused (NotRecoverable held recovery))
          else settle_dual v e user m now prior)"

section \<open>The older check-in\<close>

fun best_tier :: "int \<Rightarrow> json list \<Rightarrow> economy_error + (int \<times> int) option" where
  "best_tier streak [] = Inr None"
| "best_tier streak (t # ts) =
     (case t of
        JObj d \<Rightarrow>
          bindR (as_int (getn d ''days'')) (\<lambda>days. bindR (as_int (getn d ''percent'')) (\<lambda>percent.
          bindR (best_tier streak ts) (\<lambda>rest.
          Inr (if days \<le> streak \<and> (case rest of None \<Rightarrow> True | Some (d', _) \<Rightarrow> d' \<le> days) then Some (days, percent) else rest))))
      | _ \<Rightarrow> Inl Crash)"

definition streak_percent :: "checkin_config \<Rightarrow> int \<Rightarrow> economy_error + int" where
  "streak_percent c streak =
     (case cc_tiers c of
        Some (JList ts) \<Rightarrow> bindR (best_tier streak ts) (\<lambda>t. case t of None \<Rightarrow> Inl Crash | Some (_, p) \<Rightarrow> Inr p)
      | _ \<Rightarrow> Inl Crash)"

definition settle_old :: "checkin_env \<Rightarrow> economy \<Rightarrow> uid \<Rightarrow> real \<Rightarrow> economy_error + economy \<times> reply" where
  "settle_old v e user now =
     (let day = day_text now; streak = streak_of e user now in
      bindR (validate_checkin (v_config v)) (\<lambda>config.
      bindR (draw (v_hmac v) (v_secret v) user day ''base'' CHECKIN_BASE_SIZE) (\<lambda>base_roll.
      bindR (checkin_base base_roll) (\<lambda>base.
      bindR (streak_percent config streak) (\<lambda>percent.
      let bonus = max base 0 * percent div 100 in
      bindR (activity_for config now) (\<lambda>activity.
      bindR (draw (v_hmac v) (v_secret v) user day ''lucky'' (nat PPM)) (\<lambda>lucky.
      bindR (if 0 < base
             then bindR (as_int (getn activity ''double_ppm'')) (\<lambda>p.
                  if int lucky < p then as_int (getn activity ''multiplier'') else Inr 1)
             else Inr 1) (\<lambda>multiplier.
      bindR (draw (v_hmac v) (v_secret v) user day ''drop'' (nat PPM)) (\<lambda>drop_roll.
      bindR (drop_for (v_shop v) activity drop_roll) (\<lambda>drop.
      case map_of activity ''name'' of
        None \<Rightarrow> Inl Crash
      | Some name \<Rightarrow>
          let award = base * multiplier + bonus in
          bindR (bag_drop e user drop day now) (\<lambda>(e1, card).
          bindR (post e1 user award ''checkin'' day now) (\<lambda>(e2, after).
          let r = \<lparr>s_version = PercentV2, s_mode = OtherMode [], s_streak = streak, s_activity = name, s_drop = drop,
                   s_drop_roll = drop_roll, s_card = card, s_base = base, s_bonus = bonus, s_percent = percent,
                   s_multiplier = multiplier, s_points = award, s_previous = 0, s_delta = award, s_luck_roll = None,
                   s_watched = v_watched v, s_balance = after\<rparr>
          in Inr (e2\<lparr>e_checkins := put (user, day)
                       \<lparr>k_streak = streak, k_points = award, k_created = \<lfloor>now\<rfloor>, k_result = r\<rparr> (e_checkins e2)\<rparr>,
                  Settled r)))))))))))))"

definition old_checkin :: "checkin_env \<Rightarrow> economy \<Rightarrow> uid \<Rightarrow> real \<Rightarrow> economy_error + economy \<times> reply" where
  "old_checkin v e user now =
     (if map_of (e_checkins e) (user, day_text now) \<noteq> None then Inr (e, Refused TodayTaken)
      else if v_watched v < 600 then Inr (e, Refused (NotWatched (v_watched v)))
      else if v_member v = None then Inr (e, Refused NoMember)
      else settle_old v e user now)"

definition checkin :: "checkin_env \<Rightarrow> economy \<Rightarrow> uid \<Rightarrow> mode \<Rightarrow> real \<Rightarrow> economy_error + economy \<times> reply" where
  "checkin v e user m now =
     (if user = [] then Inr (e, Refused NoMember)
      else if cc_dual (v_config v) then dual_checkin v e user m now
      else if m \<noteq> Normal then Inr (e, Refused LuckOff)
      else old_checkin v e user now)"

end
