(* ===== verification/CheckInRules.thy ===== *)
theory CheckInRules
  imports CheckIn
begin

text \<open>
  Correctness of the check-in: the draws are unbiased and have the published frequencies, settings that were
  accepted once can never make a check-in fail with a type or lookup error, and whatever happens the ledger holds for
  every member and day exactly what the table of check-ins says.
\<close>

section \<open>Draws\<close>

lemma residue_class:
  fixes s q r :: nat
  assumes "r < s"
  shows "{x. x < s * q \<and> x mod s = r} = (\<lambda>k. s * k + r) ` {..<q}"
proof (intro equalityI subsetI)
  fix x
  assume "x \<in> {x. x < s * q \<and> x mod s = r}"
  then have "x = s * (x div s) + r" "x div s < q"
    using assms by (auto simp: less_mult_imp_div_less mult.commute)
  then show "x \<in> (\<lambda>k. s * k + r) ` {..<q}" by blast
next
  fix x
  assume "x \<in> (\<lambda>k. s * k + r) ` {..<q}"
  then obtain k where k: "k < q" "x = s * k + r" by auto
  have "s * k + r < s * Suc k" using assms by simp
  also have "\<dots> \<le> s * q" using k(1) by (intro mult_le_mono) simp_all
  finally show "x \<in> {x. x < s * q \<and> x mod s = r}" using k(2) assms by simp
qed

lemma card_residue_class:
  fixes s q r :: nat
  assumes "r < s"
  shows "card {x. x < s * q \<and> x mod s = r} = q"
  unfolding residue_class [OF assms] using assms by (subst card_image) (auto simp: inj_on_def)

lemma unbiased_map_iff:
  assumes "0 < s" "s \<le> 2 ^ bits"
  shows "unbiased_map x s bits = Inr (Some r) \<longleftrightarrow> x < s * (2 ^ bits div s) \<and> x mod s = r"
proof -
  have lim: "(2 :: nat) ^ bits - 2 ^ bits mod s = s * (2 ^ bits div s)"
    by (metis minus_mod_eq_mult_div)
  have "x < 2 ^ bits" if "x < s * (2 ^ bits div s)"
    using that times_div_less_eq_dividend [of s "2 ^ bits"] by (rule less_le_trans)
  then show ?thesis using assms by (auto simp: unbiased_map_def lim)
qed

text \<open>C40. The rejection of the incomplete top bucket leaves no modulo bias: every outcome of a draw below \<open>s\<close> comes from
  exactly the same number of digests.\<close>

theorem draw_unbiased:
  assumes "0 < s" "s \<le> 2 ^ bits" "r < s"
  shows "card {x. unbiased_map x s bits = Inr (Some r)} = 2 ^ bits div s"
  using card_residue_class [OF assms(3), of "2 ^ bits div s"] by (simp add: unbiased_map_iff [OF assms(1,2)])

lemma draw_unbiased_witness: "card {x. unbiased_map x 3 4 = Inr (Some 2)} = 5"
  using draw_unbiased [of 3 4 2] by simp

lemma draw_from_returns:
  assumes "unbiased_map (mac n) s 256 \<noteq> Inr None" "k \<le> n"
  shows "draw_from mac s k \<noteq> None"
  using assms(2)
proof (induction "n - k" arbitrary: k)
  case 0
  then show ?case using assms(1) by (subst draw_from.simps) (auto split: sum.split option.split)
next
  case (Suc d)
  show ?case
  proof (cases "unbiased_map (mac k) s 256 = Inr None")
    case True
    have "draw_from mac s (k + 1) \<noteq> None" using Suc by (intro Suc.hyps(1)) auto
    then show ?thesis using True by (subst draw_from.simps) simp
  next
    case False
    then show ?thesis by (subst draw_from.simps) (auto split: sum.split option.split)
  qed
qed

lemma unbiased_map_cases:
  assumes "unbiased_map x s bits = y"
  shows "y \<in> {Inl BadSample, Inr None} \<or> (\<exists>v < s. y = Inr (Some v))"
  using assms by (auto simp: unbiased_map_def Let_def split: if_split_asm)

lemma draw_from_sound:
  assumes "draw_from mac s k = Some r"
  shows "r = Inl BadSample \<or> (\<exists>v < s. r = Inr v)"
proof (rule draw_from.raw_induct [where P = "\<lambda>_ s _ r. r = Inl BadSample \<or> (\<exists>v < s. r = Inr v)", OF _ assms])
  fix rec :: "(nat \<Rightarrow> nat) \<Rightarrow> nat \<Rightarrow> nat \<Rightarrow> (economy_error + nat) option" and mac s k r
  assume IH: "\<And>s k b y. rec s k b = Some y \<Longrightarrow> y = Inl BadSample \<or> (\<exists>v < k. y = Inr v)"
    and eq: "(case unbiased_map (mac k) s 256 of Inl e \<Rightarrow> Some (Inl e)
      | Inr None \<Rightarrow> rec mac s (k + 1) | Inr (Some r) \<Rightarrow> Some (Inr r)) = Some r"
  consider "unbiased_map (mac k) s 256 = Inl BadSample" | "unbiased_map (mac k) s 256 = Inr None"
    | v where "v < s" "unbiased_map (mac k) s 256 = Inr (Some v)"
    using unbiased_map_cases [OF refl, of "mac k" s 256] by blast
  then show "r = Inl BadSample \<or> (\<exists>v < s. r = Inr v)"
    by cases (use eq IH [of mac s "k + 1" r] in auto)
qed

lemma draw_cases: "draw hm secret u d dm s \<in> {Inl NoSecret, Inl BadSample, Inl Diverges} \<or> (\<exists>v < s. draw hm secret u d dm s = Inr v)"
  using draw_from_sound [of "hm secret u d dm" s 0] by (auto simp: draw_def split: option.splits)

lemma draw_terminates:
  assumes "\<exists>n. unbiased_map (hm secret u d dm n) s 256 \<noteq> Inr None"
  shows "draw hm secret u d dm s \<noteq> Inl Diverges"
proof -
  obtain n where n: "unbiased_map (hm secret u d dm n) s 256 \<noteq> Inr None" using assms by blast
  from draw_from_returns [where mac = "hm secret u d dm", OF n, of 0] obtain r where r: "draw_from (hm secret u d dm) s 0 = Some r" by auto
  from draw_from_sound [OF r] r show ?thesis by (auto simp: draw_def)
qed

text \<open>The bands of the luck check-in and of the older base draw.\<close>

lemma band_take: "nat (h - l + 1) * n = k \<Longrightarrow> r < k \<Longrightarrow> band_value ((l, h, n) # bs) r = Some (l + int (r div n))"
  by simp

lemma band_skip: "nat (h - l + 1) * n = k \<Longrightarrow> k \<le> r \<Longrightarrow> band_value ((l, h, n) # bs) r = band_value bs (r - k)"
  by (simp add: Let_def)

lemma band_none: "band_value [] r = None"
  by simp

declare band_value.simps [simp del]

lemma luck_bands:
  "r < 650 \<Longrightarrow> band_value LUCK_BANDS r = Some (1 + int (r div 65))"
  "650 \<le> r \<Longrightarrow> r < 900 \<Longrightarrow> band_value LUCK_BANDS r = Some (11 + int ((r - 650) div 25))"
  "900 \<le> r \<Longrightarrow> r < 1000 \<Longrightarrow> band_value LUCK_BANDS r = Some (21 + int ((r - 650 - 250) div 10))"
  unfolding LUCK_BANDS_def
    apply (rule band_take [where k = 650]; simp)
   apply (subst band_skip [where k = 650]; (rule band_take [where k = 250])?; simp)
  apply (subst band_skip [where k = 650], simp, simp)
  apply (subst band_skip [where k = 250], simp, simp)
  apply (rule band_take [where k = 100]; simp)
  done

lemma luck_value_small: "r < 1000 \<Longrightarrow> luck_value r = (case band_value LUCK_BANDS r of None \<Rightarrow> Inl Crash | Some v \<Rightarrow> Inr v)"
  by (simp add: luck_value_def LUCK_SIZE_def)

lemma luck_value_cases:
  obtains "1000 \<le> r" "luck_value r = Inl BadSample"
  | "r < 650" "luck_value r = Inr (1 + int (r div 65))"
  | "650 \<le> r" "r < 900" "luck_value r = Inr (11 + int ((r - 650) div 25))"
  | "900 \<le> r" "r < 1000" "luck_value r = Inr (21 + int ((r - 900) div 10))"
proof -
  consider "1000 \<le> r" | "r < 650" | "650 \<le> r" "r < 900" | "900 \<le> r" "r < 1000" by linarith
  then show ?thesis
  proof cases
    case 1
    then show ?thesis by (intro that(1)) (simp_all add: luck_value_def LUCK_SIZE_def)
  next
    case 2
    then show ?thesis using luck_bands(1) [of r] by (intro that(2)) (simp_all add: luck_value_small)
  next
    case 3
    then show ?thesis using luck_bands(2) [of r] by (intro that(3)) (simp_all add: luck_value_small)
  next
    case 4
    then show ?thesis using luck_bands(3) [of r] by (intro that(4)) (simp_all add: luck_value_small)
  qed
qed

lemma luck_value_range: "luck_value r = Inr v \<Longrightarrow> 1 \<le> v \<and> v \<le> 30"
  by (rule luck_value_cases [of r]) auto

lemma luck_value_total: "luck_value r \<noteq> Inl Crash \<and> luck_value r \<noteq> Inl Diverges"
  by (rule luck_value_cases [of r]) auto

lemma band_preimage:
  fixes k w v :: nat
  assumes "0 < w"
  shows "card {r. k \<le> r \<and> (r - k) div w = v} = w"
proof -
  have div: "n div w = v \<longleftrightarrow> w * v \<le> n \<and> n < w * v + w" for n
  proof
    assume "n div w = v"
    then show "w * v \<le> n \<and> n < w * v + w"
      using times_div_less_eq_dividend [of w n] dividend_less_times_div [OF assms, of n] by (simp add: add.commute)
  next
    assume "w * v \<le> n \<and> n < w * v + w"
    then show "n div w = v" by (intro div_nat_eqI) simp_all
  qed
  have "{r. k \<le> r \<and> (r - k) div w = v} = {k + w * v ..< k + w * v + w}" unfolding div by auto
  then show ?thesis by simp
qed

lemma luck_value_iff:
  "1 \<le> v \<Longrightarrow> v \<le> 10 \<Longrightarrow> luck_value r = Inr v \<longleftrightarrow> 0 \<le> r \<and> (r - 0) div 65 = nat (v - 1)"
  "11 \<le> v \<Longrightarrow> v \<le> 20 \<Longrightarrow> luck_value r = Inr v \<longleftrightarrow> 650 \<le> r \<and> (r - 650) div 25 = nat (v - 11)"
  "21 \<le> v \<Longrightarrow> v \<le> 30 \<Longrightarrow> luck_value r = Inr v \<longleftrightarrow> 900 \<le> r \<and> (r - 900) div 10 = nat (v - 21)"
  by (rule luck_value_cases [of r]; simp; linarith)+

theorem luck_frequencies:
  "card {r. luck_value r = Inr v} =
     (if 1 \<le> v \<and> v \<le> 10 then 65 else if 11 \<le> v \<and> v \<le> 20 then 25 else if 21 \<le> v \<and> v \<le> 30 then 10 else 0)"
proof -
  have "{r. luck_value r = Inr v} = {}" if "v < 1 \<or> 30 < v" using that luck_value_range by fastforce
  then show ?thesis
    using band_preimage [of 65 0 "nat (v - 1)"] band_preimage [of 25 650 "nat (v - 11)"] band_preimage [of 10 900 "nat (v - 21)"]
    by (cases "v < 1 \<or> 30 < v") (auto simp: luck_value_iff simp del: diff_zero le0)
qed

section \<open>Accepted settings are well typed\<close>

definition bad :: "bool \<Rightarrow> economy_error + 'a \<Rightarrow> bool" where
  "bad D x \<longleftrightarrow> x = Inl Crash \<or> (D \<and> x = Inl Diverges)"

lemma bad_simps [simp]: "\<not> bad D (Inr a)" "bad D (Inl e) \<longleftrightarrow> e = Crash \<or> (D \<and> e = Diverges)"
  by (simp_all add: bad_def)

lemma bad_bindR: "bad D (bindR x f) \<longleftrightarrow> bad D x \<or> (\<exists>a. x = Inr a \<and> bad D (f a))"
  by (cases x) (auto simp: bad_def)

lemma map_of_merged: "map_of (merged a b) = map_of a ++ map_of (rev b)"
proof -
  have "map_of (fold (\<lambda>(k, v) d. put k v d) b a) = map_of a ++ map_of (rev b)" for a
    by (induction b arbitrary: a) (auto simp: update_conv map_add_upd fun_upd_def map_add_def split: option.splits)
  then show ?thesis by (simp add: merged_def)
qed

lemma map_of_keep: "map_of (filter (\<lambda>(k, _). P k) al) k = (if P k then map_of al k else None)"
  by (induction al) auto

lemma map_of_rev_keep: "map_of (rev (filter (\<lambda>(k, _). P k) al)) k = (if P k then map_of (rev al) k else None)"
  by (simp add: rev_filter map_of_keep)

lemma getn_merged_keep:
  assumes "P k" "Q k"
  shows "getn (merged a (filter (\<lambda>(k, _). P k) b)) k = getn (merged a (filter (\<lambda>(k, _). Q k) b)) k"
  using assms by (simp add: getn_def map_of_merged map_add_def map_of_rev_keep)

lemma validate_activity_cong:
  assumes "\<And>k. k \<in> {''double_ppm'', ''multiplier'', ''drops''} \<Longrightarrow> getn a k = getn b k"
  shows "validate_activity a = validate_activity b"
  using assms by (simp add: validate_activity_def)

definition activity_ok :: "obj \<Rightarrow> bool" where
  "activity_ok a \<longleftrightarrow> validate_activity a = Inr () \<and> map_of a ''name'' \<noteq> None"

definition config_ok :: "checkin_config \<Rightarrow> bool" where
  "config_ok c \<longleftrightarrow>
     (\<exists>t ts. cc_tiers c = Some (JList (t # ts)) \<and> check_tiers 0 (t # ts) = Inr () \<and> tier_days t = JInt 1)
     \<and> (\<exists>hs. cc_holidays c = Some (JList hs) \<and> check_holidays c [] hs = Inr ())
     \<and> (\<exists>a. activity_defaults c = Inr a \<and> validate_activity a = Inr ())"

declare check_tiers.simps [simp del] check_holidays.simps [simp del]

lemma activity_defaults_tiers [simp]: "activity_defaults (c\<lparr>cc_tiers := x\<rparr>) = activity_defaults c"
  by (simp add: activity_defaults_def split: option.split)

lemma check_holidays_tiers [simp]: "check_holidays (c\<lparr>cc_tiers := x\<rparr>) seen hs = check_holidays c seen hs"
  by (induction hs arbitrary: seen) (simp_all add: check_holidays.simps cong: if_cong split: json.split)

lemma validate_tiers_ok:
  "validate_tiers raw = Inr j \<longleftrightarrow>
     j = raw \<and> (\<exists>t ts. raw = JList (t # ts) \<and> check_tiers 0 (t # ts) = Inr () \<and> tier_days t = JInt 1)"
proof (cases "\<exists>t ts. raw = JList (t # ts)")
  case True
  then show ?thesis by (auto simp: validate_tiers_def)
next
  case False
  then have "validate_tiers raw = Inl TiersEmpty"
    unfolding validate_tiers_def by (cases raw) (simp_all split: list.split)
  then show ?thesis using False by simp
qed

lemma validate_ok:
  assumes "validate_checkin c = Inr c'"
  shows "config_ok c'"
proof -
  obtain raw tiers where t: "validate_tiers raw = Inr tiers"
    and rest: "(case cc_holidays c of
       None \<Rightarrow> Inl BadJson
     | Some (JList hs) \<Rightarrow>
         bindR (check_holidays c [] hs) (\<lambda>_.
         bindR (activity_defaults c) (\<lambda>a.
         bindR (validate_activity a) (\<lambda>_. Inr (c\<lparr>cc_tiers := Some tiers\<rparr>))))
     | Some _ \<Rightarrow> Inl HolidaysNotList) = Inr c'"
    using assms unfolding validate_checkin_def by (elim bindR_InrE)
  obtain j where j: "cc_holidays c = Some j" using rest by (cases "cc_holidays c") simp_all
  obtain hs where hs: "j = JList hs" using rest unfolding j by (cases j) simp_all
  obtain a where "check_holidays c [] hs = Inr ()" "activity_defaults c = Inr a" "validate_activity a = Inr ()"
    "c' = c\<lparr>cc_tiers := Some tiers\<rparr>"
    using rest by (auto simp: j hs)
  then show ?thesis using t j hs unfolding config_ok_def by (auto simp: validate_tiers_ok)
qed

lemma check_tiers_ConsE:
  assumes "check_tiers n (t # ts) = Inr ()"
  obtains d days percent where "t = JObj d" "keys d = {''days'', ''percent''}" "getn d ''days'' = JInt days"
    "getn d ''percent'' = JInt percent" "n < days" "0 \<le> percent" "check_tiers days ts = Inr ()"
proof -
  obtain d where t: "t = JObj d" using assms by (cases t) (simp_all add: check_tiers.simps)
  obtain days where d: "getn d ''days'' = JInt days"
    using assms by (cases "getn d ''days''") (simp_all add: t check_tiers.simps split: if_split_asm)
  obtain percent where p: "getn d ''percent'' = JInt percent"
    using assms by (cases "getn d ''percent''") (simp_all add: t d check_tiers.simps split: if_split_asm)
  show ?thesis using assms by (intro that [OF t _ d p]) (auto simp: t d p check_tiers.simps split: if_split_asm)
qed

lemma valid_tier_same: "check_tiers n ts = Inr () \<Longrightarrow> map percent_tier ts = ts"
proof (induction ts arbitrary: n)
  case (Cons t ts)
  from Cons.prems obtain d days where d: "t = JObj d" "keys d = {''days'', ''percent''}" "check_tiers days ts = Inr ()"
    by (rule check_tiers_ConsE)
  have "keys d \<noteq> {''days'', ''bonus''}" unfolding d(2) by (simp add: doubleton_eq_iff)
  then show ?case using Cons.IH [OF d(3)] d(1) by (simp add: percent_tier_def)
qed simp

lemma check_holidays_ConsE:
  assumes "check_holidays c seen (h # hs) = Inr ()" "activity_defaults c = Inr a"
  obtains d day where "h = JObj d" "\<not> blank (getn d ''name'')" "holiday_date d = Inr day"
    "validate_activity (merged a (filter (\<lambda>(k, _). k \<notin> {''name'', ''date''}) d)) = Inr ()"
    "check_holidays c (day # seen) hs = Inr ()"
proof -
  obtain d where h: "h = JObj d" using assms by (cases h) (simp_all add: check_holidays.simps)
  obtain day where day: "holiday_date d = Inr day"
    using assms by (cases "holiday_date d") (simp_all add: h check_holidays.simps split: if_split_asm)
  show ?thesis using assms by (intro that [OF h _ day]) (auto simp: h day check_holidays.simps split: if_split_asm)
qed

text \<open>Settings that were accepted are accepted again, unchanged.\<close>

lemma validate_again:
  assumes "config_ok c"
  shows "validate_checkin c = Inr c"
proof -
  obtain t ts hs a where t: "cc_tiers c = Some (JList (t # ts))" "check_tiers 0 (t # ts) = Inr ()" "tier_days t = JInt 1"
    and h: "cc_holidays c = Some (JList hs)" "check_holidays c [] hs = Inr ()"
    and a: "activity_defaults c = Inr a" "validate_activity a = Inr ()"
    using assms by (auto simp: config_ok_def)
  have "percent_tiers (cc_tiers c) = Inr (JList (t # ts))"
    using valid_tier_same [OF t(2)] by (simp add: percent_tiers_def t(1))
  moreover have "validate_tiers (JList (t # ts)) = Inr (JList (t # ts))" using t by (simp add: validate_tiers_ok)
  moreover have "c\<lparr>cc_tiers := Some (JList (t # ts))\<rparr> = c" using t(1) by simp
  ultimately show ?thesis using h a by (simp add: validate_checkin_def)
qed

lemma holiday_on_ok:
  assumes "check_holidays c seen hs = Inr ()" "activity_defaults c = Inr a"
  shows "holiday_on today hs = Inr None \<or> (\<exists>d. holiday_on today hs = Inr (Some d) \<and> map_of d ''name'' \<noteq> None
    \<and> validate_activity (merged a (filter (\<lambda>(k, _). k \<notin> {''name'', ''date''}) d)) = Inr ())"
  using assms
proof (induction hs arbitrary: seen)
  case (Cons h hs)
  from Cons.prems obtain d day where d: "h = JObj d" "\<not> blank (getn d ''name'')" "holiday_date d = Inr day"
    "validate_activity (merged a (filter (\<lambda>(k, _). k \<notin> {''name'', ''date''}) d)) = Inr ()"
    "check_holidays c (day # seen) hs = Inr ()"
    by (rule check_holidays_ConsE)
  have n: "map_of d ''name'' \<noteq> None" using d(2) by (auto simp: blank_def getn_def split: option.split_asm)
  obtain v where v: "map_of d ''date'' = Some v" using d(3) by (auto simp: holiday_date_def split: option.splits)
  show ?case using Cons.IH [OF d(5) Cons.prems(2)] d(1,4) n v by simp
qed simp

lemma weekend_ok:
  assumes "validate_activity a = Inr ()"
  shows "activity_ok (merged a [(''name'', x), (''event'', y)])"
proof -
  have "validate_activity (merged a [(''name'', x), (''event'', y)]) = validate_activity a"
    by (rule validate_activity_cong) (auto simp: getn_def map_of_merged map_add_def)
  then show ?thesis using assms by (simp add: activity_ok_def map_of_merged)
qed

lemma holiday_ok:
  assumes "validate_activity (merged a (filter (\<lambda>(k, _). k \<notin> {''name'', ''date''}) d)) = Inr ()" "map_of d ''name'' \<noteq> None"
  shows "activity_ok (put ''event'' x (merged a (filter (\<lambda>(k, _). k \<noteq> ''date'') d)))"
proof -
  have "map_of (rev d) ''name'' \<noteq> None" using assms(2) by (metis map_of_eq_None_iff set_rev rev_map)
  then have "map_of (rev (filter (\<lambda>(k, _). k \<noteq> ''date'') d)) ''name'' \<noteq> None"
    by (simp add: map_of_rev_keep)
  then have n: "map_of (put ''event'' x (merged a (filter (\<lambda>(k, _). k \<noteq> ''date'') d))) ''name'' \<noteq> None"
    by (auto simp: map_of_merged map_add_def)
  have "validate_activity (put ''event'' x (merged a (filter (\<lambda>(k, _). k \<noteq> ''date'') d)))
      = validate_activity (merged a (filter (\<lambda>(k, _). k \<notin> {''name'', ''date''}) d))"
  proof (rule validate_activity_cong)
    fix k assume k: "k \<in> {''double_ppm'', ''multiplier'', ''drops''}"
    then have "getn (put ''event'' x (merged a (filter (\<lambda>(k, _). k \<noteq> ''date'') d))) k
        = getn (merged a (filter (\<lambda>(k, _). k \<noteq> ''date'') d)) k" by (auto simp: getn_def)
    also have "\<dots> = getn (merged a (filter (\<lambda>(k, _). k \<notin> {''name'', ''date''}) d)) k"
      by (rule getn_merged_keep) (use k in auto)
    finally show "getn (put ''event'' x (merged a (filter (\<lambda>(k, _). k \<noteq> ''date'') d))) k
        = getn (merged a (filter (\<lambda>(k, _). k \<notin> {''name'', ''date''}) d)) k" .
  qed
  then show ?thesis using assms(1) n by (simp add: activity_ok_def)
qed

lemma activity_for_ok:
  assumes "config_ok c"
  shows "\<exists>a. activity_for c now = Inr a \<and> activity_ok a"
proof -
  obtain hs a where h: "cc_holidays c = Some (JList hs)" "check_holidays c [] hs = Inr ()"
    and a: "activity_defaults c = Inr a" "validate_activity a = Inr ()"
    using assms by (auto simp: config_ok_def)
  have plain: "activity_ok [(''double_ppm'', JInt 0), (''multiplier'', JInt 1), (''drops'', JList []), (''name'', x), (''event'', y)]" for x y
    by (simp add: activity_ok_def validate_activity_def getn_def int_in_def PPM_def)
  from holiday_on_ok [OF h(2) a(1), of "day_text now"] show ?thesis
    using plain weekend_ok [OF a(2)] holiday_ok [of a] a(1) h(1) by (auto simp: activity_for_def iterated_def)
qed

section \<open>A check-in never fails on a type\<close>

lemma validate_card_fine: "\<not> bad D (validate_card spec)"
  by (cases spec) (simp_all add: validate_card_def Let_def)

lemma validate_card_obj: "validate_card spec = Inr x \<Longrightarrow> \<exists>d. spec = JObj d"
  by (cases spec) (simp_all add: validate_card_def)

lemma validate_bag_fine: "\<not> bad D (validate_bag_spec spec)"
proof (cases spec)
  case (JObj d)
  then show ?thesis using validate_card_fine [of D spec] by (simp add: validate_bag_spec_def)
qed (simp_all add: validate_bag_spec_def validate_card_def)

lemma validate_bag_days:
  assumes "validate_bag_spec spec = Inr x" "is_custom spec"
  shows "\<exists>d n. spec = JObj d \<and> getn d ''retention_days'' = JInt n"
proof (cases spec)
  case (JObj d)
  then have "int_in (getn d ''retention_days'') 1 36500" using assms by (simp add: validate_bag_spec_def split: if_split_asm)
  then show ?thesis using JObj by (cases "getn d ''retention_days''") (simp_all add: int_in_def)
qed (use assms in \<open>simp_all add: is_custom_def\<close>)

lemma add_item_fine: "\<not> bad D (add_item b u spec src now)"
proof (cases "validate_bag_spec spec")
  case (Inl e)
  then show ?thesis using validate_bag_fine [of D spec] by (simp add: add_item_def)
next
  case (Inr x)
  then show ?thesis using validate_bag_days [OF Inr] by (auto simp: add_item_def)
qed

lemma bag_drop_fine: "\<not> bad D (bag_drop e u hit day now)"
  using add_item_fine by (auto simp: bag_drop_def bad_bindR split: option.split)

lemma drop_ppm_obj:
  assumes "drop_ppm x = Inr p"
  obtains d where "x = JObj d" "getn d ''ppm'' = JInt p" "\<forall>shop. \<not> bad D (dropped shop d)"
proof -
  obtain d where x: "x = JObj d" using assms by (cases x) (simp_all add: drop_ppm_def)
  obtain q where q: "getn d ''ppm'' = JInt q"
    using assms by (cases "getn d ''ppm''") (simp_all add: x drop_ppm_def split: if_split_asm)
  have pq: "q = p"
    using assms by (cases "getn d ''item_id''") (auto simp: x q drop_ppm_def split: if_split_asm)
  have "\<not> bad D (dropped shop d)" for shop
  proof (cases "''item_id'' \<in> keys d")
    case True
    then obtain i where "getn d ''item_id'' = JInt i"
      using assms by (cases "getn d ''item_id''") (auto simp: x q drop_ppm_def split: if_split_asm)
    then show ?thesis using True by (simp add: dropped_def as_int_def split: option.split)
  next
    case False
    then obtain y where "validate_card (getn d ''spec'') = Inr y"
      using assms by (auto simp: x q drop_ppm_def split: if_split_asm)
    from validate_card_obj [OF this] False show ?thesis by (auto simp: dropped_def)
  qed
  then have "\<forall>shop. \<not> bad D (dropped shop d)" by blast
  with x q pq that show ?thesis by blast
qed

lemma pick_drop_fine:
  "drops_total ds = Inr t \<Longrightarrow>
   pick_drop roll c ds = Inr None \<or> (\<exists>d. pick_drop roll c ds = Inr (Some d) \<and> (\<forall>shop. \<not> bad D (dropped shop d)))"
proof (induction ds arbitrary: c t)
  case (Cons x ds)
  from Cons.prems obtain p t' where p: "drop_ppm x = Inr p" "drops_total ds = Inr t'" by auto
  from p(1) obtain d where d: "x = JObj d" "getn d ''ppm'' = JInt p" "\<forall>shop. \<not> bad D (dropped shop d)" by (rule drop_ppm_obj)
  show ?case using Cons.IH [OF p(2), of "c + p"] d by (auto simp: as_int_def)
qed simp

lemma activity_drops:
  assumes "activity_ok a"
  obtains ds t where "getn a ''drops'' = JList ds" "drops_total ds = Inr t" "t \<le> PPM"
proof -
  obtain ds where ds: "getn a ''drops'' = JList ds"
    using assms by (cases "getn a ''drops''") (simp_all add: activity_ok_def validate_activity_def)
  then show ?thesis using assms that [OF ds] by (auto simp: activity_ok_def validate_activity_def not_less split: if_split_asm)
qed

lemma drop_for_fine: "activity_ok a \<Longrightarrow> \<not> bad D (drop_for shop a roll)"
proof -
  assume "activity_ok a"
  then obtain ds t where ds: "getn a ''drops'' = JList ds" "drops_total ds = Inr t" by (rule activity_drops)
  from pick_drop_fine [OF ds(2), of "int roll" 0 D] show ?thesis
    by (auto simp: drop_for_def ds(1) bad_bindR)
qed

lemma int_in_JInt: "int_in x lo hi \<Longrightarrow> \<exists>i. x = JInt i"
  by (cases x) (simp_all add: int_in_def)

lemma activity_numbers:
  assumes "activity_ok a"
  shows "\<exists>p. getn a ''double_ppm'' = JInt p" "\<exists>m. getn a ''multiplier'' = JInt m"
proof -
  have "int_in (getn a ''double_ppm'') 0 PPM" "int_in (getn a ''multiplier'') 1 100"
    using assms by (simp_all add: activity_ok_def validate_activity_def split: if_split_asm)
  then show "\<exists>p. getn a ''double_ppm'' = JInt p" "\<exists>m. getn a ''multiplier'' = JInt m"
    by (simp_all add: int_in_JInt)
qed

lemma best_tier_fine:
  "check_tiers n ts = Inr () \<Longrightarrow> \<exists>r. best_tier streak ts = Inr r"
proof (induction ts arbitrary: n)
  case (Cons t ts)
  from Cons.prems obtain d days percent where d: "t = JObj d" "getn d ''days'' = JInt days" "getn d ''percent'' = JInt percent"
    "check_tiers days ts = Inr ()" by (rule check_tiers_ConsE)
  show ?case using Cons.IH [OF d(4)] d by (auto simp: as_int_def)
qed simp

lemma streak_percent_fine:
  assumes "config_ok c" "1 \<le> streak"
  shows "\<exists>p. streak_percent c streak = Inr p"
proof -
  obtain t ts where t: "cc_tiers c = Some (JList (t # ts))" "check_tiers 0 (t # ts) = Inr ()" "tier_days t = JInt 1"
    using assms by (auto simp: config_ok_def)
  from t(2) obtain d days percent where d: "t = JObj d" "getn d ''days'' = JInt days" "getn d ''percent'' = JInt percent"
    "check_tiers days ts = Inr ()" by (rule check_tiers_ConsE)
  have "days = 1" using t(3) d by (simp add: tier_days_def)
  moreover obtain r where "best_tier streak ts = Inr r" using best_tier_fine [OF d(4)] by blast
  ultimately show ?thesis using t(1) d assms(2)
    by (cases r) (auto simp: streak_percent_def as_int_def split: option.split)
qed


text \<open>The rows of the table have a streak of at least one; this is part of the invariant of the next section.\<close>

definition streaks_ok :: "economy \<Rightarrow> bool" where
  "streaks_ok e \<longleftrightarrow> (\<forall>k r. map_of (e_checkins e) k = Some r \<longrightarrow> 1 \<le> k_streak r)"

lemma streak_of_pos: "streaks_ok e \<Longrightarrow> 1 \<le> streak_of e u now"
  unfolding streaks_ok_def streak_of_def by (force split: option.split)

text \<open>The digests a draw rejects: those in the incomplete top bucket.\<close>

definition rejected :: "nat \<Rightarrow> nat \<Rightarrow> bool" where
  "rejected digest slots \<longleftrightarrow> 2 ^ 256 - 2 ^ 256 mod slots \<le> digest \<and> digest < 2 ^ 256"

definition endless :: "checkin_env \<Rightarrow> uid \<Rightarrow> string \<Rightarrow> bool" where
  "endless v u day \<longleftrightarrow> (\<exists>domain. \<exists>slots \<in> {1000, 1000000}. \<forall>n. rejected (v_hmac v (v_secret v) u day domain n) slots)"

lemma rejected_None: "unbiased_map val slots 256 = Inr None \<Longrightarrow> rejected val slots"
  by (auto simp: unbiased_map_def rejected_def Let_def split: if_split_asm)

lemma draw_fine:
  assumes "D \<Longrightarrow> \<not> endless v u d" "s \<in> {1000, 1000000}"
  shows "\<not> bad D (draw (v_hmac v) (v_secret v) u d dm s)"
proof (cases D)
  case True
  have "\<exists>n. unbiased_map (v_hmac v (v_secret v) u d dm n) s 256 \<noteq> Inr None"
    using assms(1) [OF True] assms(2) rejected_None unfolding endless_def by blast
  from draw_terminates [where hm = "v_hmac v" and secret = "v_secret v", OF this] draw_cases [of "v_hmac v" "v_secret v" u d dm s]
  show ?thesis by auto
next
  case False
  then show ?thesis using draw_cases [of "v_hmac v" "v_secret v" u d dm s] by auto
qed

lemma sizes: "CHECKIN_BASE_SIZE \<in> {1000, 1000000}" "LUCK_SIZE \<in> {1000, 1000000}" "nat PPM \<in> {1000, 1000000}"
  by (simp_all add: CHECKIN_BASE_SIZE_def LUCK_SIZE_def PPM_def)

lemma post_fine: "\<not> bad D (post e u a reason day now)"
  by (simp add: post_def split: sum.split prod.split)

lemma checkin_base_fine: "\<not> bad D (checkin_base r)"
  by (simp add: checkin_base_def split: option.split)

lemma luck_value_fine: "\<not> bad D (luck_value r)"
  using luck_value_total by (simp add: bad_def)

lemma award_fine: "(D \<Longrightarrow> \<not> endless v u day) \<Longrightarrow> \<not> bad D (award_of v u day m)"
  using draw_fine [OF _ sizes(2), of D v] luck_value_fine by (auto simp: award_of_def bad_bindR)

lemma fresh_result_fine:
  assumes "config_ok (v_config v)" "D \<Longrightarrow> \<not> endless v u day"
  shows "\<not> bad D (fresh_result v e u day now)"
proof -
  obtain a where a: "activity_for (v_config v) now = Inr a" "activity_ok a" using activity_for_ok [OF assms(1)] by blast
  obtain name where n: "map_of a ''name'' = Some name" using a(2) by (auto simp: activity_ok_def)
  show ?thesis
    unfolding fresh_result_def a(1)
    using draw_fine [OF assms(2) sizes(3)] drop_for_fine [OF a(2)] bag_drop_fine by (auto simp: bad_bindR n)
qed

lemma settle_dual_fine:
  assumes "config_ok (v_config v)" "D \<Longrightarrow> \<not> endless v u (day_text now)"
  shows "\<not> bad D (settle_dual v e u m now prior)"
proof -
  have f: "\<not> bad D (fresh_result (v\<lparr>v_config := v_config v\<rparr>) e u (day_text now) now)"
    using fresh_result_fine [of "v\<lparr>v_config := v_config v\<rparr>" D u "day_text now"] assms by (simp add: endless_def)
  have p: "\<not> bad D (case prior of Some r \<Rightarrow> Inr (e, k_result r) | None \<Rightarrow> fresh_result (v\<lparr>v_config := v_config v\<rparr>) e u (day_text now) now)"
    using f by (cases prior) simp_all
  show ?thesis
    unfolding settle_dual_def Let_def validate_again [OF assms(1)]
    using award_fine [OF assms(2)] p post_fine by (auto simp: bad_bindR)
qed

lemma settle_old_fine:
  assumes "config_ok (v_config v)" "D \<Longrightarrow> \<not> endless v u (day_text now)" "streaks_ok e"
  shows "\<not> bad D (settle_old v e u now)"
proof -
  obtain a where a: "activity_for (v_config v) now = Inr a" "activity_ok a" using activity_for_ok [OF assms(1)] by blast
  obtain name where n: "map_of a ''name'' = Some name" using a(2) by (auto simp: activity_ok_def)
  obtain p where p: "streak_percent (v_config v) (streak_of e u now) = Inr p"
    using streak_percent_fine [OF assms(1) streak_of_pos [OF assms(3)]] by blast
  obtain q m where qm: "getn a ''double_ppm'' = JInt q" "getn a ''multiplier'' = JInt m" using activity_numbers [OF a(2)] by blast
  show ?thesis
    unfolding settle_old_def Let_def validate_again [OF assms(1)]
    using draw_fine [OF assms(2) sizes(1)] draw_fine [OF assms(2) sizes(3)] checkin_base_fine drop_for_fine [OF a(2)] bag_drop_fine post_fine
    by (auto simp: bad_bindR a(1) n p qm as_int_def)
qed

section \<open>The ledger and the table agree\<close>

definition checkin_reasons :: "string list" where
  "checkin_reasons = [''checkin'', ''checkin.adjust'']"

definition paid_for :: "ledger \<Rightarrow> uid \<Rightarrow> string \<Rightarrow> int" where
  "paid_for rows u day =
     sum_list (map l_delta (filter (\<lambda>r. l_user r = u \<and> l_ref r = day \<and> l_reason r \<in> set checkin_reasons) rows))"

definition recorded :: "economy \<Rightarrow> uid \<Rightarrow> string \<Rightarrow> int" where
  "recorded e u day = (case map_of (e_checkins e) (u, day) of None \<Rightarrow> 0 | Some r \<Rightarrow> k_points r)"

definition row_ok :: "checkin_row \<Rightarrow> bool" where
  "row_ok r \<longleftrightarrow> 1 \<le> k_streak r
     \<and> (s_version (k_result r) = DualV1 \<longrightarrow>
          s_mode (k_result r) = Normal \<and> k_points r = 10 \<or> s_mode (k_result r) = Luck \<and> 1 \<le> k_points r \<and> k_points r \<le> 30)"

definition economy_ok :: "economy \<Rightarrow> bool" where
  "economy_ok e \<longleftrightarrow>
     (\<forall>u day. paid_for (e_points e) u day = recorded e u day)
     \<and> (\<forall>k r. map_of (e_checkins e) k = Some r \<longrightarrow> row_ok r)"

text \<open>A history: check-ins of anybody in any environment, and postings other components make for other reasons.\<close>

datatype economy_op =
    CheckInOp checkin_env uid mode real
  | PostOp uid int string string string int

fun economy_step :: "economy_op \<Rightarrow> economy \<Rightarrow> economy" where
  "economy_step (CheckInOp v u m now) e = (case checkin v e u m now of Inl _ \<Rightarrow> e | Inr (e', _) \<Rightarrow> e')"
| "economy_step (PostOp u d reason ref actor now) e =
     (if take 60 reason \<in> set checkin_reasons then e
      else (case points_apply (e_points e) u d reason ref actor now of Inl _ \<Rightarrow> e | Inr (rows, _) \<Rightarrow> e\<lparr>e_points := rows\<rparr>))"

definition no_economy :: economy where
  "no_economy = \<lparr>e_points = [], e_checkins = [], e_bag = \<lparr>bag_items = [], bag_next = 1\<rparr>\<rparr>"

definition economy_run :: "economy_op list \<Rightarrow> economy" where
  "economy_run ops = fold economy_step ops no_economy"

lemma pad_length [simp]: "length (pad n i) = n"
  by (simp add: pad_def)

lemma day_text_length: "length (day_text now) = 10"
  by (simp add: day_text_def iso_text_def split: prod.split)

lemma paid_for_snoc:
  "paid_for (rows @ [r]) u day =
     paid_for rows u day + (if l_user r = u \<and> l_ref r = day \<and> l_reason r \<in> set checkin_reasons then l_delta r else 0)"
  by (simp add: paid_for_def)

lemma post_paid:
  assumes "post e u a reason (day_text now) now = Inr (e', b)" "reason \<in> set checkin_reasons"
  shows "paid_for (e_points e') w d = paid_for (e_points e) w d + (if w = u \<and> d = day_text now then a else 0)"
    and "e_checkins e' = e_checkins e"
proof -
  have t: "take 60 reason = reason" using assms(2) by (auto simp: checkin_reasons_def)
  show "paid_for (e_points e') w d = paid_for (e_points e) w d + (if w = u \<and> d = day_text now then a else 0)"
    "e_checkins e' = e_checkins e"
    using assms t day_text_length [of now]
    by (auto simp: post_def points_apply_def Let_def paid_for_snoc split: if_split_asm)
qed

lemma bag_drop_same:
  assumes "bag_drop e u hit day now = Inr (e', i)"
  shows "e_points e' = e_points e" "e_checkins e' = e_checkins e"
  using assms by (auto simp: bag_drop_def split: option.split_asm if_split_asm)

lemma fresh_same:
  assumes "fresh_result v e u day now = Inr (e', r)"
  shows "e_points e' = e_points e" "e_checkins e' = e_checkins e" "s_streak r = streak_of e u now"
  using assms unfolding fresh_result_def
  by (auto split: option.split_asm dest: bag_drop_same)

lemma award_range:
  assumes "award_of v u day m = Inr (roll, a)" "m \<in> {Normal, Luck}"
  shows "m = Normal \<and> a = 10 \<or> m = Luck \<and> 1 \<le> a \<and> a \<le> 30"
  using assms by (auto simp: award_of_def dest: luck_value_range split: if_split_asm)

lemma streaks: "economy_ok e \<Longrightarrow> streaks_ok e"
  by (simp add: economy_ok_def streaks_ok_def row_ok_def)

lemma record_row:
  assumes ok: "economy_ok e" and row: "row_ok row"
    and paid: "\<And>w d. paid_for (e_points e') w d
      = paid_for (e_points e) w d + (if w = u \<and> d = day then k_points row - recorded e u day else 0)"
    and same: "e_checkins e' = e_checkins e"
  shows "economy_ok (e'\<lparr>e_checkins := put (u, day) row (e_checkins e')\<rparr>)"
  using ok row unfolding economy_ok_def by (auto simp: paid same recorded_def)

lemma dual_row_ok:
  assumes "case prior of None \<Rightarrow> 1 \<le> s_streak r | Some old \<Rightarrow> row_ok old" "m = Normal \<and> award = 10 \<or> m = Luck \<and> 1 \<le> award \<and> award \<le> 30"
  shows "row_ok (case prior of
      Some old \<Rightarrow> old\<lparr>k_points := award, k_result := dual_result m award previous roll watched after r\<rparr>
    | None \<Rightarrow> \<lparr>k_streak = s_streak (dual_result m award previous roll watched after r), k_points = award,
               k_created = now, k_result = dual_result m award previous roll watched after r\<rparr>)"
  using assms by (cases prior) (auto simp: row_ok_def dual_result_def)

lemma settle_dual_keeps:
  assumes tx: "settle_dual v e u m now (map_of (e_checkins e) (u, day_text now)) = Inr (e', rep)" and ok: "economy_ok e"
    and m: "m \<in> {Normal, Luck}"
  shows "economy_ok e'"
proof -
  define day where "day = day_text now"
  define prior where "prior = map_of (e_checkins e) (u, day)"
  define previous where "previous = recorded e u day"
  have prev: "(case prior of None \<Rightarrow> 0 | Some r \<Rightarrow> k_points r) = previous"
    by (simp add: previous_def prior_def recorded_def)
  have pr: "case prior of None \<Rightarrow> True | Some old \<Rightarrow> row_ok old" using ok by (auto simp: prior_def economy_ok_def split: option.split)
  obtain config roll award e1 r e2 after where
    a: "award_of v u day m = Inr (roll, award)"
    and fr: "(case prior of Some r \<Rightarrow> Inr (e, k_result r) | None \<Rightarrow> fresh_result (v\<lparr>v_config := config\<rparr>) e u day now) = Inr (e1, r)"
    and po: "(if award - previous \<noteq> 0 then post e1 u (award - previous) (if prior = None then ''checkin'' else ''checkin.adjust'') day now
             else Inr (e1, balance (e_points e1) u)) = Inr (e2, after)"
    and e': "e' = e2\<lparr>e_checkins := put (u, day) (case prior of
      Some old \<Rightarrow> old\<lparr>k_points := award, k_result := dual_result m award previous roll (v_watched v) after r\<rparr>
    | None \<Rightarrow> \<lparr>k_streak = s_streak (dual_result m award previous roll (v_watched v) after r), k_points = award,
               k_created = \<lfloor>now\<rfloor>, k_result = dual_result m award previous roll (v_watched v) after r\<rparr>) (e_checkins e2)\<rparr>"
    using tx unfolding settle_dual_def Let_def day_def [symmetric] prior_def [symmetric] prev
    by (elim bindR_InrE) (auto split: prod.splits)
  have e1: "e_points e1 = e_points e" "e_checkins e1 = e_checkins e"
    using fr fresh_same [of _ e u day now e1 r] by (auto split: option.split_asm)
  have st: "case prior of None \<Rightarrow> 1 \<le> s_streak r | Some old \<Rightarrow> row_ok old"
    using fr pr fresh_same(3) [of _ e u day now e1 r] streak_of_pos [OF streaks [OF ok], of u now] by (auto split: option.splits)
  have e2: "paid_for (e_points e2) w d = paid_for (e_points e) w d + (if w = u \<and> d = day then award - previous else 0)"
    "e_checkins e2 = e_checkins e" for w d
    using po e1 post_paid [of e1 u "award - previous" "if prior = None then ''checkin'' else ''checkin.adjust''" now e2 after]
    by (auto simp: day_def checkin_reasons_def split: if_split_asm)
  show ?thesis unfolding e'
    by (rule record_row [OF ok dual_row_ok [OF st award_range [OF a m]]])
      (use e2 in \<open>auto simp: previous_def split: option.split\<close>)
qed

lemma settle_old_keeps:
  assumes tx: "settle_old v e u now = Inr (e', rep)" and ok: "economy_ok e"
    and new: "map_of (e_checkins e) (u, day_text now) = None"
  shows "economy_ok e'"
proof -
  obtain hit e1 card award e2 after row where
    b: "bag_drop e u hit (day_text now) now = Inr (e1, card)"
    and p: "post e1 u award ''checkin'' (day_text now) now = Inr (e2, after)"
    and e': "e' = e2\<lparr>e_checkins := put (u, day_text now) row (e_checkins e2)\<rparr>"
    and row: "k_points row = award" "k_streak row = streak_of e u now" "s_version (k_result row) = PercentV2"
    using tx unfolding settle_old_def Let_def
    by (elim bindR_InrE) (auto elim!: bindR_InrE split: option.split_asm prod.split_asm)
  have "row_ok row" using row streak_of_pos [OF streaks [OF ok], of u now] by (simp add: row_ok_def)
  moreover have "paid_for (e_points e2) w d = paid_for (e_points e) w d
      + (if w = u \<and> d = day_text now then k_points row - recorded e u (day_text now) else 0)" for w d
    using post_paid(1) [OF p] bag_drop_same(1) [OF b] row(1) new by (simp add: checkin_reasons_def recorded_def)
  moreover have "e_checkins e2 = e_checkins e"
    using post_paid(2) [OF p] bag_drop_same(2) [OF b] by (simp add: checkin_reasons_def)
  ultimately show ?thesis unfolding e' by (rule record_row [OF ok])
qed

lemma checkin_keeps:
  assumes "checkin v e u m now = Inr (e', rep)" "economy_ok e"
  shows "economy_ok e'"
  using assms settle_dual_keeps [of v e u m now e' rep] settle_old_keeps [of v e u now e' rep]
  unfolding checkin_def dual_checkin_def old_checkin_def Let_def
  by (auto split: if_split_asm option.split_asm)

lemma other_post_keeps:
  assumes "points_apply (e_points e) u d reason ref actor now = Inr (rows, after)" "take 60 reason \<notin> set checkin_reasons"
    and "economy_ok e"
  shows "economy_ok (e\<lparr>e_points := rows\<rparr>)"
  using assms by (auto simp: economy_ok_def points_apply_def Let_def paid_for_snoc recorded_def split: if_split_asm)

lemma economy_step_keeps: "economy_ok e \<Longrightarrow> economy_ok (economy_step x e)"
  by (cases x) (auto intro: checkin_keeps other_post_keeps split: sum.split)

lemma economy_run_ok: "economy_ok (economy_run ops)"
proof (induction ops rule: rev_induct)
  case Nil
  then show ?case by (simp add: economy_run_def no_economy_def economy_ok_def paid_for_def recorded_def)
next
  case (snoc x ops)
  then show ?case using economy_step_keeps [of "economy_run ops" x] by (simp add: economy_run_def)
qed

text \<open>C38. Settings that were accepted once can never make a check-in fail with a lookup or type error: in any state reached by any
  history the check-in of anybody ends with a reply or with one of its own errors. The only way not to end is a draw all of whose
  digests, for every counter, are in the incomplete top bucket: no other loop of a check-in runs forever.\<close>

theorem checkin_type_safe:
  assumes "validate_checkin saved = Inr (v_config v)"
  shows "checkin v (economy_run ops) u m now \<noteq> Inl Crash
    \<and> (checkin v (economy_run ops) u m now = Inl Diverges \<longrightarrow>
        (\<exists>domain. \<exists>slots \<in> {1000, 1000000}. \<forall>n. rejected (v_hmac v (v_secret v) u (day_text now) domain n) slots))"
proof -
  have c: "config_ok (v_config v)" by (rule validate_ok [OF assms(1)])
  have s: "streaks_ok (economy_run ops)" by (rule streaks [OF economy_run_ok])
  have "\<not> bad (\<not> endless v u (day_text now)) (checkin v (economy_run ops) u m now)"
    using settle_dual_fine [OF c, of "\<not> endless v u (day_text now)" u now]
      settle_old_fine [OF c, of "\<not> endless v u (day_text now)" u now, OF _ s]
    unfolding checkin_def dual_checkin_def old_checkin_def Let_def by (simp split: option.split)
  then show ?thesis by (auto simp: bad_def endless_def)
qed

text \<open>Settings with one tier, one drop by specification and no holiday.\<close>

definition demo_config :: "bool \<Rightarrow> checkin_config" where
  "demo_config dual =
     \<lparr>cc_dual = dual, cc_tiers = Some (JList [JObj [(''days'', JInt 1), (''percent'', JInt 0)]]), cc_weekends = True,
      cc_double = JInt 100000, cc_multiplier = JInt 2,
      cc_drops = Some (JList [JObj [(''ppm'', JInt 5000), (''item_id'', JInt 3)]]), cc_holidays = Some (JList [])\<rparr>"

definition demo_env :: "bool \<Rightarrow> checkin_env" where
  "demo_env dual =
     \<lparr>v_member = Some \<lparr>m_managed = True, m_active = True\<rparr>, v_watched = 900, v_config = demo_config dual,
      v_secret = replicate 32 CHR ''s'', v_hmac = (\<lambda>_ _ _ _ _. 7), v_shop = (\<lambda>_. None)\<rparr>"

lemma demo_valid: "validate_checkin (demo_config dual) = Inr (demo_config dual)"
  by (simp add: demo_config_def validate_checkin_def percent_tiers_def percent_tier_def validate_tiers_def check_tiers.simps
      tier_days_def check_holidays.simps activity_defaults_def validate_activity_def drop_ppm_def getn_def int_in_def keys_def
      PPM_def doubleton_eq_iff insert_commute)

lemma checkin_type_safe_witness:
  "validate_checkin (demo_config True) = Inr (v_config (demo_env True))
    \<and> checkin (demo_env True) (economy_run []) ''u'' Luck 0 \<notin> {Inl Crash, Inl Diverges}"
proof -
  have v: "validate_checkin (demo_config True) = Inr (v_config (demo_env True))" using demo_valid by (simp add: demo_env_def)
  have "\<not> rejected 7 slots" if "slots \<in> {1000, 1000000}" for slots using that by (auto simp: rejected_def)
  then show ?thesis using checkin_type_safe [OF v, of "[]" "''u''" Luck 0] v by (auto simp: demo_env_def)
qed

text \<open>C39. The ledger holds for every member and day exactly the points the table of check-ins shows, whatever the history of
  check-ins, in changing settings, and of other postings: nobody is paid twice for a day, and a day settled
  under the dual rules is worth ten points, or between one and thirty after a luck draw.\<close>

theorem checkin_pays_once:
  "paid_for (e_points (economy_run ops)) u day = recorded (economy_run ops) u day
    \<and> (case map_of (e_checkins (economy_run ops)) (u, day) of
         None \<Rightarrow> recorded (economy_run ops) u day = 0
       | Some r \<Rightarrow> recorded (economy_run ops) u day = k_points r
           \<and> (if s_version (k_result r) = DualV1
               then (case s_mode (k_result r) of Normal \<Rightarrow> k_points r = 10 | Luck \<Rightarrow> 1 \<le> k_points r \<and> k_points r \<le> 30
                     | OtherMode _ \<Rightarrow> False)
               else True))"
proof (cases "map_of (e_checkins (economy_run ops)) (u, day)")
  case (Some r)
  then have "row_ok r" using economy_run_ok [of ops] by (auto simp: economy_ok_def)
  then have "if s_version (k_result r) = DualV1
      then (case s_mode (k_result r) of Normal \<Rightarrow> k_points r = 10 | Luck \<Rightarrow> 1 \<le> k_points r \<and> k_points r \<le> 30 | OtherMode _ \<Rightarrow> False)
      else True"
    by (cases "s_mode (k_result r)") (simp_all add: row_ok_def)
  then show ?thesis using economy_run_ok [of ops] Some by (simp add: economy_ok_def recorded_def)
qed (use economy_run_ok [of ops] in \<open>auto simp: economy_ok_def recorded_def\<close>)

text \<open>
  A holiday whose date is written in another ISO form is accepted (and protected against a second entry for the
  same day) but never takes effect, because the day is compared by its text. The example is 1 May 2026, a Friday.
\<close>

definition holiday_config :: "string \<Rightarrow> checkin_config" where
  "holiday_config date = demo_config True
     \<lparr>cc_holidays := Some (JList [JObj [(''date'', JStr date), (''name'', JStr ''May Day'')]])\<rparr>"

lemma may_civil: "iso_text (civil 739737) = ''2026-05-01''" "weekday 739737 = 4"
  by code_simp+

lemma may_day: "beijing_day 1777568400 = 739737"
  by (simp add: beijing_day_def floor_eq_iff)

lemma may_text: "day_text 1777568400 = ''2026-05-01''"
  unfolding day_text_def may_day by (rule may_civil)

lemma from_iso_may: "from_iso ''20260501'' = Some 739737" "from_iso ''2026-05-01'' = Some 739737"
  by code_simp+

lemma demo_activity: "activity_defaults (demo_config d) = Inr
    [(''double_ppm'', JInt 100000), (''multiplier'', JInt 2), (''drops'', JList [JObj [(''ppm'', JInt 5000), (''item_id'', JInt 3)]])]"
  "validate_activity [(''double_ppm'', JInt 100000), (''multiplier'', JInt 2),
     (''drops'', JList [JObj [(''ppm'', JInt 5000), (''item_id'', JInt 3)]])] = Inr ()"
  by (simp_all add: activity_defaults_def demo_config_def validate_activity_def drop_ppm_def getn_def int_in_def keys_def PPM_def
      doubleton_eq_iff)

lemma holiday_accepted: "validate_checkin (holiday_config ''20260501'') = Inr (holiday_config ''20260501'')"
proof (rule validate_again)
  have d: "activity_defaults (holiday_config ''20260501'') = activity_defaults (demo_config True)"
    by (simp add: activity_defaults_def holiday_config_def demo_config_def)
  have "keys [(''date'', JStr ''20260501''), (''name'', JStr ''May Day'')] \<subseteq> HOLIDAY_FIELDS"
    by (simp add: keys_def HOLIDAY_FIELDS_def)
  then have "check_holidays (holiday_config ''20260501'') [] [JObj [(''date'', JStr ''20260501''), (''name'', JStr ''May Day'')]] = Inr ()"
    using demo_activity(2)
    by (simp add: check_holidays.simps d demo_activity(1) getn_def blank_def py_strip_def py_space_def holiday_date_def from_iso_may merged_def)
  then show "config_ok (holiday_config ''20260501'')"
    using demo_activity unfolding config_ok_def d
    by (simp add: holiday_config_def demo_config_def check_tiers.simps tier_days_def getn_def keys_def doubleton_eq_iff)
qed

theorem basic_date_ignored:
  "validate_checkin (holiday_config ''20260501'') = Inr (holiday_config ''20260501'')
    \<and> getn (projr (activity_for (holiday_config ''20260501'') 1777568400)) ''event'' = JStr ''normal''
    \<and> getn (projr (activity_for (holiday_config ''2026-05-01'') 1777568400)) ''event'' = JStr ''holiday''"
proof -
  have d: "activity_defaults (holiday_config x) = activity_defaults (demo_config True)" for x
    by (simp add: activity_defaults_def holiday_config_def demo_config_def)
  have h: "cc_holidays (holiday_config x) = Some (JList [JObj [(''date'', JStr x), (''name'', JStr ''May Day'')]])" for x
    by (simp add: holiday_config_def)
  have "getn (projr (activity_for (holiday_config ''20260501'') 1777568400)) ''event'' = JStr ''normal''"
    by (simp add: activity_for_def d demo_activity(1) h iterated_def may_text may_day may_civil(2) getn_def)
  moreover have "getn (projr (activity_for (holiday_config ''2026-05-01'') 1777568400)) ''event'' = JStr ''holiday''"
    by (simp add: activity_for_def d demo_activity(1) h iterated_def may_text getn_def)
  ultimately show ?thesis using holiday_accepted by blast
qed

end
