(* ===== verification/Spec2Isabelle.thy ===== *)
theory Spec2Isabelle
  imports HoldemTable CashBook RoundCards ZjhChips GomokuRules XiangqiMatch DicePayable Scheduler StreamsRules Access Sharing BlackwhiteRules PkRules NiuniuRules PacketRules Throttle TtlCache CheckInRules
begin

text \<open>
  Verification library for the backend of mediadeck, the Python packages under
  \<^verbatim>\<open>src/backend/app\<close>. The program is a control panel for a private media server: members earn
  and spend points, play games for points in Telegram groups, and stream through a set of nodes
  that are guarded by admission, access and sharing rules. The library models the parts that
  decide something (money, games, admission, scheduling) and leaves out the parts that only
  transport (Telegram, HTTP, Emby) or render.

  How the parts of the program fit together. Every game holds the stakes of a round through one
  interface, \<^verbatim>\<open>CashBook\<close> in \<^verbatim>\<open>modules/play_money.py\<close>, which sits on the append-only ledger of
  \<^verbatim>\<open>modules/points.py\<close>; pots are divided by \<^verbatim>\<open>fair_split\<close> of \<^verbatim>\<open>modules/play_rounds.py\<close>, whose
  \<^verbatim>\<open>RoundCards\<close> also publishes the card of a round to its group exactly once. The engines of the
  card and board games are pure functions of a state. A stream request goes through access rules,
  then admission, then the choice of a node; the sharing detector samples what plays.

  Theories, in the order they build on each other:

  \<^item> \<^theory_text>\<open>Prelude\<close>: the result monad \<open>bindR\<close> and \<open>check\<close> for code that raises, keyed tables
    (association lists with \<open>put\<close>, the model of a SQL table with a primary key), sums over
    them, and the generic list lemmas; the collections that carry the component proofs.
  \<^item> \<^theory_text>\<open>Points\<close> (\<^verbatim>\<open>points.py\<close>), \<^theory_text>\<open>CashBook\<close> (\<^verbatim>\<open>play_money.py\<close>, \<^verbatim>\<open>play_schema.py\<close>), \<^theory_text>\<open>CashMoves\<close>:
    the ledger, escrows, funds, idempotent moves and events; no operation creates or loses points,
    the table constraints hold after any accepted run, a repeated request moves nothing, however much
    later it comes. The
    locale \<open>accounting\<close> states what a client of the book relies on; every game interprets it.
  \<^item> \<^theory_text>\<open>PotSplit\<close>, \<^theory_text>\<open>RoundCards\<close>, \<^theory_text>\<open>PlayRooms\<close> (\<^verbatim>\<open>play_rounds.py\<close> and the identity checks it calls): the locale
    \<open>pot_split\<close> with the laws of \<open>fair_split\<close>; the publication protocol as a step relation in
    which a worker may report late, twice or never; who may act in a room.
  \<^item> \<^theory_text>\<open>HoldemCards\<close>, \<^theory_text>\<open>Holdem\<close>, \<^theory_text>\<open>HoldemChips\<close>, \<^theory_text>\<open>HoldemTable\<close> (\<^verbatim>\<open>holdem_engine.py\<close>): ranks, betting,
    side pots and settlement, chip conservation, the public view, the automatic action.
  \<^item> \<^theory_text>\<open>Zjh\<close>, \<^theory_text>\<open>ZjhChips\<close> (\<^verbatim>\<open>zjh_engine.py\<close>, \<^verbatim>\<open>poker.py\<close>): the three-card game, its end after at most ten
    rounds and its accounts.
  \<^item> \<^theory_text>\<open>BoardGame\<close>, \<^theory_text>\<open>Gomoku\<close>, \<^theory_text>\<open>GomokuRules\<close>, \<^theory_text>\<open>Xiangqi\<close>, \<^theory_text>\<open>XiangqiRules\<close>, \<^theory_text>\<open>XiangqiMatch\<close>
    (\<^verbatim>\<open>gomoku_engine.py\<close>, \<^verbatim>\<open>gomoku_robot.py\<close>, \<^verbatim>\<open>xiangqi_engine.py\<close>, \<^verbatim>\<open>xiangqi_robot.py\<close>): rules, notation,
    adjudication and the local players; the external engines are their reply.
  \<^item> \<^theory_text>\<open>DiceRules\<close>, \<^theory_text>\<open>DiceSettle\<close>, \<^theory_text>\<open>DiceDraw\<close>, \<^theory_text>\<open>DiceRound\<close>, \<^theory_text>\<open>DiceFunds\<close>, \<^theory_text>\<open>DicePayable\<close>
    (\<^verbatim>\<open>dice_rules.py\<close>, \<^verbatim>\<open>dice_banker.py\<close>, \<^verbatim>\<open>dice_quicknet.py\<close>, \<^verbatim>\<open>dice.py\<close>, \<^verbatim>\<open>dice_group.py\<close>): slips, pools, the
    banker, the beacon draw and the life of a group round, which pays by the banker rules unless a recipient
    cannot be credited, and is then refused as a whole.
  \<^item> \<^theory_text>\<open>Blackwhite\<close>, \<^theory_text>\<open>BlackwhiteRules\<close>, \<^theory_text>\<open>Pk\<close>, \<^theory_text>\<open>PkRules\<close>, \<^theory_text>\<open>Niuniu\<close>, \<^theory_text>\<open>NiuniuReport\<close>, \<^theory_text>\<open>NiuniuRules\<close>
    (\<^verbatim>\<open>blackwhite.py\<close>, \<^verbatim>\<open>pk.py\<close>, \<^verbatim>\<open>niuniu.py\<close>, \<^verbatim>\<open>niuniu_delivery.py\<close>): the room games, each a step
    relation over its world, with an invariant proved by rule induction from which what every member
    can spend follows, and the delivery of a report at most once. \<^theory_text>\<open>RoomDemo\<close> is the concrete room the witnesses share.
  \<^item> \<^theory_text>\<open>Packets\<close>, \<^theory_text>\<open>PacketRules\<close> (\<^verbatim>\<open>red_packets.py\<close>): envelopes from draft to expiry.
  \<^item> \<^theory_text>\<open>EconomyRules\<close>, \<^theory_text>\<open>CheckIn\<close>, \<^theory_text>\<open>CheckInRules\<close> (\<^verbatim>\<open>economy_rules.py\<close>, \<^verbatim>\<open>dual_checkin.py\<close>, the
    check-in of \<^verbatim>\<open>plugins_points.py\<close> and \<^verbatim>\<open>add\<close> of \<^verbatim>\<open>inventory.py\<close>): validation of the economy
    settings, the award and luck tables with their unbiased draw, and the daily check-in, which
    pays each member at most once a day and keeps its tables well typed.
  \<^item> \<^theory_text>\<open>Throttle\<close> (\<^verbatim>\<open>login_throttle.py\<close>) and \<^theory_text>\<open>TtlCache\<close> (\<^verbatim>\<open>core/cache.py\<close>): the sliding window of
    failed logins with its eviction of the least recently used keys, and the bounded cache with expiry,
    each refining the plain structure it stands for.
  \<^item> \<^theory_text>\<open>Scheduler\<close> (\<^verbatim>\<open>scheduler.py\<close>), \<^theory_text>\<open>Streams\<close>, \<^theory_text>\<open>StreamsRules\<close> (\<^verbatim>\<open>streams.py\<close>, \<^verbatim>\<open>usage.py\<close>), \<^theory_text>\<open>IpAddress\<close>,
    \<^theory_text>\<open>Access\<close> (\<^verbatim>\<open>access.py\<close>), \<^theory_text>\<open>Sharing\<close> (\<^verbatim>\<open>sharing.py\<close>): the streaming side.

  Conventions. A method that raises inside a write transaction is a function into
  \<open>error + state\<close>: an \<open>Inl\<close> leaves no new state, as the transaction is rolled back, and every raise
  and early return of the code is a constructor or a branch. A table is an association list in row
  order; columns that only carry text for people are dropped or become constructors. Python
  integers are \<open>int\<close>; where the code bounds them (\<open>MAX_INT\<close>, \<open>SQL_MAX\<close>) the check is in the model.
  Times and loads are \<open>real\<close>, so rounding of binary floats is not modelled. Operations run one
  after the other, as \<^verbatim>\<open>BEGIN IMMEDIATE\<close> and the process locks enforce; what may
  interleave (a worker that sent a message and reports later) is a step of its own.

  Parameters. Code outside the repository is an argument: HMAC and SHA-256 digests, the regular
  expression engine, the board engines' replies, the answers of Emby and of the nodes, the clock,
  fresh tokens and shuffles. Hypotheses on them are documented behaviour (a shuffle permutes, a
  fresh nonce is unused, the digest of a counter block has 32 bytes), and each property with a
  hypothesis is followed by a witness on a concrete state.

  Termination and fuel. \<open>Holdem.progress\<close> recurs on the number of board cards left, with a measure;
  the counting scan of \<open>Gomoku\<close> runs with the number of stones as fuel, which its lemma shows is
  enough; the rejection loop of \<open>DiceDraw\<close> may in principle read for ever and is a
  \<open>partial_function (option)\<close>, and so is the one of \<open>EconomyRules.draw_from\<close>, which reads random bits until a draw is
  below its limit. All other recursion is structural.

  Not modelled, and why. Telegram, HTTP routes, adapters, images and message texts are input and
  output without rules of their own. The database layer is represented by the tables of each
  component. Members, provisioning, lottery, shop and the tables of the game centre hold
  further rules over SQL and Emby that this library does not cover; the
  manifest lists them part by part. Pairing verification of the beacon is a third-party package.
\<close>

end
